(* ===== verification/GoPrelude.thy ===== *)
theory GoPrelude
  imports Main "HOL-Library.Word"
begin

text \<open>
  Vocabulary shared by every component: how Go's machine integers, runes, strings and panics
  are read, decimal printing, and generic facts on lists, array updates and counted loops.

  Conventions used throughout.  A Go \<open>int\<close> that the code keeps far from its limits is an
  \<^typ>\<open>int\<close>; where the code multiplies untrusted dimensions the 64-bit wrap is written out with
  \<open>wrap64\<close>.  A \<open>rune\<close> is an \<^typ>\<open>int\<close> (Go's \<open>int32\<close>); text that is only ever traversed with
  \<open>for _, r := range s\<close> is the list of its runes.  Text that the code indexes by byte is a
  \<^typ>\<open>string\<close>.  A panic or an error return is the \<open>Inl\<close> of a sum.
\<close>

named_theorems go_simps \<open>rewrite rules that unfold the model's small helpers\<close>
named_theorems wf_intros \<open>introduction rules for well-formedness invariants\<close>

type_synonym rune = int
type_synonym runes = "rune list"
type_synonym u8 = "8 word"
type_synonym u32 = "32 word"
type_synonym u64 = "64 word"

subsection \<open>Go integers\<close>

definition wrap64 :: "int \<Rightarrow> int" where
  "wrap64 n = (n + 2 ^ 63) mod 2 ^ 64 - 2 ^ 63"

definition MaxInt32 :: int where
  "MaxInt32 = 2147483647"

lemma wrap64_id [simp]: "- (2 ^ 63) \<le> n \<Longrightarrow> n < 2 ^ 63 \<Longrightarrow> wrap64 n = n"
  by (simp add: wrap64_def)

lemma wrap64_range: "- (2 ^ 63) \<le> wrap64 n \<and> wrap64 n < 2 ^ 63"
  by (simp add: wrap64_def)

text \<open>Go's \<open>%\<close> and \<open>/\<close> truncate towards zero.\<close>

definition go_div :: "int \<Rightarrow> int \<Rightarrow> int" where
  "go_div a b = sgn a * sgn b * (\<bar>a\<bar> div \<bar>b\<bar>)"

definition go_mod :: "int \<Rightarrow> int \<Rightarrow> int" where
  "go_mod a b = a - b * go_div a b"

lemma go_div_nonneg [simp]: "0 \<le> a \<Longrightarrow> 0 < b \<Longrightarrow> go_div a b = a div b"
  by (cases "a = 0") (simp_all add: go_div_def)

lemma go_mod_nonneg [simp]: "0 \<le> a \<Longrightarrow> 0 < b \<Longrightarrow> go_mod a b = a mod b"
  by (simp add: go_mod_def minus_mult_div_eq_mod)

subsection \<open>Decimal printing, the \<open>%d\<close> verb\<close>

fun show_nat :: "nat \<Rightarrow> string" where
  "show_nat n = (if n < 10 then [char_of (48 + n)]
                 else show_nat (n div 10) @ [char_of (48 + n mod 10)])"

declare show_nat.simps [simp del]

definition show_int :: "int \<Rightarrow> string" where
  "show_int i = (if i < 0 then ''-'' @ show_nat (nat (- i)) else show_nat (nat i))"

definition digit_val :: "char \<Rightarrow> nat" where
  "digit_val c = of_char c - 48"

definition read_nat :: "string \<Rightarrow> nat" where
  "read_nat s = foldl (\<lambda>n c. 10 * n + digit_val c) 0 s"

lemma digit_val_char_of [simp]: "n < 10 \<Longrightarrow> digit_val (char_of (48 + n)) = n"
  by (simp add: digit_val_def)

lemma read_show_nat [simp]: "read_nat (show_nat n) = n"
proof (induction n rule: show_nat.induct)
  case (1 n)
  then show ?case
    by (subst show_nat.simps) (auto simp: read_nat_def)
qed

lemma show_nat_inject [simp]: "show_nat m = show_nat n \<longleftrightarrow> m = n"
  by (metis read_show_nat)

lemma show_nat_not_Nil [simp]: "show_nat n \<noteq> []"
  by (subst show_nat.simps) simp

lemma show_nat_digits: "c \<in> set (show_nat n) \<Longrightarrow> 48 \<le> (of_char c :: nat) \<and> (of_char c :: nat) \<le> 57"
proof (induction n rule: show_nat.induct)
  case (1 n)
  then show ?case
    by (cases "n < 10") (auto simp: show_nat.simps [of n])
qed

subsection \<open>Counted loops\<close>

text \<open>\<open>for i := 0; i < n; i++ { s = body i s }\<close>\<close>

definition for_upto :: "int \<Rightarrow> (int \<Rightarrow> 's \<Rightarrow> 's) \<Rightarrow> 's \<Rightarrow> 's" where
  "for_upto n body s = fold body (map int [0..<nat n]) s"

lemma for_upto_invariant:
  assumes "P s" and "\<And>i s. 0 \<le> i \<Longrightarrow> i < n \<Longrightarrow> P s \<Longrightarrow> P (body i s)"
  shows "P (for_upto n body s)"
proof -
  have "P (fold body (map int [0..<k]) s)" if "k \<le> nat n" for k
    using that
  proof (induction k)
    case 0
    then show ?case using assms(1) by simp
  next
    case (Suc k)
    then have "P (fold body (map int [0..<k]) s)" by simp
    with Suc.prems show ?case by (auto intro!: assms(2))
  qed
  then show ?thesis by (simp add: for_upto_def)
qed

text \<open>An invariant that also counts the iterations done.\<close>

lemma for_upto_invariant_count:
  assumes "P 0 s" and "\<And>i s. 0 \<le> i \<Longrightarrow> i < n \<Longrightarrow> P i s \<Longrightarrow> P (i + 1) (body i s)" and "0 \<le> n"
  shows "P n (for_upto n body s)"
proof -
  have "P (int k) (fold body (map int [0..<k]) s)" if "k \<le> nat n" for k
    using that
  proof (induction k)
    case 0
    then show ?case using assms(1) by simp
  next
    case (Suc k)
    then have "P (int k) (fold body (map int [0..<k]) s)" by simp
    with Suc.prems have "P (int k + 1) (body (int k) (fold body (map int [0..<k]) s))"
      by (intro assms(2)) auto
    then show ?case by (simp add: add.commute)
  qed
  from this [of "nat n"] assms(3) show ?thesis by (simp add: for_upto_def)
qed

lemma for_upto_cong:
  "n = m \<Longrightarrow> s = t \<Longrightarrow> (\<And>i s. 0 \<le> i \<Longrightarrow> i < m \<Longrightarrow> body i s = body' i s) \<Longrightarrow>
   for_upto n body s = for_upto m body' t"
  unfolding for_upto_def by (rule fold_cong) auto

definition upto_list :: "int \<Rightarrow> int list" where
  "upto_list n = map int [0..<nat n]"

lemma set_upto_list [simp]: "set (upto_list n) = {0..<n}"
proof (cases "0 \<le> n")
  case True
  then show ?thesis by (simp add: upto_list_def image_int_atLeastLessThan)
qed (simp add: upto_list_def)

lemma sorted_upto_list: "sorted_wrt (<) (upto_list n)"
  by (simp add: upto_list_def sorted_wrt_map sorted_wrt_upt)

text \<open>A loop that only appends collects its pieces in order.\<close>

lemma for_upto_append:
  "for_upto n (\<lambda>i acc. acc @ h i) acc = acc @ concat (map h (upto_list n))"
proof -
  have "fold (\<lambda>i acc. acc @ h i) xs acc = acc @ concat (map h xs)" for xs
    by (induction xs arbitrary: acc) auto
  then show ?thesis by (simp add: for_upto_def upto_list_def)
qed

lemma sorted_wrt_concat:
  "(\<And>xs. xs \<in> set xss \<Longrightarrow> sorted_wrt R xs) \<Longrightarrow>
   sorted_wrt (\<lambda>xs ys. \<forall>x \<in> set xs. \<forall>y \<in> set ys. R x y) xss \<Longrightarrow> sorted_wrt R (concat xss)"
  by (induction xss) (auto simp: sorted_wrt_append)

subsection \<open>Row-major index arithmetic\<close>

lemma row_major_bound:
  fixes x y c r :: int
  assumes "0 \<le> x" "x < c" "0 \<le> y" "y < r"
  shows "0 \<le> y * c + x \<and> y * c + x < c * r"
proof -
  have "y * c + x < y * c + c" using assms by simp
  also have "\<dots> = (y + 1) * c" by (simp add: algebra_simps)
  also have "\<dots> \<le> r * c" using assms by (intro mult_right_mono) auto
  finally show ?thesis using assms by (simp add: mult.commute)
qed

lemma row_major_inject:
  fixes x y u v c :: int
  assumes "0 \<le> x" "x < c" "0 \<le> u" "u < c"
  shows "y * c + x = v * c + u \<longleftrightarrow> x = u \<and> y = v"
proof
  assume eq: "y * c + x = v * c + u"
  have "(x + y * c) div c = y" "(u + v * c) div c = v"
    using assms by (simp_all add: div_pos_pos_trivial)
  with eq have "y = v" by (metis add.commute)
  with eq show "x = u \<and> y = v" by simp
qed simp

subsection \<open>Lists\<close>

lemma sum_list_append_take_drop: "sum_list (take n xs) + sum_list (drop n xs) = (sum_list xs :: int)"
  by (metis append_take_drop_id sum_list_append)

lemma sum_list_nonneg_int: "(\<And>x. x \<in> set xs \<Longrightarrow> (0::int) \<le> x) \<Longrightarrow> 0 \<le> sum_list xs"
  by (induction xs) auto

text \<open>A row-major array put together from rows of equal length.\<close>

lemma length_concat_rows:
  "(\<And>y. y < r \<Longrightarrow> length (f y) = c) \<Longrightarrow> length (concat (map f [0..<r])) = r * c"
  by (induction r) auto

lemma nth_concat_rows:
  assumes "\<And>y. y < r \<Longrightarrow> length (f y) = c" and "y < r" and "x < c"
  shows "concat (map f [0..<r]) ! (y * c + x) = f y ! x"
  using assms
proof (induction r)
  case (Suc r)
  have len: "length (concat (map f [0..<r])) = r * c"
    using Suc.prems(1) by (intro length_concat_rows) auto
  show ?case
  proof (cases "y = r")
    case True
    with len Suc.prems show ?thesis by (simp add: nth_append)
  next
    case False
    with Suc.prems have "y < r" by simp
    then have "y * c + x < r * c" using Suc.prems(3)
      by (metis add.commute add_less_cancel_left less_le_trans mult_Suc Suc_leI mult_le_mono1)
    with Suc \<open>y < r\<close> len show ?thesis by (simp add: nth_append)
  qed
qed simp

end
