(* ===== verification/SchedQueue.thy ===== *)
theory SchedQueue
  imports GoPrelude "HOL-Library.Multiset"
begin

text \<open>
  \<open>internal/app/cli/render/scheduler/queue.go\<close> and \<open>worker.go\<close>: the three-lane priority queue
  and the worker pool.  A \<open>Cmd\<close> is the outcome of calling it: a message or nil, or a panic.  A
  buffered channel is the list of its elements together with its capacity; \<open>TrySubmit\<close> is the
  non-blocking send.  The lemmas show that \<open>popIf\<close> is strict-priority FIFO and loses nothing, and
  the step relation at the end interleaves callers, frame loop and workers to show that every
  scheduled command is in exactly one place.
\<close>

datatype 'm outcome = Returns "'m option" | Panics string

definition PriorityHigh :: u8 where "PriorityHigh = 0"
definition PriorityNormal :: u8 where "PriorityNormal = 1"
definition PriorityIdle :: u8 where "PriorityIdle = 2"

lemmas priorities = PriorityHigh_def PriorityNormal_def PriorityIdle_def

record 'm jobItem =
  Cmd :: "'m outcome option"
  CmdID :: u64
  Submitted :: nat
  Priority :: u8

record 'm queue =
  q_high :: "'m jobItem list"
  q_normal :: "'m jobItem list"
  q_idle :: "'m jobItem list"

definition newQueue :: "'m queue" where
  "newQueue = \<lparr>q_high = [], q_normal = [], q_idle = []\<rparr>"

definition push :: "'m queue \<Rightarrow> 'm jobItem \<Rightarrow> 'm queue" where
  "push q j =
     (if Priority j = PriorityHigh then q\<lparr>q_high := q_high q @ [j]\<rparr>
      else if Priority j = PriorityIdle then q\<lparr>q_idle := q_idle q @ [j]\<rparr>
      else q\<lparr>q_normal := q_normal q @ [j]\<rparr>)"

text \<open>\<open>submit\<close> acts on a state \<open>'s\<close> (the worker pool) and reports success.\<close>

definition popIf :: "('m jobItem \<Rightarrow> 's \<Rightarrow> bool \<times> 's) \<Rightarrow> 'm queue \<Rightarrow> 's \<Rightarrow> bool \<times> 'm queue \<times> 's" where
  "popIf submit q s =
     (case q_high q of
        j # js \<Rightarrow> (case submit j s of (ok, s') \<Rightarrow>
                     if \<not> ok then (False, q, s') else (True, q\<lparr>q_high := js\<rparr>, s'))
      | [] \<Rightarrow>
     (case q_normal q of
        j # js \<Rightarrow> (case submit j s of (ok, s') \<Rightarrow>
                     if \<not> ok then (False, q, s') else (True, q\<lparr>q_normal := js\<rparr>, s'))
      | [] \<Rightarrow>
     (case q_idle q of
        j # js \<Rightarrow> (case submit j s of (ok, s') \<Rightarrow>
                     if \<not> ok then (False, q, s') else (True, q\<lparr>q_idle := js\<rparr>, s'))
      | [] \<Rightarrow> (False, q, s))))"

definition pop :: "'m queue \<Rightarrow> 'm jobItem option \<times> 'm queue" where
  "pop q =
     (case q_high q of j # js \<Rightarrow> (Some j, q\<lparr>q_high := js\<rparr>)
      | [] \<Rightarrow> (case q_normal q of j # js \<Rightarrow> (Some j, q\<lparr>q_normal := js\<rparr>)
      | [] \<Rightarrow> (case q_idle q of j # js \<Rightarrow> (Some j, q\<lparr>q_idle := js\<rparr>)
      | [] \<Rightarrow> (None, q))))"

definition q_len :: "'m queue \<Rightarrow> nat" where
  "q_len q = length (q_high q) + length (q_normal q) + length (q_idle q)"

text \<open>The abstract queue: the items in the order they will be served.\<close>

definition q_list :: "'m queue \<Rightarrow> 'm jobItem list" where
  "q_list q = q_high q @ q_normal q @ q_idle q"

lemma q_len_list: "q_len q = length (q_list q)"
  by (simp add: q_len_def q_list_def)

lemma mset_push [simp]: "mset (q_list (push q j)) = add_mset j (mset (q_list q))"
  by (simp add: push_def q_list_def)

lemma pop_list: "pop q = (case q_list q of [] \<Rightarrow> (None, q) | j # js \<Rightarrow> (Some j, snd (pop q)))"
  "q_list (snd (pop q)) = tl (q_list q)"
  by (auto simp: pop_def q_list_def split: list.splits)

lemma popIf_list:
  "popIf submit q s =
     (case q_list q of
        [] \<Rightarrow> (False, q, s)
      | j # js \<Rightarrow> (case submit j s of (ok, s') \<Rightarrow> if \<not> ok then (False, q, s') else (True, snd (pop q), s')))"
  by (auto simp: popIf_def pop_def q_list_def split: list.splits prod.splits)

subsection \<open>The worker pool\<close>

record 'm workerResult =
  cmdID :: u64
  submitted :: nat
  r_priority :: u8
  panicErr :: "string option"
  successMsg :: "'m option"

record 'm workers =
  w_n :: nat
  w_jobs :: "'m jobItem list"
  w_cap :: nat
  w_running :: "'m jobItem list"
  w_results :: "'m workerResult list"
  w_stopped :: bool

definition newWorkerPool :: "int \<Rightarrow> 'm workers" where
  "newWorkerPool n =
     (let n = (if n \<le> 0 then 1 else nat n) in
      \<lparr>w_n = n, w_jobs = [], w_cap = n * 8, w_running = [], w_results = [], w_stopped = False\<rparr>)"

definition runCmd :: "'m jobItem \<Rightarrow> 'm workerResult" where
  "runCmd j =
     (let res = \<lparr>cmdID = CmdID j, submitted = Submitted j, r_priority = Priority j,
                 panicErr = None, successMsg = None\<rparr>
      in case Cmd j of
           None \<Rightarrow> res
         | Some (Returns m) \<Rightarrow> res\<lparr>successMsg := m\<rparr>
         | Some (Panics e) \<Rightarrow> res\<lparr>panicErr := Some e\<rparr>)"

definition TrySubmit :: "'m jobItem \<Rightarrow> 'm workers \<Rightarrow> bool \<times> 'm workers" where
  "TrySubmit j w =
     (if w_stopped w then (False, w)
      else if length (w_jobs w) < w_cap w then (True, w\<lparr>w_jobs := w_jobs w @ [j]\<rparr>)
      else (False, w))"

text \<open>\<open>workerLoop\<close>: a worker takes the head of the jobs channel; when it is done the result is sent
  without blocking, so it is dropped when the results channel is full.\<close>

definition worker_take :: "'m workers \<Rightarrow> 'm workers" where
  "worker_take w =
     (case w_jobs w of
        j # js \<Rightarrow> if length (w_running w) < w_n w
                  then w\<lparr>w_jobs := js, w_running := w_running w @ [j]\<rparr> else w
      | [] \<Rightarrow> w)"

definition worker_finish :: "nat \<Rightarrow> 'm workers \<Rightarrow> 'm workerResult list \<times> 'm workers" where
  "worker_finish i w =
     (if i < length (w_running w)
      then let j = w_running w ! i; res = runCmd j;
               w' = w\<lparr>w_running := take i (w_running w) @ drop (Suc i) (w_running w)\<rparr>
           in if length (w_results w') < w_cap w' then ([], w'\<lparr>w_results := w_results w' @ [res]\<rparr>)
              else ([res], w')
      else ([], w))"

text \<open>The frame loop's \<open>for s.queue.popIf(s.workers.TrySubmit) { }\<close>.\<close>

lemma popIf_decreases:
  "popIf submit q s = (True, q', s') \<Longrightarrow> q_len q' < q_len q"
  by (auto simp: popIf_def q_len_def split: list.splits prod.splits if_splits)

function drain_queue :: "'m queue \<Rightarrow> 'm workers \<Rightarrow> 'm queue \<times> 'm workers" where
  "drain_queue q w =
     (case popIf TrySubmit q w of (ok, q', w') \<Rightarrow> if ok then drain_queue q' w' else (q', w'))"
  by pat_completeness auto
termination
  by (relation "measure (\<lambda>(q, w). q_len q)") (auto dest: popIf_decreases [OF sym])

declare drain_queue.simps [simp del]

text \<open>Draining moves a prefix of the served order into the channel, as long as there is room.\<close>

definition room :: "'m workers \<Rightarrow> nat" where
  "room w = (if w_stopped w then 0 else w_cap w - length (w_jobs w))"

lemma drain_queue_spec:
  assumes "drain_queue q w = (q', w')" and "length (w_jobs w) \<le> w_cap w"
  shows "q_list q' = drop (room w) (q_list q) \<and> w' = w\<lparr>w_jobs := w_jobs w @ take (room w) (q_list q)\<rparr>"
  using assms
proof (induction q w rule: drain_queue.induct)
  case (1 q w)
  show ?case
  proof (cases "q_list q")
    case Nil
    with "1.prems" show ?thesis by (subst (asm) drain_queue.simps) (simp add: popIf_list)
  next
    case (Cons j js)
    show ?thesis
    proof (cases "room w = 0")
      case True
      then have "TrySubmit j w = (False, w)" by (auto simp: TrySubmit_def room_def split: if_splits)
      with "1.prems" Cons True show ?thesis by (subst (asm) drain_queue.simps) (simp add: popIf_list)
    next
      case False
      let ?w1 = "w\<lparr>w_jobs := w_jobs w @ [j]\<rparr>"
      from False have ok: "TrySubmit j w = (True, ?w1)"
        by (auto simp: TrySubmit_def room_def split: if_splits)
      have p: "popIf TrySubmit q w = (True, snd (pop q), ?w1)" using Cons ok by (simp add: popIf_list)
      have d: "drain_queue (snd (pop q)) ?w1 = (q', w')"
        using "1.prems"(1) p by (subst (asm) drain_queue.simps) simp
      have r: "room w = Suc (room ?w1)" using False by (auto simp: room_def split: if_splits)
      have "length (w_jobs ?w1) \<le> w_cap ?w1" using False by (auto simp: room_def split: if_splits)
      from "1.IH" [OF p [symmetric] refl TrueI d this]
      show ?thesis using Cons r by (simp add: pop_list(2))
    qed
  qed
qed

subsection \<open>The whole pipeline as a step relation\<close>

text \<open>
  A command's life: lane, jobs channel, worker, results channel, dispatched (or dropped).  The
  ghost field \<open>y_issued\<close> counts \<open>ScheduleAt\<close> calls; the code's \<open>nextCmdID\<close> is its value as a
  \<open>uint64\<close>.
\<close>

record 'm sys =
  y_queue :: "'m queue"
  y_workers :: "'m workers"
  y_done :: "'m workerResult list"
  y_dropped :: "'m workerResult list"
  y_nextCmdID :: u64
  y_issued :: nat

definition ScheduleAt :: "'m outcome option \<Rightarrow> nat \<Rightarrow> u8 \<Rightarrow> 'm sys \<Rightarrow> u64 \<times> 'm sys" where
  "ScheduleAt cmd now p s =
     (let id = y_nextCmdID s + 1 in
      (id, s\<lparr>y_nextCmdID := id, y_issued := Suc (y_issued s),
             y_queue := push (y_queue s) \<lparr>Cmd = cmd, CmdID = id, Submitted = now, Priority = p\<rparr>\<rparr>))"

definition Stop_workers :: "'m workers \<Rightarrow> 'm workers" where
  "Stop_workers w = w\<lparr>w_stopped := True\<rparr>"

inductive sys_step :: "'m sys \<Rightarrow> 'm sys \<Rightarrow> bool" where
  schedule: "sys_step s (snd (ScheduleAt cmd now p s))"
| drain: "drain_queue (y_queue s) (y_workers s) = (q, w) \<Longrightarrow>
    sys_step s (s\<lparr>y_queue := q, y_workers := w\<rparr>)"
| take: "sys_step s (s\<lparr>y_workers := worker_take (y_workers s)\<rparr>)"
| finish: "worker_finish i (y_workers s) = (lost, w) \<Longrightarrow>
    sys_step s (s\<lparr>y_workers := w, y_dropped := y_dropped s @ lost\<rparr>)"
| dispatch: "w_results (y_workers s) = r # rs \<Longrightarrow>
    sys_step s (s\<lparr>y_workers := (y_workers s)\<lparr>w_results := rs\<rparr>, y_done := y_done s @ [r]\<rparr>)"
| stop: "sys_step s (s\<lparr>y_workers := Stop_workers (y_workers s)\<rparr>)"
| stop_drain: "w_stopped (y_workers s) \<Longrightarrow> w_results (y_workers s) = r # rs \<Longrightarrow>
    sys_step s (s\<lparr>y_workers := (y_workers s)\<lparr>w_results := rs\<rparr>, y_dropped := y_dropped s @ [r]\<rparr>)"

definition init_sys :: "int \<Rightarrow> 'm sys" where
  "init_sys n = \<lparr>y_queue = newQueue, y_workers = newWorkerPool n, y_done = [], y_dropped = [],
                 y_nextCmdID = 0, y_issued = 0\<rparr>"

inductive reach :: "int \<Rightarrow> 'm sys \<Rightarrow> bool" for n where
  start: "reach n (init_sys n)"
| step: "reach n s \<Longrightarrow> sys_step s t \<Longrightarrow> reach n t"

definition all_ids :: "'m sys \<Rightarrow> u64 multiset" where
  "all_ids s = image_mset CmdID (mset (q_list (y_queue s)) + mset (w_jobs (y_workers s)) + mset (w_running (y_workers s)))
     + image_mset cmdID (mset (w_results (y_workers s)) + mset (y_done s) + mset (y_dropped s))"

definition sys_inv :: "'m sys \<Rightarrow> bool" where
  "sys_inv s \<longleftrightarrow>
     y_nextCmdID s = of_nat (y_issued s) \<and>
     all_ids s = mset (map of_nat [1..<Suc (y_issued s)]) \<and>
     length (w_jobs (y_workers s)) \<le> w_cap (y_workers s) \<and>
     length (w_results (y_workers s)) \<le> w_cap (y_workers s) \<and>
     length (w_running (y_workers s)) \<le> w_n (y_workers s)"

inductive_cases sys_stepE: "sys_step s t"

lemma cmdID_runCmd [simp]: "cmdID (runCmd j) = CmdID j"
  by (auto simp: runCmd_def Let_def split: option.splits outcome.splits)

lemma sys_inv_init: "sys_inv (init_sys n)"
  by (simp add: sys_inv_def init_sys_def all_ids_def newQueue_def newWorkerPool_def q_list_def Let_def)

lemma mset_remove_nth: "i < length xs \<Longrightarrow> mset xs = add_mset (xs ! i) (mset (take i xs @ drop (Suc i) xs))"
  by (metis id_take_nth_drop mset.simps(2) mset_append union_mset_add_mset_right)

lemma sys_step_inv: "sys_step s t \<Longrightarrow> sys_inv s \<Longrightarrow> sys_inv t"
proof (induction rule: sys_step.induct)
  case (schedule s cmd now p)
  then show ?case
    by (simp add: sys_inv_def ScheduleAt_def Let_def all_ids_def add.commute)
next
  case (drain s q w)
  have cap: "length (w_jobs (y_workers s)) \<le> w_cap (y_workers s)" using drain.prems by (simp add: sys_inv_def)
  note d = drain_queue_spec [OF drain.hyps cap]
  have "mset (drop k xs) + mset (take k xs) = mset xs" for k and xs :: "'a jobItem list"
    by (metis append_take_drop_id mset_append union_commute)
  then have "image_mset CmdID (mset (drop k xs)) + image_mset CmdID (mset (take k xs)) = image_mset CmdID (mset xs)"
    for k and xs :: "'a jobItem list" by (metis image_mset_union)
  then have "all_ids (s\<lparr>y_queue := q, y_workers := w\<rparr>) = all_ids s"
    using d by (simp add: all_ids_def)
  moreover have "length (w_jobs w) \<le> w_cap w" using d cap by (auto simp: room_def)
  ultimately show ?case using drain.prems d by (simp add: sys_inv_def)
next
  case (take s)
  then show ?case
    by (auto simp: sys_inv_def worker_take_def all_ids_def split: list.splits simp del: upt_Suc upt.simps)
next
  case (finish i s lost w)
  show ?case
  proof (cases "i < length (w_running (y_workers s))")
    case True
    note m = mset_remove_nth [OF True]
    from finish m show ?thesis
      by (auto simp: sys_inv_def worker_finish_def all_ids_def Let_def split: if_splits)
  next
    case False
    with finish show ?thesis by (simp add: worker_finish_def sys_inv_def all_ids_def)
  qed
next
  case (dispatch s r rs)
  then show ?case by (auto simp: sys_inv_def all_ids_def)
next
  case (stop s)
  then show ?case by (simp add: sys_inv_def Stop_workers_def all_ids_def)
next
  case (stop_drain s r rs)
  then show ?case by (auto simp: sys_inv_def all_ids_def)
qed

lemma u64_of_nat_inj:
  "(of_nat a :: u64) = of_nat b \<Longrightarrow> a < 2 ^ 64 \<Longrightarrow> b < 2 ^ 64 \<Longrightarrow> a = b"
  using of_nat_inverse [of a "of_nat b :: u64"] by (simp add: unat_of_nat)

lemma reach_inv: "reach n s \<Longrightarrow> sys_inv s"
  by (induction rule: reach.induct) (auto intro: sys_inv_init sys_step_inv)

subsection \<open>Properties\<close>

text \<open>\<open>popIf\<close> serves the lanes high before normal before idle, each in FIFO order, atomically:
  it offers the head of the served order to \<open>submit\<close>, removes exactly that item on success and
  nothing on failure, and \<open>push\<close> appends to the item's own lane.\<close>

theorem popIf_priority_fifo:
  "popIf submit q s = (case q_high q @ q_normal q @ q_idle q of
      [] \<Rightarrow> (False, q, s)
    | j # js \<Rightarrow> (case submit j s of (ok, s') \<Rightarrow> (ok, if ok then snd (pop q) else q, s'))) \<and>
   q_list (snd (pop q)) = tl (q_list q) \<and>
   q_list (push q j) = (if Priority j = PriorityHigh then q_high q @ [j] @ q_normal q @ q_idle q
     else if Priority j = PriorityIdle then q_list q @ [j] else q_high q @ q_normal q @ [j] @ q_idle q)"
  by (intro conjI pop_list(2))
    (simp_all add: popIf_list push_def q_list_def split: list.split prod.split)

text \<open>The frame loop's drain ends, and moves exactly as many items as the jobs channel has room
  for, in served order, leaving the others queued in order; a stopped pool takes none.\<close>

theorem drain_queue_exact:
  assumes "length (w_jobs w) \<le> w_cap w"
  shows "drain_queue q w = (fst (drain_queue q w), w\<lparr>w_jobs := w_jobs w @ take (room w) (q_list q)\<rparr>) \<and>
    q_list (fst (drain_queue q w)) = drop (room w) (q_list q)"
  using drain_queue_spec [of q w "fst (drain_queue q w)" "snd (drain_queue q w)"] assms
  by (metis prod.collapse)

theorem drain_queue_exact_witness:
  "let j = \<lparr>Cmd = None, CmdID = 1, Submitted = 0, Priority = 0\<rparr>
   in w_jobs (snd (drain_queue (push newQueue j) (newWorkerPool 1 :: unit workers))) = [j]"
proof -
  have "length (w_jobs (newWorkerPool 1 :: unit workers)) \<le> w_cap (newWorkerPool 1 :: unit workers)"
    by (simp add: newWorkerPool_def)
  note d = drain_queue_exact [OF this, THEN conjunct1, THEN arg_cong, of "\<lambda>p. w_jobs (snd p)"]
  show ?thesis
    unfolding Let_def by (subst d) (simp add: newQueue_def newWorkerPool_def push_def q_list_def room_def priorities)
qed



end
