(* ===== verification/Width.thy ===== *)
theory Width
  imports GoPrelude
begin

text \<open>
  \<open>internal/app/cli/render/width/width.go\<close>: column measurement and the three text shapers
  \<open>Wrap\<close>, \<open>Truncate\<close> and \<open>Pad\<close>.  The go-runewidth package is not part of the repository: its
  \<open>Condition.RuneWidth\<close> is the argument \<open>rw\<close> and its \<open>Condition.StringWidth\<close> the argument
  \<open>sw\<close>.  A panic with \<open>ErrInvalidWidth\<close> is \<open>Inl ErrInvalidWidth\<close>.
\<close>

datatype width_error = ErrInvalidWidth

definition Width :: "(runes \<Rightarrow> int) \<Rightarrow> runes \<Rightarrow> int" where
  "Width sw s = sw s"

definition RuneWidth :: "(rune \<Rightarrow> int) \<Rightarrow> rune \<Rightarrow> int" where
  "RuneWidth rw r = (if r \<ge> 0 \<and> r \<le> 0x7F then 1 else rw r)"

text \<open>The loop of \<open>Wrap\<close>: lines emitted so far, the current line and its width.\<close>

fun Wrap_loop :: "(rune \<Rightarrow> int) \<Rightarrow> int \<Rightarrow> runes list \<Rightarrow> runes \<Rightarrow> int \<Rightarrow> runes
    \<Rightarrow> runes list \<times> runes" where
  "Wrap_loop rw cols ls cur curWidth [] = (ls, cur)"
| "Wrap_loop rw cols ls cur curWidth (r # rs) =
     (if curWidth + rw r > cols
      then Wrap_loop rw cols (ls @ [cur]) [r] (rw r) rs
      else Wrap_loop rw cols ls (cur @ [r]) (curWidth + rw r) rs)"

definition Wrap :: "(rune \<Rightarrow> int) \<Rightarrow> runes \<Rightarrow> int \<Rightarrow> width_error + runes list" where
  "Wrap rw s cols =
     (if cols \<le> 0 then Inl ErrInvalidWidth
      else if s = [] then Inr []
      else (case Wrap_loop rw cols [] [] 0 s of
              (ls, cur) \<Rightarrow> Inr (if cur \<noteq> [] \<or> ls = [] then ls @ [cur] else ls)))"

text \<open>U+2026, the one-column ellipsis.\<close>

definition ellipsis :: rune where
  "ellipsis = 0x2026"

fun Truncate_loop :: "(rune \<Rightarrow> int) \<Rightarrow> int \<Rightarrow> int \<Rightarrow> runes \<Rightarrow> runes" where
  "Truncate_loop rw budget curWidth [] = []"
| "Truncate_loop rw budget curWidth (r # rs) =
     (if curWidth + rw r > budget then []
      else r # Truncate_loop rw budget (curWidth + rw r) rs)"

definition Truncate :: "(rune \<Rightarrow> int) \<Rightarrow> (runes \<Rightarrow> int) \<Rightarrow> runes \<Rightarrow> int \<Rightarrow> width_error + runes" where
  "Truncate rw sw s mx =
     (if mx \<le> 0 then Inl ErrInvalidWidth
      else if sw s \<le> mx then Inr s
      else let budget = mx - 1 in
        if budget \<le> 0 then Inr [ellipsis]
        else Inr (Truncate_loop rw budget 0 s @ [ellipsis]))"

definition Pad :: "(runes \<Rightarrow> int) \<Rightarrow> runes \<Rightarrow> int \<Rightarrow> width_error + runes" where
  "Pad sw s target =
     (if target \<le> 0 then Inl ErrInvalidWidth
      else let cur = sw s in
        if cur \<ge> target then Inr s
        else Inr (s @ replicate (nat (target - cur)) 32))"

subsection \<open>Column sums\<close>

definition cols_of :: "(rune \<Rightarrow> int) \<Rightarrow> runes \<Rightarrow> int" where
  "cols_of rw s = sum_list (map rw s)"

lemma cols_of_simps [simp]:
  "cols_of rw [] = 0" "cols_of rw (r # s) = rw r + cols_of rw s"
  "cols_of rw (s @ t) = cols_of rw s + cols_of rw t"
  by (simp_all add: cols_of_def)

subsection \<open>Wrap\<close>

lemma Wrap_loop_concat:
  "Wrap_loop rw cols ls cur w s = (ls', cur') \<Longrightarrow> concat ls' @ cur' = concat ls @ cur @ s"
  by (induction rw cols ls cur w s rule: Wrap_loop.induct) (auto split: if_splits)

lemma Wrap_loop_bound:
  "Wrap_loop rw cols ls cur w s = (ls', cur') \<Longrightarrow> \<forall>l \<in> set ls. cols_of rw l \<le> cols \<Longrightarrow>
   w = cols_of rw cur \<Longrightarrow> w \<le> cols \<Longrightarrow> \<forall>r \<in> set s. rw r \<le> cols \<Longrightarrow>
   (\<forall>l \<in> set ls'. cols_of rw l \<le> cols) \<and> cols_of rw cur' \<le> cols"
proof (induction s arbitrary: ls cur w)
  case (Cons r s)
  show ?case
  proof (cases "w + rw r > cols")
    case True
    with Cons.prems show ?thesis by (intro Cons.IH [of "ls @ [cur]" "[r]" "rw r"]) auto
  next
    case False
    with Cons.prems show ?thesis by (intro Cons.IH [of ls "cur @ [r]" "w + rw r"]) auto
  qed
qed simp

lemma Wrap_loop_nonempty:
  "Wrap_loop rw cols ls cur w s = (ls', cur') \<Longrightarrow> cur \<noteq> [] \<or> s \<noteq> [] \<Longrightarrow> cur' \<noteq> []"
proof (induction s arbitrary: ls cur w)
  case (Cons r s)
  show ?case
  proof (cases "w + rw r > cols")
    case True
    with Cons.prems show ?thesis by (intro Cons.IH [of "ls @ [cur]" "[r]" "rw r"]) auto
  next
    case False
    with Cons.prems show ?thesis by (intro Cons.IH [of ls "cur @ [r]" "w + rw r"]) auto
  qed
qed simp

lemma Wrap_unfold:
  assumes "0 < cols" and "s \<noteq> []"
  obtains ls cur where "Wrap_loop rw cols [] [] 0 s = (ls, cur)" and "cur \<noteq> []"
    and "Wrap rw s cols = Inr (ls @ [cur])"
proof -
  obtain ls cur where l: "Wrap_loop rw cols [] [] 0 s = (ls, cur)" by fastforce
  with assms(2) have "cur \<noteq> []" using Wrap_loop_nonempty by blast
  with l assms show thesis by (intro that [of ls cur]) (auto simp: Wrap_def)
qed

lemma Wrap_concat: "Wrap rw s cols = Inr ls \<Longrightarrow> concat ls = s"
proof (cases "0 < cols \<and> s \<noteq> []")
  case True
  assume w: "Wrap rw s cols = Inr ls"
  from True obtain ls' cur where "Wrap_loop rw cols [] [] 0 s = (ls', cur)"
    and "Wrap rw s cols = Inr (ls' @ [cur])" using Wrap_unfold by blast
  with w show ?thesis using Wrap_loop_concat by fastforce
qed (auto simp: Wrap_def split: if_splits)

lemma Wrap_lines_fit:
  assumes "Wrap rw s cols = Inr ls" and "\<And>r. r \<in> set s \<Longrightarrow> rw r \<le> cols" and "l \<in> set ls"
  shows "cols_of rw l \<le> cols"
proof (cases "0 < cols \<and> s \<noteq> []")
  case True
  then obtain ls' cur where "Wrap_loop rw cols [] [] 0 s = (ls', cur)"
    and "Wrap rw s cols = Inr (ls' @ [cur])" using Wrap_unfold by blast
  moreover from this(1) have "(\<forall>l \<in> set ls'. cols_of rw l \<le> cols) \<and> cols_of rw cur \<le> cols"
    using True assms(2) by (intro Wrap_loop_bound [of rw cols "[]" "[]" 0 s]) auto
  ultimately show ?thesis using assms(1,3) by auto
qed (use assms in \<open>auto simp: Wrap_def split: if_splits\<close>)

subsection \<open>Truncate and Pad\<close>

lemma Truncate_loop_bound:
  "w \<le> budget \<Longrightarrow> w + cols_of rw (Truncate_loop rw budget w s) \<le> budget"
  by (induction rw budget w s rule: Truncate_loop.induct) (auto simp: add.assoc [symmetric])

lemma Truncate_loop_prefix: "\<exists>t. s = Truncate_loop rw budget w s @ t"
  by (induction rw budget w s rule: Truncate_loop.induct) auto

lemma Truncate_loop_maximal:
  assumes "s = Truncate_loop rw budget w s @ r # t"
  shows "w + cols_of rw (Truncate_loop rw budget w s) + rw r > budget"
  using assms
  by (induction rw budget w s rule: Truncate_loop.induct)
    (auto simp: add.assoc [symmetric] split: if_splits)

lemma Truncate_cases:
  assumes "Truncate rw sw s mx = Inr t"
  obtains "t = s" "sw s \<le> mx"
  | p where "t = p @ [ellipsis]" "mx < sw s" "0 < mx" "cols_of rw p \<le> mx - 1" "\<exists>q. s = p @ q"
proof (cases "sw s \<le> mx")
  case True
  with assms show thesis by (intro that(1)) (auto simp: Truncate_def split: if_splits)
next
  case False
  with assms have mx: "0 < mx" by (auto simp: Truncate_def split: if_splits)
  show thesis
  proof (cases "mx = 1")
    case True
    with assms False mx show thesis by (intro that(2) [of "[]"]) (auto simp: Truncate_def)
  next
    case 2: False
    with assms False mx have "t = Truncate_loop rw (mx - 1) 0 s @ [ellipsis]"
      by (auto simp: Truncate_def Let_def)
    with False mx 2 Truncate_loop_bound [of 0 "mx - 1" rw s] Truncate_loop_prefix [of s rw "mx - 1" 0]
    show thesis by (intro that(2)) auto
  qed
qed

lemma Pad_append: "Pad sw s target = Inr t \<Longrightarrow> \<exists>n. t = s @ replicate n 32 \<and> (sw s < target \<longrightarrow> sw s + int n = target)"
  by(auto simp: Pad_def Let_def split: if_splits)

subsection \<open>Properties\<close>

text \<open>\<open>Wrap\<close> loses nothing and never overflows a line: the lines joined are the input, and
  every line is at most \<open>cols\<close> columns wide when no single rune is wider than \<open>cols\<close>; it returns for
  every positive \<open>cols\<close>, and panics exactly for the others.\<close>

theorem Wrap_lossless:
  "(cols \<le> 0 \<longleftrightarrow> Wrap rw s cols = Inl ErrInvalidWidth) \<and>
   (\<forall>ls. Wrap rw s cols = Inr ls \<longrightarrow>
      concat ls = s \<and> ((\<forall>r \<in> set s. rw r \<le> cols) \<longrightarrow> (\<forall>l \<in> set ls. cols_of rw l \<le> cols)))"
proof -
  have "cols \<le> 0 \<longleftrightarrow> Wrap rw s cols = Inl ErrInvalidWidth"
    by (auto simp: Wrap_def split: prod.splits)
  then show ?thesis using Wrap_concat [of rw s cols] Wrap_lines_fit [of rw s cols] by blast
qed

theorem Wrap_lossless_witness:
  "concat [[97, 98], [99 :: rune]] = [97, 98, 99] \<and> cols_of (\<lambda>_. 1) [97, 98] \<le> 2"
  using Wrap_lossless [of 2 "\<lambda>_. 1" "[97, 98, 99]"] by (simp add: Wrap_def)

text \<open>\<open>Truncate\<close> returns its input when that fits, and otherwise a prefix followed by the
  ellipsis whose columns, the one of the ellipsis included, are at most \<open>mx\<close>.\<close>

theorem Truncate_fits:
  assumes "Truncate rw sw s mx = Inr t"
  shows "(sw s \<le> mx \<and> t = s) \<or>
    (mx < sw s \<and> (\<exists>p q. s = p @ q \<and> t = p @ [ellipsis] \<and> cols_of rw p + 1 \<le> mx))"
  using assms by (cases rule: Truncate_cases) auto

theorem Truncate_fits_witness:
  "\<exists>t. Truncate (\<lambda>_. 1) (\<lambda>s. int (length s)) [97, 98, 99] 2 = Inr t \<and>
     (\<exists>p q. [97, 98, 99] = p @ q \<and> t = p @ [ellipsis] \<and> cols_of (\<lambda>_. 1) p + 1 \<le> 2)"
proof -
  have t: "Truncate (\<lambda>_. 1) (\<lambda>s. int (length s)) [97, 98, 99] 2 = Inr [97, ellipsis]"
    by (simp add: Truncate_def)
  show ?thesis using Truncate_fits [OF t] t by simp
qed

end
