(* ===== verification/Style.thy ===== *)
theory Style
  imports GoPrelude
begin

text \<open>
  \<open>internal/app/cli/render/style/style.go\<close>: colours packed in a \<open>uint32\<close> and the SGR escape
  sequence of a cell style.  \<open>fmt.Sprintf\<close> with \<open>%d\<close> is \<^const>\<open>show_nat\<close>; \<open>strings.Join\<close> is
  \<open>join\<close> below.  The lemmas show that the two constructors are decoded by \<open>colorSGR\<close> exactly,
  including the \<open>uint8\<close> wrap the code relies on for palette index 255.
\<close>

unbundle bit_operations_syntax

definition ColorDefault :: u32 where
  "ColorDefault = 0"

definition truecolorBit :: u32 where
  "truecolorBit = 0x1000000"

definition RGB :: "u8 \<Rightarrow> u8 \<Rightarrow> u8 \<Rightarrow> u32" where
  "RGB r g b = ((truecolorBit OR push_bit 16 (ucast r)) OR push_bit 8 (ucast g)) OR ucast b"

definition Palette :: "u8 \<Rightarrow> u32" where
  "Palette idx = ucast idx + 1"

record style =
  FG :: u32
  BG :: u32
  Bold :: bool
  Italic :: bool
  Underline :: bool
  Reverse :: bool

definition zero_style :: style where
  "zero_style = \<lparr>FG = 0, BG = 0, Bold = False, Italic = False, Underline = False, Reverse = False\<rparr>"

fun join :: "string \<Rightarrow> string list \<Rightarrow> string" where
  "join sep [] = []"
| "join sep [p] = p"
| "join sep (p # ps) = p @ sep @ join sep ps"

definition show_u32 :: "u32 \<Rightarrow> string" where
  "show_u32 w = show_nat (unat w)"

definition show_u8 :: "u8 \<Rightarrow> string" where
  "show_u8 w = show_nat (unat w)"

definition colorSGR :: "u32 \<Rightarrow> bool \<Rightarrow> string" where
  "colorSGR c fg =
     (if c = ColorDefault then ''''
      else if c \<ge> truecolorBit then
        (let rgb = c AND 0xFFFFFF;
             r = drop_bit 16 rgb AND 0xFF;
             g = drop_bit 8 rgb AND 0xFF;
             b = rgb AND 0xFF;
             prefix = (if \<not> fg then ''48;2'' else ''38;2'')
         in prefix @ '';'' @ show_u32 r @ '';'' @ show_u32 g @ '';'' @ show_u32 b)
      else
        (let idx = (ucast (c AND 0xFF) :: u8) - 1
         in if idx < 8 then show_u8 ((if \<not> fg then 40 else 30) + idx)
            else if idx < 16 then show_u8 ((if \<not> fg then 100 else 90) + idx - 8)
            else (if \<not> fg then ''48;5'' else ''38;5'') @ '';'' @ show_u8 idx))"

definition ANSI_parts :: "style \<Rightarrow> string list" where
  "ANSI_parts s =
     (if Bold s then [''1''] else []) @
     (if Italic s then [''3''] else []) @
     (if Underline s then [''4''] else []) @
     (if Reverse s then [''7''] else []) @
     (if colorSGR (FG s) True \<noteq> '''' then [colorSGR (FG s) True] else []) @
     (if colorSGR (BG s) False \<noteq> '''' then [colorSGR (BG s) False] else [])"

definition ANSI :: "style \<Rightarrow> string" where
  "ANSI s = (if ANSI_parts s = [] then ''''
             else char_of (0x1b :: nat) # ''['' @ join '';'' (ANSI_parts s) @ ''m'')"

subsection \<open>Packing and unpacking\<close>

lemma u8_small: "unat (w :: u8) < 256"
  using unsigned_less [of w] by simp

lemma RGB_ge_truecolorBit: "truecolorBit \<le> RGB r g b"
proof -
  have "truecolorBit AND RGB r g b = truecolorBit"
    unfolding RGB_def by (rule bit_eqI) (auto simp: bit_simps)
  then show ?thesis by (metis word_and_le1)
qed

lemma masks:
  "(0xFF :: u32) = mask 8" "(0xFFFFFF :: u32) = mask 24" "truecolorBit = push_bit 24 1"
  by (simp_all add: mask_eq_exp_minus_1 truecolorBit_def push_bit_eq_mult)

lemma bit_u8_high: "8 \<le> n \<Longrightarrow> \<not> bit (w :: u8) n"
  using bit_imp_le_length [of w n] by auto

lemma bit_RGB:
  "bit (RGB r g b) n \<longleftrightarrow>
     n = 24 \<or> 16 \<le> n \<and> bit r (n - 16) \<or> 8 \<le> n \<and> bit g (n - 8) \<or> bit b n"
  unfolding RGB_def masks
  by (simp only: bit_or_iff bit_push_bit_iff bit_1_iff bit_unsigned_iff possible_bit_word)
    (auto dest: bit_imp_le_length)

lemma RGB_components:
  "drop_bit 16 (RGB r g b AND 0xFFFFFF) AND 0xFF = ucast r"
  "drop_bit 8 (RGB r g b AND 0xFFFFFF) AND 0xFF = ucast g"
  "(RGB r g b AND 0xFFFFFF) AND 0xFF = ucast b"
  unfolding masks
  by (rule bit_eqI; auto simp: bit_simps bit_RGB bit_u8_high dest: bit_imp_le_length)+

lemma RGB_not_default: "RGB r g b \<noteq> ColorDefault"
  using RGB_ge_truecolorBit [of r g b] by (auto simp: ColorDefault_def truecolorBit_def)

lemma RGB_inject: "RGB r g b = RGB r' g' b' \<longleftrightarrow> r = r' \<and> g = g' \<and> b = b'"
proof -
  have "r = r'" if eq: "(ucast r :: u32) = ucast r'" for r r' :: u8
  proof -
    from eq have "unat (ucast r :: u32) = unat (ucast r' :: u32)" by simp
    then show ?thesis by (simp add: unsigned_ucast_eq take_bit_eq_mod u8_small word_unat_eq_iff
            order.strict_trans [OF u8_small])
  qed
  then show ?thesis by (metis RGB_components)
qed

lemma unat_Palette: "unat (Palette i) = unat i + 1"
proof -
  have "unat i < 256" by (rule u8_small)
  then show ?thesis
    by (simp add: Palette_def unat_word_ariths unsigned_ucast_eq take_bit_eq_mod)
qed

lemma Palette_lt_truecolorBit: "Palette i < truecolorBit"
proof -
  have "unat i < 256" by (rule u8_small)
  then show ?thesis
    by (simp add: word_less_nat_alt unat_Palette truecolorBit_def)
qed

lemma Palette_not_default: "Palette i \<noteq> ColorDefault"
  using unat_Palette [of i] by (auto simp: ColorDefault_def)

lemma Palette_decode: "(ucast (Palette i AND 0xFF) :: u8) - 1 = i"
proof -
  have "(ucast (Palette i AND 0xFF) :: u8) = i + 1"
  proof (rule unsigned_word_eqI [where 'a = nat])
    have "unat (Palette i AND 0xFF) = (unat i + 1) mod 256"
      by (simp only: masks flip: take_bit_eq_mask)
        (simp only: unsigned_take_bit_eq unat_Palette, simp add: take_bit_eq_mod)
    then show "unat (ucast (Palette i AND 0xFF) :: u8) = unat (i + 1)"
      by (simp add: unsigned_ucast_eq take_bit_eq_mod unat_word_ariths)
  qed
  then show ?thesis by simp
qed

lemma Palette_inject: "Palette i = Palette j \<longleftrightarrow> i = j"
  by (metis Palette_decode)

lemma join_eq_Nil: "\<forall>p \<in> set ps. p \<noteq> [] \<Longrightarrow> join sep ps = [] \<longleftrightarrow> ps = []"
  by (cases "(sep, ps)" rule: join.cases) auto

lemma colorSGR_eq_Nil: "colorSGR c fg = [] \<longleftrightarrow> c = ColorDefault"
  by (simp add: colorSGR_def Let_def show_u8_def)

subsection \<open>Properties\<close>

text \<open>The colour encoding is faithful: every palette index and every RGB triple packs to a
  non-default colour that \<open>colorSGR\<close> turns into exactly its SGR fragment (30-37 / 90-97 / 38;5;n and
  38;2;r;g;b, or the background forms), index 255 with its \<open>uint8\<close> wrap included.\<close>

theorem colorSGR_faithful:
  "colorSGR (Palette i) fg =
     (if unat i < 8 then show_nat ((if fg then 30 else 40) + unat i)
      else if unat i < 16 then show_nat ((if fg then 90 else 100) + (unat i - 8))
      else (if fg then ''38;5;'' else ''48;5;'') @ show_nat (unat i)) \<and>
   colorSGR (RGB r g b) fg =
     (if fg then ''38;2;'' else ''48;2;'') @ show_nat (unat r) @ '';'' @ show_nat (unat g) @ '';'' @ show_nat (unat b)"
proof
  have lt: "i < n \<longleftrightarrow> unat i < unat n" for n :: u8 by (rule word_less_nat_alt)
  have sum8: "unat ((if \<not> fg then 40 else 30) + i) = (if fg then 30 else 40) + unat i" if "unat i < 8"
    using that by (auto simp: unat_word_ariths)
  have "unat ((if \<not> fg then 100 else 90) + i - 8) = (if fg then 90 else 100) + (unat i - 8)"
    if "\<not> unat i < 8" "unat i < 16"
  proof -
    have "unat (i - 8) = unat i - 8" using that by (subst unat_sub) (auto simp: word_le_nat_alt)
    then have "unat ((if \<not> fg then 100 else 90) + (i - 8)) = (if fg then 90 else 100) + (unat i - 8)"
      using that by (auto simp: unat_word_ariths)
    then show ?thesis by (simp add: add_diff_eq)
  qed
  with sum8 show "colorSGR (Palette i) fg =
     (if unat i < 8 then show_nat ((if fg then 30 else 40) + unat i)
      else if unat i < 16 then show_nat ((if fg then 90 else 100) + (unat i - 8))
      else (if fg then ''38;5;'' else ''48;5;'') @ show_nat (unat i))"
    using Palette_lt_truecolorBit [of i] Palette_not_default [of i]
    unfolding colorSGR_def Let_def Palette_decode show_u8_def lt
    by (auto simp: not_le)
  have "unat (ucast w :: u32) = unat w" for w :: u8
    using order.strict_trans [OF u8_small [of w], of "2 ^ 32"]
    by (simp add: unsigned_ucast_eq take_bit_eq_mod)
  then show "colorSGR (RGB r g b) fg =
     (if fg then ''38;2;'' else ''48;2;'') @ show_nat (unat r) @ '';'' @ show_nat (unat g) @ '';'' @ show_nat (unat b)"
    using RGB_ge_truecolorBit [of r g b] RGB_not_default [of r g b]
    unfolding colorSGR_def Let_def RGB_components show_u32_def by simp
qed

end
