(* ===== verification/Grid.thy ===== *)
theory Grid
  imports Width Style
begin

text \<open>
  \<open>internal/app/cli/render/buffer\<close>: the cell grid (\<open>grid.go\<close>, \<open>reset.go\<close>, \<open>wide.go\<close>,
  \<open>buffer.go\<close>).  The backing arrays \<open>cells\<close> and \<open>cellGen\<close> are lists of the same length,
  row-major; \<open>g_cap\<close> is the capacity of the backing array, which a shrinking \<open>Resize\<close> keeps and
  the buffer pool reads.  \<open>Grid_Cell\<close> is the abstraction function: everything the rest of the
  engine sees of a grid is its size and \<open>Grid_Cell\<close>.
\<close>

record cell =
  Ch :: rune
  St :: style

definition zero_cell :: cell where
  "zero_cell = \<lparr>Ch = 0, St = zero_style\<rparr>"

definition WideContinuation :: rune where
  "WideContinuation = - 1"

definition IsContinuation :: "cell \<Rightarrow> bool" where
  "IsContinuation c \<longleftrightarrow> Ch c = WideContinuation"

text \<open>The two registered errors, and the run-time panics of \<open>make\<close> on a negative length and of a
  slice expression out of range.\<close>

datatype buffer_error = ErrInvalidDimension | ErrOutOfBounds | PanicMakeSlice | PanicSliceBounds

record grid =
  g_cols :: int
  g_rows :: int
  g_cells :: "cell list"
  g_cellGen :: "u64 list"
  g_generation :: u64
  g_cap :: nat

definition NewGrid :: "int \<Rightarrow> int \<Rightarrow> buffer_error + grid" where
  "NewGrid cols rows =
     (if cols \<le> 0 \<or> rows \<le> 0 then Inl ErrInvalidDimension
      else if wrap64 (cols * rows) > MaxInt32 then Inl ErrInvalidDimension
      else if wrap64 (cols * rows) < 0 then Inl PanicMakeSlice
      else let n = nat (wrap64 (cols * rows)) in
        Inr \<lparr>g_cols = cols, g_rows = rows, g_cells = replicate n zero_cell,
             g_cellGen = replicate n 0, g_generation = 1, g_cap = n\<rparr>)"

definition in_grid :: "grid \<Rightarrow> int \<Rightarrow> int \<Rightarrow> bool" where
  "in_grid g x y \<longleftrightarrow> 0 \<le> x \<and> x < g_cols g \<and> 0 \<le> y \<and> y < g_rows g"

definition g_idx :: "grid \<Rightarrow> int \<Rightarrow> int \<Rightarrow> nat" where
  "g_idx g x y = nat (y * g_cols g + x)"

definition Grid_Cell :: "grid \<Rightarrow> int \<Rightarrow> int \<Rightarrow> cell" where
  "Grid_Cell g x y =
     (if x < 0 \<or> x \<ge> g_cols g \<or> y < 0 \<or> y \<ge> g_rows g then zero_cell
      else let idx = g_idx g x y in
        if g_cellGen g ! idx \<noteq> g_generation g then zero_cell else g_cells g ! idx)"

definition Grid_liveCell :: "grid \<Rightarrow> int \<Rightarrow> int \<Rightarrow> cell \<times> bool" where
  "Grid_liveCell g x y =
     (if x < 0 \<or> x \<ge> g_cols g \<or> y < 0 \<or> y \<ge> g_rows g then (zero_cell, False)
      else let idx = g_idx g x y in
        if g_cellGen g ! idx \<noteq> g_generation g then (zero_cell, False)
        else (g_cells g ! idx, True))"

definition Grid_setCellRaw :: "grid \<Rightarrow> int \<Rightarrow> int \<Rightarrow> cell \<Rightarrow> grid" where
  "Grid_setCellRaw g x y c =
     (let idx = g_idx g x y in
      g\<lparr>g_cells := (g_cells g)[idx := c], g_cellGen := (g_cellGen g)[idx := g_generation g]\<rparr>)"

definition Grid_clearWideOverlap :: "(rune \<Rightarrow> int) \<Rightarrow> grid \<Rightarrow> int \<Rightarrow> int \<Rightarrow> grid" where
  "Grid_clearWideOverlap rw g x y =
     (case Grid_liveCell g x y of (old, ok) \<Rightarrow>
        if \<not> ok then g
        else if IsContinuation old then
          (if x = 0 then g
           else (case Grid_liveCell g (x - 1) y of (left, ok) \<Rightarrow>
                   if ok \<and> RuneWidth rw (Ch left) = 2
                   then Grid_setCellRaw g (x - 1) y zero_cell else g))
        else if RuneWidth rw (Ch old) = 2 \<and> x + 1 < g_cols g then
          (case Grid_liveCell g (x + 1) y of (right, ok) \<Rightarrow>
             if ok \<and> IsContinuation right
             then Grid_setCellRaw g (x + 1) y zero_cell else g)
        else g)"

definition Grid_SetCell :: "(rune \<Rightarrow> int) \<Rightarrow> grid \<Rightarrow> int \<Rightarrow> int \<Rightarrow> cell \<Rightarrow> grid" where
  "Grid_SetCell rw g x y c =
     (if x < 0 \<or> x \<ge> g_cols g \<or> y < 0 \<or> y \<ge> g_rows g then g
      else let g1 = Grid_setCellRaw (Grid_clearWideOverlap rw g x y) x y c in
        if RuneWidth rw (Ch c) = 2 \<and> x + 1 < g_cols g
        then Grid_setCellRaw g1 (x + 1) y \<lparr>Ch = WideContinuation, St = St c\<rparr>
        else g1)"

definition Grid_Size :: "grid \<Rightarrow> int \<times> int" where
  "Grid_Size g = (g_cols g, g_rows g)"

definition Grid_Reset :: "grid \<Rightarrow> grid" where
  "Grid_Reset g =
     (let g1 = g\<lparr>g_generation := g_generation g + 1\<rparr> in
      if g_generation g1 = 0
      then g1\<lparr>g_cells := replicate (length (g_cells g)) zero_cell,
              g_cellGen := replicate (length (g_cellGen g)) 0, g_generation := 1\<rparr>
      else g1)"

text \<open>The two row copies of the general path of \<open>Resize\<close>: a row of the old array clipped to
  the smaller width and padded with the zero value up to the new width.\<close>

definition resize_rows :: "'a \<Rightarrow> 'a list \<Rightarrow> nat \<Rightarrow> nat \<Rightarrow> nat \<Rightarrow> nat \<Rightarrow> 'a list" where
  "resize_rows z xs oldCols oldRows cols rows =
     concat (map (\<lambda>y. if y < min rows oldRows
                      then take (min cols oldCols) (drop (y * oldCols) xs)
                           @ replicate (cols - min cols oldCols) z
                      else replicate cols z) [0..<rows])"

definition Grid_Resize :: "grid \<Rightarrow> int \<Rightarrow> int \<Rightarrow> buffer_error + grid" where
  "Grid_Resize g cols rows =
     (if cols \<le> 0 \<or> rows \<le> 0 then Inr g
      else if wrap64 (cols * rows) > MaxInt32 then Inr g
      else if cols = g_cols g \<and> rows = g_rows g then Inr g
      else let n = wrap64 (cols * rows) in
        if cols = g_cols g \<and> rows < g_rows g
        then (if n < 0 \<or> n > int (g_cap g) then Inl PanicSliceBounds
              else Inr (g\<lparr>g_cells := take (nat n) (g_cells g),
                          g_cellGen := take (nat n) (g_cellGen g), g_rows := rows\<rparr>))
        else if n < 0 then Inl PanicMakeSlice
        else let copyCols = min cols (g_cols g); copyRows = min rows (g_rows g) in
          if (copyRows - 1) * cols + copyCols > n then Inl PanicSliceBounds
          else Inr (g\<lparr>g_cells := take (nat n) (resize_rows zero_cell (g_cells g)
                                    (nat (g_cols g)) (nat (g_rows g)) (nat cols) (nat rows)),
                      g_cellGen := take (nat n) (resize_rows 0 (g_cellGen g)
                                    (nat (g_cols g)) (nat (g_rows g)) (nat cols) (nat rows)),
                      g_cols := cols, g_rows := rows, g_cap := nat n\<rparr>))"

subsection \<open>Well-formedness\<close>

text \<open>Dimensions are positive and the true product fits, both arrays have one entry per cell,
  the generation is live and no stamp is from the future.\<close>

definition wf_grid :: "grid \<Rightarrow> bool" where
  "wf_grid g \<longleftrightarrow>
     0 < g_cols g \<and> 0 < g_rows g \<and> g_cols g * g_rows g \<le> MaxInt32 \<and>
     length (g_cells g) = nat (g_cols g * g_rows g) \<and>
     length (g_cellGen g) = nat (g_cols g * g_rows g) \<and>
     length (g_cells g) \<le> g_cap g \<and>
     g_generation g \<noteq> 0 \<and> (\<forall>s \<in> set (g_cellGen g). s \<le> g_generation g)"

lemma wrap64_small: "0 \<le> n \<Longrightarrow> n \<le> MaxInt32 \<Longrightarrow> wrap64 n = n"
  by (simp add: MaxInt32_def)

lemma g_idx_bound:
  assumes "wf_grid g" and "in_grid g x y"
  shows "g_idx g x y < length (g_cells g)" and "g_idx g x y < length (g_cellGen g)"
proof -
  have "0 \<le> y * g_cols g + x \<and> y * g_cols g + x < g_cols g * g_rows g"
    using assms(2) by (intro row_major_bound) (auto simp: in_grid_def)
  with assms(1) show "g_idx g x y < length (g_cells g)" "g_idx g x y < length (g_cellGen g)"
    by (auto simp: wf_grid_def g_idx_def nat_mono_iff)
qed

lemma g_idx_inject:
  assumes "in_grid g x y" and "in_grid g u v"
  shows "g_idx g x y = g_idx g u v \<longleftrightarrow> x = u \<and> y = v"
proof -
  have "0 \<le> y * g_cols g + x" "0 \<le> v * g_cols g + u"
    using assms by (auto simp: in_grid_def intro!: add_nonneg_nonneg mult_nonneg_nonneg)
  then have "g_idx g x y = g_idx g u v \<longleftrightarrow> y * g_cols g + x = v * g_cols g + u"
    by (auto simp: g_idx_def)
  also have "\<dots> \<longleftrightarrow> x = u \<and> y = v"
    using assms by (intro row_major_inject) (auto simp: in_grid_def)
  finally show ?thesis .
qed

lemma NewGrid_wf:
  assumes "NewGrid cols rows = Inr g" and "cols * rows \<le> MaxInt32"
  shows "wf_grid g \<and> g_cols g = cols \<and> g_rows g = rows"
proof -
  from assms(1) have pos: "0 < cols" "0 < rows" by (auto simp: NewGrid_def split: if_splits)
  then have w: "wrap64 (cols * rows) = cols * rows" using assms(2) by (intro wrap64_small) auto
  from assms pos w show ?thesis
    by (auto simp: NewGrid_def wf_grid_def Let_def MaxInt32_def split: if_splits)
qed

lemma in_grid_setCellRaw [simp]: "in_grid (Grid_setCellRaw g x y c) u v = in_grid g u v"
  by (simp add: in_grid_def Grid_setCellRaw_def Let_def)

lemma setCellRaw_frame [simp]:
  "g_cols (Grid_setCellRaw g x y c) = g_cols g" "g_rows (Grid_setCellRaw g x y c) = g_rows g"
  "g_generation (Grid_setCellRaw g x y c) = g_generation g" "g_cap (Grid_setCellRaw g x y c) = g_cap g"
  "g_idx (Grid_setCellRaw g x y c) u v = g_idx g u v"
  by (simp_all add: Grid_setCellRaw_def Let_def g_idx_def)

lemma setCellRaw_wf [wf_intros]: "wf_grid g \<Longrightarrow> wf_grid (Grid_setCellRaw g x y c)"
  by (auto simp: wf_grid_def Grid_setCellRaw_def Let_def dest!: set_update_subset_insert [THEN subsetD])

text \<open>The abstract effect of a raw write: one point of the cell map changes.\<close>

lemma Grid_Cell_setCellRaw:
  assumes "wf_grid g" and "in_grid g x y"
  shows "Grid_Cell (Grid_setCellRaw g x y c) u v = (if u = x \<and> v = y then c else Grid_Cell g u v)"
proof (cases "in_grid g u v")
  case True
  note b = g_idx_bound [OF assms] g_idx_bound [OF assms(1) True]
  have "g_idx g x y = g_idx g u v \<longleftrightarrow> x = u \<and> y = v" by (rule g_idx_inject [OF assms(2) True])
  with b True show ?thesis
    by (auto simp: Grid_Cell_def Grid_setCellRaw_def Let_def in_grid_def g_idx_def nth_list_update)
next
  case False
  with assms(2) show ?thesis
    by (auto simp: Grid_Cell_def in_grid_def)
qed

lemma Grid_Cell_outside: "\<not> in_grid g x y \<Longrightarrow> Grid_Cell g x y = zero_cell"
  by (auto simp: Grid_Cell_def in_grid_def)

lemma Grid_liveCell_fst: "Grid_liveCell g x y = (c, ok) \<Longrightarrow> c = Grid_Cell g x y"
  by (auto simp: Grid_liveCell_def Grid_Cell_def Let_def split: if_splits)

lemma zero_cell_simps [simp]:
  "\<not> IsContinuation zero_cell" "RuneWidth rw (Ch zero_cell) = 1"
  by (simp_all add: IsContinuation_def zero_cell_def WideContinuation_def RuneWidth_def)

lemma IsContinuation_mk [simp]: "IsContinuation \<lparr>Ch = WideContinuation, St = s\<rparr>"
  by (simp add: IsContinuation_def)

lemma Grid_liveCell_dead: "Grid_liveCell g x y = (c, False) \<Longrightarrow> Grid_Cell g x y = zero_cell"
  by (auto simp: Grid_liveCell_def Grid_Cell_def Let_def split: if_splits)

subsection \<open>The abstract effect of SetCell\<close>

text \<open>On the cell map \<open>f\<close> of a grid with \<open>cols\<close> columns: clearing the other half of a wide rune,
  then writing the cell and its continuation.\<close>

definition clear_spec :: "(rune \<Rightarrow> int) \<Rightarrow> int \<Rightarrow> (int \<Rightarrow> int \<Rightarrow> cell) \<Rightarrow> int \<Rightarrow> int \<Rightarrow> int \<Rightarrow> int \<Rightarrow> cell" where
  "clear_spec rw cols f x y u v =
     (if v = y \<and> u = x - 1 \<and> x \<noteq> 0 \<and> IsContinuation (f x y) \<and> RuneWidth rw (Ch (f u v)) = 2
        then zero_cell
      else if v = y \<and> u = x + 1 \<and> u < cols \<and> \<not> IsContinuation (f x y)
              \<and> RuneWidth rw (Ch (f x y)) = 2 \<and> IsContinuation (f u v)
        then zero_cell
      else f u v)"

definition set_spec :: "(rune \<Rightarrow> int) \<Rightarrow> int \<Rightarrow> (int \<Rightarrow> int \<Rightarrow> cell) \<Rightarrow> int \<Rightarrow> int \<Rightarrow> cell \<Rightarrow> int \<Rightarrow> int \<Rightarrow> cell" where
  "set_spec rw cols f x y c u v =
     (if v = y \<and> u = x + 1 \<and> u < cols \<and> RuneWidth rw (Ch c) = 2
        then \<lparr>Ch = WideContinuation, St = St c\<rparr>
      else if v = y \<and> u = x then c
      else clear_spec rw cols f x y u v)"

lemma clearWideOverlap_wf [wf_intros]: "wf_grid g \<Longrightarrow> wf_grid (Grid_clearWideOverlap rw g x y)"
  by (auto simp: Grid_clearWideOverlap_def split: prod.splits intro: wf_intros)

lemma clearWideOverlap_frame [simp]:
  "g_cols (Grid_clearWideOverlap rw g x y) = g_cols g"
  "g_rows (Grid_clearWideOverlap rw g x y) = g_rows g"
  "g_generation (Grid_clearWideOverlap rw g x y) = g_generation g"
  "g_cap (Grid_clearWideOverlap rw g x y) = g_cap g"
  "in_grid (Grid_clearWideOverlap rw g x y) u v = in_grid g u v"
  by (auto simp: Grid_clearWideOverlap_def split: prod.splits)

lemma liveCell_view:
  "Grid_liveCell g x y = (Grid_Cell g x y, snd (Grid_liveCell g x y))"
  "\<not> snd (Grid_liveCell g x y) \<Longrightarrow> Grid_Cell g x y = zero_cell"
  by (auto simp: Grid_liveCell_def Grid_Cell_def Let_def)

lemma liveCell_cont: "IsContinuation (Grid_Cell g x y) \<Longrightarrow> snd (Grid_liveCell g x y)"
  using liveCell_view(2) by fastforce

lemma liveCell_wide: "RuneWidth rw (Ch (Grid_Cell g x y)) = 2 \<Longrightarrow> snd (Grid_liveCell g x y)"
  by (rule ccontr) (simp add: liveCell_view(2))

text \<open>\<open>clearWideOverlap\<close> over the cell map, its liveness tests resolved.\<close>

lemma clearWideOverlap_cases:
  "Grid_clearWideOverlap rw g x y =
     (if IsContinuation (Grid_Cell g x y)
      then (if x \<noteq> 0 \<and> RuneWidth rw (Ch (Grid_Cell g (x - 1) y)) = 2
            then Grid_setCellRaw g (x - 1) y zero_cell else g)
      else if RuneWidth rw (Ch (Grid_Cell g x y)) = 2 \<and> x + 1 < g_cols g
              \<and> IsContinuation (Grid_Cell g (x + 1) y)
      then Grid_setCellRaw g (x + 1) y zero_cell else g)"
proof -
  obtain ok where l: "Grid_liveCell g x y = (Grid_Cell g x y, ok)" using liveCell_view(1) by blast
  obtain ok1 where l1: "Grid_liveCell g (x - 1) y = (Grid_Cell g (x - 1) y, ok1)"
    using liveCell_view(1) by blast
  obtain ok2 where l2: "Grid_liveCell g (x + 1) y = (Grid_Cell g (x + 1) y, ok2)"
    using liveCell_view(1) by blast
  have "IsContinuation (Grid_Cell g x y) \<Longrightarrow> ok" "RuneWidth rw (Ch (Grid_Cell g x y)) = 2 \<Longrightarrow> ok"
    "RuneWidth rw (Ch (Grid_Cell g (x - 1) y)) = 2 \<Longrightarrow> ok1" "IsContinuation (Grid_Cell g (x + 1) y) \<Longrightarrow> ok2"
    using liveCell_cont [of g x y] liveCell_wide [of rw g x y] liveCell_wide [of rw g "x - 1" y]
      liveCell_cont [of g "x + 1" y] by (simp_all add: l l1 l2)
  then show ?thesis by (auto simp: Grid_clearWideOverlap_def l l1 l2)
qed

lemma Grid_Cell_clearWideOverlap:
  assumes "wf_grid g" and "in_grid g x y"
  shows "Grid_Cell (Grid_clearWideOverlap rw g x y) = clear_spec rw (g_cols g) (Grid_Cell g) x y"
proof (intro ext)
  fix u v
  have "in_grid g (x - 1) y" if "x \<noteq> 0" using that assms(2) by (auto simp: in_grid_def)
  moreover have "in_grid g (x + 1) y" if "x + 1 < g_cols g" using that assms(2) by (auto simp: in_grid_def)
  ultimately show "Grid_Cell (Grid_clearWideOverlap rw g x y) u v
      = clear_spec rw (g_cols g) (Grid_Cell g) x y u v"
    by (auto simp: clearWideOverlap_cases clear_spec_def Grid_Cell_setCellRaw [OF assms(1)])
qed

lemma SetCell_wf [wf_intros]: "wf_grid g \<Longrightarrow> wf_grid (Grid_SetCell rw g x y c)"
  by (auto simp: Grid_SetCell_def Let_def intro!: wf_intros)

lemma SetCell_frame [simp]:
  "g_cols (Grid_SetCell rw g x y c) = g_cols g" "g_rows (Grid_SetCell rw g x y c) = g_rows g"
  "g_cap (Grid_SetCell rw g x y c) = g_cap g" "in_grid (Grid_SetCell rw g x y c) u v = in_grid g u v"
  by (auto simp: Grid_SetCell_def Let_def)

lemma SetCell_outside: "\<not> in_grid g x y \<Longrightarrow> Grid_SetCell rw g x y c = g"
  by (auto simp: Grid_SetCell_def in_grid_def)

lemma Grid_Cell_SetCell:
  assumes "wf_grid g" and "in_grid g x y"
  shows "Grid_Cell (Grid_SetCell rw g x y c) = set_spec rw (g_cols g) (Grid_Cell g) x y c"
proof (intro ext)
  fix u v
  let ?g1 = "Grid_clearWideOverlap rw g x y"
  have wf: "wf_grid ?g1" using assms(1) by (rule wf_intros)
  have "Grid_Cell (Grid_setCellRaw ?g1 x y c) u v =
      (if u = x \<and> v = y then c else clear_spec rw (g_cols g) (Grid_Cell g) x y u v)"
    using assms by (simp add: Grid_Cell_setCellRaw [OF wf] Grid_Cell_clearWideOverlap)
  moreover have "in_grid g (x + 1) y" if "x + 1 < g_cols g"
    using that assms(2) by (auto simp: in_grid_def)
  moreover have "\<not> (x < 0 \<or> x \<ge> g_cols g \<or> y < 0 \<or> y \<ge> g_rows g)"
    using assms(2) by (auto simp: in_grid_def)
  ultimately show "Grid_Cell (Grid_SetCell rw g x y c) u v = set_spec rw (g_cols g) (Grid_Cell g) x y c u v"
    using setCellRaw_wf [OF wf]
    by (auto simp: Grid_SetCell_def set_spec_def Let_def Grid_Cell_setCellRaw)
qed

subsection \<open>The wide-rune invariant\<close>

text \<open>A continuation cell has a wide main cell on its left, and a wide main cell that is not in
  the last column has its continuation on its right.\<close>

definition wide_ok :: "(rune \<Rightarrow> int) \<Rightarrow> grid \<Rightarrow> bool" where
  "wide_ok rw g \<longleftrightarrow>
     (\<forall>x y. IsContinuation (Grid_Cell g x y) \<longrightarrow> RuneWidth rw (Ch (Grid_Cell g (x - 1) y)) = 2) \<and>
     (\<forall>x y. RuneWidth rw (Ch (Grid_Cell g x y)) = 2 \<longrightarrow> x + 1 < g_cols g \<longrightarrow>
        IsContinuation (Grid_Cell g (x + 1) y))"

text \<open>Documented by go-runewidth: an invalid code point has width 0, so the sentinel is not wide.\<close>

definition sentinel_narrow :: "(rune \<Rightarrow> int) \<Rightarrow> bool" where
  "sentinel_narrow rw \<longleftrightarrow> rw WideContinuation = 0"

lemma sentinel_width: "sentinel_narrow rw \<Longrightarrow> IsContinuation c \<Longrightarrow> RuneWidth rw (Ch c) \<noteq> 2"
  by (auto simp: sentinel_narrow_def IsContinuation_def RuneWidth_def WideContinuation_def)

lemma SetCell_wide_ok_aux:
  assumes wf: "wf_grid g" and ing: "in_grid g x y" and sn: "sentinel_narrow rw" and ok: "wide_ok rw g"
    and c: "\<not> IsContinuation c"
    and right: "RuneWidth rw (Ch c) = 2 \<Longrightarrow> RuneWidth rw (Ch (Grid_Cell g (x + 1) y)) \<noteq> 2"
  shows "wide_ok rw (Grid_SetCell rw g x y c)"
proof -
  let ?f = "Grid_Cell g" and ?h = "set_spec rw (g_cols g) (Grid_Cell g) x y c"
  let ?W = "\<lambda>d. RuneWidth rw (Ch d) = 2"
  have cont: "\<And>u v. IsContinuation (?f u v) \<Longrightarrow> ?W (?f (u - 1) v)"
    and main: "\<And>u v. ?W (?f u v) \<Longrightarrow> u + 1 < g_cols g \<Longrightarrow> IsContinuation (?f (u + 1) v)"
    using ok by (auto simp: wide_ok_def)
  have nw: "\<And>d. IsContinuation d \<Longrightarrow> \<not> ?W d" using sn by (rule sentinel_width)
  have nwc: "RuneWidth rw WideContinuation \<noteq> 2" using sn
    by (simp add: sentinel_narrow_def RuneWidth_def WideContinuation_def)
  have x: "0 \<le> x" "x < g_cols g" using ing by (auto simp: in_grid_def)
  have "?W (?h (u - 1) v)" if "IsContinuation (?h u v)" for u v
  proof (cases "v = y")
    case True
    consider "u = x" | "u = x + 1" | "u \<noteq> x" "u \<noteq> x + 1" by blast
    then show ?thesis
    proof cases
      case 1
      with that True c show ?thesis by (simp add: set_spec_def)
    next
      case 2
      show ?thesis
      proof (rule ccontr)
        assume "\<not> ?W (?h (u - 1) v)"
        with 2 True have "\<not> ?W c" by (simp add: set_spec_def)
        with 2 that True have k: "IsContinuation (clear_spec rw (g_cols g) ?f x y (x + 1) y)"
          by (simp add: set_spec_def)
        then have f1: "IsContinuation (?f (x + 1) y)" by (simp add: clear_spec_def split: if_splits)
        with cont [of "x + 1" y] have "?W (?f x y)" by simp
        moreover have "x + 1 < g_cols g" using f1 by (rule contrapos_pp) (simp add: Grid_Cell_outside in_grid_def)
        ultimately show False using k f1 nw [of "?f x y"] by (auto simp: clear_spec_def split: if_splits)
      qed
    next
      case 3
      with that True have "IsContinuation (clear_spec rw (g_cols g) ?f x y u y)" by (simp add: set_spec_def)
      then have "IsContinuation (?f u y)" by (simp add: clear_spec_def split: if_splits)
      with cont have "?W (?f (u - 1) y)" by simp
      with right nw [of "?f (u - 1) y"] have "?h (u - 1) y = ?f (u - 1) y"
        using 3 by (auto simp: set_spec_def clear_spec_def add.commute)
      with \<open>?W (?f (u - 1) y)\<close> True show ?thesis by simp
    qed
  next
    case False
    with that cont show ?thesis by (auto simp: set_spec_def clear_spec_def)
  qed
  moreover have "IsContinuation (?h (u + 1) v)" if "?W (?h u v)" "u + 1 < g_cols g" for u v
  proof (cases "v = y")
    case True
    consider "u = x" | "u = x + 1" | "u + 1 = x" | "u \<noteq> x" "u \<noteq> x + 1" "u + 1 \<noteq> x" by blast
    then show ?thesis
    proof cases
      case 2
      with that True right main [of u y] nw nwc show ?thesis
        by (auto simp: set_spec_def clear_spec_def split: if_splits dest: nw)
    next
      case 3
      then have u: "u = x - 1" by simp
      have "\<not> ?W (clear_spec rw (g_cols g) ?f x y u y)"
      proof (cases "?W (?f u y)")
        case True
        with main [of u y] u x have "IsContinuation (?f x y)" by simp
        with True u x show ?thesis
          by (cases "x = 0") (auto simp: clear_spec_def Grid_Cell_outside in_grid_def)
      qed (auto simp: clear_spec_def)
      with that True u show ?thesis by (simp add: set_spec_def)
    next
      case 4
      with that True main [of u y] nw [of "?f (u + 1) y"] show ?thesis
        by (auto simp: set_spec_def clear_spec_def split: if_splits)
    qed (use that True in \<open>auto simp: set_spec_def\<close>)
  next
    case False
    with that main show ?thesis by (auto simp: set_spec_def clear_spec_def)
  qed
  ultimately show ?thesis
    by (auto simp: wide_ok_def Grid_Cell_SetCell [OF wf ing])
qed

subsection \<open>Reset and Resize\<close>

lemma word_succ_gt:
  assumes "(w :: u64) + 1 \<noteq> 0" and "s \<le> w" shows "s < w + 1"
proof -
  from assms(1) have "w \<noteq> - 1" by auto
  then have "w < w + 1" using inc_less_eq_self_iff_eq [of w] by (simp add: not_le)
  with assms(2) show ?thesis by (rule order.strict_trans1)
qed

lemma Reset_frame [simp]:
  "g_cols (Grid_Reset g) = g_cols g" "g_rows (Grid_Reset g) = g_rows g" "g_cap (Grid_Reset g) = g_cap g"
  "length (g_cells (Grid_Reset g)) = length (g_cells g)"
  by (auto simp: Grid_Reset_def Let_def)

lemma Reset_wf [wf_intros]:
  assumes "wf_grid g" shows "wf_grid (Grid_Reset g)"
proof (cases "g_generation g + 1 = 0")
  case True
  with assms show ?thesis by (auto simp: Grid_Reset_def wf_grid_def Let_def)
next
  case False
  with assms word_succ_gt [OF False] show ?thesis
    by (auto simp: Grid_Reset_def wf_grid_def Let_def intro: less_imp_le)
qed

lemma Reset_blank:
  assumes "wf_grid g" shows "Grid_Cell (Grid_Reset g) x y = zero_cell"
proof (cases "in_grid g x y")
  case True
  from assms True have b: "g_idx g x y < length (g_cellGen g)" "g_idx g x y < length (g_cells g)"
    by (auto intro: g_idx_bound)
  show ?thesis
  proof (cases "g_generation g + 1 = 0")
    case True
    with b show ?thesis by (auto simp: Grid_Cell_def Grid_Reset_def Let_def g_idx_def)
  next
    case False
    have "g_cellGen g ! g_idx g x y \<le> g_generation g"
      using b(1) assms by (auto simp: wf_grid_def)
    with word_succ_gt [OF False] have "g_cellGen g ! g_idx g x y \<noteq> g_generation g + 1" by force
    with False show ?thesis by (auto simp: Grid_Cell_def Grid_Reset_def Let_def g_idx_def)
  qed
next
  case False
  then show ?thesis by (intro Grid_Cell_outside) (auto simp: in_grid_def)
qed

lemma row_room:
  assumes "oldCols * oldRows \<le> length xs" and "v < (oldRows :: nat)"
  shows "v * oldCols + oldCols \<le> length xs"
proof -
  have "Suc v * oldCols \<le> oldRows * oldCols" using assms(2) by (intro mult_le_mono1) auto
  with assms(1) show ?thesis by (simp add: mult.commute)
qed

lemma resize_row_length:
  assumes "oldCols * oldRows \<le> length xs"
  shows "length (if y < min rows oldRows
              then take (min cols oldCols) (drop (y * oldCols) xs) @ replicate (cols - min cols oldCols) z
              else replicate cols z) = cols"
  using row_room [OF assms, of y] by (auto simp: min_def)

lemma length_resize_rows [simp]:
  assumes "oldCols * oldRows \<le> length xs"
  shows "length (resize_rows z xs oldCols oldRows cols rows) = rows * cols"
  unfolding resize_rows_def
  by (intro length_concat_rows) (rule resize_row_length [OF assms])

lemma nth_resize_rows:
  assumes "oldCols * oldRows \<le> length xs" and "x < cols" and "y < rows"
  shows "resize_rows z xs oldCols oldRows cols rows ! (y * cols + x)
    = (if y < oldRows \<and> x < oldCols then xs ! (y * oldCols + x) else z)"
proof -
  let ?f = "\<lambda>y. if y < min rows oldRows
              then take (min cols oldCols) (drop (y * oldCols) xs) @ replicate (cols - min cols oldCols) z
              else replicate cols z"
  have "resize_rows z xs oldCols oldRows cols rows ! (y * cols + x) = ?f y ! x"
    unfolding resize_rows_def using assms(2,3)
    by (intro nth_concat_rows resize_row_length [OF assms(1)])
  also have "\<dots> = (if y < oldRows \<and> x < oldCols then xs ! (y * oldCols + x) else z)"
    using assms(2,3) row_room [OF assms(1), of y] by (auto simp: nth_append)
  finally show ?thesis .
qed

text \<open>\<open>Resize\<close> to dimensions whose true product fits never panics.\<close>

lemma Resize_cases:
  assumes wf: "wf_grid g" and pos: "0 < cols" "0 < rows" and small: "cols * rows \<le> MaxInt32"
  obtains g' where "Grid_Resize g cols rows = Inr g'" and "wf_grid g'" and "g_cols g' = cols"
    and "g_rows g' = rows"
    and "\<And>x y. Grid_Cell g' x y = (if 0 \<le> x \<and> x < cols \<and> 0 \<le> y \<and> y < rows then Grid_Cell g x y else zero_cell)"
proof -
  let ?oc = "nat (g_cols g)" and ?or = "nat (g_rows g)"
  have w: "wrap64 (cols * rows) = cols * rows" using pos small by (intro wrap64_small) auto
  have gpos: "0 < g_cols g" "0 < g_rows g" using wf by (auto simp: wf_grid_def)
  have len: "?oc * ?or \<le> length (g_cells g)" "?oc * ?or \<le> length (g_cellGen g)"
    using wf by (auto simp: wf_grid_def nat_mult_distrib)
  consider "cols = g_cols g" "rows = g_rows g" | "cols = g_cols g" "rows < g_rows g"
    | "cols \<noteq> g_cols g \<or> rows > g_rows g" by linarith
  then show thesis
  proof cases
    case 1
    then show thesis using wf pos
      by (intro that [of g]) (auto simp: Grid_Resize_def Grid_Cell_def)
  next
    case 2
    define g' where "g' = g\<lparr>g_cells := take (nat (cols * rows)) (g_cells g),
        g_cellGen := take (nat (cols * rows)) (g_cellGen g), g_rows := rows\<rparr>"
    have n: "cols * rows \<le> g_cols g * g_rows g" using 2 gpos by simp
    have cap: "cols * rows \<le> int (g_cap g)" using n wf by (auto simp: wf_grid_def)
    have eq: "Grid_Resize g cols rows = Inr g'"
      using 2 pos small w cap by (simp add: Grid_Resize_def g'_def Let_def not_less)
    have "cols * rows < g_cols g * g_rows g" using 2 gpos by simp
    then have wf': "wf_grid g'"
      using wf pos small 2 n cap
      by (auto simp: wf_grid_def g'_def nat_mono nat_le_iff dest!: in_set_takeD)
    have "Grid_Cell g' x y = (if 0 \<le> x \<and> x < cols \<and> 0 \<le> y \<and> y < rows then Grid_Cell g x y else zero_cell)" for x y
    proof (cases "in_grid g' x y")
      case True
      then have "0 \<le> y * g_cols g + x" "y * g_cols g + x < cols * rows" using 2 pos
        by (auto simp: in_grid_def g'_def intro: row_major_bound [THEN conjunct1] row_major_bound [THEN conjunct2])
      with True 2 show ?thesis
        by (auto simp: Grid_Cell_def g'_def in_grid_def g_idx_def Let_def nat_mono_iff)
    next
      case False
      with 2 show ?thesis by (simp add: Grid_Cell_outside) (auto simp: in_grid_def g'_def)
    qed
    with eq wf' 2 show thesis by (intro that [of g']) (auto simp: g'_def)
  next
    case 3
    define n where "n = nat (cols * rows)"
    define g' where "g' = g\<lparr>g_cells := take n (resize_rows zero_cell (g_cells g) ?oc ?or (nat cols) (nat rows)),
        g_cellGen := take n (resize_rows 0 (g_cellGen g) ?oc ?or (nat cols) (nat rows)),
        g_cols := cols, g_rows := rows, g_cap := n\<rparr>"
    have n: "nat rows * nat cols = n" using pos by (simp add: n_def nat_mult_distrib mult.commute)
    have "(min rows (g_rows g) - 1) * cols + min cols (g_cols g) \<le> (rows - 1) * cols + cols"
      using pos by (intro add_mono mult_right_mono) auto
    also have "\<dots> = cols * rows" by (simp add: algebra_simps)
    finally have fits: "(min rows (g_rows g) - 1) * cols + min cols (g_cols g) \<le> cols * rows" .
    have br: "\<not> (cols = g_cols g \<and> rows = g_rows g)" "\<not> (cols = g_cols g \<and> rows < g_rows g)"
      "\<not> (cols \<le> 0 \<or> rows \<le> 0)" "\<not> cols * rows < 0" "\<not> cols * rows > MaxInt32"
      "\<not> (min rows (g_rows g) - 1) * cols + min cols (g_cols g) > cols * rows"
      using 3 pos small fits by (auto simp: not_less)
    have eq: "Grid_Resize g cols rows = Inr g'"
      unfolding Grid_Resize_def w Let_def if_not_P [OF br(1)] if_not_P [OF br(2)] if_not_P [OF br(3)]
        if_not_P [OF br(4)] if_not_P [OF br(5)] if_not_P [OF br(6)]
      by (simp add: g'_def n_def)
    have nthC: "g_cells g' ! nat (y * cols + x) =
        (if y < g_rows g \<and> x < g_cols g then g_cells g ! nat (y * g_cols g + x) else zero_cell)"
      and nthG: "g_cellGen g' ! nat (y * cols + x) =
        (if y < g_rows g \<and> x < g_cols g then g_cellGen g ! nat (y * g_cols g + x) else 0)"
      if "0 \<le> x" "x < cols" "0 \<le> y" "y < rows" for x y
    proof -
      have idx: "nat (y * c + x) = nat y * nat c + nat x" if "0 < c" for c
        using \<open>0 \<le> x\<close> \<open>0 \<le> y\<close> that by (simp add: nat_add_distrib nat_mult_distrib)
      have lt: "nat y * nat cols + nat x < n"
        using row_major_bound [OF that] by (simp add: n_def flip: idx [OF pos(1)])
      have c: "nat y < ?or \<longleftrightarrow> y < g_rows g" "nat x < ?oc \<longleftrightarrow> x < g_cols g"
        using that gpos by auto
      show "g_cells g' ! nat (y * cols + x) =
        (if y < g_rows g \<and> x < g_cols g then g_cells g ! nat (y * g_cols g + x) else zero_cell)"
        using nth_resize_rows [OF len(1), of "nat x" "nat cols" "nat y" "nat rows" zero_cell] lt that
        by (simp add: g'_def idx pos gpos c)
      show "g_cellGen g' ! nat (y * cols + x) =
        (if y < g_rows g \<and> x < g_cols g then g_cellGen g ! nat (y * g_cols g + x) else 0)"
        using nth_resize_rows [OF len(2), of "nat x" "nat cols" "nat y" "nat rows" 0] lt that
        by (simp add: g'_def idx pos gpos c)
    qed
    have stamps: "s \<le> g_generation g" if "s \<in> set (g_cellGen g')" for s
      using that wf by (auto simp: g'_def wf_grid_def resize_rows_def split: if_splits
          dest!: in_set_takeD in_set_dropD)
    have wf': "wf_grid g'" using wf pos small stamps n len
      by (auto simp: wf_grid_def g'_def n_def)
    have "Grid_Cell g' x y = (if 0 \<le> x \<and> x < cols \<and> 0 \<le> y \<and> y < rows then Grid_Cell g x y else zero_cell)" for x y
    proof (cases "0 \<le> x \<and> x < cols \<and> 0 \<le> y \<and> y < rows")
      case True
      then show ?thesis using nthC [of x y] nthG [of x y] wf
        by (auto simp: Grid_Cell_def g_idx_def Let_def wf_grid_def) (auto simp: g'_def)
    next
      case False
      then show ?thesis by (auto simp: Grid_Cell_def g'_def)
    qed
    with eq wf' show thesis by (intro that [of g']) (auto simp: g'_def)
  qed
qed

subsection \<open>Properties\<close>


definition sample_grid :: grid where
  "sample_grid = \<lparr>g_cols = 3, g_rows = 1, g_cells = replicate 3 zero_cell, g_cellGen = replicate 3 0,
     g_generation = 1, g_cap = 3\<rparr>"

lemma sample_grid_wf: "wf_grid sample_grid"
  by (simp add: sample_grid_def wf_grid_def MaxInt32_def)


text \<open>\<open>SetCell\<close> keeps the wide-rune invariant (no continuation without its wide main cell, no
  wide main cell without its continuation) provided the cell is not itself a continuation and a wide
  rune is not written directly left of another wide rune's main cell.\<close>

theorem SetCell_wide_ok:
  assumes "wf_grid g" and "sentinel_narrow rw" and "wide_ok rw g" and "\<not> IsContinuation c"
    and "RuneWidth rw (Ch c) = 2 \<Longrightarrow> RuneWidth rw (Ch (Grid_Cell g (x + 1) y)) \<noteq> 2"
  shows "wide_ok rw (Grid_SetCell rw g x y c)"
  using assms SetCell_wide_ok_aux [of g x y rw c] SetCell_outside [of g x y rw c] by (cases "in_grid g x y") auto

definition wide_rw :: "rune \<Rightarrow> int" where
  "wide_rw r = (if r = - 1 then 0 else 2)"

theorem SetCell_wide_ok_witness:
  "wide_ok wide_rw (Grid_SetCell wide_rw sample_grid 1 0 \<lparr>Ch = 0x4E2D, St = zero_style\<rparr>)"
proof (rule SetCell_wide_ok [OF sample_grid_wf])
  have z: "Grid_Cell sample_grid x y = zero_cell" for x y
    by (auto simp: sample_grid_def Grid_Cell_def Let_def g_idx_def nth_Cons' zero_cell_def)
  show "sentinel_narrow wide_rw" by (simp add: sentinel_narrow_def wide_rw_def WideContinuation_def)
  show "wide_ok wide_rw sample_grid" by (simp add: wide_ok_def z)
  show "\<not> IsContinuation \<lparr>Ch = 0x4E2D, St = zero_style\<rparr>" by (simp add: IsContinuation_def WideContinuation_def)
  show "RuneWidth wide_rw (Ch (Grid_Cell sample_grid (1 + 1) 0)) \<noteq> 2" by (simp add: z)
qed

text \<open>The proviso is needed: on a well-formed grid that satisfies the wide-rune invariant, writing
  a wide rune directly left of another wide rune leaves the second rune's continuation behind, with
  no main cell; \<open>clearWideOverlap\<close> looks at column \<open>x\<close> only, not at the column the new
  continuation overwrites.\<close>

theorem SetCell_wide_orphan:
  "\<exists>g c. wf_grid g \<and> wide_ok wide_rw g \<and> \<not> IsContinuation c \<and> in_grid g 0 0 \<and>
     \<not> wide_ok wide_rw (Grid_SetCell wide_rw g 0 0 c) \<and>
     IsContinuation (Grid_Cell (Grid_SetCell wide_rw g 0 0 c) 2 0) \<and>
     IsContinuation (Grid_Cell (Grid_SetCell wide_rw g 0 0 c) 1 0)"
proof -
  let ?w = "\<lparr>Ch = 0x4E2D, St = zero_style\<rparr>" and ?k = "\<lparr>Ch = WideContinuation, St = zero_style\<rparr>"
  let ?g = "sample_grid\<lparr>g_cells := [zero_cell, ?w, ?k], g_cellGen := [1, 1, 1]\<rparr>"
  have cell: "Grid_Cell ?g x y = (if y = 0 \<and> x = 1 then ?w else if y = 0 \<and> x = 2 then ?k else zero_cell)" for x y
    by (auto simp: sample_grid_def Grid_Cell_def Let_def g_idx_def nth_Cons')
  have wf: "wf_grid ?g" by (simp add: sample_grid_def wf_grid_def MaxInt32_def)
  have ing: "in_grid ?g 0 0" by (simp add: in_grid_def sample_grid_def)
  have w2: "RuneWidth wide_rw 0x4E2D = 2" "RuneWidth wide_rw WideContinuation = 0"
    by (simp_all add: RuneWidth_def wide_rw_def WideContinuation_def)
  have kc: "IsContinuation ?k" "\<not> IsContinuation ?w" by (simp_all add: IsContinuation_def WideContinuation_def)
  have cols: "g_cols ?g = 3" by (simp add: sample_grid_def)
  have ok: "wide_ok wide_rw ?g"
    unfolding wide_ok_def cell cols by (auto simp: w2 kc)
  have eff: "Grid_Cell (Grid_SetCell wide_rw ?g 0 0 ?w) 2 0 = ?k" "Grid_Cell (Grid_SetCell wide_rw ?g 0 0 ?w) 1 0 = ?k"
    unfolding Grid_Cell_SetCell [OF wf ing] set_spec_def clear_spec_def cell cols
    by (simp_all add: w2 kc)
  have "\<not> wide_ok wide_rw (Grid_SetCell wide_rw ?g 0 0 ?w)"
  proof
    assume "wide_ok wide_rw (Grid_SetCell wide_rw ?g 0 0 ?w)"
    then have "IsContinuation (Grid_Cell (Grid_SetCell wide_rw ?g 0 0 ?w) 2 0) \<longrightarrow>
        RuneWidth wide_rw (Ch (Grid_Cell (Grid_SetCell wide_rw ?g 0 0 ?w) (2 - 1) 0)) = 2"
      unfolding wide_ok_def by blast
    with eff kc w2 show False by simp
  qed
  with wf ok ing eff show ?thesis
    by (intro exI [of _ ?g] exI [of _ ?w]) (simp add: IsContinuation_def WideContinuation_def)
qed

text \<open>\<open>Reset\<close> blanks every cell in one step, at every generation including the wrap-around of
  the 64-bit counter, and keeps the grid well-formed.\<close>

theorem Reset_blanks:
  assumes "wf_grid g"
  shows "wf_grid (Grid_Reset g) \<and> Grid_Size (Grid_Reset g) = Grid_Size g \<and>
    (\<forall>x y. Grid_Cell (Grid_Reset g) x y = zero_cell)"
  using Reset_wf [OF assms] Reset_blank [OF assms] by (simp add: Grid_Size_def)

theorem Reset_blanks_witness:
  "Grid_Cell (Grid_Reset (sample_grid\<lparr>g_generation := - 1, g_cellGen := [- 1, 0, 0],
      g_cells := replicate 3 \<lparr>Ch = 97, St = zero_style\<rparr>\<rparr>)) 0 0 = zero_cell"
proof -
  have "wf_grid (sample_grid\<lparr>g_generation := - 1, g_cellGen := [- 1, 0, 0],
      g_cells := replicate 3 \<lparr>Ch = 97, St = zero_style\<rparr>\<rparr>)"
    by (simp add: sample_grid_def wf_grid_def MaxInt32_def)
  from Reset_blanks [OF this] show ?thesis by blast
qed

text \<open>\<open>Resize\<close> to dimensions that fit succeeds, keeps every surviving cell at its coordinates,
  blanks the rest and yields a well-formed grid of the new size.\<close>

theorem Resize_preserves:
  assumes "wf_grid g" and "0 < cols" and "0 < rows" and "cols * rows \<le> MaxInt32"
  shows "\<exists>g'. Grid_Resize g cols rows = Inr g' \<and> wf_grid g' \<and> Grid_Size g' = (cols, rows) \<and>
    (\<forall>x y. Grid_Cell g' x y = (if 0 \<le> x \<and> x < cols \<and> 0 \<le> y \<and> y < rows then Grid_Cell g x y else zero_cell))"
  by (rule Resize_cases [OF assms]) (auto simp: Grid_Size_def)

theorem Resize_preserves_witness:
  "\<exists>g'. Grid_Resize sample_grid 2 2 = Inr g' \<and> wf_grid g' \<and> Grid_Size g' = (2, 2)"
  using Resize_preserves [OF sample_grid_wf, of 2 2] by (auto simp: MaxInt32_def)

text \<open>The dimension check of \<open>NewGrid\<close> is exact while the 64-bit product does not wrap, and only
  then: 2^32 by 2^32 passes it and yields a grid that claims every coordinate below 2^32 over an
  empty backing array.\<close>

theorem NewGrid_check:
  "(0 < cols \<longrightarrow> 0 < rows \<longrightarrow> cols * rows < 2 ^ 63 \<longrightarrow>
      (if cols * rows \<le> MaxInt32 then \<exists>g. NewGrid cols rows = Inr g \<and> wf_grid g
       else NewGrid cols rows = Inl ErrInvalidDimension)) \<and>
   (\<exists>g. NewGrid (2 ^ 32) (2 ^ 32) = Inr g \<and> in_grid g 0 0 \<and> g_cells g = [])"
proof (intro conjI impI)
  assume pos: "0 < cols" "0 < rows" and small: "cols * rows < 2 ^ 63"
  have nn: "0 \<le> cols * rows" using pos by simp
  have w: "wrap64 (cols * rows) = cols * rows" using nn small by (intro wrap64_id) auto
  have nw: "\<not> wrap64 (cols * rows) < 0" unfolding w using nn by (rule leD)
  have "\<not> cols \<le> 0" "\<not> rows \<le> 0" using pos by auto
  with nw show "if cols * rows \<le> MaxInt32 then \<exists>g. NewGrid cols rows = Inr g \<and> wf_grid g
       else NewGrid cols rows = Inl ErrInvalidDimension"
    using NewGrid_wf [of cols rows]
    by (cases "cols * rows \<le> MaxInt32") (simp_all add: NewGrid_def w Let_def)
next
  show "\<exists>g. NewGrid (2 ^ 32) (2 ^ 32) = Inr g \<and> in_grid g 0 0 \<and> g_cells g = []"
    by (auto simp: NewGrid_def wrap64_def MaxInt32_def in_grid_def Let_def)
qed

theorem NewGrid_check_witness: "\<exists>g. NewGrid 80 24 = Inr g \<and> wf_grid g"
  using NewGrid_check [of 80 24] by (simp add: MaxInt32_def)

end
