(* ===== verification/Pool.thy ===== *)
theory Pool
  imports Grid "HOL-Library.Multiset"
begin

text \<open>
  \<open>internal/app/cli/render/buffer/pool.go\<close>: the size-bucketed pool of grids.  Grids are shared by
  reference, so the model has an explicit store: a grid is a handle, \<open>p_heap\<close> maps handles to
  grids and the three sub-pools hold handles.  \<open>sync.Pool\<close> is Go's standard library: \<open>Get\<close>
  returns any parked item or none, and it may drop parked items at a collection, so \<open>Get\<close> takes the
  choice as an argument (\<open>pick\<close>: an index into the sub-pool, or a miss).
\<close>

type_synonym handle = nat

record pool =
  p_small :: "handle list"
  p_medium :: "handle list"
  p_large :: "handle list"
  p_heap :: "handle \<Rightarrow> grid option"
  p_next :: handle

definition SmallCapacity :: int where "SmallCapacity = 80 * 24"
definition MediumCapacity :: int where "MediumCapacity = 200 * 60"
definition LargeCapacity :: int where "LargeCapacity = 500 * 200"

lemmas capacities = SmallCapacity_def MediumCapacity_def LargeCapacity_def

definition NewBufferPool :: pool where
  "NewBufferPool = \<lparr>p_small = [], p_medium = [], p_large = [], p_heap = Map.empty, p_next = 0\<rparr>"

datatype bucket = Small | Medium | Large

definition subPoolFor :: "int \<Rightarrow> bucket option" where
  "subPoolFor needed =
     (if needed \<le> SmallCapacity then Some Small
      else if needed \<le> MediumCapacity then Some Medium
      else if needed \<le> LargeCapacity then Some Large
      else None)"

fun sub_get :: "bucket \<Rightarrow> pool \<Rightarrow> handle list" where
  "sub_get Small p = p_small p"
| "sub_get Medium p = p_medium p"
| "sub_get Large p = p_large p"

fun sub_put :: "bucket \<Rightarrow> handle list \<Rightarrow> pool \<Rightarrow> pool" where
  "sub_put Small hs p = p\<lparr>p_small := hs\<rparr>"
| "sub_put Medium hs p = p\<lparr>p_medium := hs\<rparr>"
| "sub_put Large hs p = p\<lparr>p_large := hs\<rparr>"

text \<open>\<open>sync.Pool.Get\<close>: the picked item leaves the sub-pool.\<close>

definition Pool_Get :: "pool \<Rightarrow> bucket \<Rightarrow> nat option \<Rightarrow> handle option \<times> pool" where
  "Pool_Get p b pick =
     (case pick of
        None \<Rightarrow> (None, p)
      | Some i \<Rightarrow> let hs = sub_get b p in
          if i < length hs then (Some (hs ! i), sub_put b (take i hs @ drop (Suc i) hs) p)
          else (None, p))"

text \<open>A fresh grid enters the store under a new handle.\<close>

definition Pool_alloc :: "pool \<Rightarrow> grid \<Rightarrow> handle \<times> pool" where
  "Pool_alloc p g = (p_next p, p\<lparr>p_heap := (p_heap p)(p_next p \<mapsto> g), p_next := Suc (p_next p)\<rparr>)"

definition Acquire :: "pool \<Rightarrow> int \<Rightarrow> int \<Rightarrow> nat option \<Rightarrow> (buffer_error + handle) \<times> pool" where
  "Acquire p cols rows pick =
     (if cols \<le> 0 \<or> rows \<le> 0 then (Inl ErrInvalidDimension, p)
      else if wrap64 (cols * rows) > MaxInt32 then (Inl ErrInvalidDimension, p)
      else let needed = wrap64 (cols * rows);
               got = (case subPoolFor needed of None \<Rightarrow> (None, p) | Some b \<Rightarrow> Pool_Get p b pick)
        in case fst got of
             None \<Rightarrow>
               (case NewGrid cols rows of
                  Inl err \<Rightarrow> (Inl err, snd got)
                | Inr fresh \<Rightarrow> (case Pool_alloc (snd got) fresh of (h, p') \<Rightarrow> (Inr h, p')))
           | Some h \<Rightarrow>
               (case Grid_Resize (the (p_heap p h)) cols rows of
                  Inl err \<Rightarrow> (Inl err, snd got)
                | Inr g \<Rightarrow> (Inr h, (snd got)\<lparr>p_heap := (p_heap p)(h \<mapsto> Grid_Reset g)\<rparr>)))"

text \<open>The bucket \<open>Release\<close> parks a grid in: by backing capacity; none drops it.\<close>

definition release_bucket :: "grid \<Rightarrow> bucket option" where
  "release_bucket g =
     (let c = int (g_cap g) in
      if c = 0 then None
      else if c \<le> SmallCapacity then Some Small
      else if c \<le> MediumCapacity then Some Medium
      else if c \<le> LargeCapacity then Some Large
      else None)"

definition Release :: "pool \<Rightarrow> handle option \<Rightarrow> pool" where
  "Release p ho =
     (case ho of
        None \<Rightarrow> p
      | Some h \<Rightarrow> (case release_bucket (the (p_heap p h)) of
                    None \<Rightarrow> p
                  | Some b \<Rightarrow> sub_put b (h # sub_get b p) p))"

subsection \<open>Ownership\<close>

definition parked :: "pool \<Rightarrow> handle list" where
  "parked p = p_small p @ p_medium p @ p_large p"

text \<open>The pool invariant relative to the handles \<open>out\<close> that callers own: no handle is parked twice
  or both parked and owned, every one of them is a well-formed grid of the store, and a parked
  grid's backing array fits its bucket.\<close>

definition bucket_fits :: "pool \<Rightarrow> bool" where
  "bucket_fits p \<longleftrightarrow>
     (\<forall>b. \<forall>h \<in> set (sub_get b p). release_bucket (the (p_heap p h)) = Some b)"

definition pool_ok :: "pool \<Rightarrow> handle list \<Rightarrow> bool" where
  "pool_ok p out \<longleftrightarrow>
     distinct (parked p @ out) \<and>
     (\<forall>h \<in> set (parked p @ out). h < p_next p \<and> (\<exists>g. p_heap p h = Some g \<and> wf_grid g)) \<and>
     bucket_fits p"

lemma parked_sub: "set (parked p) = (\<Union>b. set (sub_get b p))"
proof -
  have u: "(UNIV :: bucket set) = {Small, Medium, Large}"
  proof (rule UNIV_eq_I)
    fix b :: bucket show "b \<in> {Small, Medium, Large}" by (cases b) auto
  qed
  show ?thesis unfolding u by (simp add: parked_def)
qed

lemma sub_put_frame [simp]:
  "p_heap (sub_put b hs p) = p_heap p" "p_next (sub_put b hs p) = p_next p"
  by (cases b; simp)+

lemma sub_get_put [simp]: "sub_get b (sub_put c hs p) = (if b = c then hs else sub_get b p)"
  by (cases b; cases c) auto

lemma sub_get_heap [simp]:
  "sub_get b (p\<lparr>p_heap := h\<rparr>) = sub_get b p" "sub_get b (p\<lparr>p_next := n\<rparr>) = sub_get b p"
  "parked (p\<lparr>p_heap := h\<rparr>) = parked p" "parked (p\<lparr>p_next := n\<rparr>) = parked p"
  by (cases b; simp add: parked_def)+

lemma NewBufferPool_ok: "pool_ok NewBufferPool []"
proof -
  have "sub_get b NewBufferPool = []" for b by (cases b) (simp_all add: NewBufferPool_def)
  then show ?thesis by (simp add: pool_ok_def bucket_fits_def parked_def) (simp add: NewBufferPool_def)
qed

text \<open>Parking and unparking, as multisets: the handles of the pool change by exactly one.\<close>

lemma mset_parked_put:
  "mset (parked (sub_put b (h # sub_get b p) p)) = add_mset h (mset (parked p))"
  by (cases b) (auto simp: parked_def)

lemma mset_take_drop_nth: "i < length hs \<Longrightarrow> add_mset (hs ! i) (mset (take i hs @ drop (Suc i) hs)) = mset hs"
  by (metis id_take_nth_drop mset.simps(2) mset_append union_mset_add_mset_right)

lemma mset_parked_get:
  assumes "i < length (sub_get b p)"
  shows "add_mset (sub_get b p ! i) (mset (parked (sub_put b (take i (sub_get b p) @ drop (Suc i) (sub_get b p)) p)))
    = mset (parked p)"
  using mset_take_drop_nth [OF assms] by (cases b) (auto simp: parked_def)

lemma distinct_iff_mset: "mset xs = mset ys \<Longrightarrow> distinct xs \<longleftrightarrow> distinct ys"
  by (metis distinct_count_atmost_1 set_mset_mset)

lemma pool_ok_mset:
  assumes "pool_ok p out" and "mset (parked q @ out') = mset (parked p @ out)"
    and "p_heap q = p_heap p" and "p_next q = p_next p" and "bucket_fits q"
  shows "pool_ok q out'"
proof -
  have "set (parked q @ out') = set (parked p @ out)"
    using assms(2) by (metis set_mset_mset)
  moreover have "distinct (parked q @ out')"
    using assms(1,2) distinct_iff_mset unfolding pool_ok_def by blast
  ultimately show ?thesis using assms by (simp add: pool_ok_def)
qed

lemma Release_pool_ok [wf_intros]:
  assumes "pool_ok p (h # out)" shows "pool_ok (Release p (Some h)) out"
proof (cases "release_bucket (the (p_heap p h))")
  case None
  with assms show ?thesis by (auto simp: Release_def pool_ok_def)
next
  case (Some b)
  have "bucket_fits (Release p (Some h))"
    using assms Some by (auto simp: Release_def pool_ok_def bucket_fits_def)
  then show ?thesis using Some mset_parked_put [of b h p]
    by (intro pool_ok_mset [OF assms]) (simp_all add: Release_def)
qed

lemma Release_None [simp]: "Release p None = p"
  by (simp add: Release_def)

lemma Release_heap [simp]: "p_heap (Release p ho) = p_heap p"
  by (auto simp: Release_def split: option.splits)

lemma Pool_Get_cases:
  obtains "Pool_Get p b pick = (None, p)"
  | i where "pick = Some i" "i < length (sub_get b p)"
      "Pool_Get p b pick = (Some (sub_get b p ! i), sub_put b (take i (sub_get b p) @ drop (Suc i) (sub_get b p)) p)"
  unfolding Pool_Get_def Let_def by (cases pick) (simp_all, metis)

text \<open>Changing the grid behind an owned handle keeps the invariant.\<close>

lemma pool_ok_write:
  assumes "pool_ok p (h # out)" and "wf_grid g"
  shows "pool_ok (p\<lparr>p_heap := (p_heap p)(h \<mapsto> g)\<rparr>) (h # out)"
proof -
  have "h \<notin> set (sub_get b p)" for b
    using assms(1) parked_sub by (auto simp: pool_ok_def)
  then have "bucket_fits (p\<lparr>p_heap := (p_heap p)(h \<mapsto> g)\<rparr>)"
    using assms(1) unfolding pool_ok_def bucket_fits_def by auto
  with assms show ?thesis by (auto simp: pool_ok_def)
qed

lemma pool_ok_alloc:
  assumes "pool_ok p out" and "wf_grid g" and "Pool_alloc p g = (h, q)"
  shows "pool_ok q (h # out)" and "p_heap q h = Some g" and "h \<notin> set (parked p @ out)"
proof -
  have h: "h = p_next p" and q: "q = p\<lparr>p_heap := (p_heap p)(h \<mapsto> g), p_next := Suc h\<rparr>"
    using assms(3) by (auto simp: Pool_alloc_def)
  have lt: "k < h" if "k \<in> set (parked p @ out)" for k using that assms(1) h by (auto simp: pool_ok_def)
  then show fresh: "h \<notin> set (parked p @ out)" by blast
  show "p_heap q h = Some g" by (simp add: q)
  have "h \<notin> set (sub_get b p)" for b using fresh parked_sub by auto
  then have "bucket_fits q"
    using assms(1) unfolding pool_ok_def bucket_fits_def q by auto
  moreover have "distinct (parked q @ h # out)" using assms(1) fresh by (auto simp: pool_ok_def q)
  moreover have "\<forall>k \<in> set (parked q @ h # out). k < p_next q \<and> (\<exists>g. p_heap q k = Some g \<and> wf_grid g)"
    using assms(1,2) lt by (fastforce simp: pool_ok_def q)
  ultimately show "pool_ok q (h # out)" by (simp add: pool_ok_def)
qed

text \<open>\<open>Acquire\<close> with dimensions whose product fits always succeeds, whatever \<open>sync.Pool\<close> returns:
  a blank well-formed grid of the requested size, owned by nobody else.\<close>

lemma Acquire_spec:
  assumes ok: "pool_ok p out" and pos: "0 < cols" "0 < rows" and small: "cols * rows \<le> MaxInt32"
  obtains h q g where "Acquire p cols rows pick = (Inr h, q)" and "pool_ok q (h # out)"
    and "p_heap q h = Some g" and "wf_grid g" and "Grid_Size g = (cols, rows)"
    and "\<And>x y. Grid_Cell g x y = zero_cell"
    and "\<And>k. k \<in> set out \<Longrightarrow> p_heap q k = p_heap p k"
proof -
  have w: "wrap64 (cols * rows) = cols * rows" using pos small by (intro wrap64_small) auto
  have guard: "\<not> (cols \<le> 0 \<or> rows \<le> 0)" "\<not> cols * rows > MaxInt32" using pos small by auto
  define got where "got = (case subPoolFor (cols * rows) of None \<Rightarrow> (None, p) | Some b \<Rightarrow> Pool_Get p b pick)"
  have acq: "Acquire p cols rows pick = (case fst got of
             None \<Rightarrow> (case NewGrid cols rows of Inl err \<Rightarrow> (Inl err, snd got)
                | Inr fresh \<Rightarrow> (case Pool_alloc (snd got) fresh of (h, p') \<Rightarrow> (Inr h, p')))
           | Some h \<Rightarrow> (case Grid_Resize (the (p_heap p h)) cols rows of Inl err \<Rightarrow> (Inl err, snd got)
                | Inr g \<Rightarrow> (Inr h, (snd got)\<lparr>p_heap := (p_heap p)(h \<mapsto> Grid_Reset g)\<rparr>)))"
    unfolding Acquire_def if_not_P [OF guard(1)] w if_not_P [OF guard(2)] Let_def got_def ..
  consider (cold) "got = (None, p)"
    | (warm) b i where "i < length (sub_get b p)"
        "got = (Some (sub_get b p ! i), sub_put b (take i (sub_get b p) @ drop (Suc i) (sub_get b p)) p)"
    unfolding got_def by (cases "subPoolFor (cols * rows)") (simp, metis Pool_Get_cases option.simps(5))
  then show thesis
  proof cases
    case cold
    have "\<exists>g. NewGrid cols rows = Inr g"
      using guard w not_less_iff_gr_or_eq [of "cols * rows" 0, THEN iffD2, OF disjI1, OF mult_pos_pos [OF pos]]
      by (auto simp: NewGrid_def Let_def simp del: zero_less_mult_iff mult_less_0_iff)
    then obtain g where g: "NewGrid cols rows = Inr g" ..
    obtain h q where hq: "Pool_alloc p g = (h, q)" by fastforce
    have wf: "wf_grid g" "Grid_Size g = (cols, rows)" using NewGrid_wf [OF g small] by (auto simp: Grid_Size_def)
    note al = pool_ok_alloc [OF ok wf(1) hq]
    have blank: "Grid_Cell g x y = zero_cell" for x y
    proof (cases "in_grid g x y")
      case True
      with g_idx_bound [OF wf(1) True] g guard show ?thesis
        by (auto simp: NewGrid_def Grid_Cell_def Let_def g_idx_def split: if_splits)
    qed (rule Grid_Cell_outside)
    have "p_heap q k = p_heap p k" if "k \<in> set out" for k
      using that hq al(3) by (auto simp: Pool_alloc_def)
    with al wf blank show thesis
      by (intro that [of h q g]) (auto simp: acq cold g hq)
  next
    case warm
    let ?h = "sub_get b p ! i" and ?p1 = "sub_put b (take i (sub_get b p) @ drop (Suc i) (sub_get b p)) p"
    have in_b: "?h \<in> set (sub_get b p)" using warm(1) by simp
    then have "?h \<in> set (parked p @ out)" by (auto simp: parked_sub)
    then obtain g0 where g0: "p_heap p ?h = Some g0" "wf_grid g0"
      using ok unfolding pool_ok_def by blast
    obtain g1 where g1: "Grid_Resize g0 cols rows = Inr g1" "wf_grid g1" "g_cols g1 = cols" "g_rows g1 = rows"
      by (rule Resize_cases [OF g0(2) pos small])
    have fits: "bucket_fits ?p1"
      unfolding bucket_fits_def
    proof (intro allI ballI)
      fix c k assume "k \<in> set (sub_get c ?p1)"
      then have "k \<in> set (sub_get c p)" by (auto split: if_splits dest: in_set_takeD in_set_dropD)
      with ok show "release_bucket (the (p_heap ?p1 k)) = Some c" by (simp add: pool_ok_def bucket_fits_def)
    qed
    have m: "mset (parked ?p1 @ ?h # out) = mset (parked p @ out)"
      using mset_parked_get [OF warm(1)] by simp
    have p1: "pool_ok ?p1 (?h # out)"
      by (rule pool_ok_mset [OF ok m]) (simp_all add: fits)
    have q: "pool_ok (?p1\<lparr>p_heap := (p_heap p)(?h \<mapsto> Grid_Reset g1)\<rparr>) (?h # out)"
      using pool_ok_write [OF p1 Reset_wf [OF g1(2)]] by simp
    have "?h \<notin> set out" using p1 by (auto simp: pool_ok_def)
    with q g1 show thesis
      by (intro that [of ?h "?p1\<lparr>p_heap := (p_heap p)(?h \<mapsto> Grid_Reset g1)\<rparr>" "Grid_Reset g1"])
        (auto simp: acq warm g0 Grid_Size_def Reset_blank intro: wf_intros)
  qed
qed

definition int32_range :: "int \<Rightarrow> bool" where
  "int32_range v \<longleftrightarrow> - (2 ^ 31) \<le> v \<and> v < 2 ^ 31"

lemma int32_product: "int32_range c \<Longrightarrow> int32_range r \<Longrightarrow> 0 < c \<Longrightarrow> 0 < r \<Longrightarrow> wrap64 (c * r) = c * r"
proof (intro wrap64_id)
  assume a: "int32_range c" "int32_range r" "0 < c" "0 < r"
  then show "- (2 ^ 63) \<le> c * r" by (smt (verit) mult_pos_pos zero_less_power)
  have "c * r \<le> 2 ^ 31 * 2 ^ 31" using a by (intro mult_mono) (auto simp: int32_range_def)
  also have "\<dots> < (2 ^ 63 :: int)" by simp
  finally show "c * r < 2 ^ 63" .
qed

text \<open>The two outcomes of \<open>Acquire\<close> on \<open>int32\<close> dimensions: nothing changes, or a fresh owned blank grid.\<close>

lemma Acquire_rejects:
  assumes "int32_range c" and "int32_range r" and "c \<le> 0 \<or> r \<le> 0 \<or> c * r > MaxInt32"
  shows "Acquire p c r pick = (Inl ErrInvalidDimension, p)"
  using int32_product [OF assms(1,2)] assms(3) by (auto simp: Acquire_def not_le)

lemma Acquire_driver:
  assumes "pool_ok p out" and "int32_range c" and "int32_range r"
  obtains (bad) "Acquire p c r pick = (Inl ErrInvalidDimension, p)" "c \<le> 0 \<or> r \<le> 0 \<or> c * r > MaxInt32"
  | (good) h q g where "Acquire p c r pick = (Inr h, q)" "pool_ok q (h # out)" "p_heap q h = Some g"
      "wf_grid g" "Grid_Size g = (c, r)" "\<And>x y. Grid_Cell g x y = zero_cell"
      "\<And>k. k \<in> set out \<Longrightarrow> p_heap q k = p_heap p k"
proof (cases "c \<le> 0 \<or> r \<le> 0 \<or> c * r > MaxInt32")
  case True
  then have "Acquire p c r pick = (Inl ErrInvalidDimension, p)"
    by (rule Acquire_rejects [OF assms(2,3)])
  then show thesis using True by (rule bad)
next
  case False
  then show thesis using Acquire_spec [OF assms(1), of c r pick] good by (metis not_le)
qed

subsection \<open>Properties\<close>

text \<open>C22: Whatever item \<open>sync.Pool\<close> hands back, \<open>Acquire\<close> with dimensions that fit returns a blank
  well-formed grid of exactly the requested size that nobody else holds: no caller's handle is
  returned, no caller's grid changes, and the pool's ownership invariant holds with the new handle
  added.\<close>

theorem Acquire_exclusive:
  assumes "pool_ok p out" and "0 < cols" and "0 < rows" and "cols * rows \<le> MaxInt32"
  shows "\<exists>h q g. Acquire p cols rows pick = (Inr h, q) \<and> h \<notin> set out \<and> pool_ok q (h # out) \<and>
    p_heap q h = Some g \<and> wf_grid g \<and> Grid_Size g = (cols, rows) \<and> (\<forall>x y. Grid_Cell g x y = zero_cell) \<and>
    (\<forall>k. k \<in> set out \<longrightarrow> p_heap q k = p_heap p k)"
proof (rule Acquire_spec [OF assms, of pick])
  fix h q g
  assume "Acquire p cols rows pick = (Inr h, q)" "pool_ok q (h # out)" "p_heap q h = Some g" "wf_grid g"
    "Grid_Size g = (cols, rows)" "\<And>x y. Grid_Cell g x y = zero_cell" "\<And>k. k \<in> set out \<Longrightarrow> p_heap q k = p_heap p k"
  moreover from this(2) have "h \<notin> set out" by (simp add: pool_ok_def)
  ultimately show ?thesis by blast
qed

theorem Acquire_exclusive_witness:
  "\<exists>h q. Acquire (Release (snd (Acquire NewBufferPool 2 2 None)) (Some 0)) 3 1 (Some 0) = (Inr h, q) \<and> pool_ok q [h]"
proof -
  have a: "pool_ok (snd (Acquire NewBufferPool 2 2 None)) [0]"
    using Acquire_spec [OF NewBufferPool_ok, of 2 2 None]
    by (rule Acquire_spec [OF NewBufferPool_ok, of 2 2 None])
      (auto simp: MaxInt32_def Acquire_def wrap64_def subPoolFor_def capacities Pool_Get_def NewGrid_def
        Pool_alloc_def NewBufferPool_def Let_def)
  from Release_pool_ok [OF a] have "pool_ok (Release (snd (Acquire NewBufferPool 2 2 None)) (Some 0)) []" .
  from Acquire_exclusive [OF this, of 3 1 "Some 0"] show ?thesis by (auto simp: MaxInt32_def)
qed

end
