(* ===== verification/Paint.thy ===== *)
theory Paint
  imports Grid
begin

text \<open>
  \<open>internal/app/cli/render/paint/paint.go\<close>, the two blits, and the \<open>buffer.Buffer\<close> interface of
  \<open>buffer/buffer.go\<close> as a locale.  A source \<open>Buffer\<close> is only ever read through \<open>Size\<close> and
  \<open>Cell\<close>, so a value of the interface type is the record \<open>buf\<close> of these two methods
  (\<open>as_buf\<close> wraps a grid); \<open>nil\<close> is \<^const>\<open>None\<close>.  The locale states what a paint target
  promises; the painting lemmas are proved once inside it and \<^const>\<open>Grid_SetCell\<close> discharges it.
\<close>

record buf =
  b_size :: "int \<times> int"
  b_cell :: "int \<Rightarrow> int \<Rightarrow> cell"

definition as_buf :: "grid \<Rightarrow> buf" where
  "as_buf g = \<lparr>b_size = Grid_Size g, b_cell = Grid_Cell g\<rparr>"

definition Blit :: "(rune \<Rightarrow> int) \<Rightarrow> grid option \<Rightarrow> buf option \<Rightarrow> int \<Rightarrow> int \<Rightarrow> grid option" where
  "Blit rw dst src cols rows =
     (case (dst, src) of
        (Some d, Some s) \<Rightarrow>
          if cols \<le> 0 \<or> rows \<le> 0 then Some d
          else (let maxX = min (min cols (fst (b_size s))) (fst (Grid_Size d));
                    maxY = min (min rows (snd (b_size s))) (snd (Grid_Size d))
                in Some (for_upto maxY (\<lambda>y d. for_upto maxX (\<lambda>x d.
                     let c = b_cell s x y in
                     if IsContinuation c then d else Grid_SetCell rw d x y c) d) d))
      | _ \<Rightarrow> dst)"

definition BlitAt :: "(rune \<Rightarrow> int) \<Rightarrow> grid option \<Rightarrow> buf option \<Rightarrow> int \<Rightarrow> int \<Rightarrow> grid option" where
  "BlitAt rw dst src xOff yOff =
     (case (dst, src) of
        (Some d, Some s) \<Rightarrow>
          (let dstCols = fst (Grid_Size d); dstRows = snd (Grid_Size d)
           in Some (for_upto (snd (b_size s)) (\<lambda>sy d. let dy = yOff + sy in
                if dy < 0 \<or> dy \<ge> dstRows then d
                else for_upto (fst (b_size s)) (\<lambda>sx d. let dx = xOff + sx in
                  if dx < 0 \<or> dx \<ge> dstCols then d
                  else let c = b_cell s sx sy in
                    if IsContinuation c then d else Grid_SetCell rw d dx dy c) d) d))
      | _ \<Rightarrow> dst)"

lemma Blit_wf: "wf_grid g \<Longrightarrow> wf_grid (the (Blit rw (Some g) (Some src) cols rows))"
  unfolding Blit_def
  by (auto simp: Let_def intro!: for_upto_invariant [where P = wf_grid] intro: SetCell_wf)

subsection \<open>The Buffer interface\<close>

locale cell_buffer =
  fixes rw :: "rune \<Rightarrow> int"
    and size :: "'b \<Rightarrow> int \<times> int" and cell_at :: "'b \<Rightarrow> int \<Rightarrow> int \<Rightarrow> cell"
    and set_cell :: "'b \<Rightarrow> int \<Rightarrow> int \<Rightarrow> cell \<Rightarrow> 'b" and invar :: "'b \<Rightarrow> bool"
  assumes size_set: "size (set_cell b x y c) = size b"
    and invar_set: "invar b \<Longrightarrow> invar (set_cell b x y c)"
    and cell_set: "invar b \<Longrightarrow> 0 \<le> x \<Longrightarrow> x < fst (size b) \<Longrightarrow> 0 \<le> y \<Longrightarrow> y < snd (size b) \<Longrightarrow>
      cell_at (set_cell b x y c) = set_spec rw (fst (size b)) (cell_at b) x y c"
begin

text \<open>One row of a source with cell function \<open>f\<close> painted at column offset \<open>off\<close>.\<close>

definition paint_row :: "(int \<Rightarrow> cell) \<Rightarrow> int \<Rightarrow> int \<Rightarrow> int \<Rightarrow> int \<Rightarrow> 'b \<Rightarrow> 'b" where
  "paint_row f off n cols y b = for_upto n (\<lambda>sx b. let dx = off + sx in
     if dx < 0 \<or> dx \<ge> cols then b
     else let c = f sx in if IsContinuation c then b else set_cell b dx y c) b"

text \<open>What holds after the first \<open>k\<close> columns of the row.\<close>

definition painted :: "(int \<Rightarrow> cell) \<Rightarrow> int \<Rightarrow> int \<Rightarrow> int \<Rightarrow> int \<Rightarrow> 'b \<Rightarrow> 'b \<Rightarrow> bool" where
  "painted f off cols y k b0 b \<longleftrightarrow>
     invar b \<and> size b = size b0 \<and>
     (\<forall>v. v \<noteq> y \<longrightarrow> (\<forall>u. cell_at b u v = cell_at b0 u v)) \<and>
     (\<forall>sx. 0 \<le> sx \<longrightarrow> sx < k \<longrightarrow> 0 \<le> off + sx \<longrightarrow> off + sx < cols \<longrightarrow> \<not> IsContinuation (f sx) \<longrightarrow>
        cell_at b (off + sx) y = f sx \<and>
        (RuneWidth rw (Ch (f sx)) = 2 \<longrightarrow> off + sx + 1 < cols \<longrightarrow>
           IsContinuation (cell_at b (off + sx + 1) y)))"

lemma painted_step:
  assumes p: "painted f off cols y k b0 b" and k: "0 \<le> k" and cols: "cols = fst (size b0)"
    and y: "0 \<le> y" "y < snd (size b0)" and sn: "sentinel_narrow rw"
    and wide: "\<And>sx. RuneWidth rw (Ch (f sx)) = 2 \<Longrightarrow> off + sx + 1 < cols \<Longrightarrow> sx + 1 < n \<Longrightarrow> IsContinuation (f (sx + 1))"
    and kn: "k < n" and dx: "0 \<le> off + k" "off + k < cols" and nc: "\<not> IsContinuation (f k)"
  shows "painted f off cols y (k + 1) b0 (set_cell b (off + k) y (f k))"
proof -
  let ?h = "cell_at b" and ?W = "\<lambda>d. RuneWidth rw (Ch d) = 2"
  have inv: "invar b" and sz: "size b = size b0"
    and old: "\<And>sx. 0 \<le> sx \<Longrightarrow> sx < k \<Longrightarrow> 0 \<le> off + sx \<Longrightarrow> off + sx < cols \<Longrightarrow> \<not> IsContinuation (f sx) \<Longrightarrow>
        ?h (off + sx) y = f sx \<and> (?W (f sx) \<longrightarrow> off + sx + 1 < cols \<longrightarrow> IsContinuation (?h (off + sx + 1) y))"
    and rows: "\<And>u v. v \<noteq> y \<Longrightarrow> ?h u v = cell_at b0 u v"
    using p by (auto simp: painted_def)
  have eff: "cell_at (set_cell b (off + k) y (f k)) = set_spec rw cols ?h (off + k) y (f k)"
    using inv dx y sz cols by (subst cell_set) auto
  have keep: "set_spec rw cols ?h (off + k) y (f k) (off + sx) y = f sx \<and>
        (?W (f sx) \<longrightarrow> off + sx + 1 < cols \<longrightarrow> IsContinuation (set_spec rw cols ?h (off + k) y (f k) (off + sx + 1) y))"
    if sx: "0 \<le> sx" "sx < k" "0 \<le> off + sx" "off + sx < cols" "\<not> IsContinuation (f sx)" for sx
  proof -
    note o = old [OF sx]
    show ?thesis
    proof (cases "sx + 1 = k")
      case True
      have "\<not> ?W (f sx)" using wide [of sx] True nc dx kn by (auto simp: algebra_simps)
      with o True show ?thesis by (auto simp: set_spec_def clear_spec_def algebra_simps)
    next
      case False
      with o sx show ?thesis
        using sentinel_width [OF sn, of "?h (off + sx + 1) y"]
        by (auto simp: set_spec_def clear_spec_def)
    qed
  qed
  have new: "set_spec rw cols ?h (off + k) y (f k) (off + k) y = f k"
    "?W (f k) \<Longrightarrow> off + k + 1 < cols \<Longrightarrow> IsContinuation (set_spec rw cols ?h (off + k) y (f k) (off + k + 1) y)"
    by (auto simp: set_spec_def)
  have "sx < k \<or> sx = k" if "sx < k + 1" for sx using that by auto
  with keep new have "\<forall>sx. 0 \<le> sx \<longrightarrow> sx < k + 1 \<longrightarrow> 0 \<le> off + sx \<longrightarrow> off + sx < cols \<longrightarrow> \<not> IsContinuation (f sx) \<longrightarrow>
        set_spec rw cols ?h (off + k) y (f k) (off + sx) y = f sx \<and>
        (?W (f sx) \<longrightarrow> off + sx + 1 < cols \<longrightarrow> IsContinuation (set_spec rw cols ?h (off + k) y (f k) (off + sx + 1) y))"
    by blast
  moreover have "set_spec rw cols ?h (off + k) y (f k) u v = cell_at b0 u v" if "v \<noteq> y" for u v
    using that rows by (auto simp: set_spec_def clear_spec_def)
  ultimately show ?thesis
    using inv sz by (simp add: painted_def eff invar_set size_set)
qed

lemma paint_row_painted:
  assumes "invar b0" and "cols = fst (size b0)" and "0 \<le> y" "y < snd (size b0)" and "sentinel_narrow rw"
    and wide: "\<And>sx. RuneWidth rw (Ch (f sx)) = 2 \<Longrightarrow> off + sx + 1 < cols \<Longrightarrow> sx + 1 < n \<Longrightarrow> IsContinuation (f (sx + 1))"
    and "0 \<le> n"
  shows "painted f off cols y n b0 (paint_row f off n cols y b0)"
  unfolding paint_row_def
proof (rule for_upto_invariant_count [where P = "\<lambda>k b. 0 \<le> k \<and> painted f off cols y k b0 b", THEN conjunct2])
  show "0 \<le> (0::int) \<and> painted f off cols y 0 b0 b0" using assms by (simp add: painted_def)
next
  fix k b
  assume k: "0 \<le> k" "k < n" and "0 \<le> k \<and> painted f off cols y k b0 b"
  then have p: "painted f off cols y k b0 b" by simp
  have skip: "painted f off cols y (k + 1) b0 b"
    if "off + k < 0 \<or> off + k \<ge> cols \<or> IsContinuation (f k)"
  proof -
    have "sx < k \<or> sx = k" if "sx < k + 1" for sx using that by auto
    with p that show ?thesis unfolding painted_def by (metis leD)
  qed
  have "painted f off cols y (k + 1) b0 (set_cell b (off + k) y (f k))"
    if "\<not> (off + k < 0 \<or> off + k \<ge> cols \<or> IsContinuation (f k))"
    using that assms k by (intro painted_step [OF p]) auto
  with skip k show "0 \<le> k + 1 \<and> painted f off cols y (k + 1) b0 (let dx = off + k in
     if dx < 0 \<or> dx \<ge> cols then b else let c = f k in if IsContinuation c then b else set_cell b dx y c)"
    by (auto simp: Let_def)
qed (use assms in auto)

text \<open>A rectangle painted row by row: every visible source cell that is not a continuation is in
  place at the end, and rows outside the rectangle are untouched.\<close>

definition paint_rows :: "(int \<Rightarrow> int \<Rightarrow> cell) \<Rightarrow> int \<Rightarrow> int \<Rightarrow> int \<Rightarrow> int \<Rightarrow> int \<Rightarrow> int \<Rightarrow> 'b \<Rightarrow> 'b" where
  "paint_rows f xOff yOff n m cols rows b = for_upto m (\<lambda>sy b. let dy = yOff + sy in
     if dy < 0 \<or> dy \<ge> rows then b else paint_row (\<lambda>sx. f sx sy) xOff n cols dy b) b"

definition rows_done :: "(int \<Rightarrow> int \<Rightarrow> cell) \<Rightarrow> int \<Rightarrow> int \<Rightarrow> int \<Rightarrow> int \<Rightarrow> 'b \<Rightarrow> 'b \<Rightarrow> bool" where
  "rows_done f xOff yOff n k b0 b \<longleftrightarrow>
     0 \<le> k \<and> invar b \<and> size b = size b0 \<and>
     (\<forall>v. v < yOff \<or> v \<ge> yOff + k \<longrightarrow> (\<forall>u. cell_at b u v = cell_at b0 u v)) \<and>
     (\<forall>sy. 0 \<le> sy \<longrightarrow> sy < k \<longrightarrow> 0 \<le> yOff + sy \<longrightarrow> yOff + sy < snd (size b0) \<longrightarrow>
        (\<forall>sx. 0 \<le> sx \<longrightarrow> sx < n \<longrightarrow> 0 \<le> xOff + sx \<longrightarrow> xOff + sx < fst (size b0) \<longrightarrow>
           \<not> IsContinuation (f sx sy) \<longrightarrow> cell_at b (xOff + sx) (yOff + sy) = f sx sy))"

lemma paint_rows_done:
  assumes "invar b0" and cols: "cols = fst (size b0)" and rows: "rows = snd (size b0)" and "sentinel_narrow rw"
    and wide: "\<And>sx sy. RuneWidth rw (Ch (f sx sy)) = 2 \<Longrightarrow> sx + 1 < n \<Longrightarrow> IsContinuation (f (sx + 1) sy)"
    and "0 \<le> n" "0 \<le> m"
  shows "rows_done f xOff yOff n m b0 (paint_rows f xOff yOff n m cols rows b0)"
  unfolding paint_rows_def
proof (rule for_upto_invariant_count)
  show "rows_done f xOff yOff n 0 b0 b0" using assms by (simp add: rows_done_def)
next
  fix k b
  assume k: "0 \<le> k" "k < m" and d: "rows_done f xOff yOff n k b0 b"
  have le: "sy < k \<or> sy = k" if "sy < k + 1" for sy using that by auto
  show "rows_done f xOff yOff n (k + 1) b0 (let dy = yOff + k in
     if dy < 0 \<or> dy \<ge> rows then b else paint_row (\<lambda>sx. f sx k) xOff n cols dy b)"
  proof (cases "yOff + k < 0 \<or> yOff + k \<ge> rows")
    case True
    then show ?thesis using d rows by (auto simp: rows_done_def Let_def dest!: le)
  next
    case False
    let ?b = "paint_row (\<lambda>sx. f sx k) xOff n cols (yOff + k) b"
    have p: "painted (\<lambda>sx. f sx k) xOff cols (yOff + k) n b ?b"
      using d False assms by (intro paint_row_painted) (auto simp: rows_done_def)
    then have frame: "cell_at ?b u v = cell_at b u v" if "v \<noteq> yOff + k" for u v
      using that by (auto simp: painted_def)
    have row: "cell_at ?b (xOff + sx) (yOff + k) = f sx k"
      if "0 \<le> sx" "sx < n" "0 \<le> xOff + sx" "xOff + sx < fst (size b0)" "\<not> IsContinuation (f sx k)" for sx
      using p that cols by (auto simp: painted_def)
    have "invar ?b" "size ?b = size b0" using p d by (auto simp: painted_def rows_done_def)
    moreover have "cell_at ?b (xOff + sx) (yOff + sy) = f sx sy"
      if "0 \<le> sy" "sy < k + 1" "0 \<le> yOff + sy" "yOff + sy < snd (size b0)"
        "0 \<le> sx" "sx < n" "0 \<le> xOff + sx" "xOff + sx < fst (size b0)" "\<not> IsContinuation (f sx sy)" for sx sy
      using le [OF that(2)] d frame row that by (auto simp: rows_done_def)
    moreover have "cell_at ?b u v = cell_at b0 u v" if "v < yOff \<or> v \<ge> yOff + (k + 1)" for u v
      using d that frame [of v u] k by (auto simp: rows_done_def)
    ultimately show ?thesis using k False by (auto simp: rows_done_def Let_def)
  qed
qed (use assms in auto)

end

interpretation grid_buf: cell_buffer rw Grid_Size Grid_Cell "Grid_SetCell rw" wf_grid for rw
  by unfold_locales
    (auto simp: Grid_Size_def Grid_Cell_SetCell in_grid_def intro: wf_intros)

subsection \<open>The two blits as paintings\<close>

text \<open>What a blit needs of its source: a wide main cell is followed by its continuation.\<close>

definition src_wide :: "(rune \<Rightarrow> int) \<Rightarrow> buf \<Rightarrow> bool" where
  "src_wide rw s \<longleftrightarrow> (\<forall>x y. RuneWidth rw (Ch (b_cell s x y)) = 2 \<longrightarrow> x + 1 < fst (b_size s) \<longrightarrow>
      IsContinuation (b_cell s (x + 1) y))"

lemma src_wide_grid: "wide_ok rw g \<Longrightarrow> src_wide rw (as_buf g)"
  by (simp add: src_wide_def as_buf_def wide_ok_def Grid_Size_def)

lemma Blit_rows_done:
  assumes "wf_grid d" and "sentinel_narrow rw" and "src_wide rw s" and pos: "0 < cols" "0 < rows"
    and sz: "0 \<le> fst (b_size s)" "0 \<le> snd (b_size s)"
    and mx: "mx = min (min cols (fst (b_size s))) (g_cols d)" and my: "my = min (min rows (snd (b_size s))) (g_rows d)"
  obtains d' where "Blit rw (Some d) (Some s) cols rows = Some d'"
    and "grid_buf.rows_done (b_cell s) 0 0 mx my d d'"
proof -
  define d' where "d' = grid_buf.paint_rows rw (b_cell s) 0 0 mx my (g_cols d) (g_rows d) d"
  have "Blit rw (Some d) (Some s) cols rows = Some d'"
    using pos unfolding Blit_def d'_def grid_buf.paint_rows_def grid_buf.paint_row_def
    by (auto simp: Grid_Size_def mx my Let_def intro!: for_upto_cong)
  moreover have "grid_buf.rows_done (b_cell s) 0 0 mx my d d'"
    unfolding d'_def using assms
    by (intro grid_buf.paint_rows_done) (auto simp: Grid_Size_def src_wide_def wf_grid_def)
  ultimately show thesis by (rule that)
qed

lemma BlitAt_rows_done:
  assumes "wf_grid d" and "sentinel_narrow rw" and "src_wide rw s"
    and sz: "0 \<le> fst (b_size s)" "0 \<le> snd (b_size s)"
  obtains d' where "BlitAt rw (Some d) (Some s) xOff yOff = Some d'"
    and "grid_buf.rows_done (b_cell s) xOff yOff (fst (b_size s)) (snd (b_size s)) d d'"
proof -
  define d' where "d' = grid_buf.paint_rows rw (b_cell s) xOff yOff (fst (b_size s)) (snd (b_size s))
      (g_cols d) (g_rows d) d"
  have "BlitAt rw (Some d) (Some s) xOff yOff = Some d'"
    unfolding BlitAt_def d'_def grid_buf.paint_rows_def grid_buf.paint_row_def
    by (simp add: Grid_Size_def Let_def)
  moreover have "grid_buf.rows_done (b_cell s) xOff yOff (fst (b_size s)) (snd (b_size s)) d d'"
    unfolding d'_def using assms
    by (intro grid_buf.paint_rows_done) (auto simp: Grid_Size_def src_wide_def wf_grid_def)
  ultimately show thesis by (rule that)
qed

subsection \<open>Properties\<close>

text \<open>\<open>Blit\<close> copies: inside the intersection of the clip, the source and the destination every
  source cell that is not a continuation is in the destination afterwards (wide runes painted left
  to right do not erase each other), rows below the intersection are untouched, and the destination
  stays well-formed.\<close>

theorem Blit_copies:
  assumes "wf_grid d" and "sentinel_narrow rw" and "src_wide rw s" and "0 < cols" and "0 < rows"
    and "0 \<le> fst (b_size s)" and "0 \<le> snd (b_size s)"
    and "mx = min (min cols (fst (b_size s))) (g_cols d)" and "my = min (min rows (snd (b_size s))) (g_rows d)"
  shows "\<exists>d'. Blit rw (Some d) (Some s) cols rows = Some d' \<and> wf_grid d' \<and> Grid_Size d' = Grid_Size d \<and>
    (\<forall>x y. 0 \<le> x \<and> x < mx \<and> 0 \<le> y \<and> y < my \<and> \<not> IsContinuation (b_cell s x y) \<longrightarrow> Grid_Cell d' x y = b_cell s x y) \<and>
    (\<forall>x y. y \<ge> my \<longrightarrow> Grid_Cell d' x y = Grid_Cell d x y)"
  by (rule Blit_rows_done [OF assms])
    (use assms in \<open>auto simp: grid_buf.rows_done_def Grid_Size_def min_def split: if_splits\<close>)

theorem Blit_copies_witness:
  "\<exists>d'. Blit (\<lambda>_. 0) (Some sample_grid) (Some (as_buf sample_grid)) 2 1 = Some d' \<and> wf_grid d'"
proof -
  have "src_wide (\<lambda>_. 0) (as_buf sample_grid)" "sentinel_narrow (\<lambda>_. 0)"
    by (auto simp: src_wide_def RuneWidth_def sentinel_narrow_def)
  moreover have "0 \<le> fst (b_size (as_buf sample_grid))" "0 \<le> snd (b_size (as_buf sample_grid))"
    by (simp_all add: as_buf_def Grid_Size_def sample_grid_def)
  moreover have "(0::int) < 2" "(0::int) < 1"
    by simp_all
  ultimately show ?thesis
    using Blit_copies [OF sample_grid_wf _ _ _ _ _ _ refl refl] by blast
qed

text \<open>\<open>BlitAt\<close> copies the whole source at any offset, negative ones included, cropping at the
  destination's edges: every visible source cell that is not a continuation lands at its offset
  position, and rows outside the painted band are untouched.\<close>

theorem BlitAt_copies:
  assumes "wf_grid d" and "sentinel_narrow rw" and "src_wide rw s"
    and "0 \<le> fst (b_size s)" and "0 \<le> snd (b_size s)"
  shows "\<exists>d'. BlitAt rw (Some d) (Some s) xOff yOff = Some d' \<and> wf_grid d' \<and> Grid_Size d' = Grid_Size d \<and>
    (\<forall>sx sy. 0 \<le> sx \<and> sx < fst (b_size s) \<and> 0 \<le> sy \<and> sy < snd (b_size s) \<and> in_grid d (xOff + sx) (yOff + sy) \<and>
        \<not> IsContinuation (b_cell s sx sy) \<longrightarrow> Grid_Cell d' (xOff + sx) (yOff + sy) = b_cell s sx sy) \<and>
    (\<forall>x y. y < yOff \<or> y \<ge> yOff + snd (b_size s) \<longrightarrow> Grid_Cell d' x y = Grid_Cell d x y)"
  by (rule BlitAt_rows_done [OF assms])
    (auto simp: grid_buf.rows_done_def Grid_Size_def in_grid_def)

theorem BlitAt_copies_witness:
  "\<exists>d'. BlitAt (\<lambda>_. 0) (Some sample_grid) (Some (as_buf sample_grid)) (- 1) 0 = Some d' \<and> wf_grid d'"
proof -
  have "src_wide (\<lambda>_. 0) (as_buf sample_grid)" "sentinel_narrow (\<lambda>_. 0)"
    by (auto simp: src_wide_def RuneWidth_def sentinel_narrow_def)
  moreover have "0 \<le> fst (b_size (as_buf sample_grid))" "0 \<le> snd (b_size (as_buf sample_grid))"
    by (simp_all add: as_buf_def Grid_Size_def sample_grid_def)
  ultimately show ?thesis
    using BlitAt_copies [OF sample_grid_wf] by blast
qed

end
