(* ===== verification/Optimizer.thy ===== *)
theory Optimizer
  imports Paint
begin

text \<open>
  \<open>internal/app/cli/render/optimizer\<close>: the patch vocabulary of \<open>optimizer.go\<close> and
  \<open>DiffEngine.Diff\<close> of \<open>diff.go\<close>.  Both buffers are interface values (\<open>buf\<close>); a nil \<open>prev\<close> is
  \<^const>\<open>None\<close>.  A nil \<open>next\<close> is a caller bug by the code's own contract and has no value here.
\<close>

datatype patch_kind = PatchSetCell | PatchMoveCursor | PatchStyleChange | PatchResize

record patch =
  Kind :: patch_kind
  PX :: int
  PY :: int
  PCell :: cell
  NewCols :: int
  NewRows :: int

definition set_patch :: "int \<Rightarrow> int \<Rightarrow> cell \<Rightarrow> patch" where
  "set_patch x y c = \<lparr>Kind = PatchSetCell, PX = x, PY = y, PCell = c, NewCols = 0, NewRows = 0\<rparr>"

definition resize_patch :: "int \<Rightarrow> int \<Rightarrow> patch" where
  "resize_patch c r = \<lparr>Kind = PatchResize, PX = 0, PY = 0, PCell = zero_cell, NewCols = c, NewRows = r\<rparr>"

definition Diff_resized :: "buf option \<Rightarrow> buf \<Rightarrow> bool" where
  "Diff_resized prev next = (case prev of None \<Rightarrow> False | Some p \<Rightarrow> b_size p \<noteq> b_size next)"

definition Diff :: "buf option \<Rightarrow> buf \<Rightarrow> patch list" where
  "Diff prev next =
     (let nc = fst (b_size next); nr = snd (b_size next);
          resized = Diff_resized prev next;
          patches = (if resized then [resize_patch nc nr] else []);
          fullRedraw = (prev = None \<or> resized)
      in for_upto nr (\<lambda>y patches. for_upto nc (\<lambda>x patches.
           let nCell = b_cell next x y in
           if IsContinuation nCell then patches
           else if fullRedraw then
             (if nCell = zero_cell then patches else patches @ [set_patch x y nCell])
           else if b_cell (the prev) x y = nCell then patches
           else patches @ [set_patch x y nCell]) patches) patches)"

subsection \<open>The patch list in closed form\<close>

text \<open>What one cell contributes.\<close>

definition Diff_cell :: "buf option \<Rightarrow> buf \<Rightarrow> int \<Rightarrow> int \<Rightarrow> patch list" where
  "Diff_cell prev next y x =
     (let nCell = b_cell next x y;
          old = (if prev = None \<or> Diff_resized prev next then zero_cell else b_cell (the prev) x y)
      in if IsContinuation nCell \<or> old = nCell then [] else [set_patch x y nCell])"

lemma Diff_eq:
  "Diff prev next = (if Diff_resized prev next then [resize_patch (fst (b_size next)) (snd (b_size next))] else [])
     @ concat (map (\<lambda>y. concat (map (Diff_cell prev next y) (upto_list (fst (b_size next)))))
                   (upto_list (snd (b_size next))))"
proof -
  have inner: "(if IsContinuation (b_cell next x y) then ps
           else if prev = None \<or> Diff_resized prev next then
             (if b_cell next x y = zero_cell then ps else ps @ [set_patch x y (b_cell next x y)])
           else if b_cell (the prev) x y = b_cell next x y then ps
           else ps @ [set_patch x y (b_cell next x y)]) = ps @ Diff_cell prev next y x" for x y ps
    by (auto simp: Diff_cell_def Let_def)
  show ?thesis unfolding Diff_def Let_def inner for_upto_append by simp
qed

lemma in_Diff_iff:
  "p \<in> set (Diff prev next) \<longleftrightarrow>
     Diff_resized prev next \<and> p = resize_patch (fst (b_size next)) (snd (b_size next)) \<or>
     (\<exists>x y. 0 \<le> x \<and> x < fst (b_size next) \<and> 0 \<le> y \<and> y < snd (b_size next) \<and>
        p \<in> set (Diff_cell prev next y x))"
  by (auto simp: Diff_eq)

lemma in_Diff_cells:
  "p \<in> set (concat (map (\<lambda>y. concat (map (Diff_cell prev next y) (upto_list n))) (upto_list m))) \<longleftrightarrow>
     (\<exists>x y. 0 \<le> x \<and> x < n \<and> 0 \<le> y \<and> y < m \<and> p \<in> set (Diff_cell prev next y x))"
  by simp (use atLeastLessThan_iff in blast)

lemma Diff_cell_cases:
  "p \<in> set (Diff_cell prev next y x) \<longleftrightarrow>
     p = set_patch x y (b_cell next x y) \<and> \<not> IsContinuation (b_cell next x y) \<and>
     b_cell next x y \<noteq> (if prev = None \<or> Diff_resized prev next then zero_cell else b_cell (the prev) x y)"
  by (auto simp: Diff_cell_def Let_def)

text \<open>Row-major order of the emitted positions.\<close>

definition before :: "patch \<Rightarrow> patch \<Rightarrow> bool" where
  "before p q \<longleftrightarrow> PY p < PY q \<or> PY p = PY q \<and> PX p < PX q"

lemma Diff_cells_sorted:
  "sorted_wrt before (concat (map (\<lambda>y. concat (map (Diff_cell prev next y) (upto_list n))) (upto_list m)))"
proof (intro sorted_wrt_concat)
  fix xs
  assume "xs \<in> set (map (\<lambda>y. concat (map (Diff_cell prev next y) (upto_list n))) (upto_list m))"
  then obtain y where xs: "xs = concat (map (Diff_cell prev next y) (upto_list n))" by auto
  have "sorted_wrt (\<lambda>xs ys. \<forall>x \<in> set xs. \<forall>y \<in> set ys. before x y) (map (Diff_cell prev next y) (upto_list n))"
    unfolding sorted_wrt_map
    by (rule sorted_wrt_mono_rel [OF _ sorted_upto_list])
      (auto simp: Diff_cell_cases before_def set_patch_def)
  then show "sorted_wrt before xs" unfolding xs
    by (intro sorted_wrt_concat) (auto simp: Diff_cell_def Let_def)
next
  show "sorted_wrt (\<lambda>xs ys. \<forall>x \<in> set xs. \<forall>y \<in> set ys. before x y)
     (map (\<lambda>y. concat (map (Diff_cell prev next y) (upto_list n))) (upto_list m))"
    unfolding sorted_wrt_map
    by (rule sorted_wrt_mono_rel [OF _ sorted_upto_list])
      (auto simp: Diff_cell_cases before_def set_patch_def)
qed

subsection \<open>Properties\<close>

text \<open>C21: \<open>Diff\<close> emits exactly the changed cells: a resize patch (first) iff the sizes differ, and one
  cell patch carrying the new cell for precisely the in-bounds positions whose new cell is not a
  continuation and differs from the old one (from blank on a full redraw), in strictly increasing
  row-major order.\<close>

theorem Diff_exact:
  "\<exists>cells. Diff prev next = (if Diff_resized prev next then [resize_patch (fst (b_size next)) (snd (b_size next))] else []) @ cells \<and>
     sorted_wrt before cells \<and>
     (\<forall>p. p \<in> set cells \<longleftrightarrow> (\<exists>x y. 0 \<le> x \<and> x < fst (b_size next) \<and> 0 \<le> y \<and> y < snd (b_size next) \<and>
        p = set_patch x y (b_cell next x y) \<and> \<not> IsContinuation (b_cell next x y) \<and>
        b_cell next x y \<noteq> (if prev = None \<or> Diff_resized prev next then zero_cell else b_cell (the prev) x y)))"
  by (rule exI, rule conjI, rule Diff_eq, rule conjI, rule Diff_cells_sorted)
    (unfold in_Diff_cells Diff_cell_cases, blast)

end
