(* ===== verification/Scheduler.thy ===== *)
theory Scheduler
  imports SchedQueue Pool Optimizer
begin

text \<open>
  \<open>internal/app/cli/render/scheduler/frame.go\<close>: the message channels and one frame of the render
  loop, over the buffer pool, the diff engine and a terminal driver.  The driver is the part of
  \<open>terminal/tcell/driver.go\<close> a frame uses: cached size and the screen's cell contents; tcell is not
  part of the repository, so the effect of \<open>Screen.Sync\<close> on those contents is the argument
  \<open>sync\<close>.  A panic inside the frame body is an explicit fault, so the deferred recovery and the
  ownership hand-over are modelled on every path.
\<close>

type_synonym glyph = "rune \<times> style"

record driver =
  dr_cols :: int
  dr_rows :: int
  dr_cell :: "int \<Rightarrow> int \<Rightarrow> glyph"

definition Driver_SetCell :: "driver \<Rightarrow> int \<Rightarrow> int \<Rightarrow> rune \<Rightarrow> style \<Rightarrow> driver" where
  "Driver_SetCell d x y ch st = d\<lparr>dr_cell := (dr_cell d)(x := (dr_cell d x)(y := (ch, st)))\<rparr>"

text \<open>\<open>int32(v)\<close> of \<open>dim\<close>.\<close>

definition dim :: "int \<Rightarrow> int" where
  "dim v = (v + 2 ^ 31) mod 2 ^ 32 - 2 ^ 31"

definition Driver_Resize :: "((int \<Rightarrow> int \<Rightarrow> glyph) \<Rightarrow> (int \<Rightarrow> int \<Rightarrow> glyph)) \<Rightarrow> driver \<Rightarrow> int \<Rightarrow> int \<Rightarrow> driver" where
  "Driver_Resize sync d cols rows =
     d\<lparr>dr_cols := dim cols, dr_rows := dim rows, dr_cell := sync (dr_cell d)\<rparr>"

text \<open>The resize branch of \<open>PollEvent\<close>: only the cached size changes.\<close>

definition Driver_PollResize :: "driver \<Rightarrow> int \<Rightarrow> int \<Rightarrow> driver" where
  "Driver_PollResize d cols rows = d\<lparr>dr_cols := dim cols, dr_rows := dim rows\<rparr>"

definition Driver_Size :: "driver \<Rightarrow> int \<times> int" where
  "Driver_Size d = (dr_cols d, dr_rows d)"

subsection \<open>Messages\<close>

record error_msg =
  em_cmd :: u64
  em_err :: string
  em_submitted :: nat
  em_priority :: u8
  em_frame :: int

datatype 'm msg = UserMsg 'm | ErrorMsg error_msg

definition priorityMsgCap :: nat where "priorityMsgCap = 256"
definition msgChCap :: nat where "msgChCap = 16"
definition maxPriorityMsgsPerFrame :: nat where "maxPriorityMsgsPerFrame = 64"

text \<open>The non-blocking send with drop-oldest, on a channel of capacity \<open>cap\<close>.\<close>

definition chan_emit :: "nat \<Rightarrow> 'a list \<Rightarrow> 'a \<Rightarrow> 'a list" where
  "chan_emit cap ch m =
     (if length ch < cap then ch @ [m]
      else let ch' = (case ch of [] \<Rightarrow> [] | _ # t \<Rightarrow> t) in
        if length ch' < cap then ch' @ [m] else ch')"

record 'm fsched =
  f_driver :: driver
  f_pool :: pool
  f_queue :: "'m queue"
  f_workers :: "'m workers"
  f_msgCh :: "'m msg list"
  f_priority :: "'m msg list"
  f_hook :: bool
  f_hooked :: "'m msg list"
  f_stopped :: bool
  f_tick :: "int list"
  f_last :: "handle option"
  f_frame :: int

definition NewFrameScheduler :: "driver \<Rightarrow> bool \<Rightarrow> 'm fsched" where
  "NewFrameScheduler drv hook =
     \<lparr>f_driver = drv, f_pool = NewBufferPool, f_queue = newQueue, f_workers = newWorkerPool 4,
      f_msgCh = [], f_priority = [], f_hook = hook, f_hooked = [], f_stopped = False,
      f_tick = [], f_last = None, f_frame = 0\<rparr>"

definition EmitMsg :: "'m msg \<Rightarrow> 'm fsched \<Rightarrow> 'm fsched" where
  "EmitMsg m s = (if f_stopped s then s else s\<lparr>f_priority := chan_emit priorityMsgCap (f_priority s) m\<rparr>)"

definition EmitError :: "error_msg \<Rightarrow> 'm fsched \<Rightarrow> 'm fsched" where
  "EmitError e s = EmitMsg (ErrorMsg e) s"

definition emit :: "'m msg \<Rightarrow> 'm fsched \<Rightarrow> 'm fsched" where
  "emit m s = s\<lparr>f_msgCh := chan_emit msgChCap (f_msgCh s) m\<rparr>"

definition dispatchMsg :: "'m msg \<Rightarrow> 'm fsched \<Rightarrow> 'm fsched" where
  "dispatchMsg m s = (if f_hook s then s\<lparr>f_hooked := f_hooked s @ [m]\<rparr> else emit m s)"

fun drain_priority :: "nat \<Rightarrow> 'm fsched \<Rightarrow> 'm fsched" where
  "drain_priority 0 s = s"
| "drain_priority (Suc k) s =
     (case f_priority s of
        [] \<Rightarrow> s
      | m # ms \<Rightarrow> drain_priority k (dispatchMsg m (s\<lparr>f_priority := ms\<rparr>)))"

definition drainPriorityMsgs :: "'m fsched \<Rightarrow> 'm fsched" where
  "drainPriorityMsgs s = drain_priority maxPriorityMsgsPerFrame s"

definition dispatchResult :: "'m workerResult \<Rightarrow> 'm fsched \<Rightarrow> 'm fsched" where
  "dispatchResult res s =
     (case panicErr res of
        Some e \<Rightarrow> dispatchMsg (ErrorMsg \<lparr>em_cmd = cmdID res, em_err = e, em_submitted = submitted res,
                                 em_priority = r_priority res, em_frame = f_frame s\<rparr>) s
      | None \<Rightarrow> (case successMsg res of Some m \<Rightarrow> dispatchMsg (UserMsg m) s | None \<Rightarrow> s))"

fun drain_results :: "'m workerResult list \<Rightarrow> 'm fsched \<Rightarrow> 'm fsched" where
  "drain_results [] s = s"
| "drain_results (r # rs) s = drain_results rs (dispatchResult r s)"

definition drainResults :: "'m fsched \<Rightarrow> 'm fsched" where
  "drainResults s =
     drain_results (w_results (f_workers s)) (s\<lparr>f_workers := (f_workers s)\<lparr>w_results := []\<rparr>\<rparr>)"

subsection \<open>One frame\<close>

definition apply_patch :: "((int \<Rightarrow> int \<Rightarrow> glyph) \<Rightarrow> (int \<Rightarrow> int \<Rightarrow> glyph)) \<Rightarrow> patch \<Rightarrow> driver \<Rightarrow> driver" where
  "apply_patch sync p d =
     (case Kind p of
        PatchSetCell \<Rightarrow>
          (case (if Ch (PCell p) = 0 then (32, zero_style) else (Ch (PCell p), St (PCell p))) of
             (ch, st) \<Rightarrow> Driver_SetCell d (PX p) (PY p) ch st)
      | PatchResize \<Rightarrow> Driver_Resize sync d (NewCols p) (NewRows p)
      | _ \<Rightarrow> d)"

definition applyPatches :: "((int \<Rightarrow> int \<Rightarrow> glyph) \<Rightarrow> (int \<Rightarrow> int \<Rightarrow> glyph)) \<Rightarrow> patch list \<Rightarrow> driver \<Rightarrow> driver \<times> bool" where
  "applyPatches sync ps d =
     (fold (apply_patch sync) ps d, \<exists>p \<in> set ps. Kind p = PatchResize)"

text \<open>Where the frame body panics: in \<open>RenderFn\<close>, after some patches, or in \<open>Show\<close>.\<close>

datatype fault = NoFault | RenderPanic string | ApplyPanic nat string | ShowPanic string

definition frame_error :: "'m fsched \<Rightarrow> string \<Rightarrow> 'm msg" where
  "frame_error s e = ErrorMsg \<lparr>em_cmd = 0, em_err = e, em_submitted = 0,
     em_priority = PriorityNormal, em_frame = f_frame s\<rparr>"

text \<open>The deferred function on a panic: report, then release the grid that was not adopted.\<close>

definition frame_recover :: "string \<Rightarrow> handle \<Rightarrow> 'm fsched \<Rightarrow> 'm fsched" where
  "frame_recover e h s =
     (let s' = dispatchMsg (frame_error s e) s in s'\<lparr>f_pool := Release (f_pool s') (Some h)\<rparr>)"

definition grid_of :: "'m fsched \<Rightarrow> handle \<Rightarrow> grid" where
  "grid_of s h = the (p_heap (f_pool s) h)"

definition frame_patches :: "'m fsched \<Rightarrow> handle \<Rightarrow> patch list" where
  "frame_patches s h = Diff (map_option (\<lambda>k. as_buf (grid_of s k)) (f_last s)) (as_buf (grid_of s h))"

text \<open>Steps 5 to 8 of the frame, once \<open>next\<close> is the handle \<open>h\<close>.\<close>

definition frame_body ::
  "((int \<Rightarrow> int \<Rightarrow> glyph) \<Rightarrow> (int \<Rightarrow> int \<Rightarrow> glyph)) \<Rightarrow> (grid \<Rightarrow> grid) \<Rightarrow> fault \<Rightarrow> handle \<Rightarrow> 'm fsched \<Rightarrow> 'm fsched" where
  "frame_body sync render fault h s =
     (let s1 = s\<lparr>f_pool := (f_pool s)\<lparr>p_heap := (p_heap (f_pool s))(h \<mapsto> render (grid_of s h))\<rparr>\<rparr> in
      case fault of
        RenderPanic e \<Rightarrow> frame_recover e h s1
      | ApplyPanic k e \<Rightarrow>
          frame_recover e h (s1\<lparr>f_driver := fst (applyPatches sync (take k (frame_patches s1 h)) (f_driver s1))\<rparr>)
      | ShowPanic e \<Rightarrow>
          frame_recover e h (s1\<lparr>f_driver := fst (applyPatches sync (frame_patches s1 h) (f_driver s1))\<rparr>)
      | NoFault \<Rightarrow>
          s1\<lparr>f_driver := fst (applyPatches sync (frame_patches s1 h) (f_driver s1)),
             f_pool := Release (f_pool s1) (f_last s1),
             f_last := Some h,
             f_tick := (if f_tick s1 = [] then [f_frame s1] else f_tick s1)\<rparr>)"

definition runFrame ::
  "((int \<Rightarrow> int \<Rightarrow> glyph) \<Rightarrow> (int \<Rightarrow> int \<Rightarrow> glyph)) \<Rightarrow> (grid \<Rightarrow> grid) \<Rightarrow> nat option \<Rightarrow> fault \<Rightarrow> 'm fsched \<Rightarrow> 'm fsched" where
  "runFrame sync render pick fault s =
     (let s1 = s\<lparr>f_frame := f_frame s + 1\<rparr>;
          dq = drain_queue (f_queue s1) (f_workers s1);
          s2 = s1\<lparr>f_queue := fst dq, f_workers := snd dq\<rparr>;
          sz = Driver_Size (f_driver s2)
      in case Acquire (f_pool s2) (fst sz) (snd sz) pick of
           (Inl err, p) \<Rightarrow> s2\<lparr>f_pool := p\<rparr>
         | (Inr h, p) \<Rightarrow> frame_body sync render fault h (s2\<lparr>f_pool := p\<rparr>))"

text \<open>One ticker arm of \<open>Run\<close>: system messages, then worker results, then the frame.\<close>

definition tick_step ::
  "((int \<Rightarrow> int \<Rightarrow> glyph) \<Rightarrow> (int \<Rightarrow> int \<Rightarrow> glyph)) \<Rightarrow> (grid \<Rightarrow> grid) \<Rightarrow> nat option \<Rightarrow> fault \<Rightarrow> 'm fsched \<Rightarrow> 'm fsched" where
  "tick_step sync render pick fault s = runFrame sync render pick fault (drainResults (drainPriorityMsgs s))"

text \<open>The deferred calls of \<open>Run\<close> on exit.\<close>

definition Run_exit :: "'m fsched \<Rightarrow> 'm fsched" where
  "Run_exit s = s\<lparr>f_pool := Release (f_pool s) (f_last s), f_last := None, f_stopped := True,
     f_workers := Stop_workers (f_workers s)\<rparr>"

subsection \<open>Channels\<close>

lemma chan_emit_length: "length ch \<le> cap \<Longrightarrow> length (chan_emit cap ch m) \<le> cap"
  by (auto simp: chan_emit_def Let_def split: list.splits)

lemma chan_emit_last: "0 < cap \<Longrightarrow> length ch \<le> cap \<Longrightarrow> last (chan_emit cap ch m) = m \<and> chan_emit cap ch m \<noteq> []"
  by (auto simp: chan_emit_def Let_def split: list.splits)

text \<open>At most the oldest message is lost, and the order of the others is kept.\<close>

lemma chan_emit_suffix:
  "0 < cap \<Longrightarrow> length ch \<le> cap \<Longrightarrow> chan_emit cap ch m = (if length ch < cap then ch else tl ch) @ [m]"
  by (auto simp: chan_emit_def Let_def split: list.splits)

lemma dispatchMsg_frame [simp]:
  "f_pool (dispatchMsg m s) = f_pool s" "f_last (dispatchMsg m s) = f_last s"
  "f_driver (dispatchMsg m s) = f_driver s" "f_queue (dispatchMsg m s) = f_queue s"
  "f_workers (dispatchMsg m s) = f_workers s" "f_priority (dispatchMsg m s) = f_priority s"
  "f_frame (dispatchMsg m s) = f_frame s" "f_hook (dispatchMsg m s) = f_hook s"
  "f_stopped (dispatchMsg m s) = f_stopped s" "f_tick (dispatchMsg m s) = f_tick s"
  by (simp_all add: dispatchMsg_def emit_def)

lemma drain_priority_hooked:
  "f_hook s \<Longrightarrow> f_hooked (drain_priority k s) = f_hooked s @ take k (f_priority s)
     \<and> f_priority (drain_priority k s) = drop k (f_priority s)"
proof (induction k arbitrary: s)
  case (Suc k)
  show ?case
  proof (cases "f_priority s")
    case (Cons m ms)
    with Suc.IH [of "dispatchMsg m (s\<lparr>f_priority := ms\<rparr>)"] Suc.prems show ?thesis
      by (simp add: dispatchMsg_def)
  qed simp
qed simp

lemma drain_priority_rest: "f_priority (drain_priority k s) = drop k (f_priority s)"
proof (induction k arbitrary: s)
  case (Suc k)
  show ?case
  proof (cases "f_priority s")
    case (Cons m ms)
    with Suc.IH [of "dispatchMsg m (s\<lparr>f_priority := ms\<rparr>)"] show ?thesis by simp
  qed simp
qed simp

lemma drain_priority_frame [simp]:
  "f_pool (drain_priority k s) = f_pool s" "f_last (drain_priority k s) = f_last s"
  "f_driver (drain_priority k s) = f_driver s"
  by (induction k s rule: drain_priority.induct) (simp_all split: list.splits)

lemma dispatchResult_frame [simp]:
  "f_pool (dispatchResult r s) = f_pool s" "f_last (dispatchResult r s) = f_last s"
  "f_driver (dispatchResult r s) = f_driver s"
  by (auto simp: dispatchResult_def split: option.splits)

lemma drain_results_frame [simp]:
  "f_pool (drain_results rs s) = f_pool s" "f_last (drain_results rs s) = f_last s"
  "f_driver (drain_results rs s) = f_driver s"
  by (induction rs arbitrary: s) simp_all

subsection \<open>Grid ownership across frames\<close>

text \<open>The scheduler owns exactly \<open>lastFrame\<close>; the driver's cached size is an \<open>int32\<close> pair.\<close>

definition owned :: "'m fsched \<Rightarrow> handle list" where
  "owned s = (case f_last s of None \<Rightarrow> [] | Some h \<Rightarrow> [h])"

definition sched_inv :: "'m fsched \<Rightarrow> bool" where
  "sched_inv s \<longleftrightarrow> pool_ok (f_pool s) (owned s) \<and>
     int32_range (dr_cols (f_driver s)) \<and> int32_range (dr_rows (f_driver s))"

definition render_ok :: "(grid \<Rightarrow> grid) \<Rightarrow> bool" where
  "render_ok render \<longleftrightarrow> (\<forall>g. wf_grid g \<longrightarrow> wf_grid (render g) \<and> Grid_Size (render g) = Grid_Size g)"

lemma dim_range: "int32_range (dim v)"
  by (simp add: dim_def int32_range_def)

lemma dim_id: "int32_range v \<Longrightarrow> dim v = v"
  by (simp add: dim_def int32_range_def)

lemma NewFrameScheduler_inv:
  "int32_range (dr_cols d) \<Longrightarrow> int32_range (dr_rows d) \<Longrightarrow> sched_inv (NewFrameScheduler d hook)"
  by (simp add: sched_inv_def NewFrameScheduler_def owned_def NewBufferPool_ok)

lemma apply_patch_range:
  "int32_range (dr_cols d) \<and> int32_range (dr_rows d) \<Longrightarrow>
   int32_range (dr_cols (apply_patch sync p d)) \<and> int32_range (dr_rows (apply_patch sync p d))"
  by (auto simp: apply_patch_def Driver_SetCell_def Driver_Resize_def dim_range split: patch_kind.splits)

lemma applyPatches_range:
  "int32_range (dr_cols d) \<and> int32_range (dr_rows d) \<Longrightarrow>
   int32_range (dr_cols (fst (applyPatches sync ps d))) \<and> int32_range (dr_rows (fst (applyPatches sync ps d)))"
  unfolding applyPatches_def fst_conv
  by (induction ps arbitrary: d) (simp_all add: apply_patch_range)

lemma frame_recover_inv:
  "pool_ok (f_pool s) (h # owned s) \<Longrightarrow> int32_range (dr_cols (f_driver s)) \<Longrightarrow>
   int32_range (dr_rows (f_driver s)) \<Longrightarrow> sched_inv (frame_recover e h s)"
  by (simp add: frame_recover_def sched_inv_def Let_def owned_def Release_pool_ok)

lemma frame_body_inv:
  assumes p: "pool_ok (f_pool s) (h # owned s)" and g: "p_heap (f_pool s) h = Some g" "wf_grid g"
    and r: "render_ok render"
    and d: "int32_range (dr_cols (f_driver s)) \<and> int32_range (dr_rows (f_driver s))"
  shows "sched_inv (frame_body sync render fault h s)"
proof -
  let ?p1 = "(f_pool s)\<lparr>p_heap := (p_heap (f_pool s))(h \<mapsto> render (grid_of s h))\<rparr>"
  have "wf_grid (render (grid_of s h))" using g r by (simp add: render_ok_def grid_of_def)
  with p have p1: "pool_ok ?p1 (h # owned s)" by (rule pool_ok_write)
  have swap: "pool_ok ?p1 (k # [h])" if "f_last s = Some k" for k
    using p1 that by (intro pool_ok_mset [OF p1]) (auto simp: owned_def pool_ok_def)
  show ?thesis
  proof (cases fault)
    case NoFault
    then show ?thesis
      using p1 swap applyPatches_range [OF d]
      by (cases "f_last s") (auto simp: frame_body_def Let_def sched_inv_def owned_def Release_pool_ok)
  next
    case (RenderPanic e)
    with p1 d show ?thesis
      by (auto simp: frame_body_def Let_def owned_def intro!: frame_recover_inv)
  next
    case (ApplyPanic k e)
    with p1 applyPatches_range [OF d] show ?thesis
      by (auto simp: frame_body_def Let_def owned_def intro!: frame_recover_inv)
  next
    case (ShowPanic e)
    with p1 applyPatches_range [OF d] show ?thesis
      by (auto simp: frame_body_def Let_def owned_def intro!: frame_recover_inv)
  qed
qed

lemma runFrame_inv:
  assumes inv: "sched_inv s" and r: "render_ok render"
  shows "sched_inv (runFrame sync render pick fault s)"
proof -
  have ok: "pool_ok (f_pool s) (owned s)" "int32_range (dr_cols (f_driver s))" "int32_range (dr_rows (f_driver s))"
    using inv by (auto simp: sched_inv_def)
  show ?thesis
  proof (cases rule: Acquire_driver [OF ok, of pick, case_names bad good])
    case bad
    with ok show ?thesis by (auto simp: runFrame_def Let_def Driver_Size_def sched_inv_def owned_def)
  next
    case (good h q g)
    then show ?thesis using ok
      by (auto simp: runFrame_def Let_def Driver_Size_def owned_def intro!: frame_body_inv [OF _ _ _ r])
  qed
qed

subsection \<open>What the screen shows\<close>

definition glyph_of :: "cell \<Rightarrow> glyph" where
  "glyph_of c = (if Ch c = 0 then (32, zero_style) else (Ch c, St c))"

definition blank_glyph :: glyph where
  "blank_glyph = (32, zero_style)"

text \<open>The screen agrees with a buffer: same size, and every cell that is not the second half of a
  wide rune holds that cell's glyph.\<close>

definition screen_cells :: "driver \<Rightarrow> buf \<Rightarrow> bool" where
  "screen_cells d b \<longleftrightarrow>
     (\<forall>x y. 0 \<le> x \<longrightarrow> x < fst (b_size b) \<longrightarrow> 0 \<le> y \<longrightarrow> y < snd (b_size b) \<longrightarrow>
        \<not> IsContinuation (b_cell b x y) \<longrightarrow> dr_cell d x y = glyph_of (b_cell b x y))"

definition screen_shows :: "driver \<Rightarrow> buf \<Rightarrow> bool" where
  "screen_shows d b \<longleftrightarrow> Driver_Size d = b_size b \<and> screen_cells d b"

definition screen_blank :: "driver \<Rightarrow> bool" where
  "screen_blank d \<longleftrightarrow> (\<forall>x y. dr_cell d x y = blank_glyph)"

lemma glyph_of_zero [simp]: "glyph_of zero_cell = blank_glyph"
  by (simp add: glyph_of_def zero_cell_def blank_glyph_def)

lemma apply_set_patch:
  "apply_patch sync (set_patch u v c) d = d\<lparr>dr_cell := (dr_cell d)(u := (dr_cell d u)(v := glyph_of c))\<rparr>"
  by (simp add: apply_patch_def set_patch_def Driver_SetCell_def glyph_of_def)

text \<open>A batch of cell patches in which all patches of a position agree.\<close>

lemma fold_set_patches:
  assumes "\<And>p. p \<in> set ps \<Longrightarrow> \<exists>u v. p = set_patch u v (f u v)"
  shows "dr_cell (fold (apply_patch sync) ps d) x y
      = (if set_patch x y (f x y) \<in> set ps then glyph_of (f x y) else dr_cell d x y)
    \<and> Driver_Size (fold (apply_patch sync) ps d) = Driver_Size d"
  using assms
proof (induction ps arbitrary: d)
  case (Cons p ps)
  from Cons.prems [of p] obtain u v where p: "p = set_patch u v (f u v)" by auto
  have inj: "set_patch x y (f x y) = set_patch u v (f u v) \<longleftrightarrow> x = u \<and> y = v" by (auto simp: set_patch_def)
  show ?case using Cons.IH [of "apply_patch sync p d"] Cons.prems
    by (auto simp: p apply_set_patch inj Driver_Size_def)
qed simp

text \<open>The part of the diff after an optional resize patch.\<close>

definition Diff_cells :: "buf option \<Rightarrow> buf \<Rightarrow> patch list" where
  "Diff_cells prev next =
     concat (map (\<lambda>y. concat (map (Diff_cell prev next y) (upto_list (fst (b_size next))))) (upto_list (snd (b_size next))))"

lemma Diff_cells_shows:
  assumes size: "Driver_Size d = b_size next"
    and base: "\<And>x y. 0 \<le> x \<Longrightarrow> x < fst (b_size next) \<Longrightarrow> 0 \<le> y \<Longrightarrow> y < snd (b_size next) \<Longrightarrow>
      \<not> IsContinuation (b_cell next x y) \<Longrightarrow>
      b_cell next x y = (if prev = None \<or> Diff_resized prev next then zero_cell else b_cell (the prev) x y) \<Longrightarrow>
      dr_cell d x y = glyph_of (b_cell next x y)"
  shows "screen_shows (fold (apply_patch sync) (Diff_cells prev next) d) next"
proof -
  have ps: "\<exists>u v. p = set_patch u v (b_cell next u v)" if "p \<in> set (Diff_cells prev next)" for p
    using that by (auto simp: Diff_cells_def Diff_cell_cases)
  have mem: "set_patch x y (b_cell next x y) \<in> set (Diff_cells prev next) \<longleftrightarrow>
      0 \<le> x \<and> x < fst (b_size next) \<and> 0 \<le> y \<and> y < snd (b_size next) \<and> \<not> IsContinuation (b_cell next x y) \<and>
      b_cell next x y \<noteq> (if prev = None \<or> Diff_resized prev next then zero_cell else b_cell (the prev) x y)" for x y
    by (auto simp: Diff_cells_def Diff_cell_cases set_patch_def)
  show ?thesis
    using fold_set_patches [where ps = "Diff_cells prev next" and f = "b_cell next", OF ps] size base
    by (auto simp: screen_shows_def screen_cells_def mem)
qed

lemma applyPatches_shows:
  assumes size: "Driver_Size d = b_size next"
    and range: "int32_range (fst (b_size next))" "int32_range (snd (b_size next))"
    and prev: "case prev of None \<Rightarrow> screen_blank d
      | Some b \<Rightarrow> if b_size b = b_size next then screen_shows d b else (\<forall>f x y. sync f x y = blank_glyph)"
  shows "screen_shows (fst (applyPatches sync (Diff prev next) d)) next"
proof (cases "Diff_resized prev next")
  case True
  then have blank: "\<And>f x y. sync f x y = blank_glyph"
    using prev by (auto simp: Diff_resized_def split: option.splits if_splits)
  let ?d = "apply_patch sync (resize_patch (fst (b_size next)) (snd (b_size next))) d"
  have "Driver_Size ?d = b_size next" "\<And>x y. dr_cell ?d x y = blank_glyph"
    using range by (simp_all add: apply_patch_def resize_patch_def Driver_Resize_def Driver_Size_def dim_id blank)
  then show ?thesis
    unfolding applyPatches_def fst_conv Diff_eq Diff_cells_def [symmetric]
    by (simp add: True, intro Diff_cells_shows) (auto simp: True)
next
  case False
  have "screen_shows (fold (apply_patch sync) (Diff_cells prev next) d) next"
  proof (rule Diff_cells_shows [OF size])
    fix x y
    assume b: "0 \<le> x" "x < fst (b_size next)" "0 \<le> y" "y < snd (b_size next)" "\<not> IsContinuation (b_cell next x y)"
      "b_cell next x y = (if prev = None \<or> Diff_resized prev next then zero_cell else b_cell (the prev) x y)"
    show "dr_cell d x y = glyph_of (b_cell next x y)"
    proof (cases prev)
      case None
      with b prev show ?thesis by (simp add: screen_blank_def)
    next
      case (Some p)
      with False have sz: "b_size p = b_size next" by (simp add: Diff_resized_def)
      with Some prev have "screen_shows d p" by simp
      with b Some sz False show ?thesis by (auto simp: screen_shows_def screen_cells_def)
    qed
  qed
  with False show ?thesis by (simp add: applyPatches_def Diff_eq Diff_cells_def)
qed

subsection \<open>Histories of a scheduler\<close>

text \<open>What can happen to a running scheduler between construction and exit, one entry per call.\<close>

datatype 'm event =
    EvTick "grid \<Rightarrow> grid" "nat option" fault
  | EvResult "'m workerResult"
  | EvEmit "'m msg"
  | EvSchedule "'m jobItem"
  | EvWorkers "'m workers"
  | EvResize int int

fun do_event :: "((int \<Rightarrow> int \<Rightarrow> glyph) \<Rightarrow> (int \<Rightarrow> int \<Rightarrow> glyph)) \<Rightarrow> 'm event \<Rightarrow> 'm fsched \<Rightarrow> 'm fsched" where
  "do_event sync (EvTick render pick fault) s = tick_step sync render pick fault s"
| "do_event sync (EvResult r) s = dispatchResult r s"
| "do_event sync (EvEmit m) s = EmitMsg m s"
| "do_event sync (EvSchedule j) s = s\<lparr>f_queue := push (f_queue s) j\<rparr>"
| "do_event sync (EvWorkers w) s = s\<lparr>f_workers := w\<rparr>"
| "do_event sync (EvResize c r) s = s\<lparr>f_driver := Driver_PollResize (f_driver s) c r\<rparr>"

definition run_events :: "((int \<Rightarrow> int \<Rightarrow> glyph) \<Rightarrow> (int \<Rightarrow> int \<Rightarrow> glyph)) \<Rightarrow> 'm event list \<Rightarrow> 'm fsched \<Rightarrow> 'm fsched" where
  "run_events sync evs s = fold (do_event sync) evs s"

lemma sched_inv_cong:
  "f_pool t = f_pool s \<Longrightarrow> f_last t = f_last s \<Longrightarrow> f_driver t = f_driver s \<Longrightarrow> sched_inv t = sched_inv s"
  by (simp add: sched_inv_def owned_def)

lemma tick_step_inv: "sched_inv s \<Longrightarrow> render_ok render \<Longrightarrow> sched_inv (tick_step sync render pick fault s)"
  unfolding tick_step_def drainPriorityMsgs_def drainResults_def
  by (intro runFrame_inv) (simp_all add: sched_inv_def owned_def)

lemma do_event_inv:
  "sched_inv s \<Longrightarrow> (\<forall>r p f. e = EvTick r p f \<longrightarrow> render_ok r) \<Longrightarrow> sched_inv (do_event sync e s)"
  by (cases e) (simp_all add: tick_step_inv EmitMsg_def Driver_PollResize_def dim_range sched_inv_def owned_def
      tick_step_inv [unfolded sched_inv_def owned_def])

lemma run_events_inv:
  "sched_inv s \<Longrightarrow> \<forall>e \<in> set evs. \<forall>r p f. e = EvTick r p f \<longrightarrow> render_ok r \<Longrightarrow> sched_inv (run_events sync evs s)"
  unfolding run_events_def
  by (induction evs arbitrary: s) (auto simp: do_event_inv)

lemma Run_exit_pool: "sched_inv s \<Longrightarrow> pool_ok (f_pool (Run_exit s)) []"
  by (auto simp: sched_inv_def Run_exit_def owned_def Release_pool_ok split: option.splits)

subsection \<open>Properties\<close>



text \<open>System messages: the priority channel never exceeds its 256 entries, \<open>EmitMsg\<close> loses at most the
  oldest message and keeps the order of the rest (and nothing is sent after \<open>Stop\<close>), and one frame dispatches
  exactly the 64 oldest messages in order, leaving the rest queued.\<close>

theorem priority_channel:
  assumes "length (f_priority s) \<le> priorityMsgCap"
  shows "f_priority (EmitMsg m s) =
      (if f_stopped s then f_priority s
       else (if length (f_priority s) < priorityMsgCap then f_priority s else tl (f_priority s)) @ [m]) \<and>
    length (f_priority (EmitMsg m s)) \<le> priorityMsgCap \<and>
    f_priority (drainPriorityMsgs s) = drop 64 (f_priority s) \<and>
    (f_hook s \<longrightarrow> f_hooked (drainPriorityMsgs s) = f_hooked s @ take 64 (f_priority s))"
  using assms chan_emit_suffix [of priorityMsgCap "f_priority s" m] chan_emit_length [of "f_priority s" priorityMsgCap m]
    drain_priority_hooked [of s] drain_priority_rest [of maxPriorityMsgsPerFrame s]
  by (auto simp: EmitMsg_def drainPriorityMsgs_def maxPriorityMsgsPerFrame_def priorityMsgCap_def)

theorem priority_channel_witness:
  "f_priority (EmitMsg (UserMsg ()) (NewFrameScheduler \<lparr>dr_cols = 3, dr_rows = 1, dr_cell = \<lambda>_ _. blank_glyph\<rparr> True))
     = [UserMsg ()]"
  using priority_channel [of "NewFrameScheduler \<lparr>dr_cols = 3, dr_rows = 1, dr_cell = \<lambda>_ _. blank_glyph\<rparr> True" "UserMsg ()"]
  by (simp add: NewFrameScheduler_def priorityMsgCap_def)

text \<open>A driver whose resize blanks the screen, as \<open>diff.go\<close> asks of its consumer.\<close>

definition clears :: "((int \<Rightarrow> int \<Rightarrow> glyph) \<Rightarrow> (int \<Rightarrow> int \<Rightarrow> glyph)) \<Rightarrow> bool" where
  "clears sync \<longleftrightarrow> (\<forall>f x y. sync f x y = blank_glyph)"

lemma clears_blank: "clears (\<lambda>_ _ _. blank_glyph)"
  by (simp add: clears_def)

text \<open>The screen is in step with \<open>lastFrame\<close> as far as the next diff relies on it.\<close>

definition in_step :: "'m fsched \<Rightarrow> bool" where
  "in_step s \<longleftrightarrow>
     (case f_last s of
        None \<Rightarrow> screen_blank (f_driver s)
      | Some k \<Rightarrow> screen_cells (f_driver s) (as_buf (grid_of s k)))"

lemma frame_body_shows:
  assumes p: "pool_ok (f_pool s) (h # owned s)" and g: "p_heap (f_pool s) h = Some g" "wf_grid g"
    and r: "render_ok render" and size: "Grid_Size g = Driver_Size (f_driver s)"
    and d: "int32_range (dr_cols (f_driver s))" "int32_range (dr_rows (f_driver s))"
    and step: "in_step s" and blank: "clears sync"
  shows "let t = frame_body sync render NoFault h s in
    f_last t = Some h \<and> grid_of t h = render g \<and> screen_shows (f_driver t) (as_buf (render g)) \<and> in_step t"
proof -
  define s1 where "s1 = s\<lparr>f_pool := (f_pool s)\<lparr>p_heap := (p_heap (f_pool s))(h \<mapsto> render (grid_of s h))\<rparr>\<rparr>"
  define t where "t = frame_body sync render NoFault h s"
  have gh: "grid_of s1 h = render g" using g by (simp add: s1_def grid_of_def)
  have sz: "b_size (as_buf (render g)) = Driver_Size (f_driver s)"
    using r g size by (simp add: render_ok_def as_buf_def)
  have other: "grid_of s1 k = grid_of s k" if "f_last s = Some k" for k
    using p that by (auto simp: s1_def grid_of_def pool_ok_def owned_def)
  have prev: "case map_option (\<lambda>k. as_buf (grid_of s1 k)) (f_last s) of None \<Rightarrow> screen_blank (f_driver s)
      | Some b \<Rightarrow> if b_size b = b_size (as_buf (render g)) then screen_shows (f_driver s) b
                  else (\<forall>f x y. sync f x y = blank_glyph)"
    using step other blank by (auto simp: in_step_def sz screen_shows_def clears_def split: option.splits)
  have "screen_shows (fst (applyPatches sync (Diff (map_option (\<lambda>k. as_buf (grid_of s1 k)) (f_last s)) (as_buf (render g)))
      (f_driver s))) (as_buf (render g))"
    using d by (intro applyPatches_shows prev) (simp_all add: sz Driver_Size_def)
  moreover have t: "f_driver t = fst (applyPatches sync (Diff (map_option (\<lambda>k. as_buf (grid_of s1 k)) (f_last s)) (as_buf (render g)))
      (f_driver s))" "f_last t = Some h" "grid_of t h = render g"
    using gh by (simp_all add: t_def frame_body_def Let_def frame_patches_def s1_def [symmetric])
      (simp_all add: s1_def grid_of_def)
  ultimately show ?thesis unfolding t_def [symmetric] Let_def
    by (simp add: in_step_def screen_shows_def)
qed

lemma frame_step:
  assumes "sched_inv s" and "render_ok render" and "in_step s" and "clears sync"
    and "0 < dr_cols (f_driver s)" and "0 < dr_rows (f_driver s)"
    and "dr_cols (f_driver s) * dr_rows (f_driver s) \<le> MaxInt32"
  shows "\<exists>g h. let t = runFrame sync render pick NoFault s in
    wf_grid g \<and> Grid_Size g = Driver_Size (f_driver s) \<and> (\<forall>x y. Grid_Cell g x y = zero_cell) \<and>
    f_last t = Some h \<and> grid_of t h = render g \<and> screen_shows (f_driver t) (as_buf (render g)) \<and> in_step t"
proof -
  have ok: "pool_ok (f_pool s) (owned s)" "int32_range (dr_cols (f_driver s))" "int32_range (dr_rows (f_driver s))"
    using assms(1) by (auto simp: sched_inv_def)
  show ?thesis
  proof (cases rule: Acquire_driver [OF ok, of pick, case_names bad good])
    case bad
    with assms(5-7) show ?thesis by simp
  next
    case (good h q g)
    define s2 where "s2 = s\<lparr>f_frame := f_frame s + 1, f_queue := fst (drain_queue (f_queue s) (f_workers s)),
      f_workers := snd (drain_queue (f_queue s) (f_workers s)), f_pool := q\<rparr>"
    have rf: "runFrame sync render pick NoFault s = frame_body sync render NoFault h s2"
      using good(1) by (simp add: runFrame_def Let_def Driver_Size_def s2_def)
    have step2: "in_step s2"
      using assms(3) good(7) by (auto simp: in_step_def s2_def owned_def grid_of_def split: option.splits)
    have "let t = frame_body sync render NoFault h s2 in
       f_last t = Some h \<and> grid_of t h = render g \<and> screen_shows (f_driver t) (as_buf (render g)) \<and> in_step t"
      using good ok assms(2,4) step2
      by (intro frame_body_shows) (auto simp: s2_def owned_def Driver_Size_def)
    with rf good(4-6) show ?thesis by (auto simp: Let_def Driver_Size_def)
  qed
qed

text \<open>Every event but a panicked frame keeps the screen in step.\<close>

lemma in_step_cong:
  "p_heap (f_pool t) = p_heap (f_pool s) \<Longrightarrow> f_last t = f_last s \<Longrightarrow> dr_cell (f_driver t) = dr_cell (f_driver s) \<Longrightarrow>
   in_step t = in_step s"
  by (simp add: in_step_def grid_of_def screen_cells_def screen_blank_def split: option.split)

lemma keeps_step:
  "sched_inv s \<Longrightarrow> in_step s \<Longrightarrow> f_pool t = f_pool s \<Longrightarrow> f_last t = f_last s \<Longrightarrow> f_driver t = f_driver s \<Longrightarrow>
   sched_inv t \<and> in_step t"
  using sched_inv_cong [of t s] in_step_cong [of t s] by simp

lemma runFrame_in_step:
  assumes "sched_inv s" and "render_ok render" and "in_step s" and "clears sync"
  shows "in_step (runFrame sync render pick NoFault s)"
proof (cases "dr_cols (f_driver s) \<le> 0 \<or> dr_rows (f_driver s) \<le> 0 \<or> dr_cols (f_driver s) * dr_rows (f_driver s) > MaxInt32")
  case True
  have "int32_range (dr_cols (f_driver s))" "int32_range (dr_rows (f_driver s))"
    using assms(1) by (simp_all add: sched_inv_def)
  from Acquire_rejects [OF this True]
  have "Acquire (f_pool s) (dr_cols (f_driver s)) (dr_rows (f_driver s)) pick = (Inl ErrInvalidDimension, f_pool s)"
    .
  then have "runFrame sync render pick NoFault s = s\<lparr>f_frame := f_frame s + 1,
      f_queue := fst (drain_queue (f_queue s) (f_workers s)), f_workers := snd (drain_queue (f_queue s) (f_workers s))\<rparr>"
    by (simp add: runFrame_def Let_def Driver_Size_def)
  then have "sched_inv (runFrame sync render pick NoFault s) \<and> in_step (runFrame sync render pick NoFault s)"
    by (intro keeps_step [OF assms(1,3)]) simp_all
  then show ?thesis by simp
next
  case False
  with frame_step [OF assms, of pick] show ?thesis by (auto simp: Let_def not_less)
qed

definition calm :: "'m event \<Rightarrow> bool" where
  "calm e \<longleftrightarrow> (case e of EvTick r p f \<Rightarrow> render_ok r \<and> f = NoFault | _ \<Rightarrow> True)"

lemma do_event_in_step:
  assumes "sched_inv s" and "in_step s" and "calm e" and "clears sync"
  shows "sched_inv (do_event sync e s) \<and> in_step (do_event sync e s)"
proof (cases e)
  case (EvTick r p f)
  let ?s = "drainResults (drainPriorityMsgs s)"
  have "sched_inv ?s \<and> in_step ?s"
    by (rule keeps_step [OF assms(1,2)]) (simp_all add: drainPriorityMsgs_def drainResults_def)
  moreover have "render_ok r" "f = NoFault" using assms(3) EvTick by (simp_all add: calm_def)
  ultimately show ?thesis
    unfolding EvTick do_event.simps tick_step_def
    using runFrame_in_step [OF _ _ _ assms(4)] runFrame_inv by blast
next
  case (EvResult r)
  then show ?thesis by (intro keeps_step [OF assms(1,2)]) simp_all
next
  case (EvEmit m)
  then show ?thesis by (intro keeps_step [OF assms(1,2)]) (simp_all add: EmitMsg_def)
next
  case (EvSchedule j)
  then show ?thesis by (intro keeps_step [OF assms(1,2)]) simp_all
next
  case (EvWorkers w)
  then show ?thesis by (intro keeps_step [OF assms(1,2)]) simp_all
next
  case (EvResize c r)
  with assms(1) have "sched_inv (do_event sync e s)"
    by (simp add: Driver_PollResize_def sched_inv_def owned_def dim_range)
  moreover have "in_step (do_event sync e s) = in_step s"
    by (rule in_step_cong) (simp_all add: EvResize Driver_PollResize_def)
  ultimately show ?thesis using assms(2) by simp
qed

lemma run_events_in_step:
  "sched_inv s \<Longrightarrow> in_step s \<Longrightarrow> list_all calm evs \<Longrightarrow> clears sync \<Longrightarrow>
   sched_inv (run_events sync evs s) \<and> in_step (run_events sync evs s)"
  unfolding run_events_def
proof (induction evs arbitrary: s)
  case (Cons e evs)
  then have "sched_inv (do_event sync e s) \<and> in_step (do_event sync e s)"
    by (intro do_event_in_step) auto
  with Cons.IH [of "do_event sync e s"] Cons.prems show ?case by simp
qed simp


definition demo_sched :: "unit fsched" where
  "demo_sched = NewFrameScheduler \<lparr>dr_cols = 1, dr_rows = 1, dr_cell = \<lambda>_ _. blank_glyph\<rparr> False"


text \<open>A cell a frame may draw.\<close>

definition draw_A :: "grid \<Rightarrow> grid" where
  "draw_A g = Grid_SetCell (\<lambda>_. 1) g 0 0 (zero_cell\<lparr>Ch := 65\<rparr>)"

text \<open>A panic in \<open>Show\<close> after the patches were applied leaves the screen out of step for good: the
  recovered frame is not adopted, so the next frame is diffed against the frame before it, and a cell drawn
  only by the lost frame is never patched away.  With one blank frame, a frame that draws an A and panics in
  \<open>Show\<close>, and another blank frame, the screen still shows the A although \<open>lastFrame\<close> is blank there.\<close>

theorem panicked_frame_stays_on_screen:
  "let s0 = runFrame sync id None NoFault demo_sched;
       s1 = runFrame sync draw_A None (ShowPanic ''show'') s0;
       s2 = runFrame sync id None NoFault s1
   in dr_cell (f_driver s2) 0 0 = (65, zero_style) \<and>
      map_option (\<lambda>h. Grid_Cell (grid_of s2 h) 0 0) (f_last s2) = Some zero_cell"
  by code_simp

text \<open>With tcell's \<open>Sync\<close>, which repaints but keeps the cell contents, \<open>Driver.Resize\<close> does not clear the
  viewport on \<open>PatchResize\<close> although the diff engine relies on it: a cell drawn before a resize and blank after it
  is never patched, and stays on the screen.\<close>

theorem resize_keeps_stale_cells:
  "let s0 = runFrame id draw_A None NoFault demo_sched;
       s1 = do_event id (EvResize 2 1) s0;
       s2 = runFrame id id None NoFault s1
   in dr_cell (f_driver s2) 0 0 = (65, zero_style) \<and>
      map_option (\<lambda>h. Grid_Cell (grid_of s2 h) 0 0) (f_last s2) = Some zero_cell"
  by code_simp

end
