(* ===== verification/ScrollOffset.thy ===== *)
theory ScrollOffset
  imports GoPrelude
begin

text \<open>
  \<open>internal/app/cli/render/scrollback/offset.go\<close>: the sentinel prefix-sum table of block heights
  and the block lookup.  \<open>sort.SearchInts\<close> of Go's standard library is modelled as the binary
  search it is (\<open>SearchInts\<close>); on a sorted table it is the least index holding a value at least
  the target.
\<close>

fun prefix_sums :: "int \<Rightarrow> int list \<Rightarrow> int list" where
  "prefix_sums acc [] = [acc]"
| "prefix_sums acc (h # hs) = acc # prefix_sums (acc + h) hs"

definition rebuildOffsets :: "int list \<Rightarrow> int list" where
  "rebuildOffsets heights = prefix_sums 0 heights"

definition totalHeight :: "int list \<Rightarrow> int" where
  "totalHeight offsets = offsets ! (length offsets - 1)"

text \<open>\<open>i, j := 0, n; for i < j { h := (i + j) / 2; if a[h] < x { i = h + 1 } else { j = h } }\<close>\<close>

function search_loop :: "int list \<Rightarrow> int \<Rightarrow> nat \<Rightarrow> nat \<Rightarrow> nat" where
  "search_loop a x i j =
     (if i < j
      then let h = (i + j) div 2 in
        if a ! h < x then search_loop a x (Suc h) j else search_loop a x i h
      else i)"
  by pat_completeness auto
termination
  by (relation "measure (\<lambda>(a, x, i, j). j - i)") auto

declare search_loop.simps [simp del]

definition SearchInts :: "int list \<Rightarrow> int \<Rightarrow> nat" where
  "SearchInts a x = search_loop a x 0 (length a)"

definition findBlockAt :: "int list \<Rightarrow> int \<Rightarrow> int" where
  "findBlockAt offsets y =
     (if y < 0 then 0
      else let idx = int (SearchInts offsets (y + 1)) - 1 in
        if idx < 0 then 0
        else let last = int (length offsets) - 2 in
          if idx > last then (if last < 0 then 0 else last)
          else idx)"

lemma search_loop_spec:
  assumes "sorted a" and "i \<le> j" and "j \<le> length a"
    and "\<And>k. k < i \<Longrightarrow> a ! k < x" and "\<And>k. j \<le> k \<Longrightarrow> k < length a \<Longrightarrow> x \<le> a ! k"
  shows "let r = search_loop a x i j in i \<le> r \<and> r \<le> j \<and> (\<forall>k < r. a ! k < x) \<and> (\<forall>k. r \<le> k \<longrightarrow> k < length a \<longrightarrow> x \<le> a ! k)"
  using assms
proof (induction a x i j rule: search_loop.induct)
  case (1 a x i j)
  show ?case
  proof (cases "i < j")
    case True
    let ?h = "(i + j) div 2"
    have h: "i \<le> ?h" "?h < j" using True by auto
    show ?thesis
    proof (cases "a ! ?h < x")
      case less: True
      have "a ! k < x" if "k < Suc ?h" for k
      proof -
        have "a ! k \<le> a ! ?h" using that h 1(3,5) by (intro sorted_nth_mono) auto
        with less show ?thesis by simp
      qed
      from 1(1) [OF True refl less 1(3) _ 1(5) this 1(7)] h
      have "let r = search_loop a x (Suc ?h) j in Suc ?h \<le> r \<and> r \<le> j \<and> (\<forall>k < r. a ! k < x) \<and>
          (\<forall>k. r \<le> k \<longrightarrow> k < length a \<longrightarrow> x \<le> a ! k)" by simp
      with True less h show ?thesis by (subst search_loop.simps) (auto simp: Let_def)
    next
      case ge: False
      have "x \<le> a ! k" if "?h \<le> k" "k < length a" for k
      proof -
        have "a ! ?h \<le> a ! k" using that 1(3) by (intro sorted_nth_mono) auto
        with ge show ?thesis by simp
      qed
      with 1(2) [OF True refl ge 1(3) h(1) _ 1(6)] h 1(5)
      have "let r = search_loop a x i ?h in i \<le> r \<and> r \<le> ?h \<and> (\<forall>k < r. a ! k < x) \<and>
          (\<forall>k. r \<le> k \<longrightarrow> k < length a \<longrightarrow> x \<le> a ! k)" by simp
      with True ge h show ?thesis by (subst search_loop.simps) (auto simp: Let_def)
    qed
  next
    case False
    with 1 show ?thesis by (subst search_loop.simps) (auto simp: Let_def)
  qed
qed

lemma SearchInts_spec:
  assumes "sorted a"
  shows "SearchInts a x \<le> length a" and "k < SearchInts a x \<Longrightarrow> a ! k < x"
    and "SearchInts a x \<le> k \<Longrightarrow> k < length a \<Longrightarrow> x \<le> a ! k"
  using search_loop_spec [OF assms, of 0 "length a" x] by (auto simp: SearchInts_def Let_def)

subsection \<open>Prefix sums\<close>

lemma length_prefix_sums [simp]: "length (prefix_sums acc hs) = Suc (length hs)"
  by (induction hs arbitrary: acc) auto

lemma prefix_sums_not_Nil [simp]: "prefix_sums acc hs \<noteq> []"
  by (cases hs) auto

lemma nth_prefix_sums: "i \<le> length hs \<Longrightarrow> prefix_sums acc hs ! i = acc + sum_list (take i hs)"
proof (induction hs arbitrary: acc i)
  case (Cons h hs)
  then show ?case by (cases i) auto
qed simp

lemma prefix_sums_snoc: "prefix_sums acc (hs @ [h]) = prefix_sums acc hs @ [acc + sum_list hs + h]"
  by (induction hs arbitrary: acc) (auto simp: algebra_simps)

lemma sorted_prefix_sums: "\<forall>h \<in> set hs. 0 \<le> h \<Longrightarrow> sorted (prefix_sums acc hs) \<and> (\<forall>o' \<in> set (prefix_sums acc hs). acc \<le> o')"
proof (induction hs arbitrary: acc)
  case (Cons h hs)
  then have "sorted (prefix_sums (acc + h) hs)" "\<forall>o' \<in> set (prefix_sums (acc + h) hs). acc + h \<le> o'" by auto
  with Cons.prems show ?case by (auto intro: order_trans)
qed simp

lemma rebuildOffsets_simps [simp]:
  "length (rebuildOffsets hs) = Suc (length hs)" "rebuildOffsets hs \<noteq> []" "rebuildOffsets hs ! 0 = 0"
  by (simp_all add: rebuildOffsets_def nth_prefix_sums)

lemma nth_rebuildOffsets: "i \<le> length hs \<Longrightarrow> rebuildOffsets hs ! i = sum_list (take i hs)"
  by (simp add: rebuildOffsets_def nth_prefix_sums)

lemma totalHeight_rebuild [simp]: "totalHeight (rebuildOffsets hs) = sum_list hs"
  by (simp add: totalHeight_def nth_rebuildOffsets)

lemma rebuildOffsets_snoc: "rebuildOffsets (hs @ [h]) = rebuildOffsets hs @ [sum_list hs + h]"
  by (simp add: rebuildOffsets_def prefix_sums_snoc)

lemma sorted_rebuildOffsets: "\<forall>h \<in> set hs. 0 \<le> h \<Longrightarrow> sorted (rebuildOffsets hs)"
  by (simp add: rebuildOffsets_def sorted_prefix_sums)

lemma findBlockAt_below:
  assumes nn: "\<forall>h \<in> set hs. 0 \<le> h" and "hs \<noteq> []" and y: "sum_list hs \<le> y"
  shows "findBlockAt (rebuildOffsets hs) y = int (length hs) - 1"
proof -
  let ?o = "rebuildOffsets hs" let ?r = "SearchInts ?o (y + 1)"
  note s = SearchInts_spec [OF sorted_rebuildOffsets [OF nn], where x = "y + 1"]
  have "?r = Suc (length hs)"
  proof (rule ccontr)
    assume "?r \<noteq> Suc (length hs)"
    with s(1) have "y + 1 \<le> ?o ! length hs" by (intro s(3)) auto
    with y show False by (simp add: nth_rebuildOffsets)
  qed
  moreover have "0 \<le> sum_list hs" using nn by (intro sum_list_nonneg) auto
  ultimately show ?thesis using assms by (simp add: findBlockAt_def Let_def)
qed

text \<open>A line inside the history is found in the one block whose row range contains it.\<close>

lemma findBlockAt_inside:
  assumes nn: "\<forall>h \<in> set hs. 0 \<le> h" and y: "0 \<le> y" "y < sum_list hs"
  defines "b \<equiv> findBlockAt (rebuildOffsets hs) y"
  shows "0 \<le> b \<and> b < int (length hs) \<and>
    rebuildOffsets hs ! nat b \<le> y \<and> y < rebuildOffsets hs ! Suc (nat b)"
proof -
  let ?o = "rebuildOffsets hs" let ?r = "SearchInts ?o (y + 1)"
  note s = SearchInts_spec [OF sorted_rebuildOffsets [OF nn], where x = "y + 1"]
  have "?r \<noteq> 0" using s(3) [where k = 0] y by auto
  moreover have "?r \<le> length hs"
  proof (rule ccontr)
    assume "\<not> ?r \<le> length hs"
    then have "?o ! length hs < y + 1" by (intro s(2)) simp
    with y show False by (simp add: nth_rebuildOffsets)
  qed
  ultimately have b: "b = int (?r - 1)" using y by (auto simp: b_def findBlockAt_def Let_def)
  have "?o ! (?r - 1) < y + 1" using \<open>?r \<noteq> 0\<close> by (intro s(2)) simp
  moreover have "y + 1 \<le> ?o ! ?r" using \<open>?r \<le> length hs\<close> by (intro s(3)) auto
  moreover obtain r where "?r = Suc r" using \<open>?r \<noteq> 0\<close> not0_implies_Suc by blast
  ultimately show ?thesis using b \<open>?r \<le> length hs\<close> by auto
qed

lemma findBlockAt_range: "hs \<noteq> [] \<Longrightarrow> \<forall>h \<in> set hs. 0 \<le> h \<Longrightarrow>
  0 \<le> findBlockAt (rebuildOffsets hs) y \<and> findBlockAt (rebuildOffsets hs) y < int (length hs)"
  by (cases hs) (auto simp: findBlockAt_def Let_def)

lemma findBlockAt_mono:
  assumes nn: "\<forall>h \<in> set hs. 0 \<le> h" and y: "0 \<le> y" "y \<le> z" "z < sum_list hs"
  shows "findBlockAt (rebuildOffsets hs) y \<le> findBlockAt (rebuildOffsets hs) z"
proof (rule ccontr)
  assume "\<not> ?thesis"
  moreover define a where "a = nat (findBlockAt (rebuildOffsets hs) y)"
  moreover define b where "b = nat (findBlockAt (rebuildOffsets hs) z)"
  moreover have "0 \<le> findBlockAt (rebuildOffsets hs) y \<and> findBlockAt (rebuildOffsets hs) y < int (length hs) \<and>
      rebuildOffsets hs ! a \<le> y"
    using findBlockAt_inside [OF nn, of y] y by (simp add: a_def)
  moreover have "0 \<le> findBlockAt (rebuildOffsets hs) z \<and> z < rebuildOffsets hs ! Suc b"
    using findBlockAt_inside [OF nn, of z] y by (simp add: b_def)
  ultimately have "Suc b \<le> a" "a < length hs" "rebuildOffsets hs ! a < rebuildOffsets hs ! Suc b" using y by auto
  with sorted_nth_mono [OF sorted_rebuildOffsets [OF nn], of "Suc b" a] show False by simp
qed

subsection \<open>Properties\<close>

text \<open>\<open>findBlockAt\<close> on the prefix sums of any non-negative heights returns the one block whose rows contain
  the line (so never an empty block), block 0 above the history and the last block below it.\<close>

theorem findBlockAt_correct:
  assumes "\<forall>h \<in> set hs. 0 \<le> h" and "hs \<noteq> []"
  shows "(y < 0 \<longrightarrow> findBlockAt (rebuildOffsets hs) y = 0) \<and>
    (sum_list hs \<le> y \<longrightarrow> findBlockAt (rebuildOffsets hs) y = int (length hs) - 1) \<and>
    (0 \<le> y \<longrightarrow> y < sum_list hs \<longrightarrow> (\<forall>b < length hs. findBlockAt (rebuildOffsets hs) y = int b \<longleftrightarrow>
       sum_list (take b hs) \<le> y \<and> y < sum_list (take (Suc b) hs)))"
proof (intro conjI impI allI)
  show "findBlockAt (rebuildOffsets hs) y = 0" if "y < 0"
    using that by (simp add: findBlockAt_def)
  show "findBlockAt (rebuildOffsets hs) y = int (length hs) - 1" if "sum_list hs \<le> y"
    by (rule findBlockAt_below [OF assms that])
next
  fix b assume y: "0 \<le> y" "y < sum_list hs" and b: "b < length hs"
  define f where "f = nat (findBlockAt (rebuildOffsets hs) y)"
  have f: "f < length hs" "findBlockAt (rebuildOffsets hs) y = int f"
    "sum_list (take f hs) \<le> y" "y < sum_list (take (Suc f) hs)"
    using findBlockAt_inside [OF assms(1) y] by (auto simp: f_def nth_rebuildOffsets)
  have mono: "sum_list (take i hs) \<le> sum_list (take j hs)" if "i \<le> j" "j \<le> length hs" for i j
    using sorted_rebuildOffsets [OF assms(1)] that sorted_nth_mono [of "rebuildOffsets hs" i j]
    by (simp add: nth_rebuildOffsets)
  show "findBlockAt (rebuildOffsets hs) y = int b \<longleftrightarrow> sum_list (take b hs) \<le> y \<and> y < sum_list (take (Suc b) hs)"
  proof (cases f b rule: linorder_cases)
    case less
    with mono [of "Suc f" b] f b show ?thesis by auto
  next
    case greater
    with mono [of "Suc b" f] f b show ?thesis by auto
  qed (use f in simp)
qed

theorem findBlockAt_correct_witness:
  "findBlockAt (rebuildOffsets [2, 0, 3]) 2 = 2 \<and> findBlockAt (rebuildOffsets [2, 0, 3]) 9 = 2"
  using findBlockAt_correct [of "[2, 0, 3]" 2] findBlockAt_correct [of "[2, 0, 3]" 9]
  by (auto dest: spec [of _ 2])

end
