(* ===== verification/Scrollback.thy ===== *)
theory Scrollback
  imports ScrollOffset Pool Paint
begin

text \<open>
  \<open>internal/app/cli/render/scrollback\<close>: the LRU cache of rendered blocks (\<open>cache.go\<close>) and the
  virtual scrollback (\<open>virtual.go\<close>).  The cache talks to the buffer pool through the small
  interface \<open>gridPool\<close> of the code, here the locale \<open>grid_pool\<close>; its lemmas are proved against the
  interface and \<^const>\<open>Acquire\<close> / \<^const>\<open>Release\<close> discharge it.  A block is an interface value of
  the code: only \<open>Render\<close> is called on it, which is the argument \<open>rn\<close>.
\<close>

record cacheEntry =
  e_block :: int
  e_cols :: int
  e_rows :: int
  e_grid :: handle

text \<open>\<open>c_lru\<close> is the linked list, front first; \<open>c_index\<close> the map from block index to element.\<close>

record lruRing =
  c_capacity :: int
  c_lru :: "cacheEntry list"
  c_index :: "int \<Rightarrow> cacheEntry option"

definition newLRURing :: "int \<Rightarrow> lruRing" where
  "newLRURing capacity =
     \<lparr>c_capacity = (if capacity < 1 then 1 else capacity), c_lru = [], c_index = Map.empty\<rparr>"

definition lru_Len :: "lruRing \<Rightarrow> int" where
  "lru_Len c = int (length (c_lru c))"

definition lru_Get :: "lruRing \<Rightarrow> int \<Rightarrow> int \<Rightarrow> int \<Rightarrow> handle option \<times> lruRing" where
  "lru_Get c blockIdx cols rows =
     (case c_index c blockIdx of
        None \<Rightarrow> (None, c)
      | Some e \<Rightarrow> if e_cols e \<noteq> cols \<or> e_rows e \<noteq> rows then (None, c)
                  else (Some (e_grid e), c\<lparr>c_lru := e # remove1 e (c_lru c)\<rparr>))"

definition evictOldest :: "('p \<Rightarrow> handle option \<Rightarrow> 'p) \<Rightarrow> 'p \<Rightarrow> lruRing \<Rightarrow> 'p \<times> lruRing" where
  "evictOldest rel p c =
     (if c_lru c = [] then (p, c)
      else let e = last (c_lru c) in
        (rel p (Some (e_grid e)),
         c\<lparr>c_lru := butlast (c_lru c), c_index := (c_index c)(e_block e := None)\<rparr>))"

definition InvalidateAll :: "('p \<Rightarrow> handle option \<Rightarrow> 'p) \<Rightarrow> 'p \<Rightarrow> lruRing \<Rightarrow> 'p \<times> lruRing" where
  "InvalidateAll rel p c =
     (fold (\<lambda>e p. rel p (Some (e_grid e))) (c_lru c) p, c\<lparr>c_lru := [], c_index := Map.empty\<rparr>)"

definition drop_existing :: "('p \<Rightarrow> handle option \<Rightarrow> 'p) \<Rightarrow> 'p \<Rightarrow> lruRing \<Rightarrow> int \<Rightarrow> 'p \<times> lruRing" where
  "drop_existing rel p c blockIdx =
     (case c_index c blockIdx of
        None \<Rightarrow> (p, c)
      | Some e \<Rightarrow> (rel p (Some (e_grid e)),
                    c\<lparr>c_lru := remove1 e (c_lru c), c_index := (c_index c)(blockIdx := None)\<rparr>))"

text \<open>\<open>upd p h f\<close> mutates the grid behind the pointer \<open>h\<close>.\<close>

definition putFromBuffer ::
  "('p \<Rightarrow> int \<Rightarrow> int \<Rightarrow> ('e + handle) \<times> 'p) \<Rightarrow> ('p \<Rightarrow> handle option \<Rightarrow> 'p) \<Rightarrow> ('p \<Rightarrow> handle \<Rightarrow> (grid \<Rightarrow> grid) \<Rightarrow> 'p)
    \<Rightarrow> (rune \<Rightarrow> int) \<Rightarrow> 'p \<Rightarrow> lruRing \<Rightarrow> int \<Rightarrow> int \<Rightarrow> int \<Rightarrow> buf \<Rightarrow> handle option \<times> 'p \<times> lruRing" where
  "putFromBuffer acq rel upd rw p c blockIdx cols rows src =
     (case drop_existing rel p c blockIdx of (p1, c1) \<Rightarrow>
      case (if lru_Len c1 \<ge> c_capacity c1 then evictOldest rel p1 c1 else (p1, c1)) of (p2, c2) \<Rightarrow>
      case acq p2 cols rows of
        (Inl _, p3) \<Rightarrow> (None, p3, c2)
      | (Inr owned, p3) \<Rightarrow>
          let p4 = upd p3 owned (\<lambda>g. the (Blit rw (Some g) (Some src) cols rows));
              entry = \<lparr>e_block = blockIdx, e_cols = cols, e_rows = rows, e_grid = owned\<rparr>
          in (Some owned, p4, c2\<lparr>c_lru := entry # c_lru c2, c_index := (c_index c2)(blockIdx \<mapsto> entry)\<rparr>))"

subsection \<open>The cache against the pool interface\<close>

definition lru_ok :: "lruRing \<Rightarrow> bool" where
  "lru_ok c \<longleftrightarrow>
     1 \<le> c_capacity c \<and> lru_Len c \<le> c_capacity c \<and> distinct (map e_block (c_lru c)) \<and>
     (\<forall>b e. c_index c b = Some e \<longleftrightarrow> e \<in> set (c_lru c) \<and> e_block e = b)"

lemma index_None: "lru_ok c \<Longrightarrow> c_index c b = None \<Longrightarrow> e \<in> set (c_lru c) \<Longrightarrow> e_block e \<noteq> b"
  unfolding lru_ok_def by (metis option.distinct(1))

lemma newLRURing_ok: "lru_ok (newLRURing n)"
  by (simp add: lru_ok_def newLRURing_def lru_Len_def)

lemma distinct_map_remove1: "distinct (map f xs) \<Longrightarrow> distinct (map f (remove1 x xs))"
  by (induction xs) (auto dest: notin_set_remove1 in_set_remove1 set_remove1_subset [THEN subsetD])

lemma lru_Get_ok:
  assumes "lru_ok c" and "lru_Get c b cols rows = (r, c')"
  shows "lru_ok c' \<and> mset (c_lru c') = mset (c_lru c)"
proof (cases "c_index c b")
  case None
  with assms show ?thesis by (simp add: lru_Get_def)
next
  case (Some e)
  then have e: "e \<in> set (c_lru c)" using assms(1) by (auto simp: lru_ok_def)
  have m: "mset (e # remove1 e (c_lru c)) = mset (c_lru c)" using e by simp
  have "lru_ok (c\<lparr>c_lru := e # remove1 e (c_lru c)\<rparr>)"
  proof -
    have "distinct (map e_block (e # remove1 e (c_lru c)))"
      using assms(1) m unfolding lru_ok_def
      by (metis distinct_map mset_eq_imp_distinct_iff mset_map)
    moreover have "set (e # remove1 e (c_lru c)) = set (c_lru c)" using m by (metis set_mset_mset)
    moreover have "length (e # remove1 e (c_lru c)) = length (c_lru c)" using m by (metis size_mset)
    ultimately show ?thesis using assms(1) by (simp add: lru_ok_def lru_Len_def)
  qed
  with Some m assms show ?thesis by (auto simp: lru_Get_def split: if_splits)
qed

lemma lru_ok_remove:
  assumes "lru_ok c" and "c_index c b = Some e"
  shows "lru_ok (c\<lparr>c_lru := remove1 e (c_lru c), c_index := (c_index c)(b := None)\<rparr>)"
    and "mset (c_lru c) = add_mset e (mset (remove1 e (c_lru c)))"
    and "lru_Len (c\<lparr>c_lru := remove1 e (c_lru c), c_index := (c_index c)(b := None)\<rparr>) < c_capacity c"
proof -
  have e: "e \<in> set (c_lru c)" "e_block e = b" using assms by (auto simp: lru_ok_def)
  show m: "mset (c_lru c) = add_mset e (mset (remove1 e (c_lru c)))" using e by simp
  have d: "distinct (c_lru c)" using assms(1) by (auto simp: lru_ok_def distinct_map)
  have len: "length (c_lru c) = Suc (length (remove1 e (c_lru c)))"
    by (metis m size_add_mset size_mset)
  have uniq: "e' = e" if "e' \<in> set (c_lru c)" "e_block e' = b" for e'
    using that e assms(1) by (auto simp: lru_ok_def distinct_map inj_on_def)
  show "lru_ok (c\<lparr>c_lru := remove1 e (c_lru c), c_index := (c_index c)(b := None)\<rparr>)"
  proof -
    have "(((c_index c)(b := None)) b' = Some e') = (e' \<in> set (remove1 e (c_lru c)) \<and> e_block e' = b')" for b' e'
    proof (cases "b' = b")
      case True
      then show ?thesis using uniq [of e'] d by auto
    next
      case False
      then have "((c_index c)(b := None)) b' = c_index c b'" by simp
      with assms(1) False e d show ?thesis by (auto simp: lru_ok_def)
    qed
    moreover have "distinct (map e_block (remove1 e (c_lru c)))"
      using assms(1) by (intro distinct_map_remove1) (simp add: lru_ok_def)
    ultimately show ?thesis using assms(1) len by (simp add: lru_ok_def lru_Len_def)
  qed
  show "lru_Len (c\<lparr>c_lru := remove1 e (c_lru c), c_index := (c_index c)(b := None)\<rparr>) < c_capacity c"
    using assms(1) len by (simp add: lru_ok_def lru_Len_def)
qed

lemma evict_is_remove:
  assumes "lru_ok c" and "c_lru c \<noteq> []"
  shows "c_index c (e_block (last (c_lru c))) = Some (last (c_lru c))"
    and "butlast (c_lru c) = remove1 (last (c_lru c)) (c_lru c)"
proof -
  show "c_index c (e_block (last (c_lru c))) = Some (last (c_lru c))"
    using assms by (auto simp: lru_ok_def)
  have "distinct (c_lru c)" using assms(1) by (auto simp: lru_ok_def distinct_map)
  then have "last (c_lru c) \<notin> set (butlast (c_lru c))"
    using assms(2) by (metis append_butlast_last_id distinct_append not_distinct_conv_prefix)
  then show "butlast (c_lru c) = remove1 (last (c_lru c)) (c_lru c)"
    using assms(2) by (metis append_butlast_last_id append_Nil2 remove1.simps(2) remove1_append)
qed

lemma lru_ok_insert:
  assumes "lru_ok c" and "c_index c b = None" and "lru_Len c < c_capacity c" and "e_block e = b"
  shows "lru_ok (c\<lparr>c_lru := e # c_lru c, c_index := (c_index c)(b \<mapsto> e)\<rparr>)"
proof -
  have "\<forall>x \<in> set (c_lru c). e_block x \<noteq> b" using index_None [OF assms(1,2)] by blast
  with assms show ?thesis by (auto simp: lru_ok_def lru_Len_def)
qed

locale grid_pool =
  fixes acq :: "'p \<Rightarrow> int \<Rightarrow> int \<Rightarrow> ('e + handle) \<times> 'p"
    and rel :: "'p \<Rightarrow> handle option \<Rightarrow> 'p"
    and upd :: "'p \<Rightarrow> handle \<Rightarrow> (grid \<Rightarrow> grid) \<Rightarrow> 'p"
    and owns :: "'p \<Rightarrow> handle list \<Rightarrow> bool"
  assumes acq_ok: "owns p out \<Longrightarrow> int32_range c \<Longrightarrow> int32_range r \<Longrightarrow> acq p c r = (Inr h, q) \<Longrightarrow> owns q (h # out)"
    and acq_err: "owns p out \<Longrightarrow> int32_range c \<Longrightarrow> int32_range r \<Longrightarrow> acq p c r = (Inl e, q) \<Longrightarrow> owns q out"
    and rel_ok: "owns p (h # out) \<Longrightarrow> owns (rel p (Some h)) out"
    and upd_ok: "owns p (h # out) \<Longrightarrow> (\<And>g. wf_grid g \<Longrightarrow> wf_grid (f g)) \<Longrightarrow> owns (upd p h f) (h # out)"
    and owns_perm: "owns p out \<Longrightarrow> mset out = mset out' \<Longrightarrow> owns p out'"
begin

definition cache_inv :: "'p \<Rightarrow> lruRing \<Rightarrow> handle list \<Rightarrow> bool" where
  "cache_inv p c out \<longleftrightarrow> lru_ok c \<and> owns p (map e_grid (c_lru c) @ out)"

lemma Get_inv: "cache_inv p c out \<Longrightarrow> lru_Get c b cols rows = (r, c') \<Longrightarrow> cache_inv p c' out"
  unfolding cache_inv_def using lru_Get_ok by (metis mset_append mset_map owns_perm)

lemma remove_inv:
  assumes "cache_inv p c out" and "c_index c b = Some e"
  shows "cache_inv (rel p (Some (e_grid e))) (c\<lparr>c_lru := remove1 e (c_lru c), c_index := (c_index c)(b := None)\<rparr>) out"
proof -
  note r = lru_ok_remove [OF _ assms(2)]
  have ok: "lru_ok c" and o: "owns p (map e_grid (c_lru c) @ out)" using assms(1) by (auto simp: cache_inv_def)
  have "owns p (e_grid e # map e_grid (remove1 e (c_lru c)) @ out)"
  proof (rule owns_perm [OF o])
    have "mset (map e_grid (c_lru c)) = add_mset (e_grid e) (mset (map e_grid (remove1 e (c_lru c))))"
      unfolding mset_map r(2) [OF ok] image_mset_add_mset ..
    then show "mset (map e_grid (c_lru c) @ out) = mset (e_grid e # map e_grid (remove1 e (c_lru c)) @ out)"
      unfolding mset_append mset.simps(2) by simp
  qed
  then show ?thesis using r(1) [OF ok] by (simp add: cache_inv_def rel_ok)
qed

lemma evict_inv:
  assumes "cache_inv p c out" and "evictOldest rel p c = (p', c')"
  shows "cache_inv p' c' out \<and> (c_lru c \<noteq> [] \<longrightarrow> lru_Len c' < c_capacity c') \<and>
     (\<forall>b. c_index c b = None \<longrightarrow> c_index c' b = None)"
proof (cases "c_lru c = []")
  case False
  have ok: "lru_ok c" using assms(1) by (simp add: cache_inv_def)
  note e = evict_is_remove [OF ok False]
  from assms(2) False have "p' = rel p (Some (e_grid (last (c_lru c))))"
    "c' = c\<lparr>c_lru := remove1 (last (c_lru c)) (c_lru c), c_index := (c_index c)(e_block (last (c_lru c)) := None)\<rparr>"
    by (auto simp: evictOldest_def Let_def e(2))
  with remove_inv [OF assms(1) e(1)] lru_ok_remove(3) [OF ok e(1)] show ?thesis by simp
qed (use assms in \<open>simp add: evictOldest_def\<close>)

lemma drop_existing_inv:
  assumes "cache_inv p c out" and "drop_existing rel p c b = (p', c')"
  shows "cache_inv p' c' out \<and> c_index c' b = None"
  using assms remove_inv [OF assms(1)]
  by (auto simp: drop_existing_def split: option.splits)

text \<open>Releasing every cached grid leaves exactly the grids owned elsewhere.\<close>

lemma invalidate_inv:
  assumes "cache_inv p c out" and "InvalidateAll rel p c = (p', c')"
  shows "cache_inv p' c' out \<and> c_lru c' = []"
proof -
  have "owns (fold (\<lambda>e p. rel p (Some (e_grid e))) es p) out" if "owns p (map e_grid es @ out)" for es p
    using that by (induction es arbitrary: p) (auto intro: rel_ok)
  with assms show ?thesis
    by (auto simp: InvalidateAll_def cache_inv_def lru_ok_def lru_Len_def)
qed

lemma put_inv:
  assumes inv: "cache_inv p c out" and dims: "int32_range cols" "int32_range rows"
    and put: "putFromBuffer acq rel upd rw p c b cols rows src = (r, p', c')"
  shows "cache_inv p' c' out \<and> (\<forall>h. r = Some h \<longrightarrow> (\<exists>e \<in> set (c_lru c'). e_block e = b \<and> e_grid e = h))"
proof -
  obtain p1 c1 where d: "drop_existing rel p c b = (p1, c1)" by fastforce
  obtain p2 c2 where ev: "(if lru_Len c1 \<ge> c_capacity c1 then evictOldest rel p1 c1 else (p1, c1)) = (p2, c2)" by fastforce
  have i1: "cache_inv p1 c1 out" "c_index c1 b = None" using drop_existing_inv [OF inv d] by auto
  have ne: "c_lru c1 \<noteq> []" if "lru_Len c1 \<ge> c_capacity c1"
    using that i1(1) by (auto simp: cache_inv_def lru_ok_def lru_Len_def)
  have i2: "cache_inv p2 c2 out" "c_index c2 b = None" "lru_Len c2 < c_capacity c2"
    using ev i1 ne evict_inv [OF i1(1)] by (auto split: if_splits)
  obtain res p3 where a: "acq p2 cols rows = (res, p3)" by fastforce
  show ?thesis
  proof (cases res)
    case (Inl e)
    have "owns p3 (map e_grid (c_lru c2) @ out)"
      using i2(1) a Inl dims by (auto simp: cache_inv_def intro: acq_err)
    with put a d ev i2 Inl show ?thesis by (auto simp: putFromBuffer_def cache_inv_def)
  next
    case (Inr h)
    let ?e = "\<lparr>e_block = b, e_cols = cols, e_rows = rows, e_grid = h\<rparr>"
    let ?f = "\<lambda>g. the (Blit rw (Some g) (Some src) cols rows)"
    have "wf_grid (?f g)" if "wf_grid g" for g
      using that by (rule Blit_wf)
    moreover have "owns p3 (h # map e_grid (c_lru c2) @ out)"
      using i2(1) a Inr dims by (auto simp: cache_inv_def intro: acq_ok)
    ultimately have "owns (upd p3 h ?f) (h # map e_grid (c_lru c2) @ out)" by (intro upd_ok)
    moreover have "lru_ok (c2\<lparr>c_lru := ?e # c_lru c2, c_index := (c_index c2)(b \<mapsto> ?e)\<rparr>)"
      using i2 by (intro lru_ok_insert) (auto simp: cache_inv_def)
    moreover have "putFromBuffer acq rel upd rw p c b cols rows src = (Some h, upd p3 h ?f,
        c2\<lparr>c_lru := ?e # c_lru c2, c_index := (c_index c2)(b \<mapsto> ?e)\<rparr>)"
      by (simp only: putFromBuffer_def d ev a Inr prod.case sum.case Let_def)
    ultimately show ?thesis using put by (auto simp: cache_inv_def)
  qed
qed

end

definition pool_upd :: "pool \<Rightarrow> handle \<Rightarrow> (grid \<Rightarrow> grid) \<Rightarrow> pool" where
  "pool_upd p h f = p\<lparr>p_heap := (p_heap p)(h \<mapsto> f (the (p_heap p h)))\<rparr>"

interpretation bpool: grid_pool "\<lambda>p c r. Acquire p c r pick" Release pool_upd pool_ok for pick
proof unfold_locales
  fix p out c r h q
  assume ok: "pool_ok p out" "int32_range c" "int32_range r" "Acquire p c r pick = (Inr h, q)"
  show "pool_ok q (h # out)"
    by (rule Acquire_driver [OF ok(1-3), of pick]) (use ok(4) in auto)
next
  fix p out c r e q
  assume ok: "pool_ok p out" "int32_range c" "int32_range r" "Acquire p c r pick = (Inl e, q)"
  show "pool_ok q out"
    by (rule Acquire_driver [OF ok(1-3), of pick]) (use ok in auto)
next
  fix p h out f
  assume "pool_ok p (h # out)" "\<And>g. wf_grid g \<Longrightarrow> wf_grid (f g)"
  then show "pool_ok (pool_upd p h f) (h # out)"
    unfolding pool_upd_def by (intro pool_ok_write) (auto simp: pool_ok_def)
next
  fix p out out'
  assume ok: "pool_ok p out" and "mset out = mset out'"
  then show "pool_ok p out'" by (intro pool_ok_mset [OF ok]) (auto simp: pool_ok_def)
qed (rule Release_pool_ok)

subsection \<open>Properties\<close>

text \<open>The operations of the cache over the buffer pool, and histories of them.\<close>

datatype cache_op = OpGet int int int | OpPut int int int buf "nat option" | OpEvict | OpInvalidate

fun cache_step :: "(rune \<Rightarrow> int) \<Rightarrow> cache_op \<Rightarrow> pool \<times> lruRing \<Rightarrow> pool \<times> lruRing" where
  "cache_step rw (OpGet b cols rows) (p, c) = (p, snd (lru_Get c b cols rows))"
| "cache_step rw (OpPut b cols rows src pick) (p, c) =
     snd (putFromBuffer (\<lambda>p c r. Acquire p c r pick) Release pool_upd rw p c b cols rows src)"
| "cache_step rw OpEvict (p, c) = evictOldest Release p c"
| "cache_step rw OpInvalidate (p, c) = InvalidateAll Release p c"

definition op_int32 :: "cache_op \<Rightarrow> bool" where
  "op_int32 x = (case x of OpPut b cols rows src pick \<Rightarrow> int32_range cols \<and> int32_range rows | _ \<Rightarrow> True)"

lemma cache_step_inv:
  assumes "bpool.cache_inv p c []" and "op_int32 x"
  shows "bpool.cache_inv (fst (cache_step rw x (p, c))) (snd (cache_step rw x (p, c))) []"
proof (cases x)
  case (OpGet b cols rows)
  with bpool.Get_inv [OF assms(1), of b cols rows] show ?thesis by (simp add: prod_eq_iff)
next
  case (OpPut b cols rows src pick)
  obtain r p' c' where "putFromBuffer (\<lambda>p c r. Acquire p c r pick) Release pool_upd rw p c b cols rows src = (r, p', c')"
    by (metis prod.collapse)
  with OpPut assms bpool.put_inv [OF assms(1) _ _ this] show ?thesis by (simp add: op_int32_def)
next
  case OpEvict
  with bpool.evict_inv [OF assms(1), of "fst (evictOldest Release p c)"] show ?thesis by simp
next
  case OpInvalidate
  with bpool.invalidate_inv [OF assms(1), of "fst (InvalidateAll Release p c)"] show ?thesis by simp
qed

lemma cache_steps_inv:
  "bpool.cache_inv (fst pc) (snd pc) [] \<Longrightarrow> list_all op_int32 ops \<Longrightarrow>
   bpool.cache_inv (fst (fold (cache_step rw) ops pc)) (snd (fold (cache_step rw) ops pc)) []"
proof (induction ops arbitrary: pc)
  case (Cons x ops)
  then show ?case using cache_step_inv [of "fst pc" "snd pc" x rw] by simp
qed simp

lemma cache_steps_capacity: "c_capacity (snd (fold (cache_step rw) ops pc)) = c_capacity (snd pc)"
proof (induction ops arbitrary: pc)
  case (Cons x ops)
  have "c_capacity (snd (cache_step rw x pc)) = c_capacity (snd pc)"
    by (cases x; cases pc) (auto simp: lru_Get_def putFromBuffer_def drop_existing_def evictOldest_def
        InvalidateAll_def Let_def split: option.split prod.splits sum.splits if_splits)
  with Cons show ?case by simp
qed simp

lemma newLRURing_capacity: "c_capacity (newLRURing k) = max 1 k"
  by (simp add: newLRURing_def max_def)

lemma new_cache_inv: "bpool.cache_inv NewBufferPool (newLRURing k) []"
  by (simp add: bpool.cache_inv_def newLRURing_ok NewBufferPool_ok) (simp add: newLRURing_def NewBufferPool_ok)



lemma map_remove1_block:
  "distinct (map f xs) \<Longrightarrow> e \<in> set xs \<Longrightarrow> map f (remove1 e xs) = remove1 (f e) (map f xs)"
  by (induction xs) (auto simp: image_iff)

text \<open>Insert then look up: after a successful put of block \<open>b\<close> a lookup at the same size returns the new
  grid and at any other size misses; \<open>b\<close> is the most recently used entry, a previous entry of \<open>b\<close> is gone, and
  only when the cache was full of other blocks does it drop one, the least recently used.\<close>

theorem put_then_get:
  assumes "lru_ok c" and "putFromBuffer acq rel upd rw p c b cols rows src = (Some h, p', c')"
  shows "fst (lru_Get c' b cols rows) = Some h \<and>
    ((cols', rows') \<noteq> (cols, rows) \<longrightarrow> fst (lru_Get c' b cols' rows') = None) \<and>
    map e_block (c_lru c') =
      b # (let blocks = map e_block (c_lru c) in
           if b \<in> set blocks then remove1 b blocks
           else if int (length blocks) \<ge> c_capacity c then butlast blocks else blocks)"
proof (cases "c_index c b")
  case None
  then have "b \<notin> set (map e_block (c_lru c))" using index_None [OF assms(1)] by auto
  with assms(2) None show ?thesis
    by (auto simp: putFromBuffer_def drop_existing_def evictOldest_def lru_Get_def lru_Len_def Let_def map_butlast
        split: prod.splits sum.splits if_splits)
next
  case (Some e)
  then have e: "e \<in> set (c_lru c)" "e_block e = b" using assms(1) by (auto simp: lru_ok_def)
  have "map e_block (remove1 e (c_lru c)) = remove1 b (map e_block (c_lru c))"
    using map_remove1_block [of e_block "c_lru c" e] assms(1) e by (simp add: lru_ok_def)
  moreover have "\<not> lru_Len (c\<lparr>c_lru := remove1 e (c_lru c), c_index := (c_index c)(b := None)\<rparr>) \<ge> c_capacity c"
    using lru_ok_remove(3) [OF assms(1) Some] by simp
  moreover have "b \<in> set (map e_block (c_lru c))" using e by auto
  ultimately show ?thesis using assms(2) Some
    by (auto simp: putFromBuffer_def drop_existing_def lru_Get_def Let_def split: prod.splits sum.splits)
qed

theorem put_then_get_witness:
  "\<exists>p' c' h. putFromBuffer (\<lambda>p c r. Acquire p c r None) Release pool_upd (\<lambda>_. 1) NewBufferPool (newLRURing 1) 7 2 1
      (as_buf sample_grid) = (Some h, p', c') \<and> fst (lru_Get c' 7 2 1) = Some h"
proof -
  have "fst (putFromBuffer (\<lambda>p c r. Acquire p c r None) Release pool_upd (\<lambda>_. 1) NewBufferPool (newLRURing 1) 7 2 1
      (as_buf sample_grid)) \<noteq> None"
    by code_simp
  then obtain h p' c' where "putFromBuffer (\<lambda>p c r. Acquire p c r None) Release pool_upd (\<lambda>_. 1) NewBufferPool
      (newLRURing 1) 7 2 1 (as_buf sample_grid) = (Some h, p', c')"
    by (metis not_None_eq prod.collapse)
  with put_then_get [OF newLRURing_ok this] show ?thesis by blast
qed

end
