(* ===== verification/VirtualScroll.thy ===== *)
theory VirtualScroll
  imports Scrollback
begin

text \<open>
  \<open>internal/app/cli/render/scrollback/virtual.go\<close>: \<open>VirtualScrollback\<close>.  Every method runs under the
  one lock, so each is a function on the whole state.  \<open>rn n cols rows\<close> is the block's \<open>Render\<close> at a
  context width and height (an error or a buffer); \<open>picks i\<close> is what \<open>sync.Pool\<close> returns when block
  \<open>i\<close> needs a grid.
\<close>

definition defaultMaxNodes :: int where "defaultMaxNodes = 10000"
definition defaultOverscan :: int where "defaultOverscan = 10"
definition defaultCacheSize :: int where "defaultCacheSize = 16"
definition minMaxNodes :: int where "minMaxNodes = 10"

record 'n vscroll =
  v_nodes :: "'n list"
  v_heights :: "int list"
  v_offsets :: "int list"
  v_cache :: lruRing
  v_pool :: pool
  v_sticky :: bool
  v_scrollY :: int
  v_maxNodes :: int
  v_overscan :: int
  v_lastCols :: int
  v_lastRows :: int
  v_ctxCols :: int
  v_ctxRows :: int

definition NewVirtualScrollback :: "int \<Rightarrow> int \<Rightarrow> int \<Rightarrow> 'n vscroll" where
  "NewVirtualScrollback maxNodes overscan cacheSize =
     \<lparr>v_nodes = [], v_heights = [], v_offsets = [0], v_cache = newLRURing cacheSize,
      v_pool = NewBufferPool, v_sticky = True, v_scrollY = 0,
      v_maxNodes = (if maxNodes < minMaxNodes then minMaxNodes else maxNodes),
      v_overscan = overscan, v_lastCols = 0, v_lastRows = 0, v_ctxCols = 0, v_ctxRows = 0\<rparr>"

definition measureHeight :: "('n \<Rightarrow> int \<Rightarrow> int \<Rightarrow> string + buf) \<Rightarrow> 'n vscroll \<Rightarrow> 'n \<Rightarrow> int" where
  "measureHeight rn s n =
     (if v_lastCols s = 0 then 1
      else (case rn n (v_ctxCols s) (v_ctxRows s) of Inl _ \<Rightarrow> 1 | Inr b \<Rightarrow> snd (b_size b)))"

definition rebuildHeights :: "('n \<Rightarrow> int \<Rightarrow> int \<Rightarrow> string + buf) \<Rightarrow> 'n vscroll \<Rightarrow> int \<Rightarrow> int list" where
  "rebuildHeights rn s cols =
     (if cols = 0 then v_heights s
      else map (\<lambda>n. case rn n (v_ctxCols s) (v_ctxRows s) of Inl _ \<Rightarrow> 1 | Inr b \<Rightarrow> snd (b_size b)) (v_nodes s))"

definition snap_bottom :: "'n vscroll \<Rightarrow> int \<Rightarrow> 'n vscroll" where
  "snap_bottom s rows =
     (let y = totalHeight (v_offsets s) - rows in s\<lparr>v_scrollY := (if y < 0 then 0 else y)\<rparr>)"

definition VS_append :: "('n \<Rightarrow> int \<Rightarrow> int \<Rightarrow> string + buf) \<Rightarrow> 'n \<Rightarrow> 'n vscroll \<Rightarrow> 'n vscroll" where
  "VS_append rn n s =
     (let h = measureHeight rn s n in
      s\<lparr>v_nodes := v_nodes s @ [n], v_heights := v_heights s @ [h],
        v_offsets := v_offsets s @ [v_offsets s ! (length (v_offsets s) - 1) + h]\<rparr>)"

definition VS_drop :: "'n vscroll \<Rightarrow> 'n vscroll" where
  "VS_drop s =
     (if int (length (v_nodes s)) > v_maxNodes s then
        (let dropN = (if v_maxNodes s div 10 < 1 then 1 else v_maxNodes s div 10);
             droppedHeight = sum_list (take (nat dropN) (v_heights s));
             pc = InvalidateAll Release (v_pool s) (v_cache s);
             y = v_scrollY s - droppedHeight;
             heights = drop (nat dropN) (v_heights s)
         in s\<lparr>v_nodes := drop (nat dropN) (v_nodes s), v_heights := heights,
              v_pool := fst pc, v_cache := snd pc, v_scrollY := (if y < 0 then 0 else y),
              v_offsets := rebuildOffsets heights\<rparr>)
      else s)"

definition VS_Push :: "('n \<Rightarrow> int \<Rightarrow> int \<Rightarrow> string + buf) \<Rightarrow> 'n \<Rightarrow> 'n vscroll \<Rightarrow> 'n vscroll" where
  "VS_Push rn n s =
     (let s1 = VS_append rn n s;
          s2 = (if v_sticky s1 then snap_bottom s1 (v_lastRows s1) else s1)
      in VS_drop s2)"

definition VS_Range :: "'n vscroll \<Rightarrow> int \<Rightarrow> int \<Rightarrow> 'n list" where
  "VS_Range s start end' =
     (let st = (if start < 0 then 0 else start);
          en = (if end' > int (length (v_nodes s)) then int (length (v_nodes s)) else end')
      in if st > en then [] else take (nat (en - st)) (drop (nat st) (v_nodes s)))"

definition VS_Len :: "'n vscroll \<Rightarrow> int" where
  "VS_Len s = int (length (v_nodes s))"

definition VS_ScrollBy :: "int \<Rightarrow> 'n vscroll \<Rightarrow> 'n vscroll" where
  "VS_ScrollBy delta s =
     (if delta = 0 then s
      else let y0 = v_scrollY s + delta;
               y = (if y0 < 0 then 0 else y0);
               m = totalHeight (v_offsets s) - v_lastRows s;
               maxY = (if m < 0 then 0 else m)
        in if y \<ge> maxY then s\<lparr>v_scrollY := maxY, v_sticky := True\<rparr>
           else if delta < 0 then s\<lparr>v_scrollY := y, v_sticky := False\<rparr>
           else s\<lparr>v_scrollY := y\<rparr>)"

definition VS_ScrollToBottom :: "'n vscroll \<Rightarrow> 'n vscroll" where
  "VS_ScrollToBottom s = snap_bottom (s\<lparr>v_sticky := True\<rparr>) (v_lastRows s)"

definition VS_resize :: "('n \<Rightarrow> int \<Rightarrow> int \<Rightarrow> string + buf) \<Rightarrow> int \<Rightarrow> int \<Rightarrow> 'n vscroll \<Rightarrow> 'n vscroll" where
  "VS_resize rn cols rows s =
     (if cols \<noteq> v_lastCols s \<or> rows \<noteq> v_lastRows s then
        (let pc = InvalidateAll Release (v_pool s) (v_cache s);
             s1 = s\<lparr>v_pool := fst pc, v_cache := snd pc, v_ctxCols := cols, v_ctxRows := rows\<rparr>;
             s2 = s1\<lparr>v_heights := rebuildHeights rn s1 cols\<rparr>;
             s3 = s2\<lparr>v_offsets := rebuildOffsets (v_heights s2), v_lastCols := cols, v_lastRows := rows\<rparr>
         in if v_sticky s3 then snap_bottom s3 rows else s3)
      else s)"

definition VS_clamp :: "int \<Rightarrow> 'n vscroll \<Rightarrow> 'n vscroll" where
  "VS_clamp rows s =
     (let m = totalHeight (v_offsets s) - rows; maxY = (if m < 0 then 0 else m);
          y = (if v_scrollY s > maxY then maxY else v_scrollY s)
      in s\<lparr>v_scrollY := (if y < 0 then 0 else y)\<rparr>)"

text \<open>One iteration of the paint loop: cache hit, or render and put; then the blit.\<close>

definition VS_paint_block ::
  "('n \<Rightarrow> int \<Rightarrow> int \<Rightarrow> string + buf) \<Rightarrow> (rune \<Rightarrow> int) \<Rightarrow> (int \<Rightarrow> nat option) \<Rightarrow> int \<Rightarrow> int
     \<Rightarrow> 'n vscroll \<times> grid \<Rightarrow> 'n vscroll \<times> grid" where
  "VS_paint_block rn rw picks cols i sg =
     (case sg of (s, next) \<Rightarrow>
        let h = v_heights s ! nat i;
            blit = (\<lambda>s hdl. (s, the (BlitAt rw (Some next) (Some (as_buf (the (p_heap (v_pool s) hdl)))) 0
                                     (v_offsets s ! nat i - v_scrollY s))))
        in case lru_Get (v_cache s) i cols h of
             (Some hdl, c) \<Rightarrow> blit (s\<lparr>v_cache := c\<rparr>) hdl
           | (None, c) \<Rightarrow>
               (case rn (v_nodes s ! nat i) (v_ctxCols s) (v_ctxRows s) of
                  Inl _ \<Rightarrow> (s\<lparr>v_cache := c\<rparr>, next)
                | Inr b \<Rightarrow>
                    (case putFromBuffer (\<lambda>p c r. Acquire p c r (picks i)) Release pool_upd rw
                            (v_pool s) c i cols h b of
                       (None, p, c') \<Rightarrow> (s\<lparr>v_pool := p, v_cache := c'\<rparr>, next)
                     | (Some hdl, p, c') \<Rightarrow> blit (s\<lparr>v_pool := p, v_cache := c'\<rparr>) hdl)))"

text \<open>The block range \<open>[startIdx, endIdx)\<close> of the viewport with its overscan.\<close>

definition VS_visible :: "int \<Rightarrow> 'n vscroll \<Rightarrow> int \<times> int" where
  "VS_visible rows s =
     (let total = totalHeight (v_offsets s);
          top = v_scrollY s - v_overscan s; bot = v_scrollY s + rows + v_overscan s;
          renderTop = (if top < 0 then 0 else top);
          renderBot = (if bot > total then total else bot);
          startIdx = findBlockAt (v_offsets s) renderTop;
          e = findBlockAt (v_offsets s) (renderBot - 1) + 1
      in (startIdx, if e > int (length (v_nodes s)) then int (length (v_nodes s)) else e))"

definition VS_Render ::
  "('n \<Rightarrow> int \<Rightarrow> int \<Rightarrow> string + buf) \<Rightarrow> (rune \<Rightarrow> int) \<Rightarrow> (int \<Rightarrow> nat option) \<Rightarrow> int \<Rightarrow> int
     \<Rightarrow> 'n vscroll \<Rightarrow> grid \<Rightarrow> 'n vscroll \<times> grid" where
  "VS_Render rn rw picks cols rows s next =
     (if cols \<le> 0 \<or> rows \<le> 0 then (s, next)
      else let s1 = VS_resize rn cols rows s; total = totalHeight (v_offsets s1) in
        if total = 0 then (s1, next)
        else let s2 = VS_clamp rows s1; r = VS_visible rows s2
             in fold (VS_paint_block rn rw picks cols) (map int [nat (fst r)..<nat (snd r)]) (s2, next))"

subsection \<open>The scroll invariant\<close>

definition maxY :: "'n vscroll \<Rightarrow> int" where
  "maxY s = max 0 (sum_list (v_heights s) - v_lastRows s)"

definition nodes_ok :: "('n \<Rightarrow> int \<Rightarrow> int \<Rightarrow> string + buf) \<Rightarrow> bool" where
  "nodes_ok rn \<longleftrightarrow> (\<forall>n c r b. rn n c r = Inr b \<longrightarrow> 0 \<le> snd (b_size b) \<and> snd (b_size b) < 2 ^ 31)"

definition vs_inv :: "'n vscroll \<Rightarrow> bool" where
  "vs_inv s \<longleftrightarrow>
     v_offsets s = rebuildOffsets (v_heights s) \<and> length (v_heights s) = length (v_nodes s) \<and>
     int (length (v_nodes s)) \<le> v_maxNodes s \<and> minMaxNodes \<le> v_maxNodes s \<and>
     (\<forall>h \<in> set (v_heights s). 0 \<le> h \<and> h < 2 ^ 31) \<and>
     0 \<le> v_scrollY s \<and> (v_sticky s \<longrightarrow> v_scrollY s = maxY s) \<and>
     bpool.cache_inv (v_pool s) (v_cache s) []"

lemma measureHeight_range: "nodes_ok rn \<Longrightarrow> 0 \<le> measureHeight rn s n \<and> measureHeight rn s n < 2 ^ 31"
  by (auto simp: measureHeight_def nodes_ok_def split: sum.splits)

lemma VS_new_inv: "vs_inv (NewVirtualScrollback m o' k)"
proof -
  have "bpool.cache_inv NewBufferPool (newLRURing k) []"
    by (simp add: bpool.cache_inv_def newLRURing_ok NewBufferPool_ok) (simp add: newLRURing_def NewBufferPool_ok)
  then show ?thesis
    by (simp add: vs_inv_def NewVirtualScrollback_def minMaxNodes_def maxY_def rebuildOffsets_def)
qed

text \<open>\<open>Push\<close> up to the cap: everything but the length bound.\<close>

lemma VS_append_offsets:
  assumes "v_offsets s = rebuildOffsets (v_heights s)"
  shows "v_offsets (VS_append rn n s) = rebuildOffsets (v_heights (VS_append rn n s))"
  using assms totalHeight_rebuild [of "v_heights s"]
  by (simp add: VS_append_def Let_def rebuildOffsets_snoc totalHeight_def)

lemma snap_bottom_scrollY:
  "v_offsets s = rebuildOffsets (v_heights s) \<Longrightarrow>
   v_scrollY (snap_bottom s rows) = max 0 (sum_list (v_heights s) - rows)"
  by (simp add: snap_bottom_def Let_def)

lemma snap_bottom_frame [simp]:
  "v_nodes (snap_bottom s r) = v_nodes s" "v_heights (snap_bottom s r) = v_heights s"
  "v_offsets (snap_bottom s r) = v_offsets s" "v_cache (snap_bottom s r) = v_cache s"
  "v_pool (snap_bottom s r) = v_pool s" "v_sticky (snap_bottom s r) = v_sticky s"
  "v_maxNodes (snap_bottom s r) = v_maxNodes s" "v_lastRows (snap_bottom s r) = v_lastRows s"
  "v_lastCols (snap_bottom s r) = v_lastCols s" "v_overscan (snap_bottom s r) = v_overscan s"
  by (simp_all add: snap_bottom_def Let_def)

text \<open>What holds between the append and the drop.\<close>

definition vs_mid :: "'n vscroll \<Rightarrow> bool" where
  "vs_mid s \<longleftrightarrow>
     v_offsets s = rebuildOffsets (v_heights s) \<and> length (v_heights s) = length (v_nodes s) \<and>
     int (length (v_nodes s)) \<le> v_maxNodes s + 1 \<and> minMaxNodes \<le> v_maxNodes s \<and>
     (\<forall>h \<in> set (v_heights s). 0 \<le> h \<and> h < 2 ^ 31) \<and>
     0 \<le> v_scrollY s \<and> (v_sticky s \<longrightarrow> v_scrollY s = maxY s) \<and>
     bpool.cache_inv (v_pool s) (v_cache s) []"

definition VS_push_mid :: "('n \<Rightarrow> int \<Rightarrow> int \<Rightarrow> string + buf) \<Rightarrow> 'n \<Rightarrow> 'n vscroll \<Rightarrow> 'n vscroll" where
  "VS_push_mid rn n s =
     (let s1 = VS_append rn n s in if v_sticky s1 then snap_bottom s1 (v_lastRows s1) else s1)"

lemma VS_Push_mid: "VS_Push rn n s = VS_drop (VS_push_mid rn n s)"
  by (simp add: VS_Push_def VS_push_mid_def Let_def)

lemma VS_push_mid_inv:
  assumes inv: "vs_inv s" and rn: "nodes_ok rn"
  shows "vs_mid (VS_push_mid rn n s)"
proof -
  let ?s1 = "VS_append rn n s"
  have o1: "v_offsets ?s1 = rebuildOffsets (v_heights ?s1)"
    using inv by (intro VS_append_offsets) (simp add: vs_inv_def)
  have rest: "length (v_heights ?s1) = length (v_nodes ?s1)" "int (length (v_nodes ?s1)) \<le> v_maxNodes ?s1 + 1"
    "minMaxNodes \<le> v_maxNodes ?s1" "\<forall>h \<in> set (v_heights ?s1). 0 \<le> h \<and> h < 2 ^ 31"
    "0 \<le> v_scrollY ?s1" "bpool.cache_inv (v_pool ?s1) (v_cache ?s1) []"
    using inv measureHeight_range [OF rn, of s n] by (auto simp: vs_inv_def VS_append_def Let_def)
  show ?thesis
  proof (cases "v_sticky ?s1")
    case True
    then show ?thesis using o1 rest
      by (simp add: VS_push_mid_def Let_def vs_mid_def snap_bottom_scrollY maxY_def)
  next
    case False
    then show ?thesis using o1 rest by (simp add: VS_push_mid_def Let_def vs_mid_def)
  qed
qed

lemma VS_drop_inv:
  assumes "vs_mid s" shows "vs_inv (VS_drop s)"
proof (cases "int (length (v_nodes s)) > v_maxNodes s")
  case True
  define d where "d = (if v_maxNodes s div 10 < 1 then 1 else v_maxNodes s div 10)"
  have d: "1 \<le> d" "d \<le> int (length (v_heights s))"
    using assms True by (auto simp: d_def vs_mid_def minMaxNodes_def)
  have split: "sum_list (take (nat d) (v_heights s)) + sum_list (drop (nat d) (v_heights s)) = sum_list (v_heights s)"
    by (rule sum_list_append_take_drop)
  have nn: "0 \<le> sum_list (drop (nat d) (v_heights s))" "0 \<le> sum_list (take (nat d) (v_heights s))"
    using assms by (auto simp: vs_mid_def intro!: sum_list_nonneg_int dest: in_set_dropD in_set_takeD)
  obtain p' c' where i: "InvalidateAll Release (v_pool s) (v_cache s) = (p', c')" by fastforce
  have "bpool.cache_inv p' c' []"
    using assms bpool.invalidate_inv [OF _ i] by (simp add: vs_mid_def)
  with True assms d split nn show ?thesis
    by (auto simp: VS_drop_def Let_def vs_inv_def vs_mid_def i maxY_def d_def [symmetric] max_def
        dest: in_set_dropD)
next
  case False
  with assms show ?thesis by (simp add: VS_drop_def vs_inv_def vs_mid_def)
qed

lemma VS_Push_inv: "vs_inv s \<Longrightarrow> nodes_ok rn \<Longrightarrow> vs_inv (VS_Push rn n s)"
  unfolding VS_Push_mid by (intro VS_drop_inv VS_push_mid_inv)

lemma VS_ScrollBy_inv: "vs_inv s \<Longrightarrow> vs_inv (VS_ScrollBy d s)"
  by (auto simp: VS_ScrollBy_def Let_def vs_inv_def maxY_def max_def)

lemma VS_ScrollToBottom_inv: "vs_inv s \<Longrightarrow> vs_inv (VS_ScrollToBottom s)"
  by (simp add: VS_ScrollToBottom_def vs_inv_def snap_bottom_scrollY maxY_def)

lemma rebuildHeights_ok:
  "nodes_ok rn \<Longrightarrow> cols \<noteq> 0 \<Longrightarrow> length (rebuildHeights rn s cols) = length (v_nodes s) \<and>
     (\<forall>h \<in> set (rebuildHeights rn s cols). 0 \<le> h \<and> h < 2 ^ 31)"
  by (auto simp: rebuildHeights_def nodes_ok_def split: sum.splits)

lemma VS_resize_inv:
  assumes inv: "vs_inv s" and rn: "nodes_ok rn" and "cols \<noteq> 0"
  shows "vs_inv (VS_resize rn cols rows s) \<and> v_lastCols (VS_resize rn cols rows s) = cols \<and>
    v_lastRows (VS_resize rn cols rows s) = rows"
proof (cases "cols \<noteq> v_lastCols s \<or> rows \<noteq> v_lastRows s")
  case True
  obtain p' c' where i: "InvalidateAll Release (v_pool s) (v_cache s) = (p', c')" by fastforce
  have "bpool.cache_inv p' c' []" using inv bpool.invalidate_inv [OF _ i] by (simp add: vs_inv_def)
  then show ?thesis using True inv rebuildHeights_ok [OF rn \<open>cols \<noteq> 0\<close>, of "s\<lparr>v_pool := p', v_cache := c', v_ctxCols := cols, v_ctxRows := rows\<rparr>"]
    by (simp add: VS_resize_def Let_def i vs_inv_def snap_bottom_scrollY maxY_def)
next
  case False
  with inv show ?thesis by (simp add: VS_resize_def)
qed

lemma VS_clamp_inv:
  "vs_inv s \<Longrightarrow> rows = v_lastRows s \<Longrightarrow> vs_inv (VS_clamp rows s) \<and> v_scrollY (VS_clamp rows s) \<le> maxY (VS_clamp rows s)"
  by (auto simp: VS_clamp_def Let_def vs_inv_def maxY_def max_def)

lemma VS_paint_block_inv:
  assumes inv: "vs_inv s" and cols: "int32_range cols" and i: "0 \<le> i" "nat i < length (v_heights s)"
  shows "vs_inv (fst (VS_paint_block rn rw picks cols i (s, g))) \<and>
    v_heights (fst (VS_paint_block rn rw picks cols i (s, g))) = v_heights s"
proof -
  let ?h = "v_heights s ! nat i"
  have ci: "bpool.cache_inv (v_pool s) (v_cache s) []" and h: "int32_range ?h"
    using inv i by (auto simp: vs_inv_def int32_range_def) (metis neg_le_0_iff_le nth_mem order_trans zero_le_numeral)+
  obtain r c where get: "lru_Get (v_cache s) i cols ?h = (r, c)" by fastforce
  have c: "bpool.cache_inv (v_pool s) c []" by (rule bpool.Get_inv [OF ci get])
  have upd: "vs_inv (s\<lparr>v_pool := p, v_cache := c'\<rparr>)" if "bpool.cache_inv p c' []" for p c'
    using inv that by (simp add: vs_inv_def maxY_def)
  have upd': "vs_inv (s\<lparr>v_cache := c\<rparr>)" using inv c by (simp add: vs_inv_def maxY_def)
  have put: "bpool.cache_inv p c' []"
    if "putFromBuffer (\<lambda>p c r. Acquire p c r (picks i)) Release pool_upd rw (v_pool s) c i cols ?h b = (ho, p, c')"
    for b ho p c'
    using bpool.put_inv [OF c cols h that] by simp
  show ?thesis
    using get upd upd' put
    by (auto simp: VS_paint_block_def Let_def split: option.splits sum.splits prod.splits)
qed

lemma VS_visible_range:
  assumes "vs_inv s" and "totalHeight (v_offsets s) \<noteq> 0"
  shows "0 \<le> fst (VS_visible rows s) \<and> snd (VS_visible rows s) \<le> int (length (v_heights s))"
proof -
  have "v_heights s \<noteq> []" "\<forall>h \<in> set (v_heights s). 0 \<le> h"
    using assms by (auto simp: vs_inv_def rebuildOffsets_def totalHeight_def)
  then show ?thesis using assms(1) findBlockAt_range [of "v_heights s"]
    by (auto simp: VS_visible_def Let_def vs_inv_def)
qed

lemma VS_paint_blocks_inv:
  assumes "vs_inv s" and "int32_range cols" and "\<forall>i \<in> set is. 0 \<le> i \<and> nat i < length (v_heights s)"
  shows "vs_inv (fst (fold (VS_paint_block rn rw picks cols) is (s, g)))"
  using assms
proof (induction "is" arbitrary: s g)
  case (Cons i "is")
  obtain s' g' where e: "VS_paint_block rn rw picks cols i (s, g) = (s', g')" by fastforce
  with VS_paint_block_inv [OF Cons.prems(1,2), of i rn rw picks g] Cons.prems(3)
  have "vs_inv s'" "v_heights s' = v_heights s" by auto
  with Cons.IH [of s' g'] Cons.prems e show ?case by simp
qed simp

lemma VS_Render_inv:
  assumes "vs_inv s" and "nodes_ok rn" and "int32_range cols"
  shows "vs_inv (fst (VS_Render rn rw picks cols rows s g))"
proof (cases "cols \<le> 0 \<or> rows \<le> 0")
  case True
  with assms show ?thesis by (auto simp: VS_Render_def)
next
  case False
  let ?s1 = "VS_resize rn cols rows s"
  let ?s2 = "VS_clamp rows ?s1"
  have s1: "vs_inv ?s1" "v_lastRows ?s1 = rows"
    using VS_resize_inv [OF assms(1,2), of cols rows] False by auto
  have s2: "vs_inv ?s2" using VS_clamp_inv [OF s1(1)] s1(2) by simp
  show ?thesis
  proof (cases "totalHeight (v_offsets ?s1) = 0")
    case True
    with False s1 show ?thesis by (simp add: VS_Render_def Let_def)
  next
    case nz: False
    then have "totalHeight (v_offsets ?s2) \<noteq> 0" by (simp add: VS_clamp_def Let_def)
    from VS_visible_range [OF s2 this, of rows]
    have "vs_inv (fst (fold (VS_paint_block rn rw picks cols)
        (map int [nat (fst (VS_visible rows ?s2))..<nat (snd (VS_visible rows ?s2))]) (?s2, g)))"
      by (intro VS_paint_blocks_inv [OF s2 assms(3)]) auto
    with False nz show ?thesis by (simp add: VS_Render_def Let_def)
  qed
qed

subsection \<open>Properties\<close>

datatype 'n vs_op = OpPush 'n | OpScrollBy int | OpBottom | OpRender "int \<Rightarrow> nat option" int int grid

fun vs_step :: "('n \<Rightarrow> int \<Rightarrow> int \<Rightarrow> string + buf) \<Rightarrow> (rune \<Rightarrow> int) \<Rightarrow> 'n vs_op \<Rightarrow> 'n vscroll \<Rightarrow> 'n vscroll" where
  "vs_step rn rw (OpPush n) s = VS_Push rn n s"
| "vs_step rn rw (OpScrollBy d) s = VS_ScrollBy d s"
| "vs_step rn rw OpBottom s = VS_ScrollToBottom s"
| "vs_step rn rw (OpRender picks cols rows g) s = fst (VS_Render rn rw picks cols rows s g)"

definition vs_op32 :: "'n vs_op \<Rightarrow> bool" where
  "vs_op32 x = (case x of OpRender picks cols rows g \<Rightarrow> int32_range cols | _ \<Rightarrow> True)"

lemma vs_step_inv: "vs_inv s \<Longrightarrow> nodes_ok rn \<Longrightarrow> vs_op32 x \<Longrightarrow> vs_inv (vs_step rn rw x s)"
  by (cases x) (auto simp: vs_op32_def intro: VS_Push_inv VS_ScrollBy_inv VS_ScrollToBottom_inv VS_Render_inv)

lemma vs_steps_inv:
  "vs_inv s \<Longrightarrow> nodes_ok rn \<Longrightarrow> list_all vs_op32 ops \<Longrightarrow> vs_inv (fold (vs_step rn rw) ops s)"
  by (induction ops arbitrary: s) (simp_all add: vs_step_inv)

text \<open>C7: Whatever is pushed, scrolled and rendered, the scrollback keeps its tables in step (one height per
  block, the offset table the prefix sums of the heights), never holds more than \<open>maxNodes\<close> blocks, never scrolls
  above the top, sits at the bottom whenever it is sticky, and its cache owns exactly the grids it caches.\<close>

theorem scrollback_invariant:
  assumes "nodes_ok rn" and "list_all vs_op32 ops"
    and "s = fold (vs_step rn rw) ops (NewVirtualScrollback maxNodes overscan cacheSize)"
  shows "v_offsets s = rebuildOffsets (v_heights s) \<and> length (v_heights s) = length (v_nodes s) \<and>
    int (length (v_nodes s)) \<le> v_maxNodes s \<and> 0 \<le> v_scrollY s \<and>
    (v_sticky s \<longrightarrow> v_scrollY s = max 0 (totalHeight (v_offsets s) - v_lastRows s)) \<and>
    lru_ok (v_cache s) \<and> pool_ok (v_pool s) (map e_grid (c_lru (v_cache s)))"
proof -
  have "vs_inv s" unfolding assms(3) by (intro vs_steps_inv VS_new_inv assms)
  then show ?thesis by (simp add: vs_inv_def maxY_def bpool.cache_inv_def)
qed

theorem scrollback_invariant_witness:
  "v_scrollY (fold (vs_step (\<lambda>_ _ _. Inl ''e'') (\<lambda>_. 1)) [OpPush (), OpScrollBy 3]
      (NewVirtualScrollback 10 2 4)) \<ge> 0"
  using scrollback_invariant [OF _ _ refl, of "\<lambda>_ _ _. Inl ''e''" "[OpPush (), OpScrollBy 3]" "\<lambda>_. 1" 10 2 4]
  by (simp add: nodes_ok_def vs_op32_def del: fold.simps)

text \<open>Dropping the oldest blocks does not move what the user reads: when the dropped rows are above the
  viewport, every surviving block keeps its row relative to the viewport, and the blocks and heights that survive
  are the newest ones in order.\<close>

theorem drop_keeps_reading_position:
  assumes "v_offsets s = rebuildOffsets (v_heights s)" and "length (v_heights s) = length (v_nodes s)"
    and "10 \<le> v_maxNodes s" and "v_maxNodes s < int (length (v_nodes s))"
    and "d = nat (v_maxNodes s div 10)" and "sum_list (take d (v_heights s)) \<le> v_scrollY s"
  shows "v_nodes (VS_drop s) = drop d (v_nodes s) \<and> v_heights (VS_drop s) = drop d (v_heights s) \<and>
    (\<forall>i \<le> length (v_nodes (VS_drop s)).
       v_offsets (VS_drop s) ! i - v_scrollY (VS_drop s) = v_offsets s ! (d + i) - v_scrollY s)"
proof -
  have d: "(if v_maxNodes s div 10 < 1 then 1 else v_maxNodes s div 10) = int d" "d \<le> length (v_nodes s)"
    using assms(3-5) by auto
  have y: "v_scrollY (VS_drop s) = v_scrollY s - sum_list (take d (v_heights s))"
    and n: "v_nodes (VS_drop s) = drop d (v_nodes s)" and h: "v_heights (VS_drop s) = drop d (v_heights s)"
    and o': "v_offsets (VS_drop s) = rebuildOffsets (drop d (v_heights s))"
    using assms(4,6) by (simp_all add: VS_drop_def Let_def d(1))
  have "v_offsets (VS_drop s) ! i - v_scrollY (VS_drop s) = v_offsets s ! (d + i) - v_scrollY s"
    if "i \<le> length (v_nodes (VS_drop s))" for i
    using that d(2) assms(1,2) by (simp add: y n o' nth_rebuildOffsets take_add)
  with n h show ?thesis by blast
qed

theorem drop_keeps_reading_position_witness:
  "let s = (NewVirtualScrollback 10 2 4)\<lparr>v_nodes := replicate 11 (), v_heights := replicate 11 2,
       v_offsets := rebuildOffsets (replicate 11 2), v_scrollY := 5, v_sticky := False\<rparr>
   in v_offsets (VS_drop s) ! 3 - v_scrollY (VS_drop s) = v_offsets s ! 4 - v_scrollY s"
proof -
  let ?s = "(NewVirtualScrollback 10 2 4)\<lparr>v_nodes := replicate 11 (), v_heights := replicate 11 2,
       v_offsets := rebuildOffsets (replicate 11 2), v_scrollY := 5, v_sticky := False\<rparr>"
  have "\<forall>i \<le> length (v_nodes (VS_drop ?s)).
      v_offsets (VS_drop ?s) ! i - v_scrollY (VS_drop ?s) = v_offsets ?s ! (1 + i) - v_scrollY ?s"
    and n: "v_nodes (VS_drop ?s) = drop 1 (v_nodes ?s)"
    using drop_keeps_reading_position [of ?s 1] by (simp_all add: NewVirtualScrollback_def minMaxNodes_def numeral_eq_Suc)
  then have "v_offsets (VS_drop ?s) ! 3 - v_scrollY (VS_drop ?s) = v_offsets ?s ! (1 + 3) - v_scrollY ?s"
    by (simp add: n)
  then show ?thesis by (simp add: Let_def)
qed

text \<open>The painted block range covers the viewport: with a non-negative overscan, the block of every history
  line in the viewport is among the blocks \<open>Render\<close> paints.\<close>

theorem render_covers_viewport:
  assumes "vs_inv s" and "0 \<le> v_overscan s" and "0 \<le> y" and "y < totalHeight (v_offsets s)"
    and "v_scrollY s \<le> y" and "y < v_scrollY s + rows"
  shows "fst (VS_visible rows s) \<le> findBlockAt (v_offsets s) y \<and>
    findBlockAt (v_offsets s) y < snd (VS_visible rows s)"
proof -
  have nn: "\<forall>h \<in> set (v_heights s). 0 \<le> h" and o': "v_offsets s = rebuildOffsets (v_heights s)"
    and len: "length (v_heights s) = length (v_nodes s)" and y: "y < sum_list (v_heights s)"
    using assms(1,4) by (auto simp: vs_inv_def)
  have "findBlockAt (v_offsets s) y < int (length (v_nodes s))"
    using findBlockAt_inside [OF nn assms(3) y] len o' by simp
  moreover have "findBlockAt (v_offsets s) a \<le> findBlockAt (v_offsets s) b"
    if "a \<le> b" "0 \<le> a" "b < sum_list (v_heights s)" for a b
    unfolding o' using that by (intro findBlockAt_mono [OF nn])
  ultimately show ?thesis using assms(2-6) y o'
    by (auto simp: VS_visible_def Let_def le_less_trans)
qed

theorem render_covers_viewport_witness:
  "let s = VS_ScrollBy (- 1) (VS_Push (\<lambda>_ _ _. Inl ''e'') () (NewVirtualScrollback 10 2 4)) in findBlockAt (v_offsets s) 0 < snd (VS_visible 1 s)"
proof -
  let ?s = "VS_ScrollBy (- 1) (VS_Push (\<lambda>_ _ _. Inl ''e'') () (NewVirtualScrollback 10 2 4))"
  have "vs_inv ?s" by (intro VS_ScrollBy_inv VS_Push_inv VS_new_inv) (simp add: nodes_ok_def)
  moreover have "0 \<le> v_overscan ?s" "(0::int) < totalHeight (v_offsets ?s)" "v_scrollY ?s \<le> 0" "0 < v_scrollY ?s + 1"
    by code_simp+
  ultimately show ?thesis using render_covers_viewport [of ?s 0 1] by (simp add: Let_def)
qed

end
