(* ===== verification/Float64.thy ===== *)
theory Float64
  imports GoPrelude Complex_Main
begin

text \<open>
  The part of Go's \<open>float64\<close> the layout code uses: comparison, addition, multiplication, division and
  the conversions from and to \<open>int\<close>, on IEEE 754 binary64 values with round-to-nearest-even.  The
  sign of zero is not represented (no operation used here can tell).  The conversion of a value that
  \<open>int\<close> cannot represent is implementation-defined in Go: it is the argument \<open>ov\<close>.
\<close>

datatype f64 = NaN | Inf bool | Fin rat

definition two_pow :: "int \<Rightarrow> rat" where
  "two_pow e = (if 0 \<le> e then 2 ^ nat e else 1 / 2 ^ nat (- e))"

text \<open>The number of binary digits.\<close>

fun bits :: "nat \<Rightarrow> nat" where
  "bits n = (if n = 0 then 0 else Suc (bits (n div 2)))"

declare bits.simps [simp del]

text \<open>The exponent of a positive rational: the largest \<open>k\<close> with \<open>2^k \<le> q\<close>.\<close>

definition ilog2 :: "rat \<Rightarrow> int" where
  "ilog2 q = (case quotient_of q of (n, d) \<Rightarrow>
     (let k = int (bits (nat n)) - int (bits (nat d)) in if two_pow k \<le> q then k else k - 1))"

text \<open>Round half to even.\<close>

definition rhe :: "rat \<Rightarrow> int" where
  "rhe x = (let f = \<lfloor>x\<rfloor>; r = x - of_int f in
     if r < 1 / 2 then f else if 1 / 2 < r then f + 1 else if even f then f else f + 1)"

definition f_round :: "rat \<Rightarrow> f64" where
  "f_round q =
     (if q = 0 then Fin 0
      else let e = max (ilog2 \<bar>q\<bar> - 52) (- 1074); m = of_int (rhe (\<bar>q\<bar> / two_pow e)) * two_pow e
           in if two_pow 1024 \<le> m then Inf (q < 0) else Fin (if q < 0 then - m else m))"

definition f_lt :: "f64 \<Rightarrow> f64 \<Rightarrow> bool" where
  "f_lt a b =
     (case (a, b) of
        (NaN, _) \<Rightarrow> False | (_, NaN) \<Rightarrow> False
      | (Inf s, Inf t) \<Rightarrow> s \<and> \<not> t
      | (Inf s, Fin _) \<Rightarrow> s
      | (Fin _, Inf t) \<Rightarrow> \<not> t
      | (Fin x, Fin y) \<Rightarrow> x < y)"

definition f_add :: "f64 \<Rightarrow> f64 \<Rightarrow> f64" where
  "f_add a b =
     (case (a, b) of
        (NaN, _) \<Rightarrow> NaN | (_, NaN) \<Rightarrow> NaN
      | (Inf s, Inf t) \<Rightarrow> if s = t then Inf s else NaN
      | (Inf s, Fin _) \<Rightarrow> Inf s
      | (Fin _, Inf t) \<Rightarrow> Inf t
      | (Fin x, Fin y) \<Rightarrow> f_round (x + y))"

definition f_mul :: "f64 \<Rightarrow> f64 \<Rightarrow> f64" where
  "f_mul a b =
     (case (a, b) of
        (NaN, _) \<Rightarrow> NaN | (_, NaN) \<Rightarrow> NaN
      | (Inf s, Inf t) \<Rightarrow> Inf (s \<noteq> t)
      | (Inf s, Fin y) \<Rightarrow> if y = 0 then NaN else Inf (s \<noteq> (y < 0))
      | (Fin x, Inf t) \<Rightarrow> if x = 0 then NaN else Inf (t \<noteq> (x < 0))
      | (Fin x, Fin y) \<Rightarrow> f_round (x * y))"

text \<open>Only ever applied to a divisor greater than zero.\<close>

definition f_div :: "f64 \<Rightarrow> f64 \<Rightarrow> f64" where
  "f_div a b =
     (case (a, b) of
        (NaN, _) \<Rightarrow> NaN | (_, NaN) \<Rightarrow> NaN
      | (Inf s, Inf t) \<Rightarrow> NaN
      | (Inf s, Fin y) \<Rightarrow> Inf (s \<noteq> (y < 0))
      | (Fin x, Inf t) \<Rightarrow> Fin 0
      | (Fin x, Fin y) \<Rightarrow> if y = 0 then (if x = 0 then NaN else Inf (x < 0)) else f_round (x / y))"

definition f_of_int :: "int \<Rightarrow> f64" where
  "f_of_int n = f_round (of_int n)"

definition f_to_int :: "(f64 \<Rightarrow> int) \<Rightarrow> f64 \<Rightarrow> int" where
  "f_to_int ov a =
     (case a of
        Fin q \<Rightarrow> (let t = (if q < 0 then - \<lfloor>- q\<rfloor> else \<lfloor>q\<rfloor>) in
                  if - (2 ^ 63) \<le> t \<and> t < 2 ^ 63 then t else ov a)
      | _ \<Rightarrow> ov a)"

subsection \<open>Rounding below an exact integer\<close>

lemma two_pow_pos [simp]: "0 < two_pow e"
  by (simp add: two_pow_def)

lemma bits_upper: "n < 2 ^ bits n"
proof (induction n rule: bits.induct)
  case (1 n)
  show ?case
  proof (cases "n = 0")
    case False
    with 1 have "n div 2 < 2 ^ bits (n div 2)" by simp
    then have "n < 2 * 2 ^ bits (n div 2)" by linarith
    with False show ?thesis by (subst bits.simps) simp
  qed (simp add: bits.simps)
qed

lemma bits_lower: "0 < n \<Longrightarrow> 2 ^ bits n \<le> 2 * n"
proof (induction n rule: bits.induct)
  case (1 n)
  show ?case
  proof (cases "n div 2 = 0")
    case True
    with 1(2) have "n = 1" by linarith
    then show ?thesis by (simp add: bits.simps)
  next
    case False
    with 1 have "2 ^ bits (n div 2) \<le> 2 * (n div 2)" by simp
    then have "2 * 2 ^ bits (n div 2) \<le> 2 * n" by linarith
    with 1(2) show ?thesis by (subst bits.simps) simp
  qed
qed

lemma two_pow_diff: "two_pow (int a - int b) = 2 ^ a / 2 ^ b"
proof (cases "b \<le> a")
  case True
  then have "nat (int a - int b) = a - b" by simp
  with True show ?thesis by (simp add: two_pow_def power_diff)
next
  case False
  then have "nat (- (int a - int b)) = b - a" by simp
  with False show ?thesis by (simp add: two_pow_def power_diff)
qed

lemma ilog2_le:
  assumes "0 < q" shows "two_pow (ilog2 q) \<le> q"
proof -
  obtain n d where nd: "quotient_of q = (n, d)" by fastforce
  have d: "0 < d" using quotient_of_denom_pos [OF nd] .
  have q: "q = of_int n / of_int d" by (rule quotient_of_div [OF nd])
  with assms d have n: "0 < n" by (simp add: zero_less_divide_iff)
  let ?k = "int (bits (nat n)) - int (bits (nat d))"
  have n2: "(2::rat) ^ bits (nat n) \<le> 2 * of_int n"
  proof -
    have "int (2 ^ bits (nat n)) \<le> 2 * n" using bits_lower [of "nat n"] n by linarith
    then have "(of_int (int (2 ^ bits (nat n))) :: rat) \<le> of_int (2 * n)" by (rule of_int_le_iff [THEN iffD2])
    then show ?thesis by simp
  qed
  have d2: "of_int d < (2::rat) ^ bits (nat d)"
  proof -
    have "d < int (2 ^ bits (nat d))" using bits_upper [of "nat d"] d by linarith
    then have "(of_int d :: rat) < of_int (int (2 ^ bits (nat d)))" by (rule of_int_less_iff [THEN iffD2])
    then show ?thesis by simp
  qed
  have "two_pow (?k - 1) \<le> q"
  proof -
    have "two_pow (?k - 1) = 2 ^ bits (nat n) / 2 ^ Suc (bits (nat d))"
      using two_pow_diff [of "bits (nat n)" "Suc (bits (nat d))"] by (simp add: algebra_simps)
    also have "\<dots> \<le> (2 * of_int n) / 2 ^ Suc (bits (nat d))" by (rule divide_right_mono [OF n2]) simp
    also have "\<dots> = of_int n / 2 ^ bits (nat d)" by simp
    also have "\<dots> \<le> of_int n / of_int d" using d d2 n by (intro divide_left_mono) auto
    finally show ?thesis by (simp add: q)
  qed
  then show ?thesis by (simp add: ilog2_def nd Let_def)
qed

lemma rhe_nonneg: "0 \<le> x \<Longrightarrow> 0 \<le> rhe x"
  by (simp add: rhe_def Let_def)

lemma rhe_le: "x \<le> of_int n \<Longrightarrow> rhe x \<le> n"
proof -
  assume x: "x \<le> of_int n"
  then have "\<lfloor>x\<rfloor> \<le> n" by (metis floor_le_iff floor_mono floor_of_int)
  moreover have "x - of_int \<lfloor>x\<rfloor> \<le> 0" if "\<lfloor>x\<rfloor> = n" using x that by simp
  ultimately show "rhe x \<le> n" by (fastforce simp: rhe_def Let_def not_less)
qed

lemma two_pow_mono: "a \<le> b \<Longrightarrow> two_pow a \<le> two_pow b"
proof -
  assume ab: "a \<le> b"
  obtain i j k l where "a = int i - int j" "b = int k - int l" by (metis int_diff_cases)
  with ab have "i + l \<le> k + j" by linarith
  then have "(2::rat) ^ (i + l) \<le> 2 ^ (k + j)" by (intro power_increasing) simp_all
  with \<open>a = _\<close> \<open>b = _\<close> show ?thesis
    by (simp add: two_pow_diff divide_simps power_add mult.commute)
qed

text \<open>Rounding a value between 0 and an integer below \<open>2^53\<close> stays there.\<close>

lemma f_round_below:
  assumes "0 \<le> q" and "q \<le> of_int n" and "n < 2 ^ 53"
  obtains v where "f_round q = Fin v" and "0 \<le> v" and "v \<le> of_int n"
proof (cases "q = 0")
  case True
  with assms that show thesis by (simp add: f_round_def)
next
  case False
  define e where "e = max (ilog2 \<bar>q\<bar> - 52) (- 1074)"
  define m where "m = of_int (rhe (\<bar>q\<bar> / two_pow e)) * two_pow e"
  have q: "0 < q" "\<bar>q\<bar> = q" using False assms(1) by auto
  have "e \<le> 0"
  proof (rule ccontr)
    assume "\<not> e \<le> 0"
    then have "53 \<le> ilog2 q" by (simp add: e_def q)
    then have "two_pow 53 \<le> q" using two_pow_mono ilog2_le [OF q(1)] order_trans by blast
    moreover have "(of_int n :: rat) < 2 ^ 53"
      using assms(3) of_int_less_iff [of n "2 ^ 53", where 'a = rat] by simp
    ultimately show False using assms(2) by (simp add: two_pow_def)
  qed
  have int: "of_int n / two_pow e = of_int (n * 2 ^ nat (- e))"
    using \<open>e \<le> 0\<close> by (cases "e = 0") (simp_all add: two_pow_def)
  have "\<bar>q\<bar> / two_pow e \<le> of_int (n * 2 ^ nat (- e))"
    unfolding int [symmetric] q(2) by (intro divide_right_mono assms(2)) (simp add: less_imp_le)
  then have "rhe (\<bar>q\<bar> / two_pow e) \<le> n * 2 ^ nat (- e)" by (rule rhe_le)
  then have "m \<le> of_int (n * 2 ^ nat (- e)) * two_pow e"
    unfolding m_def by (intro mult_right_mono of_int_le_iff [THEN iffD2]) (simp_all add: less_imp_le)
  then have m: "m \<le> of_int n" unfolding int [symmetric] using two_pow_pos [of e] by (simp del: two_pow_pos)
  have m0: "0 \<le> m" unfolding m_def using q rhe_nonneg by (simp add: less_imp_le)
  have "\<not> two_pow 1024 \<le> m"
  proof
    assume "two_pow 1024 \<le> m"
    with m have "two_pow 1024 \<le> of_int n" by simp
    moreover have "(of_int n :: rat) < 2 ^ 53"
      using assms(3) of_int_less_iff [of n "2 ^ 53", where 'a = rat] by simp
    moreover have "two_pow 53 \<le> two_pow 1024" by (rule two_pow_mono) simp
    ultimately show False by (simp add: two_pow_def)
  qed
  then have "f_round q = Fin m" using False q by (simp add: f_round_def e_def m_def Let_def)
  with m0 m that show thesis by blast
qed

text \<open>Integers below \<open>2^53\<close> are exact.\<close>

lemma f_round_int:
  assumes "0 \<le> n" and "n < 2 ^ 53" shows "f_round (of_int n) = Fin (of_int n)"
proof (cases "n = 0")
  case False
  define q where "q = (of_int n :: rat)"
  define e where "e = max (ilog2 q - 52) (- 1074)"
  have q: "0 < q" using False assms(1) by (simp add: q_def)
  have q53: "q < 2 ^ 53" using assms(2) of_int_less_iff [of n "2 ^ 53", where 'a = rat] by (simp add: q_def)
  have "e \<le> 0"
  proof (rule ccontr)
    assume "\<not> e \<le> 0"
    then have "two_pow 53 \<le> q" using two_pow_mono [of 53 "ilog2 q"] ilog2_le [OF q] by (simp add: e_def)
    with q53 show False by (simp add: two_pow_def)
  qed
  then have int: "q / two_pow e = of_int (n * 2 ^ nat (- e))"
    by (cases "e = 0") (simp_all add: two_pow_def q_def)
  have rhe: "rhe (of_int k) = k" for k by (simp add: rhe_def Let_def)
  have "of_int (rhe (q / two_pow e)) * two_pow e = q"
    unfolding int rhe unfolding int [symmetric] using two_pow_pos [of e] by (simp del: two_pow_pos)
  moreover have "\<not> two_pow 1024 \<le> q"
  proof
    assume "two_pow 1024 \<le> q"
    moreover have "two_pow 53 \<le> two_pow 1024" by (rule two_pow_mono) simp
    ultimately show False using q53 by (simp add: two_pow_def)
  qed
  ultimately have "f_round q = Fin q" using q by (simp add: f_round_def Let_def e_def)
  then show ?thesis by (simp add: q_def)
qed (simp add: f_round_def)

lemma f_round_0 [simp]: "f_round 0 = Fin 0"
  and f_round_1 [simp]: "f_round 1 = Fin 1"
  and f_round_numeral [simp]: "(numeral k :: int) < 2 ^ 53 \<Longrightarrow> f_round (numeral k) = Fin (numeral k)"
  using f_round_int [of 0] f_round_int [of 1] f_round_int [of "numeral k"] by simp_all

lemmas f_eval = f_add_def f_mul_def f_div_def f_lt_def f_of_int_def f_to_int_def

text \<open>Rounding a value above a \<open>float64\<close> stays above it.\<close>

lemma ilog2_gt:
  assumes "0 < q" shows "q < two_pow (ilog2 q + 1)"
proof -
  obtain n d where nd: "quotient_of q = (n, d)" by fastforce
  have d: "0 < d" using quotient_of_denom_pos [OF nd] .
  have q: "q = of_int n / of_int d" by (rule quotient_of_div [OF nd])
  with assms d have n: "0 < n" by (simp add: zero_less_divide_iff)
  let ?k = "int (bits (nat n)) - int (bits (nat d))"
  have n2: "of_int n < (2::rat) ^ bits (nat n)"
  proof -
    have "n < int (2 ^ bits (nat n))" using bits_upper [of "nat n"] n by linarith
    then have "(of_int n :: rat) < of_int (int (2 ^ bits (nat n)))" by (rule of_int_less_iff [THEN iffD2])
    then show ?thesis by simp
  qed
  have d2: "(2::rat) ^ bits (nat d) \<le> 2 * of_int d"
  proof -
    have "int (2 ^ bits (nat d)) \<le> 2 * d" using bits_lower [of "nat d"] d by linarith
    then have "(of_int (int (2 ^ bits (nat d))) :: rat) \<le> of_int (2 * d)" by (rule of_int_le_iff [THEN iffD2])
    then show ?thesis by simp
  qed
  have "q < two_pow (?k + 1)"
  proof -
    have "q < 2 ^ bits (nat n) / of_int d" unfolding q using n2 d by (intro divide_strict_right_mono) simp_all
    also have "\<dots> \<le> 2 ^ bits (nat n) / (2 ^ bits (nat d) / 2)"
      using d2 d by (intro divide_left_mono) simp_all
    also have "\<dots> = two_pow (int (Suc (bits (nat n))) - int (bits (nat d)))"
      unfolding two_pow_diff by simp
    finally show ?thesis by (simp add: algebra_simps)
  qed
  then show ?thesis by (auto simp: ilog2_def nd Let_def not_le)
qed

lemma rhe_ge: "of_int n \<le> x \<Longrightarrow> n \<le> rhe x"
  by (simp add: rhe_def Let_def le_floor_iff add_increasing2)

lemma two_pow_add: "two_pow (a + b) = two_pow a * two_pow b"
proof -
  obtain i j k l where ij: "a = int i - int j" "b = int k - int l" by (metis int_diff_cases)
  then have "a + b = int (i + k) - int (j + l)" by simp
  then show ?thesis unfolding ij(1,2) two_pow_diff by (simp only: ij [symmetric] two_pow_diff) (simp add: power_add)
qed

definition f_above :: "rat \<Rightarrow> f64 \<Rightarrow> bool" where
  "f_above x a \<longleftrightarrow> a = Inf False \<or> (\<exists>y. a = Fin y \<and> x \<le> y)"

lemma f_round_above:
  assumes x: "0 \<le> x" "f_round x = Fin x" and q: "x \<le> q"
  shows "f_above x (f_round q)"
proof (cases "x = 0 \<or> q = 0")
  case True
  with x q have "x = 0" by auto
  with q rhe_nonneg show ?thesis
    by (auto simp: f_above_def f_round_def Let_def less_imp_le)
next
  case False
  define e where "e = max (ilog2 q - 52) (- 1074)"
  define ex where "ex = max (ilog2 x - 52) (- 1074)"
  have pos: "0 < x" "0 < q" using False x(1) q by auto
  have xm: "x = of_int (rhe (x / two_pow ex)) * two_pow ex"
    using x(2) False pos by (simp add: f_round_def Let_def ex_def split: if_splits)
  have le: "x \<le> of_int (rhe (q / two_pow e)) * two_pow e"
  proof (cases "e \<le> ex")
    case True
    obtain k where k: "ex = e + int k" using True by (metis le_iff_add zle_iff_zadd)
    have "x = of_int (rhe (x / two_pow ex) * 2 ^ k) * two_pow e"
      by (subst xm) (simp add: k two_pow_add two_pow_def [of "int k"])
    moreover from this have "of_int (rhe (x / two_pow ex) * 2 ^ k) \<le> q / two_pow e"
      using q by (simp add: pos_le_divide_eq)
    then have "rhe (x / two_pow ex) * 2 ^ k \<le> rhe (q / two_pow e)" by (rule rhe_ge)
    then have "(of_int (rhe (x / two_pow ex) * 2 ^ k) :: rat) * two_pow e \<le> of_int (rhe (q / two_pow e)) * two_pow e"
      by (intro mult_right_mono of_int_le_iff [THEN iffD2]) (simp_all add: less_imp_le)
    ultimately show ?thesis by simp
  next
    case less: False
    then have e: "e = ilog2 q - 52" by (auto simp: e_def ex_def)
    have "two_pow 52 * two_pow e \<le> q" using ilog2_le [OF pos(2)] by (simp add: e flip: two_pow_add)
    then have "of_int (2 ^ 52) \<le> q / two_pow e" by (simp add: pos_le_divide_eq two_pow_def [of 52])
    then have "2 ^ 52 \<le> rhe (q / two_pow e)" by (rule rhe_ge)
    then have "(of_int (2 ^ 52) :: rat) * two_pow e \<le> of_int (rhe (q / two_pow e)) * two_pow e"
      by (intro mult_right_mono of_int_le_iff [THEN iffD2]) (simp_all add: less_imp_le)
    moreover have "x \<le> two_pow (52 + e)"
    proof -
      have "ilog2 x + 1 \<le> 52 + e" using less by (auto simp: ex_def)
      with ilog2_gt [OF pos(1)] two_pow_mono show ?thesis by (meson less_imp_le order_trans)
    qed
    moreover have "two_pow (52 + e) = of_int (2 ^ 52) * two_pow e"
      by (simp add: two_pow_add two_pow_def [of 52])
    ultimately show ?thesis by (metis order_trans)
  qed
  then show ?thesis using pos by (simp add: f_above_def f_round_def Let_def e_def)
qed

end
