(* ===== verification/Flex.thy ===== *)
theory Flex
  imports Float64
begin

text \<open>
  \<open>internal/app/cli/render/layout\<close>: the flex layout of \<open>flex.go\<close> with \<open>justify.go\<close>,
  \<open>align.go\<close> and \<open>layout.go\<close>.  A \<open>*FlexNode\<close> is a tree whose nodes carry their address (\<open>n_id\<close>), so a
  node reached twice is the same address twice, which \<open>validateTree\<close> rejects; after that check the
  code's map from node addresses to \<open>meta\<close> is a \<open>meta\<close> stored at each node, here the tree \<open>mt\<close> the
  passes annotate.  A leaf's \<open>Measure\<close> is the pair it returns; callbacks that call the layouter again
  (the re-entry guard) are not modelled, nor are child graphs with a cycle, which have no finite
  tree.  Weights are \<open>float64\<close> values; \<open>ov\<close> is Go's implementation-defined float-to-int conversion.
\<close>

datatype direction = Row | Column
datatype basis_mode = BasisAuto | BasisFixed
datatype justify = JustifyStart | JustifyCenter | JustifyEnd | JustifySpaceBetween | JustifySpaceAround | JustifyOther
datatype align = AlignStretch | AlignStart | AlignCenter | AlignEnd | AlignOther
datatype layout_error = ErrInvalidDimension | PanicNil

definition MaxChildren :: nat where "MaxChildren = 1000"

datatype flexnode =
    NilNode
  | FlexNode (n_id: nat) (n_dir: direction) (n_grow: f64) (n_shrink: f64) (n_basis: int) (n_mode: basis_mode)
      (n_justify: justify) (n_align: align) (n_measure: "(int \<times> int) option") (n_children: "flexnode list")

definition NewFlexNode :: "nat \<Rightarrow> flexnode" where
  "NewFlexNode i = FlexNode i Row (Fin 0) (Fin 1) 0 BasisAuto JustifyStart AlignStretch None []"

record box =
  X :: int
  Y :: int
  BWidth :: int
  BHeight :: int

record meta =
  intrinsicW :: int
  intrinsicH :: int
  m_width :: int
  m_height :: int
  m_x :: int
  m_y :: int

datatype mt = MT (t_node: flexnode) (t_meta: meta) (t_children: "mt list")

subsection \<open>Axis helpers\<close>

definition mainOf :: "direction \<Rightarrow> int \<Rightarrow> int \<Rightarrow> int" where
  "mainOf dir w h = (if dir = Row then w else h)"

definition crossOf :: "direction \<Rightarrow> int \<Rightarrow> int \<Rightarrow> int" where
  "crossOf dir w h = (if dir = Row then h else w)"

definition clampToViewport :: "int \<Rightarrow> int \<Rightarrow> int" where
  "clampToViewport sz viewportSize = (if sz > viewportSize then viewportSize else sz)"

definition widthOf :: "direction \<Rightarrow> int \<Rightarrow> int \<Rightarrow> int" where
  "widthOf dir mainSize crossSize = (if dir = Row then mainSize else crossSize)"

definition heightOf :: "direction \<Rightarrow> int \<Rightarrow> int \<Rightarrow> int" where
  "heightOf dir mainSize crossSize = (if dir = Row then crossSize else mainSize)"

definition clampCross :: "int \<Rightarrow> int \<Rightarrow> int" where
  "clampCross childCross parentCross =
     (if childCross \<le> 0 then parentCross else if childCross > parentCross then parentCross else childCross)"

definition applyAlign :: "align \<Rightarrow> int \<Rightarrow> int \<Rightarrow> int \<times> int" where
  "applyAlign align parentCross childIntrinsicCross =
     (case align of
        AlignStretch \<Rightarrow> (parentCross, 0)
      | AlignStart \<Rightarrow> (clampCross childIntrinsicCross parentCross, 0)
      | AlignCenter \<Rightarrow> (let sz = clampCross childIntrinsicCross parentCross in (sz, go_div (parentCross - sz) 2))
      | AlignEnd \<Rightarrow> (let sz = clampCross childIntrinsicCross parentCross in (sz, parentCross - sz))
      | AlignOther \<Rightarrow> (parentCross, 0))"

definition applyJustify :: "justify \<Rightarrow> int \<Rightarrow> int \<Rightarrow> int \<Rightarrow> int \<times> int" where
  "applyJustify justify parentMain totalMain n =
     (let f0 = parentMain - totalMain; free = (if f0 < 0 then 0 else f0) in
      case justify of
        JustifyStart \<Rightarrow> (0, 0)
      | JustifyCenter \<Rightarrow> (go_div free 2, 0)
      | JustifyEnd \<Rightarrow> (free, 0)
      | JustifySpaceBetween \<Rightarrow> if n < 2 then (0, 0) else (0, go_div free (n - 1))
      | JustifySpaceAround \<Rightarrow> if n = 0 then (0, 0) else (let unit = go_div free (2 * n) in (unit, unit * 2))
      | JustifyOther \<Rightarrow> (0, 0))"

subsection \<open>Validation and intrinsic sizes\<close>

fun validateTreeNode :: "flexnode \<Rightarrow> nat set \<Rightarrow> layout_error + nat set"
  and validateChildren :: "flexnode list \<Rightarrow> nat set \<Rightarrow> layout_error + nat set" where
  "validateTreeNode NilNode seen = Inr seen"
| "validateTreeNode (FlexNode i dir grow shrink basis mode justify align ms children) seen =
     (if i \<in> seen then Inl ErrInvalidDimension
      else if f_lt grow (Fin 0) \<or> f_lt shrink (Fin 0) then Inl ErrInvalidDimension
      else if mode = BasisFixed \<and> basis < 0 then Inl ErrInvalidDimension
      else if length children > MaxChildren then Inl ErrInvalidDimension
      else validateChildren children (insert i seen))"
| "validateChildren [] seen = Inr seen"
| "validateChildren (c # cs) seen =
     (if c = NilNode then Inl ErrInvalidDimension
      else case validateTreeNode c seen of
             Inl e \<Rightarrow> Inl e
           | Inr seen' \<Rightarrow> validateChildren cs seen')"

definition new_meta :: "int \<Rightarrow> int \<Rightarrow> meta" where
  "new_meta w h = \<lparr>intrinsicW = w, intrinsicH = h, m_width = 0, m_height = 0, m_x = 0, m_y = 0\<rparr>"

fun intrinsicPass :: "flexnode \<Rightarrow> layout_error + mt"
  and intrinsicChildren :: "direction \<Rightarrow> flexnode list \<Rightarrow> int \<Rightarrow> int \<Rightarrow> layout_error + (mt list \<times> int \<times> int)" where
  "intrinsicPass NilNode = Inl PanicNil"
| "intrinsicPass (FlexNode i dir grow shrink basis mode justify align ms children) =
     (let node = FlexNode i dir grow shrink basis mode justify align ms children in
      if children = [] then
        (case ms of
           None \<Rightarrow> Inr (MT node (new_meta 0 0) [])
         | Some (w, h) \<Rightarrow> if w < 0 \<or> h < 0 then Inl ErrInvalidDimension else Inr (MT node (new_meta w h) []))
      else (case intrinsicChildren dir children 0 0 of
              Inl e \<Rightarrow> Inl e
            | Inr (cs, sumMain, maxCross) \<Rightarrow>
                Inr (MT node (new_meta (widthOf dir sumMain maxCross) (heightOf dir sumMain maxCross)) cs)))"
| "intrinsicChildren dir [] sumMain maxCross = Inr ([], sumMain, maxCross)"
| "intrinsicChildren dir (c # cs) sumMain maxCross =
     (case intrinsicPass c of
        Inl e \<Rightarrow> Inl e
      | Inr t \<Rightarrow>
          (let cMain = mainOf dir (intrinsicW (t_meta t)) (intrinsicH (t_meta t));
               cCross = crossOf dir (intrinsicW (t_meta t)) (intrinsicH (t_meta t))
           in if sumMain > MaxInt32 - cMain then Inl ErrInvalidDimension
              else (case intrinsicChildren dir cs (sumMain + cMain) (if cCross > maxCross then cCross else maxCross) of
                      Inl e \<Rightarrow> Inl e
                    | Inr (ts, s, x) \<Rightarrow> Inr (t # ts, s, x))))"

subsection \<open>Main sizes\<close>

text \<open>Phase B, with the overflow guard.\<close>

definition effectiveBasis :: "direction \<Rightarrow> mt \<Rightarrow> int" where
  "effectiveBasis dir c =
     (if n_mode (t_node c) = BasisFixed then n_basis (t_node c)
      else mainOf dir (intrinsicW (t_meta c)) (intrinsicH (t_meta c)))"

fun sum_bases :: "int list \<Rightarrow> int \<Rightarrow> layout_error + int" where
  "sum_bases [] tot = Inr tot"
| "sum_bases (b # bs) tot = (if tot > MaxInt32 - b then Inl ErrInvalidDimension else sum_bases bs (tot + b))"

definition total_weight :: "f64 list \<Rightarrow> f64" where
  "total_weight ws = fold (\<lambda>w t. f_add t w) ws (Fin 0)"

definition share :: "(f64 \<Rightarrow> int) \<Rightarrow> int \<Rightarrow> f64 \<Rightarrow> f64 \<Rightarrow> int" where
  "share ov r w tot = f_to_int ov (f_mul (f_of_int r) (f_div w tot))"

fun grow_loop :: "(int \<times> int) list \<Rightarrow> int \<Rightarrow> layout_error + (int list \<times> int)" where
  "grow_loop [] used = Inr ([], used)"
| "grow_loop ((b, s) # bs) used =
     (let v = wrap64 (b + s) in
      if v > MaxInt32 \<or> used > wrap64 (MaxInt32 - v) then Inl ErrInvalidDimension
      else (case grow_loop bs (wrap64 (used + v)) of
              Inl e \<Rightarrow> Inl e
            | Inr (vs, u) \<Rightarrow> Inr (v # vs, u)))"

text \<open>The first index of the largest weight, -1 for none; \<open>ok i\<close> is the loop's \<open>continue\<close> guard.\<close>

fun largest_idx :: "(f64 \<times> bool) list \<Rightarrow> int \<Rightarrow> int \<Rightarrow> f64 \<Rightarrow> int" where
  "largest_idx [] i best bw = best"
| "largest_idx ((w, ok) # ws) i best bw =
     (if ok \<and> f_lt bw w then largest_idx ws (i + 1) i w else largest_idx ws (i + 1) best bw)"

definition largestGrowIdx :: "f64 list \<Rightarrow> int" where
  "largestGrowIdx ws = largest_idx (map (\<lambda>w. (w, True)) ws) 0 (- 1) (Fin (- 1))"

definition largestShrinkIdxWithRoom :: "f64 list \<Rightarrow> int list \<Rightarrow> int" where
  "largestShrinkIdxWithRoom ws sizes = largest_idx (zip ws (map (\<lambda>v. \<not> v \<le> 0) sizes)) 0 (- 1) (Fin (- 1))"

fun shrink_loop :: "f64 list \<Rightarrow> int list \<Rightarrow> nat \<Rightarrow> int list" where
  "shrink_loop ws sizes 0 = sizes"
| "shrink_loop ws sizes (Suc leftover) =
     (let idx = largestShrinkIdxWithRoom ws sizes in
      if idx < 0 then sizes
      else shrink_loop ws (sizes[nat idx := sizes ! nat idx - 1]) leftover)"

definition cut_sizes :: "(int \<times> int) list \<Rightarrow> int list" where
  "cut_sizes bs = map (\<lambda>(b, c). let v = wrap64 (b - c) in if v < 0 then 0 else v) bs"

definition main_sizes :: "(f64 \<Rightarrow> int) \<Rightarrow> int \<Rightarrow> int list \<Rightarrow> f64 list \<Rightarrow> f64 list \<Rightarrow> layout_error + int list" where
  "main_sizes ov parentMain bases grows shrinks =
     (case sum_bases bases 0 of
        Inl e \<Rightarrow> Inl e
      | Inr totalBasis \<Rightarrow>
          (let remainder = parentMain - totalBasis in
           if remainder > 0 then
             (let totalGrow = total_weight grows in
              if f_lt (Fin 0) totalGrow then
                (case grow_loop (zip bases (map (\<lambda>g. share ov remainder g totalGrow) grows)) 0 of
                   Inl e \<Rightarrow> Inl e
                 | Inr (vs, used) \<Rightarrow>
                     (let leftover = parentMain - used; idx = largestGrowIdx grows in
                      if leftover \<noteq> 0 \<and> idx \<ge> 0 then Inr (vs[nat idx := vs ! nat idx + leftover]) else Inr vs))
              else Inr bases)
           else if remainder < 0 then
             (let overflow = - remainder; totalShrink = total_weight shrinks in
              if f_lt (Fin 0) totalShrink then
                (let vs = cut_sizes (zip bases (map (\<lambda>s. share ov overflow s totalShrink) shrinks));
                     leftover = overflow - (sum_list bases - sum_list vs)
                 in Inr (shrink_loop shrinks vs (nat leftover)))
              else Inr bases)
           else Inr bases))"

subsection \<open>Distribution and positions\<close>

fun distributePass :: "(f64 \<Rightarrow> int) \<Rightarrow> int \<Rightarrow> int \<Rightarrow> mt \<Rightarrow> layout_error + mt"
  and distributeChildren :: "(f64 \<Rightarrow> int) \<Rightarrow> direction \<Rightarrow> align \<Rightarrow> int \<Rightarrow> mt list \<Rightarrow> int list \<Rightarrow> layout_error + mt list" where
  "distributePass ov w h (MT n m cs) =
     (let m' = m\<lparr>m_width := w, m_height := h\<rparr> in
      if cs = [] then Inr (MT n m' [])
      else (case main_sizes ov (mainOf (n_dir n) w h) (map (effectiveBasis (n_dir n)) cs)
                   (map (n_grow \<circ> t_node) cs) (map (n_shrink \<circ> t_node) cs) of
              Inl e \<Rightarrow> Inl e
            | Inr sizes \<Rightarrow>
                (case distributeChildren ov (n_dir n) (n_align n) (crossOf (n_dir n) w h) cs sizes of
                   Inl e \<Rightarrow> Inl e
                 | Inr cs' \<Rightarrow> Inr (MT n m' cs'))))"
| "distributeChildren ov dir align parentCross [] sizes = Inr []"
| "distributeChildren ov dir align parentCross (c # cs) sizes =
     (let sz = sizes ! 0;
          cross = fst (applyAlign align parentCross (crossOf dir (intrinsicW (t_meta c)) (intrinsicH (t_meta c))))
      in case distributePass ov (widthOf dir sz cross) (heightOf dir sz cross) c of
           Inl e \<Rightarrow> Inl e
         | Inr c' \<Rightarrow> (case distributeChildren ov dir align parentCross cs (tl sizes) of
                         Inl e \<Rightarrow> Inl e
                       | Inr cs' \<Rightarrow> Inr (c' # cs')))"

definition t_main :: "direction \<Rightarrow> mt \<Rightarrow> int" where
  "t_main dir t = mainOf dir (m_width (t_meta t)) (m_height (t_meta t))"

definition t_cross :: "direction \<Rightarrow> mt \<Rightarrow> int" where
  "t_cross dir t = crossOf dir (m_width (t_meta t)) (m_height (t_meta t))"

fun positionPass :: "int \<Rightarrow> int \<Rightarrow> mt \<Rightarrow> mt"
  and positionChildren :: "direction \<Rightarrow> align \<Rightarrow> int \<Rightarrow> int \<Rightarrow> int \<Rightarrow> int \<Rightarrow> mt list \<Rightarrow> mt list" where
  "positionPass x y (MT n m cs) =
     (let m' = m\<lparr>m_x := x, m_y := y\<rparr>;
          parentMain = mainOf (n_dir n) (m_width m) (m_height m);
          lg = applyJustify (n_justify n) parentMain (sum_list (map (t_main (n_dir n)) cs)) (int (length cs))
      in MT n m' (positionChildren (n_dir n) (n_align n) (crossOf (n_dir n) (m_width m) (m_height m))
            (crossOf (n_dir n) x y) (snd lg) (mainOf (n_dir n) x y + fst lg) cs))"
| "positionChildren dir align parentCross crossOrigin gap cursor [] = []"
| "positionChildren dir align parentCross crossOrigin gap cursor (c # cs) =
     (let off = crossOrigin + snd (applyAlign align parentCross (t_cross dir c));
          c' = positionPass (widthOf dir cursor off) (heightOf dir cursor off) c
      in c' # positionChildren dir align parentCross crossOrigin gap
           (cursor + t_main dir c + (if cs = [] then 0 else gap)) cs)"

fun boxes :: "mt \<Rightarrow> (nat \<times> box) list" where
  "boxes (MT n m cs) =
     (n_id n, \<lparr>X = m_x m, Y = m_y m, BWidth = m_width m, BHeight = m_height m\<rparr>) # concat (map boxes cs)"

text \<open>The root is nil, some other \<open>Node\<close> with its intrinsic size, or a \<open>*FlexNode\<close>; the result maps
  addresses to boxes (another \<open>Node\<close> is address 0).\<close>

datatype root_node = NilRoot | OtherNode int int | FlexRoot flexnode

definition Layout :: "(f64 \<Rightarrow> int) \<Rightarrow> root_node \<Rightarrow> box \<Rightarrow> layout_error + (nat \<times> box) list" where
  "Layout ov rt viewport =
     (if BWidth viewport \<le> 0 \<or> BHeight viewport \<le> 0 then Inl ErrInvalidDimension
      else if BWidth viewport > MaxInt32 \<or> BHeight viewport > MaxInt32 then Inl ErrInvalidDimension
      else case rt of
        NilRoot \<Rightarrow> Inr []
      | OtherNode w h \<Rightarrow>
          if w < 0 \<or> h < 0 then Inl ErrInvalidDimension
          else Inr [(0, \<lparr>X = X viewport, Y = Y viewport, BWidth = clampToViewport w (BWidth viewport),
                         BHeight = clampToViewport h (BHeight viewport)\<rparr>)]
      | FlexRoot fr \<Rightarrow>
          (case validateTreeNode fr {} of
             Inl e \<Rightarrow> Inl e
           | Inr _ \<Rightarrow>
               (case intrinsicPass fr of
                  Inl e \<Rightarrow> Inl e
                | Inr t \<Rightarrow>
                    (case distributePass ov (BWidth viewport) (BHeight viewport) t of
                       Inl e \<Rightarrow> Inl e
                     | Inr t' \<Rightarrow> Inr (boxes (positionPass (X viewport) (Y viewport) t'))))))"

subsection \<open>Shares\<close>

text \<open>A weight the validation accepts and Go can hold: finite, non-negative, a \<open>float64\<close> value.\<close>

definition weight :: "f64 \<Rightarrow> bool" where
  "weight w \<longleftrightarrow> (\<exists>q. w = Fin q \<and> 0 \<le> q \<and> f_round q = Fin q)"

definition f_le :: "f64 \<Rightarrow> f64 \<Rightarrow> bool" where
  "f_le a b \<longleftrightarrow> b = Inf False \<or> (\<exists>x y. a = Fin x \<and> b = Fin y \<and> 0 \<le> x \<and> x \<le> y)"

lemma share_bounds:
  assumes w: "weight w" "f_le w t" and t: "f_lt (Fin 0) t" and r: "0 \<le> r" "r \<le> MaxInt32"
  shows "0 \<le> share ov r w t \<and> share ov r w t \<le> r"
proof -
  obtain x where x: "w = Fin x" "0 \<le> x" using w(1) by (auto simp: weight_def)
  have r53: "r < 2 ^ 53" and r63: "r < 2 ^ 63" using r(2) by (simp_all add: MaxInt32_def)
  obtain a where a: "f_of_int r = Fin a" "0 \<le> a" "a \<le> of_int r"
    using f_round_below [of "of_int r" r] r(1) r53 by (auto simp: f_of_int_def)
  obtain q where q: "f_div w t = Fin q" "0 \<le> q" "q \<le> 1"
  proof (cases "t = Inf False")
    case True
    with x that show thesis by (simp add: f_div_def)
  next
    case False
    then obtain y where y: "t = Fin y" "x \<le> y" using w(2) x by (auto simp: f_le_def)
    with t have "0 < y" by (simp add: f_lt_def)
    with y x have "0 \<le> x / y" "x / y \<le> of_int 1" by simp_all
    from f_round_below [OF this] obtain v where "f_round (x / y) = Fin v" "0 \<le> v" "v \<le> of_int 1" by auto
    with \<open>0 < y\<close> x(1) y(1) that [of v] show thesis by (simp add: f_div_def)
  qed
  have "0 \<le> a * q" "a * q \<le> of_int r"
    using a q by (simp_all add: mult_left_le order_trans [OF mult_left_le])
  from f_round_below [OF this r53] obtain v where v: "f_round (a * q) = Fin v" "0 \<le> v" "v \<le> of_int r" .
  have "0 \<le> \<lfloor>v\<rfloor>" "\<lfloor>v\<rfloor> \<le> r" using v(2,3) by (simp_all add: floor_le_iff le_floor_iff)
  moreover have "v < 2 ^ 63" using v(3) r63 of_int_less_iff [of r "2 ^ 63", where 'a = rat] by simp
  ultimately show ?thesis using v(2) r63 by (simp add: share_def a(1) q(1) f_mul_def v(1) f_to_int_def Let_def not_less)
qed

lemma f_add_up:
  assumes "weight w" and "f_le u t" and "weight u" and "f_le (Fin 0) t"
  shows "f_le u (f_add t w) \<and> f_le w (f_add t w) \<and> f_le (Fin 0) (f_add t w)"
proof (cases "t = Inf False")
  case True
  with assms(1) show ?thesis by (auto simp: f_le_def f_add_def weight_def)
next
  case False
  obtain x where x: "w = Fin x" "0 \<le> x" "f_round x = Fin x" using assms(1) by (auto simp: weight_def)
  obtain v where v: "u = Fin v" "0 \<le> v" "f_round v = Fin v" using assms(3) by (auto simp: weight_def)
  obtain y where y: "t = Fin y" "v \<le> y" "0 \<le> y" using assms(2,4) v False by (auto simp: f_le_def)
  have "f_above x (f_round (y + x))" "f_above v (f_round (y + x))" "f_above 0 (f_round (y + x))"
    using x v y by (auto intro!: f_round_above simp: f_round_def [of 0])
  with x v y show ?thesis by (auto simp: f_add_def f_le_def f_above_def)
qed

lemma total_weight_ge:
  assumes "list_all weight ws" and "w \<in> set ws"
  shows "f_le w (total_weight ws)"
proof -
  have z: "weight (Fin 0)" by (simp add: weight_def f_round_def)
  have step: "f_le (Fin 0) (fold (\<lambda>w t. f_add t w) ws t) \<and>
      (\<forall>u. (u \<in> set ws \<or> weight u \<and> f_le u t) \<longrightarrow> f_le u (fold (\<lambda>w t. f_add t w) ws t))"
    if "list_all weight ws" "f_le (Fin 0) t" for ws t
    using that
  proof (induction ws arbitrary: t)
    case (Cons w ws)
    have w: "weight w" "list_all weight ws" using Cons.prems by auto
    have up: "f_le (Fin 0) (f_add t w)" "f_le w (f_add t w)" "weight u \<Longrightarrow> f_le u t \<Longrightarrow> f_le u (f_add t w)" for u
      using f_add_up [OF w(1) _ _ Cons.prems(2), of u] f_add_up [OF w(1) Cons.prems(2) z Cons.prems(2)] by auto
    from Cons.IH [OF w(2) up(1)] up(2) up(3) w(1) show ?case by (auto simp del: split_paired_All)
  qed auto
  have "f_le (Fin 0) (Fin 0)" by (simp add: f_le_def)
  from step [OF assms(1) this] assms(2) show ?thesis by (simp add: total_weight_def)
qed

lemma shares_in_range:
  assumes "list_all weight ws" and "f_lt (Fin 0) (total_weight ws)" and "0 \<le> r" "r \<le> MaxInt32" and "w \<in> set ws"
  shows "0 \<le> share ov r w (total_weight ws) \<and> share ov r w (total_weight ws) \<le> r"
  using assms total_weight_ge [OF assms(1,5)] by (intro share_bounds) (auto simp: list_all_iff)

subsection \<open>Grow and shrink\<close>

lemma sum_list_subtractf_int: "length xs = length ys \<Longrightarrow> sum_list (map2 (-) xs (ys :: int list)) = sum_list xs - sum_list ys"
  by (induction xs ys rule: list_induct2) simp_all

lemma sum_bases_ok:
  "sum_bases bs t = Inr t' \<Longrightarrow> list_all (\<lambda>b. 0 \<le> b) bs \<Longrightarrow> 0 \<le> t \<Longrightarrow> t \<le> MaxInt32 \<Longrightarrow>
   t' = t + sum_list bs \<and> t' \<le> MaxInt32 \<and> list_all (\<lambda>b. b \<le> MaxInt32) bs"
proof (induction bs arbitrary: t)
  case (Cons b bs)
  from Cons.prems Cons.IH [of "t + b"] show ?case by (auto split: if_splits)
qed simp

lemma grow_loop_ok:
  "grow_loop bs u = Inr (vs, u') \<Longrightarrow> \<forall>(b, s) \<in> set bs. 0 \<le> b \<and> b \<le> MaxInt32 \<and> 0 \<le> s \<and> s \<le> MaxInt32 \<Longrightarrow>
   0 \<le> u \<Longrightarrow> u \<le> MaxInt32 \<Longrightarrow> vs = map (\<lambda>(b, s). b + s) bs \<and> u' = u + sum_list vs"
proof (induction bs arbitrary: u vs u')
  case (Cons p bs)
  obtain b s where p: "p = (b, s)" by fastforce
  have r: "0 \<le> b" "b \<le> MaxInt32" "0 \<le> s" "s \<le> MaxInt32" using Cons.prems(2) p by auto
  then have bs: "wrap64 (b + s) = b + s" by (intro wrap64_id) (simp_all add: MaxInt32_def)
  have le: "b + s \<le> MaxInt32" "u \<le> wrap64 (MaxInt32 - (b + s))"
    using Cons.prems(1) bs by (auto simp: p Let_def split: if_splits)
  have "wrap64 (MaxInt32 - (b + s)) = MaxInt32 - (b + s)" using r le(1)
    by (intro wrap64_id) (simp_all add: MaxInt32_def)
  with le have u: "u + (b + s) \<le> MaxInt32" by simp
  then have w: "wrap64 (u + (b + s)) = u + (b + s)" using r Cons.prems(3)
    by (intro wrap64_id) (simp_all add: MaxInt32_def)
  obtain vs' u'' where rec: "grow_loop bs (u + (b + s)) = Inr (vs', u'')" "vs = (b + s) # vs'" "u' = u''"
    using Cons.prems(1) bs w by (auto simp: p Let_def split: if_splits sum.splits prod.splits)
  from Cons.IH [OF rec(1)] Cons.prems(2,3) u r rec(2,3) show ?case by (simp add: p)
qed simp

lemma largest_idx_range:
  "largest_idx ws i best bw = best \<or>
     (i \<le> largest_idx ws i best bw \<and> largest_idx ws i best bw < i + int (length ws) \<and>
      snd (ws ! nat (largest_idx ws i best bw - i)))"
proof (induction ws i best bw rule: largest_idx.induct)
  case (2 w ok ws i best bw)
  have shift: "snd (ws ! nat (k - (i + 1))) \<Longrightarrow> i + 1 \<le> k \<Longrightarrow> snd (((w, ok) # ws) ! nat (k - i))" for k
    using nat_diff_distrib' [of "k - i" 1] by (simp add: nth_Cons' nat_diff_distrib algebra_simps)
  show ?case
  proof (cases "ok \<and> f_lt bw w")
    case True
    with 2(1) shift [of "largest_idx ws (i + 1) i w"] show ?thesis by auto
  next
    case False
    with 2(2) shift [of "largest_idx ws (i + 1) best bw"] show ?thesis by auto
  qed
qed simp

lemma largest_idx_found:
  "(\<exists>p \<in> set ws. snd p \<and> f_lt bw (fst p)) \<or> best \<ge> 0 \<Longrightarrow> 0 \<le> i \<Longrightarrow> 0 \<le> largest_idx ws i best bw"
proof (induction ws i best bw rule: largest_idx.induct)
  case (2 w ok ws i best bw)
  then show ?case by (cases "ok \<and> f_lt bw w") auto
qed auto

lemma weight_above: "weight w \<Longrightarrow> f_lt (Fin (- 1)) w"
  by (auto simp: weight_def f_lt_def)

lemma sum_list_update_int: "k < length xs \<Longrightarrow> sum_list (xs[k := (v::int)]) = sum_list xs - xs ! k + v"
  by (induction xs arbitrary: k) (auto split: nat.split)

lemma shrink_loop_spec:
  assumes "list_all weight ws" and "length ws = length vs" and "list_all (\<lambda>v. 0 \<le> v) vs"
  shows "length (shrink_loop ws vs n) = length vs \<and>
    (\<forall>i < length vs. 0 \<le> shrink_loop ws vs n ! i \<and> shrink_loop ws vs n ! i \<le> vs ! i) \<and>
    sum_list (shrink_loop ws vs n) = max 0 (sum_list vs - int n)"
  using assms(2,3)
proof (induction n arbitrary: vs)
  case 0
  have "0 \<le> sum_list vs" using 0 by (intro sum_list_nonneg) (auto simp: list_all_iff)
  with 0 show ?case by (auto simp: list_all_length)
next
  case (Suc n)
  let ?ps = "zip ws (map (\<lambda>v. \<not> v \<le> 0) vs)"
  define k where "k = largestShrinkIdxWithRoom ws vs"
  show ?case
  proof (cases "k < 0")
    case True
    have "\<not> snd p" if "p \<in> set ?ps" for p
    proof
      assume "snd p"
      moreover have "f_lt (Fin (- 1)) (fst p)"
        using that assms(1) set_zip_leftD [of "fst p" "snd p"] by (simp add: list_all_iff weight_above)
      ultimately show False
        using that True largest_idx_found [of ?ps "Fin (- 1)" "- 1" 0] by (auto simp: k_def largestShrinkIdxWithRoom_def)
    qed
    have "vs ! i = 0" if i: "i < length vs" for i
    proof -
      have "?ps ! i \<in> set ?ps" using i Suc.prems(1) by (intro nth_mem) simp
      with \<open>\<And>p. p \<in> set ?ps \<Longrightarrow> \<not> snd p\<close> have "vs ! i \<le> 0" using i Suc.prems(1) by force
      with i Suc.prems(2) show ?thesis by (auto simp: list_all_length)
    qed
    then have "vs = replicate (length vs) 0" by (intro nth_equalityI) simp_all
    then have "sum_list vs = 0" by (metis sum_list_replicate mult_zero_right)
    with True Suc.prems show ?thesis by (auto simp: k_def Let_def list_all_length)
  next
    case False
    have k: "nat k < length vs" "0 < vs ! nat k"
      using largest_idx_range [of ?ps 0 "- 1" "Fin (- 1)"] False Suc.prems(1)
      by (auto simp: k_def largestShrinkIdxWithRoom_def)
    let ?vs = "vs[nat k := vs ! nat k - 1]"
    have nn: "list_all (\<lambda>v. 0 \<le> v) ?vs" using Suc.prems(2) k by (auto simp: list_all_length nth_list_update)
    have pos: "0 < sum_list vs"
    proof -
      have "0 \<le> sum_list ?vs" using nn by (intro sum_list_nonneg) (auto simp: list_all_iff)
      with k show ?thesis by (simp add: sum_list_update_int)
    qed
    have eq: "shrink_loop ws vs (Suc n) = shrink_loop ws ?vs n" using False by (simp add: k_def Let_def)
    have len: "length ws = length ?vs" using Suc.prems(1) by simp
    note ih = Suc.IH [OF len nn]
    have "0 \<le> shrink_loop ws ?vs n ! i \<and> shrink_loop ws ?vs n ! i \<le> vs ! i" if i: "i < length vs" for i
    proof -
      have "0 \<le> shrink_loop ws ?vs n ! i \<and> shrink_loop ws ?vs n ! i \<le> ?vs ! i" using ih i by simp
      moreover have "?vs ! i \<le> vs ! i" using i by (cases "i = nat k") simp_all
      ultimately show ?thesis by simp
    qed
    moreover have "sum_list ?vs = sum_list vs - 1" using k(1) by (simp add: sum_list_update_int)
    ultimately show ?thesis unfolding eq using ih pos by simp
  qed
qed

subsection \<open>Justification, alignment and positions\<close>

lemma applyJustify_fits:
  assumes "tot \<le> parentMain" and "0 < n"
  shows "0 \<le> fst (applyJustify j parentMain tot n) \<and> 0 \<le> snd (applyJustify j parentMain tot n) \<and>
    fst (applyJustify j parentMain tot n) + tot + (n - 1) * snd (applyJustify j parentMain tot n) \<le> parentMain"
proof -
  let ?f = "parentMain - tot"
  have dm: "k * (x div k) \<le> x" if "0 < k" for k x :: int
    using that pos_mod_sign [of k x] mult_div_mod_eq [of k x] by linarith
  have "(n - 1) * (?f div (n - 1)) \<le> ?f" if "2 \<le> n" using that by (intro dm) simp
  moreover have "2 * n * (?f div (2 * n)) \<le> ?f" using assms by (intro dm) simp
  moreover have "?f div 2 \<le> ?f" using assms by simp
  moreover have "2 * n * (?f div (2 * n)) \<le> ?f + ?f div (2 * n)"
  proof -
    have "0 \<le> ?f div (2 * n)" using assms by (simp add: pos_imp_zdiv_nonneg_iff)
    moreover have "2 * n * (?f div (2 * n)) \<le> ?f" using assms by (intro dm) simp
    ultimately show ?thesis by linarith
  qed
  ultimately show ?thesis using assms
    by (cases j) (auto simp: applyJustify_def Let_def pos_imp_zdiv_nonneg_iff algebra_simps)
qed

lemma applyAlign_fits:
  "0 \<le> parentCross \<Longrightarrow> 0 \<le> fst (applyAlign a parentCross c) \<and> 0 \<le> snd (applyAlign a parentCross c) \<and>
     fst (applyAlign a parentCross c) + snd (applyAlign a parentCross c) \<le> parentCross"
  by (cases a) (auto simp: applyAlign_def clampCross_def Let_def)

definition t_mainpos :: "direction \<Rightarrow> mt \<Rightarrow> int" where
  "t_mainpos dir t = mainOf dir (m_x (t_meta t)) (m_y (t_meta t))"

definition t_crosspos :: "direction \<Rightarrow> mt \<Rightarrow> int" where
  "t_crosspos dir t = crossOf dir (m_x (t_meta t)) (m_y (t_meta t))"

lemma positionPass_meta:
  "t_main dir (positionPass x y t) = t_main dir t \<and> t_cross dir (positionPass x y t) = t_cross dir t \<and>
   m_x (t_meta (positionPass x y t)) = x \<and> m_y (t_meta (positionPass x y t)) = y"
  by (cases t) (simp add: t_main_def t_cross_def Let_def)

lemma axis_ids: "mainOf dir (widthOf dir a b) (heightOf dir a b) = a" "crossOf dir (widthOf dir a b) (heightOf dir a b) = b"
  by (simp_all add: mainOf_def crossOf_def widthOf_def heightOf_def)

lemma positionChildren_nth:
  "i < length cs \<Longrightarrow>
   t_mainpos dir (positionChildren dir al pc co gap cur cs ! i) = cur + sum_list (map (t_main dir) (take i cs)) + int i * gap \<and>
   t_crosspos dir (positionChildren dir al pc co gap cur cs ! i) = co + snd (applyAlign al pc (t_cross dir (cs ! i))) \<and>
   t_main dir (positionChildren dir al pc co gap cur cs ! i) = t_main dir (cs ! i) \<and>
   t_cross dir (positionChildren dir al pc co gap cur cs ! i) = t_cross dir (cs ! i)"
proof (induction cs arbitrary: i cur)
  case (Cons c cs)
  show ?case
  proof (cases i)
    case 0
    then show ?thesis by (simp add: Let_def t_mainpos_def t_crosspos_def positionPass_meta axis_ids)
  next
    case (Suc k)
    with Cons.prems have "cs \<noteq> []" "k < length cs" by auto
    with Suc Cons.IH [of k "cur + t_main dir c + gap"] show ?thesis
      by (simp add: Let_def algebra_simps)
  qed
qed simp

lemma length_positionChildren [simp]: "length (positionChildren dir al pc co gap cur cs) = length cs"
  by (induction cs arbitrary: cur) (simp_all add: Let_def)

lemma align_keeps: "c \<le> pc \<Longrightarrow> c \<le> fst (applyAlign a pc c)"
  by (cases a) (auto simp: applyAlign_def clampCross_def Let_def)

subsection \<open>One box per node\<close>

fun node_ids :: "flexnode \<Rightarrow> nat list" where
  "node_ids NilNode = []"
| "node_ids (FlexNode i dir grow shrink basis mode justify align ms children) = i # concat (map node_ids children)"

fun mt_ids :: "mt \<Rightarrow> nat list" where
  "mt_ids (MT n m cs) = n_id n # concat (map mt_ids cs)"

lemma boxes_ids: "map fst (boxes t) = mt_ids t"
  by (induction t rule: boxes.induct) (simp add: map_concat cong: map_cong)

lemma intrinsic_ids:
  "intrinsicPass n = Inr t \<Longrightarrow> mt_ids t = node_ids n"
  "intrinsicChildren dir ns a b = Inr (ts, x, y) \<Longrightarrow> concat (map mt_ids ts) = concat (map node_ids ns)"
proof (induction n and dir ns a b arbitrary: t and ts x y rule: intrinsicPass_intrinsicChildren.induct)
  case (2 i dir grow shrink basis mode justify align ms children)
  then show ?case by (auto simp: Let_def split: if_splits option.splits sum.splits prod.splits)
next
  case (4 dir c cs sumMain maxCross)
  obtain t where t: "intrinsicPass c = Inr t" using 4(3) by (cases "intrinsicPass c") auto
  define m where "m = mainOf dir (intrinsicW (t_meta t)) (intrinsicH (t_meta t))"
  define k where "k = crossOf dir (intrinsicW (t_meta t)) (intrinsicH (t_meta t))"
  have nb: "\<not> sumMain > MaxInt32 - m" using 4(3) t by (auto simp: Let_def m_def)
  have eq: "(case intrinsicChildren dir cs (sumMain + m) (if k > maxCross then k else maxCross) of
      Inl e \<Rightarrow> Inl e | Inr (us, u, v) \<Rightarrow> Inr (t # us, u, v)) = Inr (ts, x, y)"
    unfolding m_def k_def using 4(3) t nb [unfolded m_def] by (simp add: Let_def split del: if_split)
  then obtain us u v where r: "intrinsicChildren dir cs (sumMain + m) (if k > maxCross then k else maxCross) = Inr (us, u, v)"
    "ts = t # us"
    by (auto split: sum.splits prod.splits)
  have "mt_ids t = node_ids c" by (rule 4(1) [OF t])
  moreover have "concat (map mt_ids us) = concat (map node_ids cs)"
    by (rule 4(2) [OF t m_def k_def nb r(1)])
  ultimately show ?case by (simp add: r(2))
qed auto

lemma distribute_ids:
  "distributePass ov w h t = Inr t' \<Longrightarrow> mt_ids t' = mt_ids t"
  "distributeChildren ov dir al pc cs sizes = Inr cs' \<Longrightarrow> concat (map mt_ids cs') = concat (map mt_ids cs)"
proof (induction ov w h t and ov dir al pc cs sizes arbitrary: t' and cs' rule: distributePass_distributeChildren.induct)
  case (1 ov w h n m cs)
  show ?case
  proof (cases "cs = []")
    case True
    with 1 show ?thesis by auto
  next
    case False
    with 1(2) obtain sizes cs' where s: "main_sizes ov (mainOf (n_dir n) w h) (map (effectiveBasis (n_dir n)) cs)
          (map (n_grow \<circ> t_node) cs) (map (n_shrink \<circ> t_node) cs) = Inr sizes"
      "distributeChildren ov (n_dir n) (n_align n) (crossOf (n_dir n) w h) cs sizes = Inr cs'"
      "t' = MT n (m\<lparr>m_width := w, m_height := h\<rparr>) cs'"
      by (auto simp: Let_def split: sum.splits)
    from 1(1) [OF refl False s(1,2)] s(3) show ?thesis by simp
  qed
next
  case (3 ov dir al pc c cs sizes)
  define cr where "cr = fst (applyAlign al pc (crossOf dir (intrinsicW (t_meta c)) (intrinsicH (t_meta c))))"
  from 3(3) obtain c' ds where c: "distributePass ov (widthOf dir (sizes ! 0) cr) (heightOf dir (sizes ! 0) cr) c = Inr c'"
    "distributeChildren ov dir al pc cs (tl sizes) = Inr ds" "cs' = c' # ds"
    by (auto simp: Let_def cr_def split: sum.splits)
  from 3(1) [OF refl cr_def c(1)] 3(2) [OF refl cr_def c(1,2)] c(3) show ?case by simp
qed auto

lemma position_ids:
  "mt_ids (positionPass x y t) = mt_ids t"
  "concat (map mt_ids (positionChildren dir al pc co gap cur cs)) = concat (map mt_ids cs)"
  by (induction x y t and dir al pc co gap cur cs rule: positionPass_positionChildren.induct) (simp_all add: Let_def)

lemma validate_distinct:
  "validateTreeNode n seen = Inr seen' \<Longrightarrow> distinct (node_ids n) \<and> set (node_ids n) \<inter> seen = {} \<and> seen' = seen \<union> set (node_ids n)"
  "validateChildren ns seen = Inr seen' \<Longrightarrow> distinct (concat (map node_ids ns)) \<and>
     set (concat (map node_ids ns)) \<inter> seen = {} \<and> seen' = seen \<union> set (concat (map node_ids ns))"
proof (induction n seen and ns seen arbitrary: seen' and seen' rule: validateTreeNode_validateChildren.induct)
  case (2 i dir grow shrink basis mode justify align ms children seen)
  then have "validateChildren children (insert i seen) = Inr seen'" "i \<notin> seen" by (auto split: if_splits)
  moreover from this 2 have "distinct (concat (map node_ids children)) \<and>
     set (concat (map node_ids children)) \<inter> insert i seen = {} \<and> seen' = insert i seen \<union> set (concat (map node_ids children))"
    by (auto split: if_splits simp del: set_concat)
  ultimately show ?case by auto
next
  case (4 c cs seen)
  then obtain s1 where s1: "validateTreeNode c seen = Inr s1" "validateChildren cs s1 = Inr seen'" "c \<noteq> NilNode"
    by (auto split: if_splits sum.splits)
  from 4(1) [OF s1(3,1)] 4(2) [OF s1(3,1,2)] show ?case by auto
qed auto

lemmas main_eval = main_sizes_def total_weight_def share_def Let_def MaxInt32_def cut_sizes_def
  largestGrowIdx_def largestShrinkIdxWithRoom_def

subsection \<open>Properties\<close>

text \<open>C35: Growing fills the parent: when the children's bases leave room and some child may grow, the main
  sizes add up to exactly the parent's size, whatever \<open>float64\<close> rounding does to the shares (the leftover goes to
  the largest grower), and no other child ends below its basis.\<close>

theorem grow_fills_parent:
  assumes "list_all (\<lambda>b. 0 \<le> b) bases" and "list_all weight grows" and "length grows = length bases"
    and "sum_list bases < parentMain" and "parentMain \<le> MaxInt32" and "f_lt (Fin 0) (total_weight grows)"
    and "main_sizes ov parentMain bases grows shrinks = Inr vs"
  shows "length vs = length bases \<and> sum_list vs = parentMain \<and>
    (\<forall>i < length vs. i \<noteq> nat (largestGrowIdx grows) \<longrightarrow> bases ! i \<le> vs ! i)"
proof -
  define r where "r = parentMain - sum_list bases"
  define bs where "bs = zip bases (map (\<lambda>g. share ov r g (total_weight grows)) grows)"
  have nn: "0 \<le> sum_list bases" using assms(1) by (intro sum_list_nonneg) (auto simp: list_all_iff)
  obtain t where t: "sum_bases bases 0 = Inr t" using assms(7) by (auto simp: main_sizes_def split: sum.splits)
  have tb: "t = sum_list bases" "list_all (\<lambda>b. b \<le> MaxInt32) bases"
    using sum_bases_ok [OF t assms(1)] by (simp_all add: MaxInt32_def)
  have r: "0 < r" "r \<le> MaxInt32" using assms(4,5) nn by (simp_all add: r_def)
  obtain us used where g: "grow_loop bs 0 = Inr (us, used)"
    and vs: "vs = (if parentMain - used \<noteq> 0 \<and> largestGrowIdx grows \<ge> 0
        then us[nat (largestGrowIdx grows) := us ! nat (largestGrowIdx grows) + (parentMain - used)] else us)"
    using assms(4,6,7) by (auto simp: main_sizes_def t tb(1) Let_def bs_def r_def
        split: sum.splits prod.splits if_splits)
  have sh: "\<forall>(b, s) \<in> set bs. 0 \<le> b \<and> b \<le> MaxInt32 \<and> 0 \<le> s \<and> s \<le> MaxInt32"
    using shares_in_range [OF assms(2,6), of r _ ov] r assms(1) tb(2)
    by (force simp: bs_def list_all_iff dest: set_zip_leftD set_zip_rightD)
  have us: "us = map (\<lambda>(b, s). b + s) bs" "used = sum_list us"
    using grow_loop_ok [OF g sh] by (simp_all add: MaxInt32_def)
  have len: "length us = length bases" "length bs = length bases" using us assms(3) by (simp_all add: bs_def)
  have "grows \<noteq> []" using assms(6) by (auto simp: total_weight_def f_lt_def)
  then have "0 \<le> largestGrowIdx grows" using assms(2)
    unfolding largestGrowIdx_def by (intro largest_idx_found) (cases grows, auto intro: weight_above)
  moreover have "nat (largestGrowIdx grows) < length us"
    using largest_idx_range [of "map (\<lambda>w. (w, True)) grows" 0 "- 1" "Fin (- 1)"] \<open>grows \<noteq> []\<close> assms(3) len
    by (cases grows) (auto simp: largestGrowIdx_def)
  moreover have "bases ! i \<le> us ! i" if "i < length bases" for i
    using that shares_in_range [OF assms(2,6), of r "grows ! i" ov] r assms(3) by (simp add: us(1) bs_def)
  ultimately show ?thesis
    using vs us(2) len by (auto simp: sum_list_update_int)
qed

theorem grow_fills_parent_witness:
  "\<exists>vs. main_sizes (\<lambda>_. 0) 10 [1, 2] [Fin 1, Fin 0] [Fin 1, Fin 1] = Inr vs \<and> sum_list vs = 10"
proof -
  have e: "main_sizes (\<lambda>_. 0) 10 [1, 2] [Fin 1, Fin 0] [Fin 1, Fin 1] = Inr [8, 2]"
    by (simp add: main_eval f_eval)
  have "list_all weight [Fin 1, Fin 0]" "f_lt (Fin 0) (total_weight [Fin 1, Fin 0])"
    by (simp_all add: weight_def total_weight_def f_eval)
  with grow_fills_parent [OF _ this(1) _ _ _ this(2) e] e show ?thesis by (simp add: MaxInt32_def)
qed

text \<open>Shrinking never overflows the parent: when the bases do not fit and some child may shrink, every child ends
  between 0 and its basis and together they take at most the parent's size, and exactly it unless the rounded
  cuts already overshoot; the correction loop ends because every step removes one cell.\<close>

theorem shrink_fits_parent:
  assumes "list_all (\<lambda>b. 0 \<le> b) bases" and "list_all weight shrinks" and "length shrinks = length bases"
    and "parentMain < sum_list bases" and "0 \<le> parentMain" and "f_lt (Fin 0) (total_weight shrinks)"
    and "main_sizes ov parentMain bases grows shrinks = Inr vs"
  shows "length vs = length bases \<and> (\<forall>i < length vs. 0 \<le> vs ! i \<and> vs ! i \<le> bases ! i) \<and>
    sum_list vs \<le> parentMain \<and>
    (sum_list (map (\<lambda>(b, s). min b (share ov (sum_list bases - parentMain) s (total_weight shrinks))) (zip bases shrinks))
       \<le> sum_list bases - parentMain \<longrightarrow> sum_list vs = parentMain)"
proof -
  define r where "r = sum_list bases - parentMain"
  define sh where "sh = (\<lambda>s. share ov r s (total_weight shrinks))"
  define cs where "cs = cut_sizes (zip bases (map sh shrinks))"
  obtain t where t: "sum_bases bases 0 = Inr t" using assms(7) by (auto simp: main_sizes_def split: sum.splits)
  have tb: "t = sum_list bases" "t \<le> MaxInt32" "list_all (\<lambda>b. b \<le> MaxInt32) bases"
    using sum_bases_ok [OF t assms(1)] by (simp_all add: MaxInt32_def)
  have r: "0 < r" "r \<le> MaxInt32" using assms(4,5) tb by (simp_all add: r_def)
  have vs: "vs = shrink_loop shrinks cs (nat (r - (sum_list bases - sum_list cs)))"
    using assms(4,6,7) by (auto simp: main_sizes_def t tb(1) Let_def cs_def r_def sh_def)
  have len: "length cs = length bases" using assms(3) by (simp add: cs_def cut_sizes_def)
  have cut: "cs ! i = bases ! i - min (bases ! i) (sh (shrinks ! i)) \<and> 0 \<le> cs ! i \<and> cs ! i \<le> bases ! i"
    if i: "i < length bases" for i
  proof -
    have "0 \<le> sh (shrinks ! i)" "sh (shrinks ! i) \<le> MaxInt32"
      using shares_in_range [OF assms(2,6), of r "shrinks ! i" ov] r assms(3) i by (auto simp: sh_def)
    moreover have "0 \<le> bases ! i" "bases ! i \<le> MaxInt32" using assms(1) tb(3) i by (auto simp: list_all_length)
    moreover from calculation have "wrap64 (bases ! i - sh (shrinks ! i)) = bases ! i - sh (shrinks ! i)"
      by (intro wrap64_id) (simp_all add: MaxInt32_def)
    ultimately show ?thesis using i assms(3) by (simp add: cs_def cut_sizes_def Let_def min_def)
  qed
  have "list_all (\<lambda>v. 0 \<le> v) cs" using cut len by (simp add: list_all_length)
  from shrink_loop_spec [OF assms(2) _ this] len assms(3)
  have sp: "length vs = length bases" "\<forall>i < length bases. 0 \<le> vs ! i \<and> vs ! i \<le> cs ! i"
    "sum_list vs = max 0 (sum_list cs - int (nat (r - (sum_list bases - sum_list cs))))"
    unfolding vs by auto
  have total: "sum_list cs = sum_list bases - sum_list (map (\<lambda>(b, s). min b (sh s)) (zip bases shrinks))"
  proof -
    have "cs = map2 (-) bases (map (\<lambda>(b, s). min b (sh s)) (zip bases shrinks))"
      using cut len assms(3) by (intro nth_equalityI) simp_all
    then show ?thesis using sum_list_subtractf_int [of bases "map (\<lambda>(b, s). min b (sh s)) (zip bases shrinks)"] assms(3)
      by simp
  qed
  have "vs ! i \<le> bases ! i" if "i < length bases" for i using sp(2) cut that by force
  with sp total assms(5) show ?thesis
    by (auto simp: r_def sh_def)
qed

theorem shrink_fits_parent_witness:
  "\<exists>vs. main_sizes (\<lambda>_. 0) 4 [5, 2] [Fin 1, Fin 2] [Fin 1, Fin 0] = Inr vs \<and> sum_list vs \<le> 4"
proof -
  have e: "main_sizes (\<lambda>_. 0) 4 [5, 2] [Fin 1, Fin 2] [Fin 1, Fin 0] = Inr [2, 2]"
    by (simp add: main_eval f_eval)
  have "list_all weight [Fin 1, Fin 0]" "f_lt (Fin 0) (total_weight [Fin 1, Fin 0])"
    by (simp_all add: weight_def total_weight_def f_eval)
  with shrink_fits_parent [OF _ this(1) _ _ _ this(2) e] e show ?thesis by simp
qed

text \<open>A child with \<open>Shrink\<close> 0 is shrunk all the same once the shrinkable children have no room left: the leftover
  loop only asks for a weight above -1.  Two children of bases 0 and 10, the second with \<open>Shrink\<close> 0, in a parent of 5.\<close>

theorem shrink_zero_child_is_shrunk:
  "main_sizes ov 5 [0, 10] [Fin 0, Fin 0] [Fin 1, Fin 0] = Inr [0, 5]"
  by (simp add: main_eval f_eval numeral_eq_Suc)

text \<open>Children are placed inside their container, in order and disjoint, under every \<open>Justify\<close> and \<open>Align\<close>: when
  their main sizes fit, each lies within the container's main range after its predecessor's end, and each cross
  range lies within the container's.\<close>

theorem children_placed:
  assumes "\<forall>c \<in> set cs. 0 \<le> t_main dir c \<and> t_cross dir c \<le> pc" and "0 \<le> pc"
    and "sum_list (map (t_main dir) cs) \<le> pm"
    and "lg = applyJustify j pm (sum_list (map (t_main dir) cs)) (int (length cs))"
    and "ts = positionChildren dir al pc co (snd lg) (mo + fst lg) cs"
  shows "length ts = length cs \<and> (\<forall>i < length ts.
      mo \<le> t_mainpos dir (ts ! i) \<and> t_mainpos dir (ts ! i) + t_main dir (ts ! i) \<le> mo + pm \<and>
      co \<le> t_crosspos dir (ts ! i) \<and> t_crosspos dir (ts ! i) + t_cross dir (ts ! i) \<le> co + pc \<and>
      (i + 1 < length ts \<longrightarrow> t_mainpos dir (ts ! i) + t_main dir (ts ! i) \<le> t_mainpos dir (ts ! (i + 1))))"
proof (intro conjI allI impI)
  show "length ts = length cs" by (simp add: assms(5))
  fix i assume "i < length ts"
  then have i: "i < length cs" by (simp add: assms(5))
  define S where "S k = sum_list (map (t_main dir) (take k cs))" for k
  note nth = positionChildren_nth [of _ cs dir al pc co "snd lg" "mo + fst lg", folded assms(5) S_def]
  have n0: "0 < int (length cs)" using i by linarith
  have lg: "0 \<le> fst lg" "0 \<le> snd lg" "fst lg + S (length cs) + (int (length cs) - 1) * snd lg \<le> pm"
    using applyJustify_fits [OF assms(3) n0, of j] by (simp_all add: assms(4) S_def)
  have S_Suc: "S (Suc k) = S k + t_main dir (cs ! k)" if "k < length cs" for k
    using that by (simp add: S_def take_Suc_conv_app_nth)
  have S_mono: "S k \<le> S (length cs)" if "k \<le> length cs" for k
  proof -
    have "S (length cs) = S k + sum_list (map (t_main dir) (drop k cs))"
      unfolding S_def by (simp flip: sum_list_append map_append)
    moreover have "0 \<le> sum_list (map (t_main dir) (drop k cs))"
      using assms(1) by (intro sum_list_nonneg) (auto dest: in_set_dropD)
    ultimately show ?thesis by simp
  qed
  have S0: "0 \<le> S i" using assms(1) unfolding S_def by (intro sum_list_nonneg) (auto dest: in_set_takeD)
  have gap: "int i * snd lg \<le> (int (length cs) - 1) * snd lg" using i lg(2) by (intro mult_right_mono) auto
  have gap0: "0 \<le> int i * snd lg" using lg(2) by simp
  have c: "t_cross dir (cs ! i) \<le> pc" using assms(1) i by simp
  show "mo \<le> t_mainpos dir (ts ! i)" using nth [OF i] lg(1) S0 gap0 by simp
  show "t_mainpos dir (ts ! i) + t_main dir (ts ! i) \<le> mo + pm"
    using nth [OF i] S_Suc [OF i] S_mono [of "Suc i"] i lg(3) gap by simp
  show "co \<le> t_crosspos dir (ts ! i)" using nth [OF i] applyAlign_fits [OF assms(2)] by simp
  show "t_crosspos dir (ts ! i) + t_cross dir (ts ! i) \<le> co + pc"
    using nth [OF i] applyAlign_fits [OF assms(2), of al "t_cross dir (cs ! i)"] align_keeps [OF c, of al] by simp
  show "t_mainpos dir (ts ! i) + t_main dir (ts ! i) \<le> t_mainpos dir (ts ! (i + 1))" if "i + 1 < length ts"
    using that nth [OF i] nth [of "i + 1"] S_Suc [OF i] lg(2) by (simp add: assms(5) algebra_simps)
qed

theorem children_placed_witness:
  "let t = positionChildren Row AlignStart 3 0 0 2 [MT NilNode (new_meta 0 0) []] ! 0
   in 0 \<le> t_mainpos Row t \<and> t_mainpos Row t + t_main Row t \<le> 4"
proof -
  let ?cs = "[MT NilNode (new_meta 0 0) []]"
  have "applyJustify JustifyCenter 4 (sum_list (map (t_main Row) ?cs)) (int (length ?cs)) = (2, 0)"
    "\<forall>c \<in> set ?cs. 0 \<le> t_main Row c \<and> t_cross Row c \<le> 3" "sum_list (map (t_main Row) ?cs) \<le> 4"
    by (simp_all add: applyJustify_def t_main_def t_cross_def mainOf_def crossOf_def new_meta_def Let_def)
  from children_placed [OF this(2) _ this(3) this(1) [symmetric] refl, of AlignStart 0 0]
  show ?thesis by (simp add: Let_def del: positionChildren.simps)
qed

text \<open>A successful layout returns exactly one box per node, in preorder with no node twice, and the root's box is
  the viewport.\<close>

theorem Layout_one_box_per_node:
  assumes "Layout ov (FlexRoot fr) viewport = Inr bs"
  shows "map fst bs = node_ids fr \<and> distinct (map fst bs) \<and> bs \<noteq> [] \<and>
    snd (bs ! 0) = \<lparr>X = X viewport, Y = Y viewport, BWidth = BWidth viewport, BHeight = BHeight viewport\<rparr>"
proof -
  obtain s t t' where p: "validateTreeNode fr {} = Inr s" "intrinsicPass fr = Inr t"
    "distributePass ov (BWidth viewport) (BHeight viewport) t = Inr t'"
    "bs = boxes (positionPass (X viewport) (Y viewport) t')"
    using assms by (auto simp: Layout_def split: if_splits sum.splits)
  have ids: "map fst bs = node_ids fr"
    by (simp add: p(4) boxes_ids position_ids distribute_ids(1) [OF p(3)] intrinsic_ids(1) [OF p(2)])
  have "m_width (t_meta t') = BWidth viewport \<and> m_height (t_meta t') = BHeight viewport"
    using p(3) by (cases t) (auto simp: Let_def split: if_splits sum.splits)
  then have "snd (bs ! 0) = \<lparr>X = X viewport, Y = Y viewport, BWidth = BWidth viewport, BHeight = BHeight viewport\<rparr>" "bs \<noteq> []"
    by (cases t'; simp add: p(4) Let_def)+
  with ids validate_distinct(1) [OF p(1)] show ?thesis by simp
qed

theorem Layout_one_box_per_node_witness:
  "\<exists>bs. Layout (\<lambda>_. 0) (FlexRoot (NewFlexNode 7)) \<lparr>X = 1, Y = 2, BWidth = 3, BHeight = 4\<rparr> = Inr bs \<and> map fst bs = [7]"
proof -
  have "f_lt (Fin 0) (Fin 0) = False" "f_lt (Fin 1) (Fin 0) = False" by (simp_all add: f_lt_def)
  then obtain bs where "Layout (\<lambda>_. 0) (FlexRoot (NewFlexNode 7)) \<lparr>X = 1, Y = 2, BWidth = 3, BHeight = 4\<rparr> = Inr bs"
    by (simp add: Layout_def NewFlexNode_def MaxInt32_def MaxChildren_def new_meta_def Let_def)
  with Layout_one_box_per_node [OF this] show ?thesis by (simp add: NewFlexNode_def)
qed

end
