(* ===== verification/ErrCode.thy ===== *)
theory ErrCode
  imports GoPrelude "HOL-Library.List_Lexorder" "HOL-Library.Char_ord" "HOL-Library.Sublist"
begin

text \<open>
  Errors as values, from \<open>internal/platform/errcode\<close> (\<open>errcode.go\<close>, \<open>registry.go\<close>).  An \<open>error\<close> is one of
  the two sentinels of package \<open>context\<close>, a \<open>*structuredErr\<close>, or an error of another package with its text and
  the errors it unwraps to.  \<open>nil\<close> is the \<open>None\<close> of an option; a nil \<open>*structuredErr\<close> inside an
  interface does not occur.  The registry is the association list of what was registered, and a panic is
  an \<open>Inl\<close> with the text.
\<close>

subsection \<open>UTF-8\<close>

text \<open>The bytes of a Go string literal, from its code points.\<close>

definition utf8_rune :: "int \<Rightarrow> string" where
  "utf8_rune c =
     (if c < 128 then [char_of c]
      else if c < 2048 then [char_of (192 + c div 64), char_of (128 + c mod 64)]
      else if c < 65536 then [char_of (224 + c div 4096), char_of (128 + c div 64 mod 64), char_of (128 + c mod 64)]
      else [char_of (240 + c div 262144), char_of (128 + c div 4096 mod 64), char_of (128 + c div 64 mod 64),
            char_of (128 + c mod 64)])"

definition utf8 :: "int list \<Rightarrow> string" where
  "utf8 cs = concat (map utf8_rune cs)"

subsection \<open>Errors\<close>

datatype go_error =
    Canceled
  | DeadlineExceeded
  | Structured string string string "go_error option"
  | Foreign string "go_error list"

fun Error_text :: "go_error \<Rightarrow> string" where
  "Error_text Canceled = ''context canceled''"
| "Error_text DeadlineExceeded = ''context deadline exceeded''"
| "Error_text (Structured code message hint (Some w)) = ''['' @ code @ ''] '' @ message @ '': '' @ Error_text w"
| "Error_text (Structured code message hint None) = ''['' @ code @ ''] '' @ message"
| "Error_text (Foreign text ws) = text"

fun Code_of :: "go_error \<Rightarrow> string option" where
  "Code_of (Structured code _ _ _) = Some code"
| "Code_of _ = None"

fun Unwrap :: "go_error \<Rightarrow> go_error list" where
  "Unwrap (Structured _ _ _ (Some w)) = [w]"
| "Unwrap (Foreign _ ws) = ws"
| "Unwrap _ = []"

text \<open>The method \<open>Is\<close> of \<open>structuredErr\<close>, and with it the comparison of one error with a target.\<close>

definition structured_Is :: "go_error \<Rightarrow> go_error \<Rightarrow> bool" where
  "structured_Is e target =
     (case (Code_of e, Code_of target) of (Some c, Some d) \<Rightarrow> c = d | _ \<Rightarrow> False)"

definition same_error :: "go_error \<Rightarrow> go_error \<Rightarrow> bool" where
  "same_error e target \<longleftrightarrow>
     e = Canceled \<and> target = Canceled \<or> e = DeadlineExceeded \<and> target = DeadlineExceeded \<or> structured_Is e target"

text \<open>\<open>errors.Is\<close> walks the tree of wrapped errors.  The targets of the code are the sentinels of
  \<open>context\<close> and structured errors.\<close>

fun errors_Is :: "go_error \<Rightarrow> go_error \<Rightarrow> bool" where
  "errors_Is (Structured code message hint (Some w)) target \<longleftrightarrow>
     same_error (Structured code message hint (Some w)) target \<or> errors_Is w target"
| "errors_Is (Foreign text ws) target \<longleftrightarrow> same_error (Foreign text ws) target \<or> list_ex (\<lambda>w. errors_Is w target) ws"
| "errors_Is e target \<longleftrightarrow> same_error e target"

definition Is_opt :: "go_error option \<Rightarrow> go_error \<Rightarrow> bool" where
  "Is_opt e target = (case e of None \<Rightarrow> False | Some e' \<Rightarrow> errors_Is e' target)"

lemma Is_opt_simps [simp]: "\<not> Is_opt None t" "Is_opt (Some e) t = errors_Is e t"
  by (simp_all add: Is_opt_def)

lemma same_error_simps [simp]:
  "same_error Canceled Canceled" "same_error DeadlineExceeded DeadlineExceeded"
  "\<not> same_error Canceled DeadlineExceeded" "\<not> same_error DeadlineExceeded Canceled"
  "same_error (Structured c m h w) (Structured d m' h' w') \<longleftrightarrow> c = d"
  "\<not> same_error (Structured c m h w) Canceled" "\<not> same_error (Structured c m h w) DeadlineExceeded"
  "\<not> same_error Canceled (Structured c m h w)" "\<not> same_error DeadlineExceeded (Structured c m h w)"
  "\<not> same_error (Foreign s ws) t" "\<not> same_error e (Foreign s ws)"
  by (cases e; simp add: same_error_def structured_Is_def; fail)?
     (auto simp: same_error_def structured_Is_def split: option.splits)

subsection \<open>The registry of codes\<close>

record code_definition =
  d_Code :: string
  d_Message :: string
  d_Hint :: string
  d_Module :: string

type_synonym registry = "(string \<times> code_definition) list"

definition is_upper :: "char \<Rightarrow> bool" where
  "is_upper c \<longleftrightarrow> CHR ''A'' \<le> c \<and> c \<le> CHR ''Z''"

definition is_digit :: "char \<Rightarrow> bool" where
  "is_digit c \<longleftrightarrow> CHR ''0'' \<le> c \<and> c \<le> CHR ''9''"

text \<open>\<open>^[A-Z][A-Z0-9]+(?:\.[A-Z][A-Z0-9_]+)+$\<close>: the segments between the dots.\<close>

fun segments :: "string \<Rightarrow> string list" where
  "segments [] = [[]]"
| "segments (c # cs) =
     (if c = CHR ''.'' then [] # segments cs
      else (case segments cs of [] \<Rightarrow> [[c]] | s # ss \<Rightarrow> (c # s) # ss))"

definition module_segment :: "string \<Rightarrow> bool" where
  "module_segment s =
     (case s of [] \<Rightarrow> False
      | c # cs \<Rightarrow> is_upper c \<and> cs \<noteq> [] \<and> list_all (\<lambda>d. is_upper d \<or> is_digit d) cs)"

definition code_segment :: "string \<Rightarrow> bool" where
  "code_segment s =
     (case s of [] \<Rightarrow> False
      | c # cs \<Rightarrow> is_upper c \<and> cs \<noteq> [] \<and> list_all (\<lambda>d. is_upper d \<or> is_digit d \<or> d = CHR ''_'') cs)"

definition codeRE :: "string \<Rightarrow> bool" where
  "codeRE s =
     (case segments s of m # rest \<Rightarrow> module_segment m \<and> rest \<noteq> [] \<and> list_all code_segment rest | [] \<Rightarrow> False)"

definition moduleFromCode :: "string \<Rightarrow> string" where
  "moduleFromCode code =
     (let m = takeWhile (\<lambda>c. c \<noteq> CHR ''.'') code in if m = code \<or> m = [] then code else m)"

definition Register :: "string \<Rightarrow> string \<Rightarrow> string \<Rightarrow> registry \<Rightarrow> string + go_error \<times> registry" where
  "Register code message hint reg =
     (if \<not> codeRE code
      then Inl (''errcode: Register code violates naming convention (MODULE.NOUN_VERB): '' @ code)
      else
        case map_of reg code of
          Some existing \<Rightarrow>
            if d_Message existing = message \<and> d_Hint existing = hint
            then Inr (Structured code message hint None, reg)
            else Inl (''errcode: Register conflict for '' @ code @ utf8 [32, 8212] @ '' existing message='' @
                      d_Message existing @ '' hint='' @ d_Hint existing @ ''; new message='' @ message @
                      '' hint='' @ hint)
        | None \<Rightarrow>
            Inr (Structured code message hint None,
                 (code, \<lparr>d_Code = code, d_Message = message, d_Hint = hint, d_Module = moduleFromCode code\<rparr>) # reg))"

definition Lookup :: "string \<Rightarrow> registry \<Rightarrow> code_definition option" where
  "Lookup code reg = map_of reg code"

definition testPrefix :: string where "testPrefix = ''TEST.''"

definition All_codes :: "registry \<Rightarrow> code_definition list" where
  "All_codes reg = sort_key d_Code (filter (\<lambda>d. \<not> prefix testPrefix (d_Code d)) (map snd reg))"

definition New :: "string \<Rightarrow> string \<Rightarrow> string \<Rightarrow> registry \<Rightarrow> string + go_error" where
  "New code message hint reg =
     (case Lookup code reg of
        None \<Rightarrow> Inl (''errcode: New called with unregistered code: '' @ code)
      | Some def \<Rightarrow>
          Inr (Structured code (if message = [] then d_Message def else message)
                 (if hint = [] then d_Hint def else hint) None))"

text \<open>\<open>text\<close> is what \<open>fmt.Sprintf\<close> made of the format and its arguments.\<close>

definition Newf :: "string \<Rightarrow> string \<Rightarrow> registry \<Rightarrow> string + go_error" where
  "Newf code formatted reg =
     (case Lookup code reg of
        None \<Rightarrow> Inl (''errcode: Newf called with unregistered code: '' @ code)
      | Some def \<Rightarrow> Inr (Structured code formatted (d_Hint def) None))"

definition Wrap_err :: "string \<Rightarrow> go_error option \<Rightarrow> string \<Rightarrow> string \<Rightarrow> registry \<Rightarrow> string + go_error" where
  "Wrap_err code err message hint reg =
     (case Lookup code reg of
        None \<Rightarrow> Inl (''errcode: Wrap called with unregistered code: '' @ code)
      | Some def \<Rightarrow>
          Inr (Structured code (if message = [] then d_Message def else message)
                 (if hint = [] then d_Hint def else hint) err))"

text \<open>A program's \<open>var Err = Register(...)\<close> declarations, run in order.\<close>

fun Register_all :: "(string \<times> string \<times> string) list \<Rightarrow> registry \<Rightarrow> string + registry" where
  "Register_all [] reg = Inr reg"
| "Register_all ((c, m, h) # ds) reg =
     (case Register c m h reg of Inl p \<Rightarrow> Inl p | Inr (_, reg') \<Rightarrow> Register_all ds reg')"

definition registry_ok :: "registry \<Rightarrow> bool" where
  "registry_ok reg \<longleftrightarrow> distinct (map fst reg) \<and>
     (\<forall>(c, d) \<in> set reg. codeRE c \<and> d_Code d = c \<and> d_Module d = moduleFromCode c)"

lemma registry_ok_Nil [simp]: "registry_ok []"
  by (simp add: registry_ok_def)

lemma Register_cases:
  assumes "Register c m h reg = Inr (e, reg')"
  obtains "reg' = reg" "\<exists>d. map_of reg c = Some d \<and> d_Message d = m \<and> d_Hint d = h" "codeRE c"
  | "map_of reg c = None" "codeRE c"
    "reg' = (c, \<lparr>d_Code = c, d_Message = m, d_Hint = h, d_Module = moduleFromCode c\<rparr>) # reg"
  using assms by (auto simp: Register_def split: if_splits option.splits)

lemma Register_ok: "Register c m h reg = Inr (e, reg') \<Longrightarrow> registry_ok reg \<Longrightarrow> registry_ok reg'"
  by (erule Register_cases) (auto simp: registry_ok_def map_of_eq_None_iff)

lemma Register_keeps: "Register c m h reg = Inr (e, reg') \<Longrightarrow> map_of reg k = Some d \<Longrightarrow> map_of reg' k = Some d"
  by (erule Register_cases) auto

lemma Register_defines:
  "Register c m h reg = Inr (e, reg') \<Longrightarrow> \<exists>d. map_of reg' c = Some d \<and> d_Message d = m \<and> d_Hint d = h"
  by (erule Register_cases) auto

lemma Register_all_keeps:
  "Register_all ds reg = Inr reg' \<Longrightarrow> map_of reg k = Some d \<Longrightarrow> map_of reg' k = Some d"
  by (induction ds reg rule: Register_all.induct) (auto split: sum.splits prod.splits dest: Register_keeps)

lemma Register_all_ok: "Register_all ds reg = Inr reg' \<Longrightarrow> registry_ok reg \<Longrightarrow> registry_ok reg'"
  by (induction ds reg rule: Register_all.induct) (auto split: sum.splits prod.splits dest: Register_ok)

lemma Register_all_defines:
  "Register_all ds reg = Inr reg' \<Longrightarrow> (c, m, h) \<in> set ds \<Longrightarrow>
   \<exists>d. map_of reg' c = Some d \<and> d_Message d = m \<and> d_Hint d = h"
proof (induction ds reg rule: Register_all.induct)
  case (2 c' m' h' ds reg)
  then obtain e reg1 where r: "Register c' m' h' reg = Inr (e, reg1)" and rest: "Register_all ds reg1 = Inr reg'"
    by (auto split: sum.splits prod.splits)
  show ?case
  proof (cases "(c, m, h) \<in> set ds")
    case True
    with 2 r rest show ?thesis by auto
  next
    case False
    with 2(3) have "c = c'" "m = m'" "h = h'" by auto
    with Register_defines [OF r] Register_all_keeps [OF rest] show ?thesis by blast
  qed
qed simp

lemma All_codes_codes:
  assumes "registry_ok reg"
  shows "set (map d_Code (All_codes reg)) = {c \<in> dom (map_of reg). \<not> prefix testPrefix c}"
    and "sorted_wrt (<) (map d_Code (All_codes reg))"
proof -
  have fst_eq: "map d_Code (map snd reg) = map fst reg"
    using assms by (auto simp: registry_ok_def)
  have "d_Code ` (set (filter (\<lambda>d. \<not> prefix testPrefix (d_Code d)) (map snd reg))) =
      {c \<in> d_Code ` set (map snd reg). \<not> prefix testPrefix c}" by auto
  also have "d_Code ` set (map snd reg) = fst ` set reg"
    using fst_eq by (metis list.set_map)
  finally show "set (map d_Code (All_codes reg)) = {c \<in> dom (map_of reg). \<not> prefix testPrefix c}"
    by (simp add: All_codes_def dom_map_of_conv_image_fst)
  have "distinct (map d_Code (map snd reg))"
    unfolding fst_eq using assms by (simp add: registry_ok_def)
  then have "distinct (map d_Code (filter (\<lambda>d. \<not> prefix testPrefix (d_Code d)) (map snd reg)))"
    by (rule distinct_map_filter)
  then have "distinct (map d_Code (All_codes reg))"
    by (simp add: All_codes_def distinct_map)
  then show "sorted_wrt (<) (map d_Code (All_codes reg))"
    by (simp add: All_codes_def strict_sorted_iff)
qed

text \<open>The code registry is append-only and consistent.  When a program's declarations all register
  without a panic, starting from the empty registry, every declared code looks up to exactly its declared
  message and hint, so no two declarations disagree; every code obeys the naming convention; and
  \<open>All\<close> lists, in strictly ascending order, exactly the declared codes outside \<open>TEST.\<close>.\<close>

theorem registry_consistent:
  assumes "Register_all ds [] = Inr reg"
  shows "(\<forall>(c, m, h) \<in> set ds. codeRE c \<and> (\<exists>d. Lookup c reg = Some d \<and> d_Message d = m \<and> d_Hint d = h)) \<and>
         sorted_wrt (<) (map d_Code (All_codes reg)) \<and>
         set (map d_Code (All_codes reg)) = {c \<in> dom (\<lambda>c. Lookup c reg). \<not> prefix testPrefix c}"
proof -
  have ok: "registry_ok reg"
    by (rule Register_all_ok [OF assms]) simp
  have "codeRE c \<and> (\<exists>d. Lookup c reg = Some d \<and> d_Message d = m \<and> d_Hint d = h)" if "(c, m, h) \<in> set ds" for c m h
    using Register_all_defines [OF assms that] ok
    by (auto simp: Lookup_def registry_ok_def dest!: map_of_SomeD)
  with All_codes_codes [OF ok] show ?thesis by (auto simp: Lookup_def)
qed

theorem registry_consistent_witness:
  "\<exists>reg d. Register_all [(''LLM.TIMEOUT'', ''late'', ''wait''), (''TEST.XX'', ''t'', ''t''), (''LLM.TIMEOUT'', ''late'', ''wait'')] [] = Inr reg \<and>
     Lookup ''LLM.TIMEOUT'' reg = Some d \<and> d_Hint d = ''wait''"
proof -
  let ?ds = "[(''LLM.TIMEOUT'', ''late'', ''wait''), (''TEST.XX'', ''t'', ''t''), (''LLM.TIMEOUT'', ''late'', ''wait'')]"
  have "Register_all ?ds [] = Inr
      [(''TEST.XX'', \<lparr>d_Code = ''TEST.XX'', d_Message = ''t'', d_Hint = ''t'', d_Module = ''TEST''\<rparr>),
       (''LLM.TIMEOUT'', \<lparr>d_Code = ''LLM.TIMEOUT'', d_Message = ''late'', d_Hint = ''wait'', d_Module = ''LLM''\<rparr>)]"
    by code_simp
  then obtain reg where r: "Register_all ?ds [] = Inr reg" by blast
  from registry_consistent [OF r] r show ?thesis by auto
qed

end
