(* ===== verification/LLM.thy ===== *)
theory LLM
  imports ErrCode Float64
begin

text \<open>
  The vocabulary of \<open>internal/domain/llm\<close> (\<open>llm.go\<close>, \<open>errors.go\<close>): requests, messages with their content
  blocks, stream chunks and finish reasons, and \<open>ValidateRequest\<close>.  A JSON object
  (\<open>map[string]any\<close>) is an opaque value of type \<open>'i\<close>.  A content block carries its type tag and the one
  field the tag selects.
\<close>

definition RoleUser :: string where "RoleUser = ''user''"
definition RoleAssistant :: string where "RoleAssistant = ''assistant''"

record 'i llm_tool_use =
  lu_ID :: string
  lu_Name :: string
  lu_Input :: 'i

record llm_tool_result =
  lr_ToolUseID :: string
  lr_Content :: string
  lr_IsError :: bool

datatype 'i content_block =
    BlockText string
  | BlockToolUse "'i llm_tool_use"
  | BlockToolResult llm_tool_result

definition NewToolUseBlock :: "'i llm_tool_use \<Rightarrow> 'i content_block" where
  "NewToolUseBlock tu = BlockToolUse tu"

definition NewToolResultBlock :: "llm_tool_result \<Rightarrow> 'i content_block" where
  "NewToolResultBlock tr = BlockToolResult tr"

record 'i llm_message =
  Role :: string
  Content :: "'i content_block list"

record 'i tool_schema =
  ts_Name :: string
  ts_Description :: string
  ts_InputSchema :: 'i

datatype thinking_mode = ThinkingDisabled | ThinkingEnabled

record 'i request =
  rq_System :: "(string \<times> bool) list"
  rq_Messages :: "'i llm_message list"
  rq_Tools :: "'i tool_schema list"
  rq_MaxTokens :: int
  rq_Temperature :: "f64 option"
  rq_ThinkingMode :: thinking_mode
  rq_ThinkingBudget :: int

datatype finish_reason = FinishUnset | FinishStop | FinishLength | FinishToolUse | FinishStopSequence
  | FinishPause | FinishRefusal | FinishCancelled | FinishError

definition Finish_String :: "finish_reason \<Rightarrow> string" where
  "Finish_String f =
     (case f of
        FinishUnset \<Rightarrow> ''unset'' | FinishStop \<Rightarrow> ''stop'' | FinishLength \<Rightarrow> ''length'' | FinishToolUse \<Rightarrow> ''tool_use''
      | FinishStopSequence \<Rightarrow> ''stop_sequence'' | FinishPause \<Rightarrow> ''pause_turn'' | FinishRefusal \<Rightarrow> ''refusal''
      | FinishCancelled \<Rightarrow> ''cancelled'' | FinishError \<Rightarrow> ''error'')"

definition Terminal :: "finish_reason \<Rightarrow> bool" where
  "Terminal f \<longleftrightarrow> f \<noteq> FinishUnset"

record 'i llm_chunk =
  lc_Token :: string
  lc_Thinking :: bool
  lc_FinishReason :: finish_reason
  lc_ToolUses :: "'i llm_tool_use list"
  lc_Err :: "go_error option"

subsection \<open>Registered errors\<close>

definition ErrTimeout :: go_error where
  "ErrTimeout = Structured ''LLM.TIMEOUT''
     (''LLM '' @ utf8 [35831, 27714, 36229, 26102])
     (utf8 [26816, 26597, 32593, 32476, 19982] @ '' provider '' @ utf8 [24310, 36831] @ ''; ''
       @ utf8 [21487, 35843, 39640] @ '' config llm.request_timeout; ''
       @ utf8 [22797, 26434, 35786, 26029, 24635, 36229, 26102, 22312] @ '' spec-1.21'') None"

definition ErrDecodeFailed :: go_error where
  "ErrDecodeFailed = Structured ''LLM.DECODE_FAILED''
     (''LLM '' @ utf8 [21709, 24212, 35299, 30721, 22833, 36133] @ '' (SSE event / tool_use input JSON)'')
     (utf8 [36890, 24120, 26159] @ '' provider '' @ utf8 [21327, 35758, 28418, 31227, 25110]
       @ '' tool input '' @ utf8 [36229, 20986] @ '' JSON guard (object/depth/size); '' @ utf8 [26816, 26597]
       @ '' SDK '' @ utf8 [29256, 26412, 19982] @ '' tool schema'') None"

definition ErrStreamEmpty :: go_error where
  "ErrStreamEmpty = Structured ''LLM.STREAM_EMPTY''
     (''LLM stream '' @ utf8 [26080, 21487, 35265, 36755, 20986] @ '' (thinking-only ''
       @ utf8 [19988, 38750, 27491, 24120, 32467, 26463] @ '')'')
     (utf8 [27169, 22411, 21487, 33021, 20165, 20135] @ '' thinking '' @ utf8 [20869, 23481] @ ''; ''
       @ utf8 [26816, 26597] @ '' thinking budget '' @ utf8 [19982] @ '' prompt; ''
       @ utf8 [33509, 21462, 28040] @ ''/'' @ utf8 [36229, 26102, 23548, 33268] @ '', ''
       @ utf8 [37325, 35797]) None"

definition ErrRequestInvalid :: go_error where
  "ErrRequestInvalid = Structured ''LLM.REQUEST_INVALID''
     (''LLM '' @ utf8 [35831, 27714, 21442, 25968, 38750, 27861])
     (utf8 [26816, 26597] @ '' Messages '' @ utf8 [38750, 31354, 19988] @ '' role'' @ utf8 [8712]
       @ ''{user,assistant} (system '' @ utf8 [36208] @ '' Request.System); MaxTokens>0; thinking budget ''
       @ utf8 [8805] @ ''1024 '' @ utf8 [19988] @ '' < MaxTokens'') None"

definition ErrProviderRefusal :: go_error where
  "ErrProviderRefusal = Structured ''LLM.PROVIDER_REFUSAL''
     (''LLM provider '' @ utf8 [25298, 32477, 29983, 25104] @ '' (refusal)'')
     (utf8 [35831, 29992, 25143, 37325, 26032, 34920, 36848, 35831, 27714] @ ''; refusal ''
       @ utf8 [36890, 24120, 22240, 23433, 20840, 31574, 30053] @ '', '' @ utf8 [19982]
       @ '' content filter '' @ utf8 [19981, 21516]) None"

text \<open>\<open>errcode.Newf\<close> with the registered hint; the prefix is the format's literal text.\<close>

definition RequestInvalidf :: "string \<Rightarrow> go_error" where
  "RequestInvalidf detail =
     (case ErrRequestInvalid of
        Structured code message hint _ \<Rightarrow> Structured code (message @ '': '' @ detail) hint None
      | e \<Rightarrow> e)"

definition minThinkingBudget :: int where "minThinkingBudget = 1024"

definition ValidateRequest :: "'i request \<Rightarrow> go_error option" where
  "ValidateRequest req =
     (if rq_Messages req = [] then Some (RequestInvalidf ''empty Messages'')
      else if rq_MaxTokens req \<le> 0 then Some (RequestInvalidf ''MaxTokens must be > 0 (prewarm not supported)'')
      else if list_ex (\<lambda>m. Role m \<noteq> RoleUser \<and> Role m \<noteq> RoleAssistant) (rq_Messages req)
      then Some (RequestInvalidf ''Messages role must be user/assistant; system prompt goes via Request.System'')
      else if rq_ThinkingMode req = ThinkingEnabled then
        (if rq_ThinkingBudget req < minThinkingBudget
         then Some (RequestInvalidf (''ThinkingBudget must be '' @ utf8 [8805] @ '' 1024 when thinking enabled''))
         else if rq_ThinkingBudget req \<ge> rq_MaxTokens req
         then Some (RequestInvalidf ''ThinkingBudget must be < MaxTokens (counts toward max_tokens)'')
         else None)
      else None)"

end
