(* ===== verification/DiagTools.thy ===== *)
theory DiagTools
  imports LLM
begin

text \<open>
  The parts of \<open>internal/app/diagnose\<close> the loop is built from: \<open>errors.go\<close>, \<open>tool.go\<close>, \<open>registry.go\<close>,
  \<open>scope.go\<close> and \<open>dedup.go\<close>.  An executor is its name, its schema and what its \<open>Cacheable\<close> method answers
  (\<open>None\<close> when it has none); what it does when executed belongs to the environment of the loop.
  The SHA-256 digest of the JSON text of an input, in hex, is the argument \<open>digest\<close>, \<open>None\<close> when
  \<open>json.Marshal\<close> fails.
\<close>

subsection \<open>Registered errors\<close>

definition ErrMaxTurns :: go_error where
  "ErrMaxTurns = Structured ''DIAGNOSE.MAX_TURNS''
     (utf8 [35786, 26029, 36718, 25968, 36798, 19978, 38480, 26410, 25910, 25947])
     (utf8 [25552, 39640] @ '' diagnose.max_turns '' @ utf8 [25110, 31616, 21270, 38382, 39064] @ ''; ''
       @ utf8 [26816, 26597, 24037, 20855, 21453, 22797, 35843, 29992] @ '' (spec-1.22 ''
       @ utf8 [21435, 37325] @ '')'') None"

definition ErrTotalTimeout :: go_error where
  "ErrTotalTimeout = Structured ''DIAGNOSE.TOTAL_TIMEOUT''
     (utf8 [35786, 26029, 24635, 26102, 38271, 36229, 38480] @ '' ('' @ utf8 [40664, 35748] @ '' 10min)'')
     (utf8 [25552, 39640] @ '' diagnose.total_timeout ''
       @ utf8 [25110, 32553, 23567, 35786, 26029, 33539, 22260]) None"

definition ErrToolUnknown :: go_error where
  "ErrToolUnknown = Structured ''DIAGNOSE.TOOL_UNKNOWN''
     (utf8 [27169, 22411, 35831, 27714, 26410, 27880, 20876, 30340, 24037, 20855])
     (''tool_use '' @ utf8 [25351, 21521, 26410, 30693, 24037, 20855] @ ''; ''
       @ utf8 [26816, 26597, 27880, 20837] @ '' Tools schema '' @ utf8 [19982] @ '' registry ''
       @ utf8 [19968, 33268]) None"

definition ErrToolTimeout :: go_error where
  "ErrToolTimeout = Structured ''DIAGNOSE.TOOL_TIMEOUT''
     (utf8 [21333, 36718, 24037, 20855, 25191, 34892, 36229, 26102] @ '' ('' @ utf8 [40664, 35748]
       @ '' 30s)'')
     (utf8 [26816, 26597, 24037, 20855] @ ''/'' @ utf8 [30446, 26631] @ '' DB '' @ utf8 [21709, 24212]
       @ ''; '' @ utf8 [25552, 39640] @ '' diagnose.tool_timeout'') None"

definition ErrUnexpectedPause :: go_error where
  "ErrUnexpectedPause = Structured ''DIAGNOSE.UNEXPECTED_PAUSE''
     (utf8 [25910, 21040, 38750, 39044, 26399] @ '' pause_turn (spec-1.21 '' @ utf8 [26410, 21551, 29992]
       @ '' server tool)'')
     (''server-side tool '' @ utf8 [26159, 26410, 26469] @ '' spec; '' @ utf8 [26816, 26597] @ '' model/''
       @ utf8 [35831, 27714, 26410, 21551, 29992] @ '' server tool'') None"

definition ErrScopeToolDenied :: go_error where
  "ErrScopeToolDenied = Structured ''SKILL.SCOPE_TOOL_DENIED''
     (''tool is not allowed in the active skill scope'')
     (''use an allowed tool or invoke another skill'') None"

subsection \<open>Tools\<close>

record tool_output =
  to_Content :: string
  to_IsError :: bool
  to_Filter :: "string list option"

record 'i tool_executor =
  ex_Name :: string
  ex_Schema :: "'i tool_schema"
  ex_Cacheable :: "bool option"

record 'i tool_registry =
  tools :: "string \<rightharpoonup> 'i tool_executor"
  names :: "string list"

fun register_execs :: "'i tool_executor list \<Rightarrow> 'i tool_registry \<Rightarrow> go_error + 'i tool_registry" where
  "register_execs [] r = Inr r"
| "register_execs (e # es) r =
     (if ex_Name e = [] then Inl (RequestInvalidf ''ToolExecutor with empty Name() in registry'')
      else if ts_Name (ex_Schema e) \<noteq> ex_Name e
      then Inl (RequestInvalidf (''ToolExecutor '' @ ex_Name e @ '' has Schema().Name='' @ ts_Name (ex_Schema e) @
                                 '' (must equal Name())''))
      else if tools r (ex_Name e) \<noteq> None
      then Inl (RequestInvalidf (''ToolExecutor '' @ ex_Name e @ '' registered twice''))
      else register_execs es (r\<lparr>tools := (tools r)(ex_Name e \<mapsto> e), names := names r @ [ex_Name e]\<rparr>))"

definition NewRegistry :: "'i tool_executor list \<Rightarrow> go_error + 'i tool_registry" where
  "NewRegistry execs =
     (case register_execs execs \<lparr>tools = Map.empty, names = []\<rparr> of
        Inl e \<Rightarrow> Inl e
      | Inr r \<Rightarrow> Inr (r\<lparr>names := sort (names r)\<rparr>))"

text \<open>The methods accept a nil registry.\<close>

definition Registry_Get :: "'i tool_registry option \<Rightarrow> string \<Rightarrow> 'i tool_executor option" where
  "Registry_Get r name = (case r of None \<Rightarrow> None | Some r' \<Rightarrow> tools r' name)"

definition Schemas :: "'i tool_registry option \<Rightarrow> 'i tool_schema list" where
  "Schemas r = (case r of None \<Rightarrow> [] | Some r' \<Rightarrow> map (\<lambda>n. ex_Schema (the (tools r' n))) (names r'))"

definition registry_names :: "'i tool_registry option \<Rightarrow> string list" where
  "registry_names r = (case r of None \<Rightarrow> [] | Some r' \<Rightarrow> names r')"

subsection \<open>Scope\<close>

definition skillToolName :: string where "skillToolName = ''Skill''"

definition applyFilter :: "'i tool_schema list \<Rightarrow> string list option \<Rightarrow> 'i tool_schema list" where
  "applyFilter ts flt =
     (case flt of
        None \<Rightarrow> ts
      | Some ns \<Rightarrow> filter (\<lambda>t. ts_Name t \<in> set ns \<or> ts_Name t = skillToolName) ts)"

fun dedup_names :: "string set \<Rightarrow> string list \<Rightarrow> string list" where
  "dedup_names seen [] = []"
| "dedup_names seen (n # ns) =
     (if n \<in> seen then dedup_names seen ns else n # dedup_names (insert n seen) ns)"

definition normalizeFilter :: "string list option \<Rightarrow> string list option" where
  "normalizeFilter flt = map_option (dedup_names {}) flt"

definition scopeDenied :: "string list option \<Rightarrow> string \<Rightarrow> bool" where
  "scopeDenied flt name =
     (case flt of None \<Rightarrow> False | Some ns \<Rightarrow> name \<noteq> skillToolName \<and> \<not> list_ex (\<lambda>n. n = name) ns)"

text \<open>The verb \<open>%q\<close>: exact for ASCII; other bytes are kept, as for printable text.\<close>

definition hex_digit :: "nat \<Rightarrow> char" where
  "hex_digit n = (if n < 10 then char_of (48 + n) else char_of (87 + n))"

definition quote_char :: "char \<Rightarrow> string" where
  "quote_char c =
     (let n = of_char c :: nat in
      if n = 34 \<or> n = 92 then [char_of (92 :: nat), c]
      else if n = 7 then [char_of (92 :: nat), CHR ''a''] else if n = 8 then [char_of (92 :: nat), CHR ''b'']
      else if n = 12 then [char_of (92 :: nat), CHR ''f''] else if n = 10 then [char_of (92 :: nat), CHR ''n'']
      else if n = 13 then [char_of (92 :: nat), CHR ''r''] else if n = 9 then [char_of (92 :: nat), CHR ''t'']
      else if n = 11 then [char_of (92 :: nat), CHR ''v'']
      else if n < 32 \<or> n = 127 then [char_of (92 :: nat), CHR ''x'', hex_digit (n div 16), hex_digit (n mod 16)]
      else [c])"

definition go_quote :: "string \<Rightarrow> string" where
  "go_quote s = [char_of (34 :: nat)] @ concat (map quote_char s) @ [char_of (34 :: nat)]"

fun join_strings :: "string \<Rightarrow> string list \<Rightarrow> string" where
  "join_strings sep [] = []"
| "join_strings sep [s] = s"
| "join_strings sep (s # t # ss) = s @ sep @ join_strings sep (t # ss)"

fun code_and_hint :: "go_error \<Rightarrow> string \<times> string" where
  "code_and_hint (Structured code _ hint _) = (code, hint)"
| "code_and_hint _ = ([], [])"

definition scopeDeniedContent :: "string \<Rightarrow> string list \<Rightarrow> string" where
  "scopeDeniedContent tool allowed =
     (case code_and_hint ErrScopeToolDenied of (code, hint) \<Rightarrow>
        code @ '': tool '' @ go_quote tool @ '' is not allowed in the active skill scope. Allowed: ['' @
        join_strings '', '' allowed @ ''] (+ Skill). Hint: '' @ hint @ ''.'')"

subsection \<open>The cache of tool results\<close>

record dedup_entry =
  de_out :: tool_output
  de_turn :: int

record dedup_cache =
  dc_enabled :: bool
  dc_window :: int
  dc_entries :: "string \<rightharpoonup> dedup_entry"

definition newDedupCache :: "bool \<Rightarrow> int \<Rightarrow> dedup_cache" where
  "newDedupCache enabled window = \<lparr>dc_enabled = enabled, dc_window = window, dc_entries = Map.empty\<rparr>"

definition dedupKey :: "('i \<Rightarrow> string option) \<Rightarrow> string \<Rightarrow> 'i \<Rightarrow> string option" where
  "dedupKey digest name inp = map_option (\<lambda>h. name @ '':'' @ h) (digest inp)"

definition dedup_lookup :: "string \<Rightarrow> int \<Rightarrow> dedup_cache \<Rightarrow> tool_output option" where
  "dedup_lookup key curTurn c =
     (if \<not> dc_enabled c then None
      else case dc_entries c key of
             None \<Rightarrow> None
           | Some e \<Rightarrow> if curTurn - de_turn e \<ge> dc_window c then None else Some (de_out e))"

definition dedup_store :: "string \<Rightarrow> tool_output \<Rightarrow> int \<Rightarrow> dedup_cache \<Rightarrow> dedup_cache" where
  "dedup_store key out curTurn c =
     (if \<not> dc_enabled c \<or> to_IsError out then c
      else c\<lparr>dc_entries := (dc_entries c)(key \<mapsto> \<lparr>de_out = out, de_turn = curTurn\<rparr>)\<rparr>)"

definition cacheable :: "'i tool_executor \<Rightarrow> dedup_cache \<Rightarrow> bool" where
  "cacheable exec c =
     (dc_enabled c \<and> (case ex_Cacheable exec of None \<Rightarrow> True | Some b \<Rightarrow> b))"

definition dedupResolve ::
    "('i \<Rightarrow> string option) \<Rightarrow> dedup_cache \<Rightarrow> 'i tool_executor \<Rightarrow> 'i llm_tool_use \<Rightarrow> int \<Rightarrow> string option \<times> tool_output option" where
  "dedupResolve digest c exec tu turn =
     (if \<not> cacheable exec c then (None, None)
      else case dedupKey digest (lu_Name tu) (lu_Input tu) of
             None \<Rightarrow> (None, None)
           | Some k \<Rightarrow> (Some k, dedup_lookup k turn c))"

subsection \<open>What a window cache promises\<close>

text \<open>A cache with ages: a stored output is found, unchanged, while it is younger than the window,
  and storing under one key leaves the others alone.\<close>

locale window_cache =
  fixes find :: "'k \<Rightarrow> int \<Rightarrow> 'c \<Rightarrow> 'v option"
    and put :: "'k \<Rightarrow> 'v \<Rightarrow> int \<Rightarrow> 'c \<Rightarrow> 'c"
    and window :: "'c \<Rightarrow> int"
    and live :: "'c \<Rightarrow> bool"
    and good :: "'v \<Rightarrow> bool"
  assumes find_put_same: "live c \<Longrightarrow> good v \<Longrightarrow> find k t' (put k v t c) = (if t' - t < window c then Some v else None)"
    and find_put_other: "k \<noteq> k' \<Longrightarrow> find k t' (put k' v t c) = find k t' c"
    and window_put: "window (put k v t c) = window c"
    and live_put: "live (put k v t c) = live c"
begin

lemma find_put:
  "live c \<Longrightarrow> good v \<Longrightarrow>
   find k' t' (put k v t c) = (if k' = k then (if t' - t < window c then Some v else None) else find k' t' c)"
  by (simp add: find_put_same find_put_other)

text \<open>Running a sequence of stores leaves the last store of each key.\<close>

lemma window_fold: "window (fold (\<lambda>(k, v, t). put k v t) ps c) = window c"
  by (induction ps arbitrary: c) (auto simp: window_put)

lemma live_fold: "live (fold (\<lambda>(k, v, t). put k v t) ps c) = live c"
  by (induction ps arbitrary: c) (simp_all add: live_put split_beta)

lemma find_fold_other:
  "k \<notin> fst ` set ps \<Longrightarrow> find k t' (fold (\<lambda>(k, v, t). put k v t) ps c) = find k t' c"
proof (induction ps arbitrary: c)
  case (Cons p ps)
  obtain k' v t where p: "p = (k', v, t)" by (cases p)
  from Cons.prems p have "k \<noteq> k'" "k \<notin> fst ` set ps" by simp_all
  with Cons.IH [of "put k' v t c"] find_put_other [of k k'] p show ?case by simp
qed simp

lemma find_last:
  assumes "live c" "good v" "k \<notin> fst ` set qs"
  shows "find k t' (fold (\<lambda>(k, v, t). put k v t) (ps @ (k, v, t) # qs) c) = (if t' - t < window c then Some v else None)"
proof -
  let ?c = "fold (\<lambda>(k, v, t). put k v t) ps c"
  have "find k t' (fold (\<lambda>(k, v, t). put k v t) (ps @ (k, v, t) # qs) c) = find k t' (put k v t ?c)"
    using find_fold_other [OF assms(3)] by simp
  also have "\<dots> = (if t' - t < window ?c then Some v else None)"
    using assms by (intro find_put_same) (simp_all add: live_fold)
  finally show ?thesis by (simp only: window_fold)
qed

end

interpretation dedup: window_cache dedup_lookup dedup_store dc_window dc_enabled "\<lambda>v. \<not> to_IsError v"
  by unfold_locales (auto simp: dedup_lookup_def dedup_store_def split: option.splits)

subsection \<open>Facts on registries and scopes\<close>

definition tool_registry_ok :: "'i tool_registry \<Rightarrow> bool" where
  "tool_registry_ok r \<longleftrightarrow> set (names r) = dom (tools r) \<and> distinct (names r) \<and>
     (\<forall>n e. tools r n = Some e \<longrightarrow> n \<noteq> [] \<and> ex_Name e = n \<and> ts_Name (ex_Schema e) = n)"

lemma register_execs_ok: "register_execs es r = Inr r' \<Longrightarrow> tool_registry_ok r \<Longrightarrow> tool_registry_ok r'"
proof (induction es r rule: register_execs.induct)
  case (2 e es r)
  let ?r = "r\<lparr>tools := (tools r)(ex_Name e \<mapsto> e), names := names r @ [ex_Name e]\<rparr>"
  have c: "ex_Name e \<noteq> []" "ts_Name (ex_Schema e) = ex_Name e" "tools r (ex_Name e) = None"
    and rest: "register_execs es ?r = Inr r'"
    using 2(2) by (simp_all split: if_splits)
  have "tool_registry_ok ?r"
    using 2(3) c by (auto simp: tool_registry_ok_def)
  with 2(1) c rest show ?case by simp
qed simp

lemma NewRegistry_ok: "NewRegistry es = Inr r \<Longrightarrow> tool_registry_ok r \<and> sorted_wrt (<) (names r)"
proof -
  assume "NewRegistry es = Inr r"
  then obtain r0 where r0: "register_execs es \<lparr>tools = Map.empty, names = []\<rparr> = Inr r0" and r: "r = r0\<lparr>names := sort (names r0)\<rparr>"
    by (auto simp: NewRegistry_def split: sum.splits)
  from register_execs_ok [OF r0] have "tool_registry_ok r0"
    by (simp add: tool_registry_ok_def)
  with r show "tool_registry_ok r \<and> sorted_wrt (<) (names r)"
    by (auto simp: tool_registry_ok_def strict_sorted_iff)
qed

lemma dedup_names_set: "set (dedup_names seen ns) = set ns - seen"
  by (induction seen ns rule: dedup_names.induct) auto

lemma scopeDenied_normalize [simp]: "scopeDenied (normalizeFilter flt) n = scopeDenied flt n"
  by (cases flt) (simp_all add: scopeDenied_def normalizeFilter_def list_ex_iff dedup_names_set)

text \<open>What the model is offered and what dispatch lets through agree.\<close>

lemma offered_iff_allowed: "t \<in> set (applyFilter ts flt) \<longleftrightarrow> t \<in> set ts \<and> \<not> scopeDenied flt (ts_Name t)"
  by (cases flt) (auto simp: applyFilter_def scopeDenied_def list_ex_iff)

end
