(* ===== verification/DiagLoop.thy ===== *)
theory DiagLoop
  imports DiagTools
begin

text \<open>
  \<open>internal/app/diagnose/loop.go\<close>: the turn loop between the model and the tools.  What the loop asks of
  its surroundings goes through an environment: the consumer's \<open>emit\<close>, the provider's stream, the executors
  and the state of the total context.  An environment is a function of the log of everything that was asked
  and answered so far, so it may change its mind from one call to the next.  A stream is the list of the
  chunks it delivers and what its \<open>Err\<close> returns at the end.  The durations of the timeouts only matter to
  the environment.
\<close>

subsection \<open>Events, the log and the environment\<close>

datatype 'i event =
    EventTurnStart int
  | EventText int string bool
  | EventToolCall int "'i llm_tool_use"
  | EventToolResult int llm_tool_result bool
  | EventFinish int finish_reason string "go_error option"

text \<open>\<open>Reused\<close> records a cache hit; it is not a call.\<close>

datatype 'i act =
    Emitted "'i event" "go_error option"
  | Streamed "'i request" "go_error + 'i llm_chunk list \<times> go_error option"
  | Executed int "'i llm_tool_use" tool_output "go_error option"
  | Reused int "'i llm_tool_use" tool_output
  | Polled "go_error option"

record 'i env =
  e_emit :: "'i act list \<Rightarrow> 'i event \<Rightarrow> go_error option"
  e_stream :: "'i act list \<Rightarrow> 'i request \<Rightarrow> go_error + 'i llm_chunk list \<times> go_error option"
  e_execute :: "'i act list \<Rightarrow> 'i tool_executor \<Rightarrow> 'i \<Rightarrow> tool_output \<times> go_error option"
  e_totalErr :: "'i act list \<Rightarrow> go_error option"
  e_digest :: "'i \<Rightarrow> string option"

subsection \<open>The loop and its state\<close>

record 'i loop_options =
  op_Registry :: "'i tool_registry option"
  op_MaxTurns :: int
  op_ToolTimeout :: int
  op_TotalTimeout :: int
  op_ReqTimeout :: int
  op_DedupEnabled :: bool
  op_DedupWindow :: int

definition DefaultMaxTurns :: int where "DefaultMaxTurns = 16"
definition DefaultToolTimeout :: int where "DefaultToolTimeout = 30 * 10 ^ 9"
definition DefaultTotalTimeout :: int where "DefaultTotalTimeout = 10 * 60 * 10 ^ 9"
definition DefaultReqTimeout :: int where "DefaultReqTimeout = 60 * 10 ^ 9"
definition DefaultDedupWindow :: int where "DefaultDedupWindow = 3"

definition default_to :: "int \<Rightarrow> int \<Rightarrow> int" where
  "default_to d n = (if n \<le> 0 then d else n)"

text \<open>The provider is present; a missing one is refused.\<close>

definition NewLoop :: "bool \<Rightarrow> 'i loop_options \<Rightarrow> go_error + 'i loop_options" where
  "NewLoop providerNil opt =
     (if providerNil then Inl (RequestInvalidf ''Loop requires non-nil Provider'')
      else Inr (opt\<lparr>op_MaxTurns := default_to DefaultMaxTurns (op_MaxTurns opt),
                    op_DedupWindow := default_to DefaultDedupWindow (op_DedupWindow opt),
                    op_ToolTimeout := default_to DefaultToolTimeout (op_ToolTimeout opt),
                    op_TotalTimeout := default_to DefaultTotalTimeout (op_TotalTimeout opt),
                    op_ReqTimeout := default_to DefaultReqTimeout (op_ReqTimeout opt)\<rparr>))"

record 'i lstate =
  msgs :: "'i llm_message list"
  activeFilter :: "string list option"
  dc :: dedup_cache
  alog :: "'i act list"

record 'i run_result =
  rs_Messages :: "'i llm_message list"
  rs_FinishReason :: finish_reason
  rs_Turns :: int
  rs_TermCode :: string

type_synonym 'i outcome = "'i run_result \<times> go_error option \<times> 'i lstate"

definition emit_ev :: "'i env \<Rightarrow> 'i event \<Rightarrow> 'i lstate \<Rightarrow> go_error option \<times> 'i lstate" where
  "emit_ev E ev s = (let r = e_emit E (alog s) ev in (r, s\<lparr>alog := alog s @ [Emitted ev r]\<rparr>))"

definition total_err :: "'i env \<Rightarrow> 'i lstate \<Rightarrow> go_error option \<times> 'i lstate" where
  "total_err E s = (let r = e_totalErr E (alog s) in (r, s\<lparr>alog := alog s @ [Polled r]\<rparr>))"

definition finalize :: "int \<Rightarrow> 'i lstate \<Rightarrow> finish_reason \<Rightarrow> string \<Rightarrow> 'i run_result" where
  "finalize turn s fr code =
     \<lparr>rs_Messages = msgs s, rs_FinishReason = fr, rs_Turns = turn, rs_TermCode = code\<rparr>"

text \<open>The code that ends a run: emit \<open>EventFinish\<close>, whatever that returns, and hand back the result.\<close>

definition stop_run :: "'i env \<Rightarrow> int \<Rightarrow> finish_reason \<Rightarrow> string \<Rightarrow> go_error option \<Rightarrow> 'i lstate \<Rightarrow> 'i outcome" where
  "stop_run E turn fr code err s =
     (let s1 = snd (emit_ev E (EventFinish turn fr code err) s) in (finalize turn s1 fr code, err, s1))"

subsection \<open>Classifying errors\<close>

definition classifyEmitErr :: "go_error \<Rightarrow> finish_reason \<times> go_error" where
  "classifyEmitErr e =
     (if errors_Is e Canceled \<or> errors_Is e DeadlineExceeded then (FinishCancelled, e) else (FinishError, e))"

text \<open>A failed emit ends the run without a further event.\<close>

definition stop_emit :: "int \<Rightarrow> go_error \<Rightarrow> 'i lstate \<Rightarrow> 'i outcome" where
  "stop_emit turn e s = (case classifyEmitErr e of (fr, ferr) \<Rightarrow> (finalize turn s fr [], Some ferr, s))"

definition code_of :: "go_error \<Rightarrow> string" where
  "code_of e = (case Code_of e of Some c \<Rightarrow> c | None \<Rightarrow> [])"

definition classifyTerminal ::
    "'i env \<Rightarrow> go_error option \<Rightarrow> 'i lstate \<Rightarrow> (finish_reason \<times> string \<times> go_error option) \<times> 'i lstate" where
  "classifyTerminal E streamErr s =
     (case streamErr of
        None \<Rightarrow> ((FinishUnset, [], None), s)
      | Some e \<Rightarrow>
          if errors_Is e Canceled then
            (case total_err E s of (t, s1) \<Rightarrow>
               (if Is_opt t DeadlineExceeded then (FinishError, code_of ErrTotalTimeout, Some ErrTotalTimeout)
                else (FinishCancelled, [], Some e), s1))
          else if errors_Is e DeadlineExceeded then
            (case total_err E s of (t, s1) \<Rightarrow>
               (if Is_opt t DeadlineExceeded then (FinishError, code_of ErrTotalTimeout, Some ErrTotalTimeout)
                else (FinishError, [], Some ErrTimeout), s1))
          else ((FinishError, [], Some e), s))"

definition err_text :: "go_error option \<Rightarrow> string" where
  "err_text e = (case e of Some e' \<Rightarrow> Error_text e' | None \<Rightarrow> [])"

definition feedback :: "string \<Rightarrow> string \<Rightarrow> bool \<Rightarrow> llm_tool_result" where
  "feedback i content isErr = \<lparr>lr_ToolUseID = i, lr_Content = content, lr_IsError = isErr\<rparr>"

text \<open>\<open>Inl\<close> is terminal.\<close>

definition classifyToolErr ::
    "'i env \<Rightarrow> string \<Rightarrow> tool_output \<Rightarrow> go_error option \<Rightarrow> 'i lstate \<Rightarrow>
     ((finish_reason \<times> string \<times> go_error option) + llm_tool_result) \<times> 'i lstate" where
  "classifyToolErr E toolUseID out execErr s =
     (if Is_opt execErr Canceled then (Inl (FinishCancelled, [], execErr), s)
      else if Is_opt execErr DeadlineExceeded then
        (case total_err E s of (t, s1) \<Rightarrow>
           (if Is_opt t DeadlineExceeded then Inl (FinishError, code_of ErrTotalTimeout, Some ErrTotalTimeout)
            else Inr (feedback toolUseID (Error_text ErrToolTimeout) True), s1))
      else if execErr \<noteq> None then (Inr (feedback toolUseID (err_text execErr) True), s)
      else (Inr (feedback toolUseID (to_Content out) (to_IsError out)), s))"

subsection \<open>Draining one stream\<close>

record 'i drained =
  dr_text :: string
  dr_toolUses :: "'i llm_tool_use list"
  dr_finish :: finish_reason
  dr_finishErr :: "go_error option"

definition drained0 :: "'i drained" where
  "drained0 = \<lparr>dr_text = [], dr_toolUses = [], dr_finish = FinishUnset, dr_finishErr = None\<rparr>"

definition note_finish :: "'i llm_chunk \<Rightarrow> 'i drained \<Rightarrow> 'i drained" where
  "note_finish c d =
     (if lc_FinishReason c \<noteq> FinishUnset
      then d\<lparr>dr_finish := lc_FinishReason c, dr_finishErr := lc_Err c,
             dr_toolUses := (if lc_ToolUses c \<noteq> [] then lc_ToolUses c else dr_toolUses d)\<rparr>
      else d)"

text \<open>\<open>Inl\<close> is the error of an emit that broke the loop.\<close>

fun drain_stream :: "'i env \<Rightarrow> int \<Rightarrow> 'i llm_chunk list \<Rightarrow> 'i drained \<Rightarrow> 'i lstate \<Rightarrow> (go_error + 'i drained) \<times> 'i lstate" where
  "drain_stream E turn [] d s = (Inr d, s)"
| "drain_stream E turn (c # cs) d s =
     (if lc_Token c \<noteq> [] then
        (case emit_ev E (EventText turn (lc_Token c) (lc_Thinking c)) s of
           (Some e, s1) \<Rightarrow> (Inl e, s1)
         | (None, s1) \<Rightarrow>
             drain_stream E turn cs
               (note_finish c (if lc_Thinking c then d else d\<lparr>dr_text := dr_text d @ lc_Token c\<rparr>)) s1)
      else drain_stream E turn cs (note_finish c d) s)"

subsection \<open>Running the tools of one turn\<close>

text \<open>After the call, or the cache hit: classify, update the scope, store, and return the result.\<close>

definition tool_done ::
    "'i env \<Rightarrow> int \<Rightarrow> 'i llm_tool_use \<Rightarrow> string option \<Rightarrow> bool \<Rightarrow> tool_output \<Rightarrow> go_error option \<Rightarrow> 'i lstate \<Rightarrow>
     'i outcome + llm_tool_result \<times> bool \<times> 'i lstate" where
  "tool_done E turn tu dKey cached out execErr s =
     (case classifyToolErr E (lu_ID tu) out execErr s of
        (Inl (fr, code, ferr), s1) \<Rightarrow> Inl (stop_run E turn fr code ferr s1)
      | (Inr tr, s1) \<Rightarrow>
          let ok = (execErr = None \<and> \<not> to_IsError out);
              s2 = (if ok \<and> to_Filter out \<noteq> None then s1\<lparr>activeFilter := normalizeFilter (to_Filter out)\<rparr> else s1);
              s3 = (case dKey of
                      Some k \<Rightarrow> if \<not> cached \<and> ok then s2\<lparr>dc := dedup_store k out turn (dc s2)\<rparr> else s2
                    | None \<Rightarrow> s2)
          in Inr (tr, cached, s3))"

definition run_tool ::
    "'i env \<Rightarrow> 'i tool_registry option \<Rightarrow> int \<Rightarrow> 'i llm_tool_use \<Rightarrow> 'i lstate \<Rightarrow>
     'i outcome + llm_tool_result \<times> bool \<times> 'i lstate" where
  "run_tool E reg turn tu s =
     (if scopeDenied (activeFilter s) (lu_Name tu)
      then Inr (feedback (lu_ID tu) (scopeDeniedContent (lu_Name tu) (the (activeFilter s))) True, False, s)
      else
        let exec = the (Registry_Get reg (lu_Name tu)) in
        case dedupResolve (e_digest E) (dc s) exec tu turn of
          (dKey, Some hit) \<Rightarrow>
            (case total_err E s of
               (Some cerr, s1) \<Rightarrow>
                 (case classifyTerminal E (Some cerr) s1 of
                    ((fr, code, ferr), s2) \<Rightarrow> Inl (stop_run E turn fr code ferr s2))
             | (None, s1) \<Rightarrow>
                 tool_done E turn tu dKey True hit None (s1\<lparr>alog := alog s1 @ [Reused turn tu hit]\<rparr>))
        | (dKey, None) \<Rightarrow>
            (case e_execute E (alog s) exec (lu_Input tu) of
               (out, execErr) \<Rightarrow>
                 tool_done E turn tu dKey False out execErr
                   (s\<lparr>alog := alog s @ [Executed turn tu out execErr]\<rparr>)))"

text \<open>Phase 1 announces all calls, phase 2 runs them in order.\<close>

fun emit_calls :: "'i env \<Rightarrow> int \<Rightarrow> 'i llm_tool_use list \<Rightarrow> 'i lstate \<Rightarrow> 'i outcome + 'i lstate" where
  "emit_calls E turn [] s = Inr s"
| "emit_calls E turn (tu # tus) s =
     (case emit_ev E (EventToolCall turn tu) s of
        (Some e, s1) \<Rightarrow> Inl (stop_emit turn e s1)
      | (None, s1) \<Rightarrow> emit_calls E turn tus s1)"

fun run_tools ::
    "'i env \<Rightarrow> 'i tool_registry option \<Rightarrow> int \<Rightarrow> 'i llm_tool_use list \<Rightarrow> llm_tool_result list \<Rightarrow> 'i lstate \<Rightarrow>
     'i outcome + llm_tool_result list \<times> 'i lstate" where
  "run_tools E reg turn [] results s = Inr (results, s)"
| "run_tools E reg turn (tu # tus) results s =
     (case run_tool E reg turn tu s of
        Inl stopped \<Rightarrow> Inl stopped
      | Inr (tr, cached, s1) \<Rightarrow>
          (case emit_ev E (EventToolResult turn tr cached) s1 of
             (Some e, s2) \<Rightarrow> Inl (stop_emit turn e s2)
           | (None, s2) \<Rightarrow> run_tools E reg turn tus (results @ [tr]) s2))"

definition assistant_turn :: "string \<Rightarrow> 'i llm_tool_use list \<Rightarrow> 'i llm_message" where
  "assistant_turn txt tus =
     \<lparr>Role = RoleAssistant, Content = (if txt \<noteq> [] then [BlockText txt] else []) @ map NewToolUseBlock tus\<rparr>"

definition user_turn :: "llm_tool_result list \<Rightarrow> 'i llm_message" where
  "user_turn results = \<lparr>Role = RoleUser, Content = map NewToolResultBlock results\<rparr>"

definition tool_use_turn ::
    "'i env \<Rightarrow> 'i tool_registry option \<Rightarrow> int \<Rightarrow> string \<Rightarrow> 'i llm_tool_use list \<Rightarrow> 'i lstate \<Rightarrow> 'i outcome + 'i lstate" where
  "tool_use_turn E reg turn txt tus s =
     (if tus = [] then Inl (stop_run E turn FinishError [] (Some ErrDecodeFailed) s)
      else if list_ex (\<lambda>tu. Registry_Get reg (lu_Name tu) = None) tus
      then Inl (stop_run E turn FinishToolUse (code_of ErrToolUnknown) (Some ErrToolUnknown) s)
      else
        case emit_calls E turn tus s of
          Inl stopped \<Rightarrow> Inl stopped
        | Inr s1 \<Rightarrow>
            (case run_tools E reg turn tus [] s1 of
               Inl stopped \<Rightarrow> Inl stopped
             | Inr (results, s2) \<Rightarrow>
                 Inr (s2\<lparr>msgs := msgs s2 @ [assistant_turn txt tus] @ [user_turn results]\<rparr>)))"

subsection \<open>One turn and the run\<close>

text \<open>The switch over the finish reason.\<close>

definition finish_turn ::
    "'i env \<Rightarrow> 'i tool_registry option \<Rightarrow> int \<Rightarrow> finish_reason \<Rightarrow> go_error option \<Rightarrow> 'i drained \<Rightarrow> 'i lstate \<Rightarrow>
     'i outcome + 'i lstate" where
  "finish_turn E reg turn finish finishErr d s =
     (case finish of
        FinishStop \<Rightarrow> Inl (stop_run E turn finish [] None s)
      | FinishStopSequence \<Rightarrow> Inl (stop_run E turn finish [] None s)
      | FinishLength \<Rightarrow> Inl (stop_run E turn finish [] None s)
      | FinishRefusal \<Rightarrow> Inl (stop_run E turn finish [] (Some ErrProviderRefusal) s)
      | FinishCancelled \<Rightarrow> Inl (stop_run E turn finish [] finishErr s)
      | FinishError \<Rightarrow>
          Inl (stop_run E turn finish (if Is_opt finishErr ErrTotalTimeout then code_of ErrTotalTimeout else []) finishErr s)
      | FinishPause \<Rightarrow> Inl (stop_run E turn finish (code_of ErrUnexpectedPause) (Some ErrUnexpectedPause) s)
      | FinishToolUse \<Rightarrow> tool_use_turn E reg turn (dr_text d) (dr_toolUses d) s
      | FinishUnset \<Rightarrow> Inl (stop_run E turn FinishError [] (Some ErrDecodeFailed) s))"

definition provider_call ::
    "'i env \<Rightarrow> 'i request \<Rightarrow> 'i tool_schema list \<Rightarrow> 'i lstate \<Rightarrow>
     (go_error + 'i llm_chunk list \<times> go_error option) \<times> 'i lstate" where
  "provider_call E req ts s =
     (let turnReq = req\<lparr>rq_Messages := msgs s, rq_Tools := applyFilter ts (activeFilter s)\<rparr>;
          r = e_stream E (alog s) turnReq
      in (r, s\<lparr>alog := alog s @ [Streamed turnReq r]\<rparr>))"

definition run_turn ::
    "'i env \<Rightarrow> 'i tool_registry option \<Rightarrow> 'i request \<Rightarrow> 'i tool_schema list \<Rightarrow> int \<Rightarrow> 'i lstate \<Rightarrow> 'i outcome + 'i lstate" where
  "run_turn E reg req ts turn s =
     (case emit_ev E (EventTurnStart turn) s of
        (Some e, s1) \<Rightarrow> Inl (stop_emit turn e s1)
      | (None, s1) \<Rightarrow>
          (case provider_call E req ts s1 of
             (Inl perr, s2) \<Rightarrow>
               (case classifyTerminal E (Some perr) s2 of
                  ((fr, code, ferr), s3) \<Rightarrow> Inl (stop_run E turn fr code ferr s3))
           | (Inr (chunks, streamErr), s2) \<Rightarrow>
               (case drain_stream E turn chunks drained0 s2 of
                  (Inl e, s3) \<Rightarrow> Inl (stop_emit turn e s3)
                | (Inr d, s3) \<Rightarrow>
                    if dr_finish d \<noteq> FinishUnset
                    then finish_turn E reg turn (dr_finish d) (dr_finishErr d) d s3
                    else if streamErr \<noteq> None
                    then (case classifyTerminal E streamErr s3 of
                            ((fr, _, ferr), s4) \<Rightarrow> finish_turn E reg turn fr ferr d s4)
                    else finish_turn E reg turn FinishError (Some ErrStreamEmpty) d s3)))"

text \<open>\<open>n\<close> turns are left, the next one is \<open>turn\<close>.\<close>

fun run_loop ::
    "'i env \<Rightarrow> 'i tool_registry option \<Rightarrow> 'i request \<Rightarrow> 'i tool_schema list \<Rightarrow> nat \<Rightarrow> int \<Rightarrow> 'i lstate \<Rightarrow> 'i outcome" where
  "run_loop E reg req ts 0 turn s =
     stop_run E (turn - 1) FinishError (code_of ErrMaxTurns) (Some ErrMaxTurns) s"
| "run_loop E reg req ts (Suc n) turn s =
     (case run_turn E reg req ts turn s of
        Inl stopped \<Rightarrow> stopped
      | Inr s1 \<Rightarrow> run_loop E reg req ts n (turn + 1) s1)"

definition start_state :: "'i loop_options \<Rightarrow> 'i request \<Rightarrow> 'i lstate" where
  "start_state l req =
     \<lparr>msgs = rq_Messages req, activeFilter = None, dc = newDedupCache (op_DedupEnabled l) (op_DedupWindow l), alog = []\<rparr>"

definition Run :: "'i env \<Rightarrow> 'i loop_options \<Rightarrow> 'i request \<Rightarrow> 'i outcome" where
  "Run E l req =
     run_loop E (op_Registry l) req (rq_Tools req @ Schemas (op_Registry l)) (nat (op_MaxTurns l)) 1 (start_state l req)"

subsection \<open>Invariants of a run\<close>

definition quiet :: "'i act \<Rightarrow> bool" where
  "quiet a = (case a of Emitted _ _ \<Rightarrow> True | Polled _ \<Rightarrow> True | _ \<Rightarrow> False)"

lemma quiet_simps [simp]:
  "quiet (Emitted ev r)" "quiet (Polled t)" "\<not> quiet (Streamed q r')" "\<not> quiet (Executed n tu o' e)" "\<not> quiet (Reused n tu o')"
  by (simp_all add: quiet_def)

definition log_act :: "'i act \<Rightarrow> 'i lstate \<Rightarrow> 'i lstate" where
  "log_act a s = s\<lparr>alog := alog s @ [a]\<rparr>"

lemma log_act_simps [simp]:
  "msgs (log_act a s) = msgs s" "activeFilter (log_act a s) = activeFilter s" "dc (log_act a s) = dc s"
  "alog (log_act a s) = alog s @ [a]"
  by (simp_all add: log_act_def)

lemma emit_ev_log: "emit_ev E ev s = (r, s') \<longleftrightarrow> r = e_emit E (alog s) ev \<and> s' = log_act (Emitted ev r) s"
  by (auto simp: emit_ev_def log_act_def Let_def)

lemma total_err_log: "total_err E s = (r, s') \<longleftrightarrow> r = e_totalErr E (alog s) \<and> s' = log_act (Polled r) s"
  by (auto simp: total_err_def log_act_def Let_def)

text \<open>\<open>quietly s s'\<close>: only quiet acts were logged.\<close>

inductive quietly :: "'i lstate \<Rightarrow> 'i lstate \<Rightarrow> bool" where
  same: "quietly s s"
| act: "quietly s s' \<Longrightarrow> quiet a \<Longrightarrow> quietly s (log_act a s')"

lemma quietly_1 [simp, intro]: "quiet a \<Longrightarrow> quietly s (log_act a s)"
  by (rule quietly.act [OF quietly.same])

lemma quietly_trans: "quietly s s' \<Longrightarrow> quietly s' s'' \<Longrightarrow> quietly s s''"
  by (rotate_tac, induction rule: quietly.induct) (auto intro: quietly.act)

lemma quietly_keeps:
  "quietly s s' \<Longrightarrow> msgs s' = msgs s \<and> activeFilter s' = activeFilter s \<and> dc s' = dc s"
  by (induction rule: quietly.induct) auto

lemma classifyTerminal_quietly: "classifyTerminal E e s = (r, s') \<Longrightarrow> quietly s s'"
  by (auto simp: classifyTerminal_def total_err_log quietly.same split: option.splits if_splits prod.splits)

lemma classifyToolErr_quietly: "classifyToolErr E i out e s = (r, s') \<Longrightarrow> quietly s s'"
  by (auto simp: classifyToolErr_def total_err_log quietly.same split: option.splits if_splits prod.splits)

lemma drain_stream_quietly: "drain_stream E t cs d s = (r, s') \<Longrightarrow> quietly s s'"
proof (induction cs arbitrary: d s)
  case (Cons c cs)
  show ?case
  proof (cases "lc_Token c = []")
    case True
    with Cons show ?thesis by simp
  next
    case False
    obtain r1 s1 where e: "emit_ev E (EventText t (lc_Token c) (lc_Thinking c)) s = (r1, s1)" by (cases "emit_ev E (EventText t (lc_Token c) (lc_Thinking c)) s")
    then have q: "quietly s s1" by (auto simp: emit_ev_log)
    with Cons False e show ?thesis by (cases r1) (auto intro: quietly_trans)
  qed
qed (simp add: quietly.same)

lemma emit_calls_quietly:
  "emit_calls E t tus s = Inr s' \<Longrightarrow> quietly s s'"
  "emit_calls E t tus s = Inl (res, err, s') \<Longrightarrow> quietly s s' \<and> rs_Messages res = msgs s' \<and> rs_Turns res = t"
proof (induction tus arbitrary: s)
  case (Cons tu tus)
  {
    case 1
    then show ?case
      by (auto simp: emit_ev_log split: prod.splits option.splits dest!: Cons.IH(1) elim: quietly_trans [rotated])
  next
    case 2
    then show ?case
      by (auto simp: emit_ev_log stop_emit_def finalize_def quietly_keeps split: prod.splits option.splits
          dest!: Cons.IH(2) elim: quietly_trans [rotated])
  }
qed (simp_all add: quietly.same)

lemma stop_run_quietly:
  "stop_run E t fr code err s = (res, err', s') \<Longrightarrow> quietly s s' \<and> rs_Messages res = msgs s' \<and> rs_Turns res = t"
  by (auto simp: stop_run_def emit_ev_def finalize_def Let_def log_act_def [symmetric])

text \<open>How one tool can leave the state.\<close>

definition out_state :: "'i outcome + llm_tool_result \<times> bool \<times> 'i lstate \<Rightarrow> 'i lstate" where
  "out_state r = (case r of Inl (_, _, s) \<Rightarrow> s | Inr (_, _, s) \<Rightarrow> s)"

definition after_tool :: "int \<Rightarrow> string option \<Rightarrow> bool \<Rightarrow> tool_output \<Rightarrow> 'i lstate \<Rightarrow> 'i lstate" where
  "after_tool turn dKey cached out s =
     (let s2 = (if \<not> to_IsError out \<and> to_Filter out \<noteq> None then s\<lparr>activeFilter := normalizeFilter (to_Filter out)\<rparr> else s)
      in case dKey of
           Some k \<Rightarrow> if \<not> cached \<and> \<not> to_IsError out then s2\<lparr>dc := dedup_store k out turn (dc s2)\<rparr> else s2
         | None \<Rightarrow> s2)"

lemma classifyToolErr_None [simp]:
  "classifyToolErr E i out None s = (Inr (feedback i (to_Content out) (to_IsError out)), s)"
  by (simp add: classifyToolErr_def)

lemma tool_done_ok:
  "tool_done E turn tu dKey cached out None s =
     Inr (feedback (lu_ID tu) (to_Content out) (to_IsError out), cached, after_tool turn dKey cached out s)"
  by (cases dKey) (simp_all add: tool_done_def after_tool_def Let_def)

lemma tool_done_err:
  "quietly s (out_state (tool_done E turn tu dKey cached out (Some e) s))"
  by (auto simp: tool_done_def out_state_def Let_def dest: stop_run_quietly classifyToolErr_quietly
      intro: quietly_trans split: prod.splits sum.splits option.splits if_splits)

lemma run_tool_cases:
  obtains
    (denied) "scopeDenied (activeFilter s) (lu_Name tu)" "out_state (run_tool E reg turn tu s) = s"
  | (expired) "\<not> scopeDenied (activeFilter s) (lu_Name tu)" "quietly s (out_state (run_tool E reg turn tu s))"
  | (reused) dKey hit p where "\<not> scopeDenied (activeFilter s) (lu_Name tu)"
      "dedupResolve (e_digest E) (dc s) (the (Registry_Get reg (lu_Name tu))) tu turn = (dKey, Some hit)"
      "out_state (run_tool E reg turn tu s) = after_tool turn dKey True hit (log_act (Reused turn tu hit) (log_act (Polled p) s))"
  | (failed) dKey out e where "\<not> scopeDenied (activeFilter s) (lu_Name tu)"
      "dedupResolve (e_digest E) (dc s) (the (Registry_Get reg (lu_Name tu))) tu turn = (dKey, None)"
      "quietly (log_act (Executed turn tu out (Some e)) s) (out_state (run_tool E reg turn tu s))"
  | (executed) dKey out where "\<not> scopeDenied (activeFilter s) (lu_Name tu)"
      "dedupResolve (e_digest E) (dc s) (the (Registry_Get reg (lu_Name tu))) tu turn = (dKey, None)"
      "out_state (run_tool E reg turn tu s) = after_tool turn dKey False out (log_act (Executed turn tu out None) s)"
proof (cases "scopeDenied (activeFilter s) (lu_Name tu)")
  case True
  then show ?thesis by (intro denied) (simp_all add: run_tool_def out_state_def)
next
  case False
  let ?exec = "the (Registry_Get reg (lu_Name tu))"
  obtain dKey h where dr: "dedupResolve (e_digest E) (dc s) ?exec tu turn = (dKey, h)" by fastforce
  show ?thesis
  proof (cases h)
    case None
    obtain out ee where ex: "e_execute E (alog s) ?exec (lu_Input tu) = (out, ee)" by fastforce
    have r: "run_tool E reg turn tu s = tool_done E turn tu dKey False out ee (log_act (Executed turn tu out ee) s)"
      using False dr None ex by (simp add: run_tool_def Let_def log_act_def)
    show ?thesis
    proof (cases ee)
      case None': None
      show ?thesis
        using r None' by (intro executed [OF False dr [unfolded None]]) (simp add: tool_done_ok out_state_def)
    next
      case (Some e)
      show ?thesis
        using r Some tool_done_err by (intro failed [OF False dr [unfolded None]]) simp
    qed
  next
    case (Some hit)
    obtain p s1 where te: "total_err E s = (p, s1)" by fastforce
    then have s1: "s1 = log_act (Polled p) s" by (simp add: total_err_log)
    show ?thesis
    proof (cases p)
      case None
      have "run_tool E reg turn tu s =
          tool_done E turn tu dKey True hit None (log_act (Reused turn tu hit) (log_act (Polled p) s))"
        using False dr Some te None s1 by (simp add: run_tool_def Let_def log_act_def)
      then show ?thesis
        by (intro reused [OF False dr [unfolded Some]]) (simp add: tool_done_ok out_state_def)
    next
      case Some': (Some cerr)
      obtain x s2 where ct: "classifyTerminal E (Some cerr) s1 = (x, s2)" by fastforce
      obtain fr code ferr where x: "x = (fr, code, ferr)" by (cases x)
      obtain o1 s3 where sr: "stop_run E turn fr code ferr s2 = (o1, s3)" by (rule prod.exhaust)
      have "quietly s s2"
        using quietly_trans [OF _ classifyTerminal_quietly [OF ct]] s1 by simp
      moreover have "quietly s2 (snd s3)" using sr stop_run_quietly by (metis prod.collapse)
      ultimately have "quietly s (snd s3)" by (rule quietly_trans)
      then have "quietly s (out_state (run_tool E reg turn tu s))"
        using False dr Some te Some' ct x sr by (simp add: run_tool_def Let_def out_state_def split_beta)
      with False show ?thesis by (rule expired)
    qed
  qed
qed

lemma after_tool_keeps [simp]:
  "msgs (after_tool t k c out s) = msgs s" "alog (after_tool t k c out s) = alog s"
  "activeFilter (after_tool t k c out s) =
     (if \<not> to_IsError out \<and> to_Filter out \<noteq> None then normalizeFilter (to_Filter out) else activeFilter s)"
  "dc (after_tool t k c out s) =
     (if k \<noteq> None \<and> \<not> c \<and> \<not> to_IsError out then dedup_store (the k) out t (dc s) else dc s)"
  by (auto simp: after_tool_def Let_def split: option.splits)

lemma run_tool_result:
  "run_tool E reg turn tu s = Inl (res, err, s') \<Longrightarrow> rs_Messages res = msgs s' \<and> rs_Turns res = turn"
  by (auto simp: run_tool_def tool_done_def Let_def dest: stop_run_quietly split: if_splits prod.splits option.splits sum.splits)

lemma classifyToolErr_id: "classifyToolErr E i out e s = (Inr tr, s') \<Longrightarrow> lr_ToolUseID tr = i"
  by (auto simp: classifyToolErr_def feedback_def split: if_splits prod.splits)

lemma run_tool_id: "run_tool E reg turn tu s = Inr (tr, c, s') \<Longrightarrow> lr_ToolUseID tr = lu_ID tu"
  by (auto simp: run_tool_def tool_done_def Let_def feedback_def dest: classifyToolErr_id
      split: if_splits prod.splits option.splits sum.splits)

text \<open>
  An invariant of a run has two phases: \<open>P t\<close> holds before the provider is called in turn \<open>t\<close>, \<open>Q t\<close>
  from then on.  It is enough to check the acts that matter: the call, one tool, and the commit.
\<close>

locale loop_invariant =
  fixes E :: "'i env" and reg :: "'i tool_registry option" and req :: "'i request" and ts :: "'i tool_schema list"
    and P Q :: "int \<Rightarrow> 'i lstate \<Rightarrow> bool"
  assumes P_quiet: "P t s \<Longrightarrow> quiet a \<Longrightarrow> P t (log_act a s)"
    and Q_quiet: "Q t s \<Longrightarrow> quiet a \<Longrightarrow> Q t (log_act a s)"
    and call: "P t s \<Longrightarrow> provider_call E req ts s = (r, s') \<Longrightarrow> Q t s'"
    and tool: "Q t s \<Longrightarrow> Registry_Get reg (lu_Name tu) \<noteq> None \<Longrightarrow> Q t (out_state (run_tool E reg t tu s))"
    and commit: "Q t s \<Longrightarrow> tus \<noteq> [] \<Longrightarrow> map lr_ToolUseID results = map lu_ID tus \<Longrightarrow>
      P (t + 1) (s\<lparr>msgs := msgs s @ [assistant_turn txt tus] @ [user_turn results]\<rparr>)"
begin

lemma P_quietly: "quietly s s' \<Longrightarrow> P t s \<Longrightarrow> P t s'"
  by (induction rule: quietly.induct) (auto intro: P_quiet)

lemma Q_quietly: "quietly s s' \<Longrightarrow> Q t s \<Longrightarrow> Q t s'"
  by (induction rule: quietly.induct) (auto intro: Q_quiet)

lemma run_tools_Q:
  assumes "Q t s" and "\<forall>tu \<in> set tus. Registry_Get reg (lu_Name tu) \<noteq> None"
  shows "case run_tools E reg t tus results s of
           Inl (res, err, s') \<Rightarrow> Q t s' \<and> rs_Messages res = msgs s' \<and> rs_Turns res = t
         | Inr (results', s') \<Rightarrow> Q t s' \<and> map lr_ToolUseID results' = map lr_ToolUseID results @ map lu_ID tus"
  using assms
proof (induction tus arbitrary: results s)
  case (Cons tu tus)
  have inv: "Q t (out_state (run_tool E reg t tu s))"
    using Cons.prems by (intro tool) auto
  show ?case
  proof (cases "run_tool E reg t tu s")
    case (Inl o1)
    obtain res err s' where o1: "o1 = (res, err, s')" by (cases o1)
    with Inl inv run_tool_result [of E reg t tu s res err s'] show ?thesis
      by (simp add: out_state_def)
  next
    case (Inr x)
    obtain tr c s1 where x: "x = (tr, c, s1)" by (cases x)
    obtain r s2 where em: "emit_ev E (EventToolResult t tr c) s1 = (r, s2)" by fastforce
    then have s2: "s2 = log_act (Emitted (EventToolResult t tr c) r) s1" by (simp add: emit_ev_log)
    have Q2: "Q t s2" using inv Inr x s2 by (auto simp: out_state_def intro: Q_quiet)
    have i: "lr_ToolUseID tr = lu_ID tu" using Inr x by (auto dest: run_tool_id)
    show ?thesis
    proof (cases r)
      case None
      have "run_tools E reg t (tu # tus) results s = run_tools E reg t tus (results @ [tr]) s2"
        using Inr x em None by simp
      with Cons.IH [of s2 "results @ [tr]"] Cons.prems(2) Q2 i show ?thesis
        by (simp split: sum.splits prod.splits)
    next
      case (Some e)
      with Inr x em Q2 show ?thesis by (auto simp: stop_emit_def finalize_def split: prod.splits)
    qed
  qed
qed simp

lemma stop_run_Q: "Q t s \<Longrightarrow> stop_run E t fr code err s = (res, err', s') \<Longrightarrow> Q t s' \<and> rs_Messages res = msgs s' \<and> rs_Turns res = t"
  using stop_run_quietly Q_quietly by blast

definition turn_ok :: "int \<Rightarrow> 'i outcome + 'i lstate \<Rightarrow> bool" where
  "turn_ok t r = (case r of
      Inl (res, err, s') \<Rightarrow> (P t s' \<or> Q t s') \<and> rs_Messages res = msgs s' \<and> rs_Turns res = t
    | Inr s' \<Rightarrow> P (t + 1) s')"

lemma turn_ok_stop: "Q t s \<Longrightarrow> turn_ok t (Inl (stop_run E t fr code err s))"
  using stop_run_Q [of t s fr code err] by (cases "stop_run E t fr code err s") (auto simp: turn_ok_def)

lemma turn_ok_emit: "P t s \<or> Q t s \<Longrightarrow> turn_ok t (Inl (stop_emit t e s))"
  by (auto simp: turn_ok_def stop_emit_def finalize_def split: prod.splits)

lemma tool_use_turn_ok:
  assumes "Q t s"
  shows "turn_ok t (tool_use_turn E reg t txt tus s)"
proof (cases "tus = [] \<or> list_ex (\<lambda>tu. Registry_Get reg (lu_Name tu) = None) tus")
  case True
  then show ?thesis using assms by (auto simp: tool_use_turn_def intro: turn_ok_stop)
next
  case False
  then have known: "\<forall>tu \<in> set tus. Registry_Get reg (lu_Name tu) \<noteq> None" and ne: "tus \<noteq> []"
    by (auto simp: list_ex_iff)
  show ?thesis
  proof (cases "emit_calls E t tus s")
    case (Inl o1)
    obtain res err s' where "o1 = (res, err, s')" by (cases o1)
    with Inl assms False emit_calls_quietly(2) [of E t tus s res err s'] show ?thesis
      by (auto simp: tool_use_turn_def turn_ok_def intro: Q_quietly)
  next
    case (Inr s1)
    with assms have Q1: "Q t s1" by (auto dest: emit_calls_quietly(1) intro: Q_quietly)
    from run_tools_Q [OF Q1 known, of "[]"] Inr False ne show ?thesis
      by (auto simp: tool_use_turn_def turn_ok_def split: sum.splits prod.splits intro: commit [simplified])
  qed
qed

lemma finish_turn_ok: "Q t s \<Longrightarrow> turn_ok t (finish_turn E reg t fr ferr d s)"
  by (cases fr) (simp_all add: finish_turn_def turn_ok_stop tool_use_turn_ok)

lemma run_turn_ok:
  assumes "P t s"
  shows "turn_ok t (run_turn E reg req ts t s)"
proof -
  obtain r s1 where em: "emit_ev E (EventTurnStart t) s = (r, s1)" by fastforce
  then have P1: "P t s1" using assms by (auto simp: emit_ev_log intro: P_quiet)
  obtain a s2 where pc: "provider_call E req ts s1 = (a, s2)" by fastforce
  have Q2: "Q t s2" by (rule call [OF P1 pc])
  show ?thesis
  proof (cases r)
    case (Some e)
    with em P1 show ?thesis by (simp add: run_turn_def turn_ok_emit)
  next
    case None
    note step = em pc None
    show ?thesis
    proof (cases a)
      case (Inl perr)
      obtain fr code ferr s3 where ct: "classifyTerminal E (Some perr) s2 = ((fr, code, ferr), s3)"
        by (metis prod.exhaust)
      then have "Q t s3" using Q2 by (auto dest: classifyTerminal_quietly intro: Q_quietly)
      with step Inl ct show ?thesis by (simp add: run_turn_def turn_ok_stop)
    next
      case (Inr x)
      obtain cs serr where x: "x = (cs, serr)" by fastforce
      obtain dd s3 where dr: "drain_stream E t cs drained0 s2 = (dd, s3)" by fastforce
      have Q3: "Q t s3" using dr Q2 by (auto dest: drain_stream_quietly intro: Q_quietly)
      show ?thesis
      proof (cases dd)
        case (Inl e)
        with step Inr x dr Q3 show ?thesis by (simp add: run_turn_def turn_ok_emit)
      next
        case dd: (Inr d)
        obtain fr code ferr s4 where ct: "classifyTerminal E serr s3 = ((fr, code, ferr), s4)"
          by (metis prod.exhaust)
        then have "Q t s4" using Q3 by (auto dest: classifyTerminal_quietly intro: Q_quietly)
        with step Inr x dr dd ct Q3 show ?thesis
          by (simp add: run_turn_def finish_turn_ok)
      qed
    qed
  qed
qed

lemma run_loop_inv:
  assumes "P t s" and "run_loop E reg req ts n t s = (res, err, s')"
  shows "rs_Messages res = msgs s' \<and>
    (\<exists>t'. t \<le> t' \<and> (P t' s' \<and> t' \<le> t + int n \<and> rs_Turns res \<in> {t' - 1, t'} \<or> Q t' s' \<and> t' < t + int n \<and> rs_Turns res = t'))"
  using assms
proof (induction n arbitrary: t s)
  case 0
  with P_quietly stop_run_quietly [of E "t - 1"] show ?case by (simp, blast)
next
  case (Suc n)
  show ?case
  proof (cases "run_turn E reg req ts t s")
    case (Inl o1)
    with Suc.prems run_turn_ok [OF Suc.prems(1)] show ?thesis
      by (intro conjI exI [of _ t]) (auto simp: turn_ok_def)
  next
    case (Inr s1)
    with run_turn_ok [OF Suc.prems(1)] have "P (t + 1) s1" by (simp add: turn_ok_def)
    from Suc.IH [OF this] Suc.prems(2) Inr obtain t' where
      "rs_Messages res = msgs s'" "t + 1 \<le> t'"
      "P t' s' \<and> t' \<le> t + 1 + int n \<and> rs_Turns res \<in> {t' - 1, t'} \<or> Q t' s' \<and> t' < t + 1 + int n \<and> rs_Turns res = t'"
      by auto
    then show ?thesis by (intro conjI exI [of _ t']) auto
  qed
qed

end

subsection \<open>The transcript\<close>

fun use_ids :: "'i content_block list \<Rightarrow> string list" where
  "use_ids [] = []"
| "use_ids (BlockToolUse tu # bs) = lu_ID tu # use_ids bs"
| "use_ids (_ # bs) = use_ids bs"

fun result_ids :: "'i content_block list \<Rightarrow> string list" where
  "result_ids [] = []"
| "result_ids (BlockToolResult tr # bs) = lr_ToolUseID tr # result_ids bs"
| "result_ids (_ # bs) = result_ids bs"

definition paired :: "'i llm_message \<Rightarrow> 'i llm_message \<Rightarrow> bool" where
  "paired a u \<longleftrightarrow> Role a = RoleAssistant \<and> Role u = RoleUser \<and> use_ids (Content a) \<noteq> [] \<and>
     result_ids (Content u) = use_ids (Content a) \<and> length (Content u) = length (result_ids (Content u))"

fun all_paired :: "'i llm_message list \<Rightarrow> bool" where
  "all_paired [] = True"
| "all_paired [a] = False"
| "all_paired (a # u # ms) = (paired a u \<and> all_paired ms)"

text \<open>\<open>ms\<close> is the initial transcript followed by answered tool turns.\<close>

definition extends_by_pairs :: "'i llm_message list \<Rightarrow> 'i llm_message list \<Rightarrow> bool" where
  "extends_by_pairs ms0 ms \<longleftrightarrow> take (length ms0) ms = ms0 \<and> all_paired (drop (length ms0) ms)"

lemma use_ids_assistant [simp]: "use_ids (Content (assistant_turn txt tus)) = map lu_ID tus"
  by (induction tus) (auto simp: assistant_turn_def NewToolUseBlock_def split: if_splits)

lemma result_ids_user [simp]: "result_ids (Content (user_turn rs)) = map lr_ToolUseID rs"
  by (induction rs) (auto simp: user_turn_def NewToolResultBlock_def)

lemma paired_turns:
  "tus \<noteq> [] \<Longrightarrow> map lr_ToolUseID rs = map lu_ID tus \<Longrightarrow> paired (assistant_turn txt tus) (user_turn rs)"
  by (simp add: paired_def) (auto simp: assistant_turn_def user_turn_def dest: map_eq_imp_length_eq)

lemma all_paired_snoc: "all_paired ms \<Longrightarrow> paired a u \<Longrightarrow> all_paired (ms @ [a, u])"
  by (induction ms rule: all_paired.induct) auto

lemma extends_by_pairs_refl [simp]: "extends_by_pairs ms ms"
  by (simp add: extends_by_pairs_def)

lemma extends_by_pairs_snoc:
  assumes "extends_by_pairs ms0 ms" and "paired a u"
  shows "extends_by_pairs ms0 (ms @ [a, u])"
proof -
  have "length ms0 \<le> length ms"
    using assms(1) by (metis extends_by_pairs_def length_take min.cobounded2 nat_le_linear min.absorb1)
  with assms show ?thesis by (auto simp: extends_by_pairs_def intro: all_paired_snoc)
qed

definition sent_ok :: "'i request \<Rightarrow> 'i lstate \<Rightarrow> bool" where
  "sent_ok req s \<longleftrightarrow> extends_by_pairs (rq_Messages req) (msgs s) \<and>
     (\<forall>a \<in> set (alog s). case a of Streamed rq _ \<Rightarrow> extends_by_pairs (rq_Messages req) (rq_Messages rq) | _ \<Rightarrow> True)"

lemma sent_ok_act [simp]:
  "sent_ok req (log_act a s) \<longleftrightarrow>
     sent_ok req s \<and> (case a of Streamed rq _ \<Rightarrow> extends_by_pairs (rq_Messages req) (rq_Messages rq) | _ \<Rightarrow> True)"
  by (auto simp: sent_ok_def)

lemma sent_ok_quiet: "quiet a \<Longrightarrow> sent_ok req (log_act a s) \<longleftrightarrow> sent_ok req s"
  by (cases a) auto

lemma sent_ok_quietly: "quietly s s' \<Longrightarrow> sent_ok req s \<Longrightarrow> sent_ok req s'"
  by (induction rule: quietly.induct) (simp_all only: sent_ok_quiet)

lemma sent_ok_cong: "msgs s = msgs s' \<Longrightarrow> alog s = alog s' \<Longrightarrow> sent_ok req s = sent_ok req s'"
  by (simp add: sent_ok_def)

lemma sent_ok_after_tool: "sent_ok req (after_tool t k c out s) = sent_ok req s"
  by (rule sent_ok_cong) simp_all

lemma sent_ok_tool: "sent_ok req s \<Longrightarrow> sent_ok req (out_state (run_tool E reg t tu s))"
  by (cases rule: run_tool_cases [of s tu E reg t])
     (auto simp only: sent_ok_after_tool sent_ok_act act.case intro: sent_ok_quietly)

lemma provider_call_log:
  "provider_call E req ts s = (r, s') \<longleftrightarrow>
     r = e_stream E (alog s) (req\<lparr>rq_Messages := msgs s, rq_Tools := applyFilter ts (activeFilter s)\<rparr>) \<and>
     s' = log_act (Streamed (req\<lparr>rq_Messages := msgs s, rq_Tools := applyFilter ts (activeFilter s)\<rparr>) r) s"
  by (auto simp: provider_call_def Let_def log_act_def)

interpretation transcript: loop_invariant E reg req ts "\<lambda>_. sent_ok req" "\<lambda>_. sent_ok req"
proof unfold_locales
  fix s :: "'a lstate" and a :: "'a act"
  assume "sent_ok req s" "quiet a"
  then show "sent_ok req (log_act a s)" by (simp only: sent_ok_quiet)
next
  fix r and s s' :: "'a lstate" assume "sent_ok req s" and "provider_call E req ts s = (r, s')"
  then show "sent_ok req s'" by (simp add: provider_call_log) (simp add: sent_ok_def)
next
  fix t and s :: "'a lstate" and tu :: "'a llm_tool_use" assume "sent_ok req s"
  then show "sent_ok req (out_state (run_tool E reg t tu s))" by (rule sent_ok_tool)
next
  fix s :: "'a lstate" and tus :: "'a llm_tool_use list" and results :: "llm_tool_result list" and said
  assume "sent_ok req s" "tus \<noteq> []" "map lr_ToolUseID results = map lu_ID tus"
  then show "sent_ok req (s\<lparr>msgs := msgs s @ [assistant_turn said tus] @ [user_turn results]\<rparr>)"
    using extends_by_pairs_snoc [OF _ paired_turns] by (auto simp: sent_ok_def)
qed

subsection \<open>The turn budget\<close>

definition provider_calls :: "'i act list \<Rightarrow> int" where
  "provider_calls lg = int (length (filter (\<lambda>a. case a of Streamed _ _ \<Rightarrow> True | _ \<Rightarrow> False) lg))"

lemma provider_calls_simps [simp]:
  "provider_calls [] = 0" "provider_calls (xs @ ys) = provider_calls xs + provider_calls ys"
  "provider_calls (a # as) = (case a of Streamed _ _ \<Rightarrow> 1 | _ \<Rightarrow> 0) + provider_calls as"
  by (simp_all add: provider_calls_def split: act.split)

lemma provider_calls_quiet: "quiet a \<Longrightarrow> provider_calls (alog (log_act a s)) = provider_calls (alog s)"
  by (cases a) simp_all

lemma provider_calls_quietly: "quietly s s' \<Longrightarrow> provider_calls (alog s') = provider_calls (alog s)"
  by (induction rule: quietly.induct) (simp_all only: provider_calls_quiet)

lemma provider_calls_tool: "provider_calls (alog (out_state (run_tool E reg t tu s))) = provider_calls (alog s)"
  by (cases rule: run_tool_cases [of s tu E reg t]) (auto dest!: provider_calls_quietly)

interpretation budget: loop_invariant E reg req ts "\<lambda>t s. provider_calls (alog s) = t - 1" "\<lambda>t s. provider_calls (alog s) = t"
proof unfold_locales
  fix t and s :: "'a lstate" and a :: "'a act"
  assume "quiet a"
  then show "provider_calls (alog s) = t - 1 \<Longrightarrow> provider_calls (alog (log_act a s)) = t - 1"
    and "provider_calls (alog s) = t \<Longrightarrow> provider_calls (alog (log_act a s)) = t"
    by (simp_all only: provider_calls_quiet)
next
  fix t r and s s' :: "'a lstate" assume "provider_calls (alog s) = t - 1" and "provider_call E req ts s = (r, s')"
  then show "provider_calls (alog s') = t" by (simp add: provider_call_log)
next
  fix t and s :: "'a lstate" and tu :: "'a llm_tool_use" assume "provider_calls (alog s) = t"
  then show "provider_calls (alog (out_state (run_tool E reg t tu s))) = t" by (simp only: provider_calls_tool)
qed simp

end
