(* ===== verification/DiagRun.thy ===== *)
theory DiagRun
  imports DiagLoop
begin

text \<open>
  What a whole run of the diagnose loop promises: the scope is enforced, a cached call is not repeated
  inside the window, the run ends the way it reports, and the transcript stays paired.
\<close>

subsection \<open>The scope in force\<close>

text \<open>Read off the log: a successful output with a filter, fresh or reused, replaces the scope.\<close>

definition scope_step :: "'i act \<Rightarrow> string list option \<Rightarrow> string list option" where
  "scope_step a flt =
     (case a of
        Executed _ _ out None \<Rightarrow> if \<not> to_IsError out \<and> to_Filter out \<noteq> None then normalizeFilter (to_Filter out) else flt
      | Reused _ _ out \<Rightarrow> if \<not> to_IsError out \<and> to_Filter out \<noteq> None then normalizeFilter (to_Filter out) else flt
      | _ \<Rightarrow> flt)"

definition scope_at :: "'i act list \<Rightarrow> string list option" where
  "scope_at lg = fold scope_step lg None"

definition act_in_scope ::
    "'i tool_registry option \<Rightarrow> 'i tool_schema list \<Rightarrow> string list option \<Rightarrow> 'i act \<Rightarrow> bool" where
  "act_in_scope reg ts flt a =
     (case a of
        Executed _ tu _ _ \<Rightarrow> \<not> scopeDenied flt (lu_Name tu) \<and> Registry_Get reg (lu_Name tu) \<noteq> None
      | Reused _ tu _ \<Rightarrow> \<not> scopeDenied flt (lu_Name tu)
      | Streamed rq _ \<Rightarrow> rq_Tools rq = applyFilter ts flt
      | _ \<Rightarrow> True)"

fun log_in_scope ::
    "'i tool_registry option \<Rightarrow> 'i tool_schema list \<Rightarrow> string list option \<Rightarrow> 'i act list \<Rightarrow> bool" where
  "log_in_scope reg ts flt [] = True"
| "log_in_scope reg ts flt (a # as) = (act_in_scope reg ts flt a \<and> log_in_scope reg ts (scope_step a flt) as)"

lemma log_in_scope_append:
  "log_in_scope reg ts flt (xs @ ys) \<longleftrightarrow> log_in_scope reg ts flt xs \<and> log_in_scope reg ts (fold scope_step xs flt) ys"
  by (induction xs arbitrary: flt) auto

lemma scope_step_quiet: "quiet a \<Longrightarrow> scope_step a flt = flt \<and> act_in_scope reg ts flt a"
  by (cases a) (simp_all add: scope_step_def act_in_scope_def)

definition scope_inv :: "'i tool_registry option \<Rightarrow> 'i tool_schema list \<Rightarrow> 'i lstate \<Rightarrow> bool" where
  "scope_inv reg ts s \<longleftrightarrow> activeFilter s = scope_at (alog s) \<and> log_in_scope reg ts None (alog s)"

lemma scope_inv_act:
  "scope_inv reg ts s \<Longrightarrow> act_in_scope reg ts (activeFilter s) a \<Longrightarrow> scope_step a (activeFilter s) = activeFilter s \<Longrightarrow>
   scope_inv reg ts (log_act a s)"
  by (simp add: scope_inv_def scope_at_def log_in_scope_append)

lemma scope_inv_quietly: "quietly s s' \<Longrightarrow> scope_inv reg ts s \<Longrightarrow> scope_inv reg ts s'"
  by (induction rule: quietly.induct) (auto intro!: scope_inv_act simp: scope_step_quiet)

text \<open>The acts of a tool that went through, with what \<open>after_tool\<close> makes of the filter.\<close>

lemma scope_inv_after_tool:
  assumes "scope_inv reg ts s" and "act_in_scope reg ts (activeFilter s) a"
    and "a = Executed t tu out None \<or> a = Reused t tu out"
  shows "scope_inv reg ts (after_tool t k c out (log_act a s))"
  using assms by (auto simp: scope_inv_def scope_at_def scope_step_def log_in_scope_append)

lemma scope_inv_tool:
  assumes inv: "scope_inv reg ts s" and known: "Registry_Get reg (lu_Name tu) \<noteq> None"
  shows "scope_inv reg ts (out_state (run_tool E reg t tu s))"
proof (cases rule: run_tool_cases [of s tu E reg t])
  case denied
  with inv show ?thesis by simp
next
  case expired
  with inv show ?thesis by (auto intro: scope_inv_quietly)
next
  case (reused dKey hit p)
  have "scope_inv reg ts (log_act (Polled p) s)"
    by (rule scope_inv_quietly [OF quietly_1 inv]) simp
  then have "scope_inv reg ts (after_tool t dKey True hit (log_act (Reused t tu hit) (log_act (Polled p) s)))"
    using reused(1) by (intro scope_inv_after_tool [where tu = tu]) (simp_all add: act_in_scope_def)
  with reused(3) show ?thesis by simp
next
  case (failed dKey out e)
  have "scope_inv reg ts (log_act (Executed t tu out (Some e)) s)"
    using inv failed(1) known by (intro scope_inv_act) (auto simp: act_in_scope_def scope_step_def)
  with failed show ?thesis by (auto intro: scope_inv_quietly)
next
  case (executed dKey out)
  with inv known show ?thesis
    by (auto intro!: scope_inv_after_tool simp: act_in_scope_def)
qed

interpretation scope: loop_invariant E reg req ts "\<lambda>_. scope_inv reg ts" "\<lambda>_. scope_inv reg ts"
proof unfold_locales
  fix s :: "'a lstate" and a :: "'a act"
  assume "scope_inv reg ts s" "quiet a"
  then show "scope_inv reg ts (log_act a s)" by (auto intro: scope_inv_quietly)
next
  fix r and s s' :: "'a lstate" assume "scope_inv reg ts s" and "provider_call E req ts s = (r, s')"
  then show "scope_inv reg ts s'"
    by (auto simp: provider_call_log act_in_scope_def scope_step_def intro!: scope_inv_act)
next
  fix t and s :: "'a lstate" and tu :: "'a llm_tool_use"
  assume "scope_inv reg ts s" "Registry_Get reg (lu_Name tu) \<noteq> None"
  then show "scope_inv reg ts (out_state (run_tool E reg t tu s))" by (rule scope_inv_tool)
qed (simp add: scope_inv_def)

subsection \<open>No repeated call inside the window\<close>

text \<open>The cache key of a call, when its tool may be cached.\<close>

definition call_key :: "'i env \<Rightarrow> 'i tool_registry option \<Rightarrow> 'i llm_tool_use \<Rightarrow> string option" where
  "call_key E reg tu =
     (if ex_Cacheable (the (Registry_Get reg (lu_Name tu))) = Some False then None
      else dedupKey (e_digest E) (lu_Name tu) (lu_Input tu))"

definition any_call :: "'i env \<Rightarrow> 'i tool_registry option \<Rightarrow> 'i act \<Rightarrow> (int \<times> string) option" where
  "any_call E reg a = (case a of Executed t tu _ _ \<Rightarrow> map_option (Pair t) (call_key E reg tu) | _ \<Rightarrow> None)"

definition good_call :: "'i env \<Rightarrow> 'i tool_registry option \<Rightarrow> 'i act \<Rightarrow> (int \<times> string) option" where
  "good_call E reg a =
     (case a of
        Executed t tu out None \<Rightarrow> if to_IsError out then None else map_option (Pair t) (call_key E reg tu)
      | _ \<Rightarrow> None)"

definition spaced :: "'i env \<Rightarrow> 'i tool_registry option \<Rightarrow> int \<Rightarrow> 'i act \<Rightarrow> 'i act \<Rightarrow> bool" where
  "spaced E reg w a b =
     (case (good_call E reg a, any_call E reg b) of
        (Some (t1, k1), Some (t2, k2)) \<Rightarrow> k1 = k2 \<longrightarrow> w \<le> t2 - t1
      | _ \<Rightarrow> True)"

text \<open>A successful call is still found for as long as it is younger than the window.\<close>

definition remembered ::
    "'i env \<Rightarrow> 'i tool_registry option \<Rightarrow> int \<Rightarrow> int \<Rightarrow> dedup_cache \<Rightarrow> 'i act \<Rightarrow> bool" where
  "remembered E reg w t c a \<longleftrightarrow>
     (\<forall>t1 k. good_call E reg a = Some (t1, k) \<longrightarrow> t1 \<le> t \<and> (\<forall>t'. t' - t1 < w \<longrightarrow> dedup_lookup k t' c \<noteq> None))"

definition dedup_inv :: "'i env \<Rightarrow> 'i tool_registry option \<Rightarrow> int \<Rightarrow> int \<Rightarrow> 'i lstate \<Rightarrow> bool" where
  "dedup_inv E reg w t s \<longleftrightarrow> dc_enabled (dc s) \<and> dc_window (dc s) = w \<and> sorted_wrt (spaced E reg w) (alog s) \<and>
     (\<forall>a \<in> set (alog s). remembered E reg w t (dc s) a)"

lemma no_call:
  assumes "any_call E reg a = None"
  shows "good_call E reg a = None"
  using assms by (cases a) (auto simp: any_call_def good_call_def split: option.splits)

lemma dedup_inv_other:
  "dedup_inv E reg w t s \<Longrightarrow> any_call E reg a = None \<Longrightarrow> dedup_inv E reg w t (log_act a s)"
  by (auto simp: dedup_inv_def no_call remembered_def sorted_wrt_append spaced_def split: option.splits)

lemma quiet_no_call: "quiet a \<Longrightarrow> any_call E reg a = None"
  by (cases a) (simp_all add: any_call_def)

lemma dedup_inv_quietly: "quietly s s' \<Longrightarrow> dedup_inv E reg w t s \<Longrightarrow> dedup_inv E reg w t s'"
  by (induction rule: quietly.induct) (auto intro: dedup_inv_other quiet_no_call)

lemma dedup_inv_later: "dedup_inv E reg w t s \<Longrightarrow> t \<le> u \<Longrightarrow> dedup_inv E reg w u s"
  by (fastforce simp: dedup_inv_def remembered_def)

lemma dedup_inv_cong:
  "dc s = dc s' \<Longrightarrow> alog s = alog s' \<Longrightarrow> dedup_inv E reg w t s = dedup_inv E reg w t s'"
  by (simp only: dedup_inv_def)

lemma miss_spaced:
  assumes inv: "dedup_inv E reg w t s" and a: "a \<in> set (alog s)" and b: "any_call E reg b = Some (t, k)"
    and miss: "dedup_lookup k t (dc s) = None"
  shows "spaced E reg w a b"
proof (cases "good_call E reg a")
  case (Some p)
  obtain t1 k1 where p: "p = (t1, k1)" by (cases p)
  with inv a Some have "\<forall>t'. t' - t1 < w \<longrightarrow> dedup_lookup k1 t' (dc s) \<noteq> None"
    by (auto simp: dedup_inv_def remembered_def)
  with miss have "k1 = k \<Longrightarrow> w \<le> t - t1" by (metis linorder_not_less)
  with Some p b show ?thesis by (simp add: spaced_def)
qed (simp add: spaced_def)

lemma resolve_key:
  assumes "dedupResolve (e_digest E) c (the (Registry_Get reg (lu_Name tu))) tu t = (dKey, h)" and "dc_enabled c"
  shows "dKey = call_key E reg tu \<and> h = (case dKey of None \<Rightarrow> None | Some k \<Rightarrow> dedup_lookup k t c)"
  using assms by (auto simp: dedupResolve_def cacheable_def call_key_def split: if_splits option.splits)

lemma dedup_inv_executed:
  assumes inv: "dedup_inv E reg w t s"
    and res: "dedupResolve (e_digest E) (dc s) (the (Registry_Get reg (lu_Name tu))) tu t = (dKey, None)"
  shows "sorted_wrt (spaced E reg w) (alog s @ [Executed t tu out ee])"
proof -
  have "dc_enabled (dc s)" using inv by (simp add: dedup_inv_def)
  note key = resolve_key [OF res this]
  have "spaced E reg w a (Executed t tu out ee)" if "a \<in> set (alog s)" for a
  proof (cases dKey)
    case None
    with key have "any_call E reg (Executed t tu out ee) = None" by (simp add: any_call_def)
    then show ?thesis by (simp add: spaced_def split: option.splits)
  next
    case (Some k)
    with key have "any_call E reg (Executed t tu out ee) = Some (t, k)" "dedup_lookup k t (dc s) = None"
      by (simp_all add: any_call_def)
    with inv that show ?thesis by (intro miss_spaced)
  qed
  with inv show ?thesis by (simp add: dedup_inv_def sorted_wrt_append)
qed

lemma dedup_inv_tool:
  assumes inv: "dedup_inv E reg w t s"
  shows "dedup_inv E reg w t (out_state (run_tool E reg t tu s))"
proof (cases rule: run_tool_cases [of s tu E reg t])
  case denied
  with inv show ?thesis by simp
next
  case expired
  with inv show ?thesis by (auto intro: dedup_inv_quietly)
next
  case (reused dKey hit p)
  have "dedup_inv E reg w t (log_act (Reused t tu hit) (log_act (Polled p) s))"
    using inv by (intro dedup_inv_other) (simp_all add: any_call_def)
  then show ?thesis
    unfolding reused(3) by (subst dedup_inv_cong) auto
next
  case (failed dKey out e)
  have "dedup_inv E reg w t (log_act (Executed t tu out (Some e)) s)"
    using dedup_inv_executed [OF inv failed(2)] inv by (auto simp: dedup_inv_def remembered_def good_call_def)
  with failed show ?thesis by (auto intro: dedup_inv_quietly)
next
  case (executed dKey out)
  have en: "dc_enabled (dc s)" using inv by (simp add: dedup_inv_def)
  note key = resolve_key [OF executed(2) en]
  let ?a = "Executed t tu out None"
  show ?thesis
  proof (cases "to_IsError out \<or> dKey = None")
    case True
    then have "good_call E reg ?a = None" using key by (auto simp: good_call_def)
    with True executed inv dedup_inv_executed [OF inv executed(2)] show ?thesis
      by (auto simp: dedup_inv_def remembered_def)
  next
    case False
    then obtain k where k: "dKey = Some k" and ok: "\<not> to_IsError out" by auto
    have g: "good_call E reg ?a = Some (t, k)" using key k ok by (simp add: good_call_def)
    let ?c = "dedup_store k out t (dc s)"
    have w: "dc_window (dc s) = w" using inv by (simp add: dedup_inv_def)
    have find: "dedup_lookup k' t' ?c = (if k' = k then (if t' - t < w then Some out else None) else dedup_lookup k' t' (dc s))"
      for k' t' using dedup.find_put [OF en ok] w by simp
    have "remembered E reg w t ?c a"
      if "a \<in> set (alog s)" for a
      using inv that by (fastforce simp: dedup_inv_def remembered_def find)
    moreover have "remembered E reg w t ?c ?a" using g by (simp add: remembered_def find)
    ultimately show ?thesis
      using executed k ok inv dedup_inv_executed [OF inv executed(2)]
      by (simp add: dedup_inv_def dedup.window_put dedup.live_put)
  qed
qed

interpretation window: loop_invariant E reg req ts "dedup_inv E reg w" "dedup_inv E reg w"
proof unfold_locales
  fix t and s :: "'a lstate" and a :: "'a act"
  assume "dedup_inv E reg w t s" "quiet a"
  then show "dedup_inv E reg w t (log_act a s)" by (auto intro: dedup_inv_quietly)
next
  fix t r and s s' :: "'a lstate" assume "dedup_inv E reg w t s" and "provider_call E req ts s = (r, s')"
  then show "dedup_inv E reg w t s'" by (auto simp: provider_call_log any_call_def intro!: dedup_inv_other)
next
  fix t and s :: "'a lstate" and tu :: "'a llm_tool_use"
  assume "dedup_inv E reg w t s"
  then show "dedup_inv E reg w t (out_state (run_tool E reg t tu s))" by (rule dedup_inv_tool)
next
  fix t and s :: "'a lstate" and tus :: "'a llm_tool_use list" and results :: "llm_tool_result list" and said
  assume "dedup_inv E reg w t s"
  then have "dedup_inv E reg w (t + 1) s" by (rule dedup_inv_later) simp
  then show "dedup_inv E reg w (t + 1) (s\<lparr>msgs := msgs s @ [assistant_turn said tus] @ [user_turn results]\<rparr>)"
    by (subst dedup_inv_cong [of _ s]) simp_all
qed

subsection \<open>How a run ends\<close>

definition natural :: "finish_reason \<Rightarrow> bool" where
  "natural f \<longleftrightarrow> f = FinishStop \<or> f = FinishStopSequence \<or> f = FinishLength"

text \<open>The consumer was told the outcome by the last act, or its own error ended the run.\<close>

definition reported :: "'i outcome \<Rightarrow> bool" where
  "reported oc =
     (case oc of (res, err, s) \<Rightarrow>
        alog s \<noteq> [] \<and>
        (case last (alog s) of
           Emitted (EventFinish t fr code err') _ \<Rightarrow>
             t = rs_Turns res \<and> fr = rs_FinishReason res \<and> code = rs_TermCode res \<and> err' = err
         | Emitted _ (Some e) \<Rightarrow> err = Some e \<and> rs_FinishReason res = fst (classifyEmitErr e) \<and> rs_TermCode res = []
         | _ \<Rightarrow> False))"

definition ended :: "'i outcome \<Rightarrow> bool" where
  "ended oc \<longleftrightarrow> reported oc \<and> (natural (rs_FinishReason (fst oc)) \<longleftrightarrow> fst (snd oc) = None)"

lemma natural_simps [simp]:
  "natural FinishStop" "natural FinishStopSequence" "natural FinishLength" "\<not> natural FinishUnset" "\<not> natural FinishToolUse"
  "\<not> natural FinishPause" "\<not> natural FinishRefusal" "\<not> natural FinishCancelled" "\<not> natural FinishError"
  by (simp_all add: natural_def)

lemma stop_run_ended: "(natural fr \<longleftrightarrow> err = None) \<Longrightarrow> ended (stop_run E t fr code err s)"
  by (simp add: stop_run_def emit_ev_def ended_def reported_def finalize_def Let_def)

lemma stop_emit_ended:
  assumes "emit_ev E ev s0 = (Some e, s)" and "\<forall>t fr c e'. ev \<noteq> EventFinish t fr c e'"
  shows "ended (stop_emit t e s)"
proof -
  have s: "s = log_act (Emitted ev (Some e)) s0" using assms(1) by (simp add: emit_ev_log)
  show ?thesis
  proof (cases ev)
    case (EventFinish t fr c e')
    with assms(2) show ?thesis by blast
  qed (simp_all add: s stop_emit_def ended_def reported_def finalize_def classifyEmitErr_def)
qed

lemma classifyTerminal_bad:
  "classifyTerminal E (Some e) s = ((fr, code, ferr), s') \<Longrightarrow> ferr \<noteq> None \<and> (fr = FinishCancelled \<or> fr = FinishError)"
  by (auto simp: classifyTerminal_def split: if_splits prod.splits)

lemma classifyToolErr_bad:
  "classifyToolErr E i out e s = (Inl (fr, code, ferr), s') \<Longrightarrow> ferr \<noteq> None \<and> (fr = FinishCancelled \<or> fr = FinishError)"
  by (cases e) (auto simp: classifyToolErr_def split: if_splits prod.splits)

lemma stop_run_bad:
  "ferr \<noteq> None \<and> (fr = FinishCancelled \<or> fr = FinishError) \<Longrightarrow> ended (stop_run E t fr code ferr s)"
  by (rule stop_run_ended) auto

lemma tool_done_ended: "tool_done E t tu k c out ee s = Inl oc \<Longrightarrow> ended oc"
  by (auto simp: tool_done_def Let_def dest!: classifyToolErr_bad intro!: stop_run_bad split: prod.splits sum.splits)

lemma run_tool_ended: "run_tool E reg t tu s = Inl oc \<Longrightarrow> ended oc"
  by (auto simp: run_tool_def Let_def dest!: classifyTerminal_bad dest: tool_done_ended intro!: stop_run_bad
      split: if_splits prod.splits option.splits)

lemma emit_calls_ended: "emit_calls E t tus s = Inl oc \<Longrightarrow> ended oc"
  by (induction tus arbitrary: s) (auto split: prod.splits option.splits intro: stop_emit_ended)

lemma run_tools_ended: "run_tools E reg t tus rs s = Inl oc \<Longrightarrow> ended oc"
proof (induction tus arbitrary: rs s)
  case (Cons tu tus)
  then show ?case
    by (auto split: sum.splits prod.splits option.splits intro: stop_emit_ended dest: run_tool_ended)
qed simp

lemma tool_use_turn_ended: "tool_use_turn E reg t txt tus s = Inl oc \<Longrightarrow> ended oc"
  by (auto simp: tool_use_turn_def split: if_splits sum.splits dest: emit_calls_ended run_tools_ended intro!: stop_run_ended)

lemma finish_turn_ended:
  assumes "finish_turn E reg t fr ferr d s = Inl oc" and "fr = FinishCancelled \<or> fr = FinishError \<Longrightarrow> ferr \<noteq> None"
  shows "ended oc"
  using assms by (cases fr) (auto simp: finish_turn_def intro!: stop_run_ended dest: tool_use_turn_ended)

text \<open>The documented behaviour of a provider: a failed or cancelled stream says why.\<close>

definition says_why :: "'i llm_chunk \<Rightarrow> bool" where
  "says_why c \<longleftrightarrow> (lc_FinishReason c = FinishCancelled \<or> lc_FinishReason c = FinishError \<longrightarrow> lc_Err c \<noteq> None)"

definition drained_ok :: "'i drained \<Rightarrow> bool" where
  "drained_ok d \<longleftrightarrow> (dr_finish d = FinishCancelled \<or> dr_finish d = FinishError \<longrightarrow> dr_finishErr d \<noteq> None)"

lemma note_finish_ok: "says_why c \<Longrightarrow> drained_ok d \<Longrightarrow> drained_ok (note_finish c d)"
  by (auto simp: says_why_def drained_ok_def note_finish_def)

lemma drained_ok_text: "drained_ok (d\<lparr>dr_text := x\<rparr>) = drained_ok d"
  by (simp add: drained_ok_def)

lemma drain_stream_ok:
  assumes "drain_stream E t cs d s = (r, s')" and "list_all says_why cs" and "drained_ok d"
  shows "case r of Inr d' \<Rightarrow> drained_ok d' | Inl e \<Rightarrow> ended (stop_emit t' e s')"
  using assms
proof (induction cs arbitrary: d s)
  case (Cons c cs)
  show ?case
  proof (cases "lc_Token c = []")
    case True
    with Cons.prems show ?thesis
      by (intro Cons.IH [of "note_finish c d" s]) (auto intro: note_finish_ok)
  next
    case False
    obtain r1 s1 where e: "emit_ev E (EventText t (lc_Token c) (lc_Thinking c)) s = (r1, s1)" by fastforce
    show ?thesis
    proof (cases r1)
      case None
      let ?d = "note_finish c (if lc_Thinking c then d else d\<lparr>dr_text := dr_text d @ lc_Token c\<rparr>)"
      have "drain_stream E t cs ?d s1 = (r, s')" using Cons.prems(1) False e None by simp
      moreover have "drained_ok ?d"
        using Cons.prems by (auto intro!: note_finish_ok simp: drained_ok_text)
      ultimately show ?thesis using Cons.prems(2) by (intro Cons.IH) auto
    next
      case (Some x)
      with Cons.prems(1) False e show ?thesis by (auto intro: stop_emit_ended)
    qed
  qed
qed auto

lemma run_turn_ended:
  assumes prov: "\<And>lg rq cs err. e_stream E lg rq = Inr (cs, err) \<Longrightarrow> list_all says_why cs"
    and turn: "run_turn E reg req ts t s = Inl oc"
  shows "ended oc"
proof -
  obtain r s1 where em: "emit_ev E (EventTurnStart t) s = (r, s1)" by fastforce
  obtain a s2 where pc: "provider_call E req ts s1 = (a, s2)" by fastforce
  show ?thesis
  proof (cases r)
    case (Some e)
    with turn em show ?thesis by (auto simp: run_turn_def intro: stop_emit_ended)
  next
    case None
    show ?thesis
    proof (cases a)
      case (Inl perr)
      with turn em pc None show ?thesis
        by (auto simp: run_turn_def dest!: classifyTerminal_bad intro: stop_run_bad split: prod.splits)
    next
      case (Inr x)
      obtain cs serr where x: "x = (cs, serr)" by fastforce
      obtain dd s3 where dr: "drain_stream E t cs drained0 s2 = (dd, s3)" by fastforce
      have "list_all says_why cs" using pc Inr x by (auto simp: provider_call_log intro: prov [OF sym])
      from drain_stream_ok [OF dr this] have ok: "case dd of Inr d' \<Rightarrow> drained_ok d' | Inl e \<Rightarrow> ended (stop_emit t e s3)"
        by (simp add: drained_ok_def drained0_def)
      show ?thesis
      proof (cases dd)
        case (Inl e)
        with turn em pc None Inr x dr ok show ?thesis by (auto simp: run_turn_def)
      next
        case dd: (Inr d)
        obtain fr code ferr s4 where ct: "classifyTerminal E serr s3 = ((fr, code, ferr), s4)"
          by (metis prod.exhaust)
        with turn em pc None Inr x dr dd ok show ?thesis
          by (auto simp: run_turn_def drained_ok_def split: if_splits dest!: classifyTerminal_bad intro: finish_turn_ended)
      qed
    qed
  qed
qed

lemma run_loop_ended:
  assumes "\<And>lg rq cs err. e_stream E lg rq = Inr (cs, err) \<Longrightarrow> list_all says_why cs"
  shows "ended (run_loop E reg req ts n t s)"
proof (induction n arbitrary: t s)
  case 0
  then show ?case by (simp add: stop_run_ended)
next
  case (Suc n)
  show ?case
  proof (cases "run_turn E reg req ts t s")
    case (Inl oc)
    with run_turn_ended [of E] assms have "ended oc" by blast
    with Inl show ?thesis by simp
  next
    case (Inr s1)
    with Suc show ?thesis by simp
  qed
qed

subsection \<open>The contract of a run\<close>

text \<open>A small run for the examples: a model that calls \<open>echo\<close> twice in each of its first two turns.\<close>

definition demo_call :: "string \<Rightarrow> string llm_tool_use" where
  "demo_call i = \<lparr>lu_ID = i, lu_Name = ''echo'', lu_Input = ''x''\<rparr>"

definition demo_chunk :: "finish_reason \<Rightarrow> string llm_tool_use list \<Rightarrow> string llm_chunk" where
  "demo_chunk fr tus = \<lparr>lc_Token = ''t'', lc_Thinking = False, lc_FinishReason = fr, lc_ToolUses = tus, lc_Err = None\<rparr>"

definition demo_env :: "string list option \<Rightarrow> string env" where
  "demo_env flt =
     \<lparr>e_emit = (\<lambda>_ _. None),
      e_stream = (\<lambda>lg _. Inr ([if provider_calls lg < 2 then demo_chunk FinishToolUse [demo_call ''1'', demo_call ''2'']
                                else demo_chunk FinishStop []], None)),
      e_execute = (\<lambda>_ _ _. (\<lparr>to_Content = ''ok'', to_IsError = False, to_Filter = flt\<rparr>, None)),
      e_totalErr = (\<lambda>_. None), e_digest = Some\<rparr>"

definition demo_opts :: "int \<Rightarrow> string loop_options" where
  "demo_opts w =
     \<lparr>op_Registry = Some \<lparr>tools = [''echo'' \<mapsto> \<lparr>ex_Name = ''echo'',
                              ex_Schema = \<lparr>ts_Name = ''echo'', ts_Description = [], ts_InputSchema = []\<rparr>, ex_Cacheable = None\<rparr>],
                            names = [''echo'']\<rparr>,
      op_MaxTurns = 16, op_ToolTimeout = 1, op_TotalTimeout = 1, op_ReqTimeout = 1, op_DedupEnabled = True, op_DedupWindow = w\<rparr>"

definition demo_req :: "string request" where
  "demo_req = \<lparr>rq_System = [], rq_Messages = [\<lparr>Role = RoleUser, Content = [BlockText ''hi'']\<rparr>], rq_Tools = [],
     rq_MaxTokens = 1, rq_Temperature = None, rq_ThinkingMode = ThinkingDisabled, rq_ThinkingBudget = 0\<rparr>"

lemma run_sent_ok:
  assumes "Run E l req = (res, err, s)" shows "sent_ok req s \<and> rs_Messages res = msgs s"
proof -
  have "sent_ok req (start_state l req)" by (simp add: sent_ok_def start_state_def)
  from transcript.run_loop_inv [OF this assms [unfolded Run_def]] show ?thesis by auto
qed

text \<open>C1: The transcript stays well formed whatever the model, the tools, the consumer and the clock do.
  Every list of messages sent to the provider, and the one returned at the end, is the initial transcript
  followed by complete exchanges: an assistant turn with at least one tool call, then a user turn with
  exactly one result per call, with the same identifiers in the same order.  An orphan call is never
  committed.\<close>

theorem transcript_stays_paired:
  assumes "Run E l req = (res, err, s)"
  shows "extends_by_pairs (rq_Messages req) (rs_Messages res) \<and>
         (\<forall>rq r. Streamed rq r \<in> set (alog s) \<longrightarrow> extends_by_pairs (rq_Messages req) (rq_Messages rq))"
  using run_sent_ok [OF assms] by (auto simp: sent_ok_def split: act.splits)

theorem transcript_stays_paired_witness:
  "\<exists>res err s. Run (demo_env None) (demo_opts 1) demo_req = (res, err, s) \<and>
     length (rs_Messages res) = 5 \<and> extends_by_pairs (rq_Messages demo_req) (rs_Messages res)"
proof -
  obtain res err s where r: "Run (demo_env None) (demo_opts 1) demo_req = (res, err, s)" by (metis prod.exhaust)
  have "length (rs_Messages (fst (Run (demo_env None) (demo_opts 1) demo_req))) = 5" by code_simp
  with r transcript_stays_paired [OF r] show ?thesis by auto
qed



text \<open>C5: The skill scope is enforced at dispatch and in what is offered.  At every point of a run the scope in force is
  the filter of the last successful output that carried one, fresh or from the cache; a tool outside it is neither
  executed nor answered from the cache, no unregistered tool is executed, and each request offers exactly the tools
  the scope in force allows.\<close>

theorem scope_is_enforced:
  assumes "Run E l req = (res, err, s)" and "alog s = pre @ a # post"
  shows "act_in_scope (op_Registry l) (rq_Tools req @ Schemas (op_Registry l)) (scope_at pre) a"
proof -
  have "scope_inv (op_Registry l) (rq_Tools req @ Schemas (op_Registry l)) (start_state l req)"
    by (simp add: scope_inv_def scope_at_def start_state_def)
  from scope.run_loop_inv [OF this assms(1) [unfolded Run_def]]
  have "scope_inv (op_Registry l) (rq_Tools req @ Schemas (op_Registry l)) s" by auto
  with assms(2) show ?thesis by (simp add: scope_inv_def scope_at_def log_in_scope_append)
qed

theorem scope_is_enforced_witness:
  "\<exists>res err s. Run (demo_env (Some [''clock''])) (demo_opts 1) demo_req = (res, err, s) \<and>
     length (filter (\<lambda>a. case a of Executed _ _ _ _ \<Rightarrow> True | _ \<Rightarrow> False) (alog s)) = 1 \<and>
     act_in_scope (op_Registry (demo_opts 1)) (rq_Tools demo_req @ Schemas (op_Registry (demo_opts 1)))
       (scope_at (butlast (alog s))) (last (alog s))"
proof -
  let ?R = "Run (demo_env (Some [''clock''])) (demo_opts 1) demo_req"
  obtain res err s where r: "?R = (res, err, s)" by (metis prod.exhaust)
  have one: "length (filter (\<lambda>a. case a of Executed _ _ _ _ \<Rightarrow> True | _ \<Rightarrow> False) (alog (snd (snd ?R)))) = 1"
    by code_simp
  with r have "alog s \<noteq> []" by auto
  then have "alog s = butlast (alog s) @ last (alog s) # []" by simp
  from scope_is_enforced [OF r this] one r show ?thesis by auto
qed

text \<open>C8: A successful call of a cacheable tool is not repeated inside the window.  With deduplication on, if a call
  succeeded in turn \<open>t1\<close> and a later call has the same key (tool name and digest of the input), then the later one
  ran at least \<open>DedupWindow\<close> turns after it.\<close>

theorem no_repeat_inside_window:
  assumes "Run E l req = (res, err, s)" and "op_DedupEnabled l"
    and "alog s = pre @ Executed t1 tu1 out1 None # mid @ Executed t2 tu2 out2 e2 # post"
    and "\<not> to_IsError out1"
    and "call_key E (op_Registry l) tu1 = Some k" and "call_key E (op_Registry l) tu2 = Some k"
  shows "op_DedupWindow l \<le> t2 - t1"
proof -
  have "dedup_inv E (op_Registry l) (op_DedupWindow l) 1 (start_state l req)"
    using assms(2) by (simp add: dedup_inv_def start_state_def newDedupCache_def)
  from window.run_loop_inv [OF this assms(1) [unfolded Run_def]]
  have "sorted_wrt (spaced E (op_Registry l) (op_DedupWindow l)) (alog s)" by (auto simp: dedup_inv_def)
  with assms(3-) show ?thesis
    by (simp add: sorted_wrt_append spaced_def good_call_def any_call_def)
qed

lemma split_at_two:
  assumes "i < j" "j < length L"
  shows "L = take i L @ L ! i # drop (Suc i) (take j L) @ L ! j # drop (Suc j) L"
proof -
  have "take j L = take i (take j L) @ take j L ! i # drop (Suc i) (take j L)"
    using assms by (intro id_take_nth_drop) simp
  then have t: "take j L = take i L @ L ! i # drop (Suc i) (take j L)"
    using assms by (simp add: min_absorb1)
  have "L = take j L @ L ! j # drop (Suc j) L"
    using assms by (intro id_take_nth_drop)
  with t show ?thesis by (metis append.assoc append_Cons)
qed

theorem no_repeat_inside_window_witness:
  "\<exists>lg t1 t2 tu out. alog (snd (snd (Run (demo_env None) (demo_opts 1) demo_req))) = lg \<and>
     lg ! 5 = Executed t1 tu out None \<and> lg ! 15 = Executed t2 tu out None \<and> 1 \<le> t2 - t1"
proof -
  let ?R = "Run (demo_env None) (demo_opts 1) demo_req"
  let ?out = "\<lparr>to_Content = ''ok'', to_IsError = False, to_Filter = None\<rparr>"
  obtain res err s where r: "?R = (res, err, s)" by (metis prod.exhaust)
  have "15 < length (alog (snd (snd ?R)))" by code_simp
  then have split: "alog s = take 5 (alog s) @ alog s ! 5 # drop (Suc 5) (take 15 (alog s)) @ alog s ! 15 # drop (Suc 15) (alog s)"
    unfolding r by (intro split_at_two) simp_all
  have first: "alog (snd (snd ?R)) ! 5 = Executed 1 (demo_call ''1'') ?out None" by code_simp
  have second: "alog (snd (snd ?R)) ! 15 = Executed 2 (demo_call ''1'') ?out None" by code_simp
  have key: "call_key (demo_env None) (op_Registry (demo_opts 1)) (demo_call ''1'') = Some ''echo:x''" by code_simp
  from split have "alog s = take 5 (alog s) @ Executed 1 (demo_call ''1'') ?out None #
      drop (Suc 5) (take 15 (alog s)) @ Executed 2 (demo_call ''1'') ?out None # drop (Suc 15) (alog s)"
    using first second unfolding r by simp
  from no_repeat_inside_window [OF r _ this _ key key] have "op_DedupWindow (demo_opts 1) \<le> 2 - (1::int)"
    by (simp add: demo_opts_def)
  then have "(1::int) \<le> 2 - 1" by (simp add: demo_opts_def)
  with first second show ?thesis by blast
qed

text \<open>C9: A run ends as it reports.  For every provider that says why a stream failed, the returned error is nil
  exactly when the finish is natural (stop, stop sequence or length), and the last thing the consumer was told is this
  finish, code and error, unless it was the consumer's own error that ended the run.\<close>

theorem run_ends_as_reported:
  assumes "\<And>lg rq cs err. e_stream E lg rq = Inr (cs, err) \<Longrightarrow> list_all says_why cs"
    and "Run E l req = (res, err, s)"
  shows "reported (res, err, s) \<and> (natural (rs_FinishReason res) \<longleftrightarrow> err = None)"
  using run_loop_ended [of E "op_Registry l" req "rq_Tools req @ Schemas (op_Registry l)" "nat (op_MaxTurns l)" 1 "start_state l req"]
    assms unfolding Run_def ended_def by fastforce

theorem run_ends_as_reported_witness:
  "\<exists>res err s. Run (demo_env None) (demo_opts 3) demo_req = (res, err, s) \<and> rs_FinishReason res = FinishStop \<and> err = None \<and>
     reported (res, err, s)"
proof -
  let ?R = "Run (demo_env None) (demo_opts 3) demo_req"
  obtain res err s where r: "?R = (res, err, s)" by (metis prod.exhaust)
  have "list_all says_why cs" if "e_stream (demo_env None) lg rq = Inr (cs, e)" for lg rq cs e
    using that by (auto simp: demo_env_def demo_chunk_def says_why_def split: if_splits)
  from run_ends_as_reported [OF this r] have "reported (res, err, s)" "natural (rs_FinishReason res) \<longleftrightarrow> err = None" by auto
  moreover have "rs_FinishReason (fst ?R) = FinishStop" by code_simp
  ultimately show ?thesis using r by auto
qed

end
