(* ===== verification/Nodes.thy ===== *)
theory Nodes
  imports GoPrelude
begin

text \<open>
  The block values other components put on the scrollback: \<open>Message\<close>, \<open>ToolUse\<close>, \<open>ToolResult\<close>,
  \<open>Thinking\<close>, and the render-only welcome panel and report, from
  \<open>internal/app/cli/render/block\<close>.  Text is a byte string.  A tool's input is an opaque value of
  type \<open>'i\<close>.
\<close>

datatype speaker = SpeakerNone | SpeakerUser | SpeakerAssistant

record message =
  Text :: string
  Truncated :: bool
  Continued :: bool
  Empty :: bool
  Speaker :: speaker

definition plain_msg :: "string \<Rightarrow> message" where
  "plain_msg t = \<lparr>Text = t, Truncated = False, Continued = False, Empty = False, Speaker = SpeakerNone\<rparr>"

datatype tool_state = StateQueued | StateRunning | StateWaitingPermission | StateResolved | StateError

record 'i tool_use =
  tu_ID :: string
  tu_Name :: string
  tu_Input :: 'i
  tu_State :: tool_state

record tool_result =
  tr_ToolUseID :: string
  tr_Name :: string
  tr_Content :: string
  tr_IsError :: bool
  tr_Cached :: bool

datatype 'i node =
    MessageNode message
  | ToolUseNode "'i tool_use"
  | ToolResultNode tool_result
  | ThinkingNode string bool
  | WelcomeNode
  | MarkdownNode string

definition NewToolUse :: "string \<Rightarrow> string \<Rightarrow> 'i \<Rightarrow> 'i tool_use" where
  "NewToolUse i name inp = \<lparr>tu_ID = i, tu_Name = name, tu_Input = inp, tu_State = StateQueued\<rparr>"

definition NewToolResult :: "string \<Rightarrow> string \<Rightarrow> string \<Rightarrow> bool \<Rightarrow> tool_result" where
  "NewToolResult i name content isError =
     \<lparr>tr_ToolUseID = i, tr_Name = name, tr_Content = content, tr_IsError = isError, tr_Cached = False\<rparr>"

end
