(* ===== verification/TokenStream.thy ===== *)
theory TokenStream
  imports Nodes
begin

text \<open>
  \<open>internal/app/cli/render/streaming/stream.go\<close>: the \<open>TokenStream\<close> between the LLM client and the
  scrollback.  Every method but \<open>AppendChunk\<close>'s send runs under the one lock; the token channel is a
  list of at most \<open>t_chanCap\<close> chunks, and a send that would block has the result \<open>Blocks\<close>.  Text is
  bytes.  \<open>t_hooks\<close> records the calls of the optional finish hook.
\<close>

datatype finish = FinishUnset | FinishStop | FinishLength | FinishToolUse | FinishContentFilter | FinishError | FinishCancelled

datatype stream_error = ErrStreamTruncated | ErrStreamFiltered | ErrStreamCancelled | ProviderErr string

record chunk =
  Token :: string
  CFinish :: finish
  CErr :: "stream_error option"

record token_stream =
  t_tokens :: "chunk list"
  t_lineBuf :: string
  t_emitted :: "message list"
  t_openFence :: bool
  t_run :: nat
  t_finish :: finish
  t_lastErr :: "stream_error option"
  t_ctxDone :: bool
  t_chanCap :: nat
  t_lineBufCap :: int
  t_hooks :: "finish list"
  t_sawContent :: bool
  t_closed :: bool

definition defaultChanCap :: nat where "defaultChanCap = 512"
definition defaultLineBufCap :: int where "defaultLineBufCap = 65536"

definition NewTokenStream :: "nat \<Rightarrow> int \<Rightarrow> token_stream" where
  "NewTokenStream chanCap lineBufCap =
     \<lparr>t_tokens = [], t_lineBuf = [], t_emitted = [], t_openFence = False, t_run = 0, t_finish = FinishUnset,
      t_lastErr = None, t_ctxDone = False, t_chanCap = chanCap, t_lineBufCap = lineBufCap, t_hooks = [],
      t_sawContent = False, t_closed = False\<rparr>"

datatype append_result = Appended token_stream | Refused stream_error | Blocks

definition AppendChunk :: "chunk \<Rightarrow> token_stream \<Rightarrow> append_result" where
  "AppendChunk c s =
     (if t_closed s then Refused ErrStreamCancelled
      else if t_ctxDone s then Refused ErrStreamCancelled
      else if length (t_tokens s) < t_chanCap s then Appended (s\<lparr>t_tokens := t_tokens s @ [c]\<rparr>)
      else Blocks)"

subsection \<open>Fences and lines\<close>

definition flip_fence :: "bool \<times> bool \<times> bool \<Rightarrow> bool \<times> bool \<times> bool" where
  "flip_fence st = (case st of (open', opened, closed) \<Rightarrow>
     (\<not> open', opened \<or> \<not> open', closed \<or> open'))"

text \<open>The loop over the token's bytes: fence state with the two flags, and the backtick run.\<close>

fun scan_loop :: "string \<Rightarrow> nat \<Rightarrow> bool \<times> bool \<times> bool \<Rightarrow> nat \<times> bool \<times> bool \<times> bool" where
  "scan_loop [] run st = (run, st)"
| "scan_loop (b # bs) run st =
     (if b = CHR ''`'' then scan_loop bs (run + 1) st
      else scan_loop bs 0 (if run \<ge> 3 then flip_fence st else st))"

definition scanFenceState :: "string \<Rightarrow> token_stream \<Rightarrow> token_stream \<times> bool \<times> bool" where
  "scanFenceState tok s =
     (case scan_loop tok (t_run s) (t_openFence s, False, False) of
        (run, st) \<Rightarrow>
          (case (if run \<ge> 3 then (0, flip_fence st) else (run, st)) of
             (run', open', opened, closed) \<Rightarrow> (s\<lparr>t_run := run', t_openFence := open'\<rparr>, opened, closed)))"

definition emitWholeBuffer :: "bool \<Rightarrow> bool \<Rightarrow> token_stream \<Rightarrow> token_stream" where
  "emitWholeBuffer truncated continued s =
     (if t_lineBuf s = [] then s
      else s\<lparr>t_emitted := t_emitted s @ [\<lparr>Text = t_lineBuf s, Truncated = truncated, Continued = continued,
                                              Empty = False, Speaker = SpeakerNone\<rparr>],
             t_lineBuf := []\<rparr>)"

definition newline :: char where "newline = CHR 0x0A"

function split_lines :: "string \<Rightarrow> string list \<times> string" where
  "split_lines data =
     (let line = takeWhile (\<lambda>c. c \<noteq> newline) data in
      if length line = length data then ([], data)
      else (case split_lines (drop (length line + 1) data) of (ls, tail) \<Rightarrow> (line # ls, tail)))"
  by pat_completeness auto
termination by (relation "measure length") (auto simp: Let_def dest: le_neq_implies_less [OF length_takeWhile_le])

declare split_lines.simps [simp del]

definition tryEmitLines :: "token_stream \<Rightarrow> token_stream" where
  "tryEmitLines s =
     (case split_lines (t_lineBuf s) of (ls, tail) \<Rightarrow>
        let s1 = s\<lparr>t_emitted := t_emitted s @ map plain_msg ls, t_lineBuf := tail\<rparr>
        in if int (length (t_lineBuf s1)) > t_lineBufCap s1 then emitWholeBuffer False True s1 else s1)"

definition empty_msg :: message where
  "empty_msg = \<lparr>Text = [], Truncated = False, Continued = False, Empty = True, Speaker = SpeakerNone\<rparr>"

definition flushPartial :: "bool \<Rightarrow> token_stream \<Rightarrow> token_stream" where
  "flushPartial truncated s =
     (let s1 = (if length (t_lineBuf s) > 0 then emitWholeBuffer truncated False s else s)
      in if \<not> t_sawContent s1 \<and> t_finish s1 = FinishStop then s1\<lparr>t_emitted := t_emitted s1 @ [empty_msg]\<rparr> else s1)"

subsection \<open>Chunks\<close>

definition processToken :: "string \<Rightarrow> token_stream \<Rightarrow> token_stream" where
  "processToken tok s =
     (if tok = [] then s
      else
        (case scanFenceState tok (s\<lparr>t_sawContent := True, t_lineBuf := t_lineBuf s @ tok\<rparr>) of (s1, _, closed) \<Rightarrow>
           let s2 = (if closed then emitWholeBuffer False False s1
                     else if \<not> t_openFence s1 then tryEmitLines s1 else s1)
           in if t_openFence s2 \<and> int (length (t_lineBuf s2)) > t_lineBufCap s2
              then emitWholeBuffer False True s2 else s2))"

definition processChunk :: "chunk \<Rightarrow> token_stream \<Rightarrow> token_stream" where
  "processChunk c s =
     (let s1 = processToken (Token c) s in
      case CErr c of
        Some e \<Rightarrow> (let s2 = flushPartial True (s1\<lparr>t_finish := FinishError, t_lastErr := Some e\<rparr>)
                   in s2\<lparr>t_hooks := t_hooks s2 @ [FinishError]\<rparr>)
      | None \<Rightarrow>
          if CFinish c \<noteq> FinishUnset
          then (let s2 = flushPartial (CFinish c = FinishLength) (s1\<lparr>t_finish := CFinish c\<rparr>)
                in s2\<lparr>t_hooks := t_hooks s2 @ [CFinish c]\<rparr>)
          else s1)"

definition drainChunks :: "token_stream \<Rightarrow> token_stream" where
  "drainChunks s = fold processChunk (t_tokens s) (s\<lparr>t_tokens := []\<rparr>)"

definition Drain :: "token_stream \<Rightarrow> message list \<times> token_stream" where
  "Drain s = (let s1 = drainChunks s in (t_emitted s1, s1\<lparr>t_emitted := []\<rparr>))"

definition errForFinish :: "token_stream \<Rightarrow> stream_error option" where
  "errForFinish s =
     (case t_finish s of
        FinishLength \<Rightarrow> Some ErrStreamTruncated
      | FinishContentFilter \<Rightarrow> Some ErrStreamFiltered
      | FinishCancelled \<Rightarrow> Some ErrStreamCancelled
      | FinishError \<Rightarrow> t_lastErr s
      | _ \<Rightarrow> None)"

definition bad_finish :: "finish \<Rightarrow> bool" where
  "bad_finish f \<longleftrightarrow> f = FinishLength \<or> f = FinishCancelled \<or> f = FinishError"

definition Close :: "token_stream \<Rightarrow> stream_error option \<times> token_stream" where
  "Close s =
     (if t_closed s then (None, s)
      else
        (let s1 = drainChunks (s\<lparr>t_closed := True, t_ctxDone := True\<rparr>);
             s2 = (if t_finish s1 = FinishUnset
                   then s1\<lparr>t_finish := FinishCancelled, t_lastErr := Some ErrStreamCancelled\<rparr> else s1);
             s3 = (if length (t_lineBuf s2) > 0 then flushPartial (bad_finish (t_finish s2)) s2 else s2)
         in (errForFinish s3, s3)))"

definition Flush :: "token_stream \<Rightarrow> message option \<times> stream_error option \<times> token_stream" where
  "Flush s =
     (let s1 = drainChunks s;
          s2 = (if length (t_lineBuf s1) > 0 then flushPartial (bad_finish (t_finish s1)) s1 else s1);
          blocks = t_emitted s2; s3 = s2\<lparr>t_emitted := []\<rparr>
      in (if blocks = [] then None else Some (last blocks), errForFinish s2, s3))"

subsection \<open>No byte is lost\<close>

text \<open>\<open>ms\<close> with a buffered rest spells the text, where a line feed follows exactly the flagged blocks.\<close>

definition spells :: "(message \<times> bool) list \<Rightarrow> string" where
  "spells fs = concat (map (\<lambda>(m, b). Text m @ (if b then [newline] else [])) fs)"

lemma spells_simps [simp]:
  "spells [] = []" "spells (xs @ ys) = spells xs @ spells ys"
  "spells ((m, b) # fs) = Text m @ (if b then [newline] else []) @ spells fs"
  by (simp_all add: spells_def)

definition holds_text :: "string \<Rightarrow> message list \<Rightarrow> token_stream \<Rightarrow> bool" where
  "holds_text input taken s \<longleftrightarrow>
     (\<exists>fs. map fst fs = taken @ t_emitted s \<and> spells fs @ t_lineBuf s = input)"

lemma split_lines_spells:
  "split_lines data = (ls, tail) \<Longrightarrow> spells (map (\<lambda>l. (plain_msg l, True)) ls) @ tail = data"
proof (induction data arbitrary: ls tail rule: split_lines.induct)
  case (1 data)
  let ?line = "takeWhile (\<lambda>c. c \<noteq> newline) data"
  show ?case
  proof (cases "length ?line = length data")
    case True
    with 1(2) show ?thesis by (subst (asm) split_lines.simps) simp
  next
    case False
    obtain ls' where rec: "split_lines (drop (length ?line + 1) data) = (ls', tail)" "ls = ?line # ls'"
      using 1(2) False by (subst (asm) split_lines.simps) (auto simp: Let_def split: prod.splits)
    have "length ?line < length data" using False length_takeWhile_le [of "\<lambda>c. c \<noteq> newline" data] by simp
    then have "data = ?line @ newline # drop (length ?line + 1) data"
      using takeWhile_eq_take [of "\<lambda>c. c \<noteq> newline" data] nth_length_takeWhile [of "\<lambda>c. c \<noteq> newline" data]
      by (metis Cons_nth_drop_Suc Suc_eq_plus1 append_take_drop_id)
    with 1(1) [OF refl False rec(1)] rec(2) show ?thesis by (simp add: plain_msg_def)
  qed
qed

lemma holds_emitWhole: "holds_text input taken s \<Longrightarrow> holds_text input taken (emitWholeBuffer t c s)"
proof -
  assume "holds_text input taken s"
  then obtain fs where fs: "map fst fs = taken @ t_emitted s" "spells fs @ t_lineBuf s = input" by (auto simp: holds_text_def)
  let ?m = "\<lparr>Text = t_lineBuf s, Truncated = t, Continued = c, Empty = False, Speaker = SpeakerNone\<rparr>"
  from fs have "map fst (fs @ [(?m, False)]) = taken @ t_emitted s @ [?m]" "spells (fs @ [(?m, False)]) = input" by simp_all
  then have "\<exists>fs. map fst fs = taken @ t_emitted s @ [?m] \<and> spells fs = input" by blast
  with fs show ?thesis unfolding holds_text_def emitWholeBuffer_def
    by (cases "t_lineBuf s = []") auto
qed

lemma holds_tryEmit: "holds_text input taken s \<Longrightarrow> holds_text input taken (tryEmitLines s)"
proof -
  assume "holds_text input taken s"
  then obtain fs where fs: "map fst fs = taken @ t_emitted s" "spells fs @ t_lineBuf s = input" by (auto simp: holds_text_def)
  obtain ls tail where sp: "split_lines (t_lineBuf s) = (ls, tail)" by fastforce
  let ?s = "s\<lparr>t_emitted := t_emitted s @ map plain_msg ls, t_lineBuf := tail\<rparr>"
  have "holds_text input taken ?s"
    unfolding holds_text_def using fs split_lines_spells [OF sp]
    by (intro exI [of _ "fs @ map (\<lambda>l. (plain_msg l, True)) ls"]) (simp add: comp_def)
  then show ?thesis using holds_emitWhole [of input taken ?s] by (simp add: tryEmitLines_def sp Let_def)
qed

lemma holds_cong:
  "t_emitted s = t_emitted s' \<Longrightarrow> t_lineBuf s = t_lineBuf s' \<Longrightarrow> holds_text input taken s = holds_text input taken s'"
  by (simp add: holds_text_def)

lemma holds_flush: "holds_text input taken s \<Longrightarrow> holds_text input taken (flushPartial t s)"
proof -
  assume h: "holds_text input taken s"
  define s1 where "s1 = (if length (t_lineBuf s) > 0 then emitWholeBuffer t False s else s)"
  have "holds_text input taken s1" using h holds_emitWhole by (simp add: s1_def)
  then obtain fs where fs: "map fst fs = taken @ t_emitted s1" "spells fs @ t_lineBuf s1 = input" by (auto simp: holds_text_def)
  then have "holds_text input taken (s1\<lparr>t_emitted := t_emitted s1 @ [empty_msg]\<rparr>)"
    unfolding holds_text_def by (intro exI [of _ "fs @ [(empty_msg, False)]"]) (simp add: empty_msg_def)
  with \<open>holds_text input taken s1\<close> show ?thesis unfolding flushPartial_def Let_def s1_def [symmetric] by simp
qed

lemma scan_frame:
  "scanFenceState tok s = (s1, opened, closed) \<Longrightarrow> t_emitted s1 = t_emitted s \<and> t_lineBuf s1 = t_lineBuf s \<and>
     t_lineBufCap s1 = t_lineBufCap s \<and> t_finish s1 = t_finish s \<and> t_closed s1 = t_closed s \<and> t_tokens s1 = t_tokens s \<and>
     t_chanCap s1 = t_chanCap s \<and> t_lastErr s1 = t_lastErr s"
  by (auto simp: scanFenceState_def split: prod.splits if_splits)

lemma holds_processToken: "holds_text input taken s \<Longrightarrow> holds_text (input @ tok) taken (processToken tok s)"
proof -
  assume h: "holds_text input taken s"
  let ?s0 = "s\<lparr>t_sawContent := True, t_lineBuf := t_lineBuf s @ tok\<rparr>"
  obtain s1 opened closed where sc: "scanFenceState tok ?s0 = (s1, opened, closed)" by (metis prod_cases3)
  have "holds_text (input @ tok) taken ?s0" using h by (force simp: holds_text_def)
  then have h1: "holds_text (input @ tok) taken s1" using scan_frame [OF sc] holds_cong [of s1 ?s0] by simp
  then show ?thesis using h holds_emitWhole holds_tryEmit
    by (cases "tok = []") (simp_all add: processToken_def sc Let_def)
qed

lemma holds_processChunk: "holds_text input taken s \<Longrightarrow> holds_text (input @ Token c) taken (processChunk c s)"
proof -
  assume "holds_text input taken s"
  then have h: "holds_text (input @ Token c) taken (processToken (Token c) s)" by (rule holds_processToken)
  have upd: "holds_text (input @ Token c) taken (flushPartial t ((processToken (Token c) s)\<lparr>t_finish := f, t_lastErr := e\<rparr>))"
    for t f e using h by (intro holds_flush) (simp add: holds_text_def)
  have upd': "holds_text (input @ Token c) taken (flushPartial t ((processToken (Token c) s)\<lparr>t_finish := f\<rparr>))" for t f
    using h by (intro holds_flush) (simp add: holds_text_def)
  show ?thesis
    using h upd upd' by (auto simp: processChunk_def Let_def holds_text_def split: option.split)
qed

lemma processToken_frame [simp]:
  "t_closed (processToken tok s) = t_closed s" "t_tokens (processToken tok s) = t_tokens s"
  "t_lineBufCap (processToken tok s) = t_lineBufCap s" "t_finish (processToken tok s) = t_finish s"
  "t_chanCap (processToken tok s) = t_chanCap s" "t_lastErr (processToken tok s) = t_lastErr s"
  by (auto simp: processToken_def tryEmitLines_def emitWholeBuffer_def Let_def split: prod.splits dest!: scan_frame)

lemma flushPartial_frame [simp]:
  "t_closed (flushPartial t s) = t_closed s" "t_tokens (flushPartial t s) = t_tokens s"
  "t_lineBufCap (flushPartial t s) = t_lineBufCap s" "t_finish (flushPartial t s) = t_finish s"
  "t_lastErr (flushPartial t s) = t_lastErr s" "t_chanCap (flushPartial t s) = t_chanCap s"
  "t_lineBuf (flushPartial t s) = []"
  by (auto simp: flushPartial_def emitWholeBuffer_def Let_def)

lemma holds_drainChunks:
  "holds_text input taken s \<Longrightarrow> holds_text (input @ concat (map Token (t_tokens s))) taken (drainChunks s)"
proof -
  have "holds_text (input @ concat (map Token cs)) taken (fold processChunk cs s)" if "holds_text input taken s" for cs s input
    using that
  proof (induction cs arbitrary: s input)
    case (Cons c cs)
    from Cons.IH [OF holds_processChunk [OF Cons.prems, of c]] show ?case by simp
  qed simp
  moreover assume "holds_text input taken s"
  then have "holds_text input taken (s\<lparr>t_tokens := []\<rparr>)" by (simp add: holds_text_def)
  ultimately show ?thesis unfolding drainChunks_def by blast
qed

subsection \<open>Buffer bound and termination state\<close>

lemma emitWhole_buf: "t_lineBuf (emitWholeBuffer t c s) = []"
  by (simp add: emitWholeBuffer_def)

lemma processToken_bound:
  assumes "0 \<le> t_lineBufCap s" and "int (length (t_lineBuf s)) \<le> t_lineBufCap s"
  shows "int (length (t_lineBuf (processToken tok s))) \<le> t_lineBufCap s"
proof (cases "tok = []")
  case False
  let ?s0 = "s\<lparr>t_sawContent := True, t_lineBuf := t_lineBuf s @ tok\<rparr>"
  obtain s1 opened closed where sc: "scanFenceState tok ?s0 = (s1, opened, closed)" by (metis prod_cases3)
  have cap: "t_lineBufCap s1 = t_lineBufCap s" using scan_frame [OF sc] by simp
  have tryl: "int (length (t_lineBuf (tryEmitLines s1))) \<le> t_lineBufCap s"
    using assms(1) cap by (auto simp: tryEmitLines_def Let_def emitWhole_buf split: prod.splits)
  have "t_lineBufCap (emitWholeBuffer False c u) = t_lineBufCap u" for c u by (simp add: emitWholeBuffer_def)
  moreover have "t_lineBufCap (tryEmitLines s1) = t_lineBufCap s"
    using cap by (auto simp: tryEmitLines_def Let_def emitWholeBuffer_def split: prod.splits)
  ultimately show ?thesis using False assms(1) tryl cap
    by (auto simp: processToken_def sc Let_def emitWhole_buf)
qed (use assms in \<open>simp add: processToken_def\<close>)

lemma processChunk_frame [simp]:
  "t_closed (processChunk c s) = t_closed s" "t_tokens (processChunk c s) = t_tokens s"
  "t_lineBufCap (processChunk c s) = t_lineBufCap s" "t_chanCap (processChunk c s) = t_chanCap s"
  "t_finish (processChunk c s) =
     (if CErr c \<noteq> None then FinishError else if CFinish c \<noteq> FinishUnset then CFinish c else t_finish s)"
  "t_lastErr (processChunk c s) = (if CErr c \<noteq> None then CErr c else t_lastErr s)"
  by (auto simp: processChunk_def Let_def split: option.split)

lemma processChunk_bound:
  "0 \<le> t_lineBufCap s \<Longrightarrow> int (length (t_lineBuf s)) \<le> t_lineBufCap s \<Longrightarrow>
   int (length (t_lineBuf (processChunk c s))) \<le> t_lineBufCap s"
  using processToken_bound [of s "Token c"] by (auto simp: processChunk_def Let_def split: option.split)

lemma drainChunks_bound:
  assumes "0 \<le> t_lineBufCap s" and "int (length (t_lineBuf s)) \<le> t_lineBufCap s"
  shows "int (length (t_lineBuf (drainChunks s))) \<le> t_lineBufCap s \<and> t_lineBufCap (drainChunks s) = t_lineBufCap s \<and>
    t_tokens (drainChunks s) = [] \<and> t_closed (drainChunks s) = t_closed s"
proof -
  have "int (length (t_lineBuf (fold processChunk cs u))) \<le> t_lineBufCap u \<and>
      t_lineBufCap (fold processChunk cs u) = t_lineBufCap u \<and> t_tokens (fold processChunk cs u) = t_tokens u \<and>
      t_closed (fold processChunk cs u) = t_closed u"
    if "0 \<le> t_lineBufCap u" "int (length (t_lineBuf u)) \<le> t_lineBufCap u" for cs u
    using that
  proof (induction cs arbitrary: u)
    case (Cons c cs)
    with Cons.IH [of "processChunk c u"] processChunk_bound [of u c] show ?case by simp
  qed simp
  from this [of "s\<lparr>t_tokens := []\<rparr>"] assms show ?thesis by (simp add: drainChunks_def)
qed

subsection \<open>Histories of a stream\<close>

datatype stream_op = OpAppend chunk | OpDrain | OpClose | OpCtxDone

text \<open>A history keeps the blocks handed out so far and the bytes accepted so far.\<close>

fun stream_step :: "stream_op \<Rightarrow> message list \<times> string \<times> token_stream \<Rightarrow> message list \<times> string \<times> token_stream" where
  "stream_step (OpAppend c) (out, acc, s) =
     (case AppendChunk c s of Appended s' \<Rightarrow> (out, acc @ Token c, s') | _ \<Rightarrow> (out, acc, s))"
| "stream_step OpDrain (out, acc, s) = (out @ fst (Drain s), acc, snd (Drain s))"
| "stream_step OpClose (out, acc, s) = (out, acc, snd (Close s))"
| "stream_step OpCtxDone (out, acc, s) = (out, acc, s\<lparr>t_ctxDone := True\<rparr>)"

definition stream_inv :: "nat \<Rightarrow> int \<Rightarrow> message list \<times> string \<times> token_stream \<Rightarrow> bool" where
  "stream_inv cc cap st = (case st of (out, acc, s) \<Rightarrow>
     (\<exists>done'. acc = done' @ concat (map Token (t_tokens s)) \<and> holds_text done' out s) \<and>
     int (length (t_lineBuf s)) \<le> cap \<and> t_lineBufCap s = cap \<and> t_chanCap s = cc \<and> length (t_tokens s) \<le> cc \<and>
     (t_closed s \<longrightarrow> t_tokens s = [] \<and> t_lineBuf s = []))"

lemma chanCap_drain: "t_chanCap (drainChunks s) = t_chanCap s"
proof -
  have "t_chanCap (fold processChunk cs u) = t_chanCap u" for cs u by (induction cs arbitrary: u) simp_all
  then show ?thesis by (simp add: drainChunks_def)
qed

lemma closed_drain:
  assumes "t_closed s" and "t_tokens s = []" shows "drainChunks s = s"
  using assms by (simp add: drainChunks_def)

lemma stream_step_inv:
  assumes inv: "stream_inv cc cap (out, acc, s)" and cap: "0 \<le> cap"
  shows "stream_inv cc cap (stream_step x (out, acc, s))"
proof -
  obtain d where d: "acc = d @ concat (map Token (t_tokens s))" "holds_text d out s"
    and b: "int (length (t_lineBuf s)) \<le> cap" "t_lineBufCap s = cap" "t_chanCap s = cc" "length (t_tokens s) \<le> cc"
      "t_closed s \<longrightarrow> t_tokens s = [] \<and> t_lineBuf s = []"
    using inv by (auto simp: stream_inv_def)
  have dr: "holds_text acc out (drainChunks s)" using holds_drainChunks [OF d(2)] d(1) by simp
  have db: "int (length (t_lineBuf (drainChunks s))) \<le> cap \<and> t_lineBufCap (drainChunks s) = cap \<and>
      t_tokens (drainChunks s) = [] \<and> t_closed (drainChunks s) = t_closed s \<and> t_chanCap (drainChunks s) = cc"
    using drainChunks_bound [of s] b cap chanCap_drain [of s] by simp
  show ?thesis
  proof (cases x)
    case (OpAppend c)
    show ?thesis
    proof (cases "\<not> t_closed s \<and> \<not> t_ctxDone s \<and> length (t_tokens s) < t_chanCap s")
      case True
      have "acc @ Token c = d @ concat (map Token (t_tokens s @ [c]))" using d(1) by simp
      moreover have "holds_text d out (s\<lparr>t_tokens := t_tokens s @ [c]\<rparr>)" using d(2) by (simp add: holds_text_def)
      ultimately show ?thesis using True b OpAppend by (auto simp: AppendChunk_def stream_inv_def)
    next
      case False
      with inv OpAppend show ?thesis by (auto simp: AppendChunk_def)
    qed
  next
    case OpDrain
    have "holds_text acc (out @ fst (Drain s)) (snd (Drain s))"
      using dr by (simp add: Drain_def Let_def holds_text_def)
    moreover have "t_lineBuf (drainChunks s) = []" if "t_closed s" using b that closed_drain by simp
    ultimately show ?thesis using OpDrain db by (auto simp: stream_inv_def Drain_def Let_def)
  next
    case OpClose
    show ?thesis
    proof (cases "t_closed s")
      case True
      with inv OpClose show ?thesis by (simp add: Close_def)
    next
      case False
      let ?s0 = "s\<lparr>t_closed := True, t_ctxDone := True\<rparr>"
      define s1 where "s1 = drainChunks ?s0"
      define s2 where "s2 = (if t_finish s1 = FinishUnset
          then s1\<lparr>t_finish := FinishCancelled, t_lastErr := Some ErrStreamCancelled\<rparr> else s1)"
      define s3 where "s3 = (if length (t_lineBuf s2) > 0 then flushPartial (bad_finish (t_finish s2)) s2 else s2)"
      have "holds_text d out ?s0" using d(2) by (simp add: holds_text_def)
      from holds_drainChunks [OF this] have h1: "holds_text acc out s1" by (simp add: s1_def d(1))
      then have h2: "holds_text acc out s2" by (simp add: s2_def holds_text_def)
      then have h3: "holds_text acc out s3" using holds_flush by (simp add: s3_def)
      have f1: "t_tokens s1 = [] \<and> t_lineBufCap s1 = cap \<and> t_closed s1 \<and> t_chanCap s1 = cc"
        using drainChunks_bound [of ?s0] b cap chanCap_drain [of ?s0] by (simp add: s1_def)
      have "t_lineBuf s3 = []" "t_tokens s3 = []" "t_lineBufCap s3 = cap" "t_chanCap s3 = cc"
        using f1 by (auto simp: s3_def s2_def)
      moreover have "snd (Close s) = s3"
        using False unfolding Close_def Let_def s1_def [symmetric] s2_def [symmetric] s3_def [symmetric] by simp
      ultimately show ?thesis using OpClose h3 cap by (auto simp: stream_inv_def)
    qed
  next
    case OpCtxDone
    with inv show ?thesis by (auto simp: stream_inv_def holds_text_def)
  qed
qed

lemma stream_steps_inv:
  "stream_inv cc cap st \<Longrightarrow> 0 \<le> cap \<Longrightarrow> stream_inv cc cap (fold stream_step xs st)"
proof (induction xs arbitrary: st)
  case (Cons x xs)
  then show ?case using stream_step_inv [of cc cap "fst st" "fst (snd st)" "snd (snd st)" x] by simp
qed simp

lemma stream_start: "0 \<le> cap \<Longrightarrow> stream_inv cc cap ([], [], NewTokenStream cc cap)"
  by (simp add: stream_inv_def NewTokenStream_def holds_text_def)

lemma stream_history_inv:
  assumes "0 \<le> cap" and "(out, acc, s) = fold stream_step xs ([], [], NewTokenStream chanCap cap)"
  shows "stream_inv chanCap cap (out, acc, s)"
  unfolding assms(2) by (rule stream_steps_inv [OF stream_start [OF assms(1)] assms(1)])

definition terminal :: "chunk \<Rightarrow> bool" where
  "terminal c \<longleftrightarrow> CErr c \<noteq> None \<or> CFinish c \<noteq> FinishUnset"

text \<open>What the last terminal chunk of a run decides.\<close>

lemma fold_finish:
  "t_finish (fold processChunk cs v) =
     (case filter terminal cs of [] \<Rightarrow> t_finish v
      | x # xs \<Rightarrow> if CErr (last (x # xs)) \<noteq> None then FinishError else CFinish (last (x # xs)))"
  "CErr (last (filter terminal cs)) \<noteq> None \<Longrightarrow> filter terminal cs \<noteq> [] \<Longrightarrow>
     t_lastErr (fold processChunk cs v) = CErr (last (filter terminal cs))"
proof (induction cs rule: rev_induct)
  case (snoc c cs)
  { case 1 show ?case
      using snoc(1) terminal_def [of c] by (cases "filter terminal cs") auto }
  { case 2 then show ?case
      using snoc(2) terminal_def [of c] by (cases "terminal c") auto }
qed simp_all

subsection \<open>Properties\<close>

text \<open>C16: The token stream loses, duplicates and reorders nothing: in every history of appends, drains, cancellation
  and close, the blocks handed out or waiting, each followed by the line feed it was split at (if any), then the
  partial line, then the queued chunks, spell exactly the bytes accepted.\<close>

theorem stream_lossless:
  assumes "0 \<le> cap" and "(out, acc, s) = fold stream_step xs ([], [], NewTokenStream chanCap cap)"
  shows "\<exists>fs. map fst fs = out @ t_emitted s \<and>
    spells fs @ t_lineBuf s @ concat (map Token (t_tokens s)) = acc"
proof -
  from stream_history_inv [OF assms] obtain d where d: "acc = d @ concat (map Token (t_tokens s))" "holds_text d out s"
    by (auto simp: stream_inv_def)
  then obtain fs where "map fst fs = out @ t_emitted s" "spells fs @ t_lineBuf s = d" by (auto simp: holds_text_def)
  with d(1) show ?thesis by (intro exI [of _ fs]) (simp flip: append_assoc)
qed

theorem stream_lossless_witness:
  "\<exists>fs. map fst fs = [plain_msg ''hi''] \<and> spells fs @ ''x'' = ''hi'' @ [newline] @ ''x''"
proof -
  let ?c = "\<lparr>Token = ''hi'' @ [newline] @ ''x'', CFinish = FinishUnset, CErr = None\<rparr>"
  let ?st = "fold stream_step [OpAppend ?c, OpDrain] ([], [], NewTokenStream 4 100)"
  have e: "fst ?st = [plain_msg ''hi'']" "fst (snd ?st) = ''hi'' @ [newline] @ ''x''"
    "t_emitted (snd (snd ?st)) = []" "t_lineBuf (snd (snd ?st)) = ''x''" "t_tokens (snd (snd ?st)) = []"
    by code_simp+
  have "(fst ?st, fst (snd ?st), snd (snd ?st)) = ?st" by simp
  from stream_lossless [OF _ this] e show ?thesis by simp
qed

text \<open>The partial-line buffer never exceeds its cap between operations (a longer line or an open fence is
  emitted as a continued block), the token channel never exceeds its capacity, and once closed the stream holds
  neither chunks nor a partial line and refuses new chunks.\<close>

theorem stream_bounded:
  assumes "0 \<le> cap" and "(out, acc, s) = fold stream_step xs ([], [], NewTokenStream chanCap cap)"
  shows "int (length (t_lineBuf s)) \<le> cap \<and> length (t_tokens s) \<le> chanCap \<and>
    (t_closed s \<longrightarrow> t_tokens s = [] \<and> t_lineBuf s = [] \<and> AppendChunk c s = Refused ErrStreamCancelled)"
  using stream_history_inv [OF assms] by (auto simp: stream_inv_def AppendChunk_def)

theorem stream_bounded_witness:
  "length (t_tokens (snd (snd (fold stream_step [OpAppend \<lparr>Token = ''a'', CFinish = FinishUnset, CErr = None\<rparr>]
     ([], [], NewTokenStream 4 100))))) \<le> 4"
  using stream_bounded [of 100 _ _ _ "[OpAppend \<lparr>Token = ''a'', CFinish = FinishUnset, CErr = None\<rparr>]" 4]
  by (metis prod.collapse zero_le_numeral)

text \<open>The finish reason is never invented: closing a stream that saw no terminal chunk reports the
  cancellation, otherwise the reason of the last terminal chunk stands (an error chunk is \<open>FinishError\<close> and its own
  error is returned), and closing again is a no-op without error.\<close>

theorem close_reports_finish:
  assumes "\<not> t_closed s" and "t_finish s = FinishUnset" and "ts = filter terminal (t_tokens s)"
  shows "Close (snd (Close s)) = (None, snd (Close s)) \<and>
    t_finish (snd (Close s)) =
      (if ts = [] then FinishCancelled else if CErr (last ts) \<noteq> None then FinishError else CFinish (last ts)) \<and>
    fst (Close s) =
      (if ts = [] then Some ErrStreamCancelled
       else if CErr (last ts) \<noteq> None then CErr (last ts)
       else if CFinish (last ts) = FinishLength then Some ErrStreamTruncated
       else if CFinish (last ts) = FinishContentFilter then Some ErrStreamFiltered
       else if CFinish (last ts) = FinishCancelled then Some ErrStreamCancelled
       else if CFinish (last ts) = FinishError then t_lastErr (snd (Close s)) else None)"
proof -
  let ?s0 = "s\<lparr>t_closed := True, t_ctxDone := True, t_tokens := []\<rparr>"
  define s1 where "s1 = fold processChunk (t_tokens s) ?s0"
  define s2 where "s2 = (if t_finish s1 = FinishUnset
      then s1\<lparr>t_finish := FinishCancelled, t_lastErr := Some ErrStreamCancelled\<rparr> else s1)"
  define s3 where "s3 = (if length (t_lineBuf s2) > 0 then flushPartial (bad_finish (t_finish s2)) s2 else s2)"
  have dr: "drainChunks (s\<lparr>t_closed := True, t_ctxDone := True\<rparr>) = s1" by (simp add: drainChunks_def s1_def)
  have close: "Close s = (errForFinish s3, s3)"
    using assms(1) unfolding Close_def Let_def dr s2_def [symmetric] s3_def [symmetric] by simp
  have "t_closed (fold processChunk cs u) = t_closed u" for cs u by (induction cs arbitrary: u) simp_all
  then have "t_closed s3" by (simp add: s3_def s2_def s1_def)
  then have again: "Close s3 = (None, s3)" by (simp add: Close_def)
  have s3: "t_finish s3 = t_finish s2" "t_lastErr s3 = t_lastErr s2" by (simp_all add: s3_def)
  have f1: "t_finish s1 = (if ts = [] then FinishUnset else if CErr (last ts) \<noteq> None then FinishError else CFinish (last ts))"
    using fold_finish(1) [of "t_tokens s" ?s0] assms(2) by (cases ts) (simp_all add: s1_def assms(3) [symmetric])
  have e1: "CErr (last ts) \<noteq> None \<Longrightarrow> ts \<noteq> [] \<Longrightarrow> t_lastErr s1 = CErr (last ts)"
    using fold_finish(2) [of "t_tokens s" ?s0] by (simp add: s1_def assms(3))
  have "terminal (last ts)" if "ts \<noteq> []"
    using that last_in_set [of ts] by (auto simp: assms(3))
  then have nu: "ts \<noteq> [] \<Longrightarrow> CErr (last ts) = None \<Longrightarrow> CFinish (last ts) \<noteq> FinishUnset" by (auto simp: terminal_def)
  have s2: "s2 = (if ts = [] then s1\<lparr>t_finish := FinishCancelled, t_lastErr := Some ErrStreamCancelled\<rparr> else s1)"
    using f1 nu by (auto simp: s2_def)
  show ?thesis unfolding close fst_conv snd_conv again
    using f1 e1 nu s3
    by (cases "ts = []"; cases "CErr (last ts)"; cases "CFinish (last ts)") (simp_all add: s2 errForFinish_def)
qed

theorem close_reports_finish_witness:
  "fst (Close ((NewTokenStream 4 9)\<lparr>t_tokens := [\<lparr>Token = ''a'', CFinish = FinishLength, CErr = None\<rparr>]\<rparr>)) = Some ErrStreamTruncated"
  using close_reports_finish [of "(NewTokenStream 4 9)\<lparr>t_tokens := [\<lparr>Token = ''a'', CFinish = FinishLength, CErr = None\<rparr>]\<rparr>",
      OF _ _ refl]
  by (simp add: NewTokenStream_def terminal_def)

text \<open>The fence state depends on how the bytes are cut into tokens: six backticks followed by a letter open a
  fence when they arrive in one token, and open and close one when they arrive as three and three, although the run
  counter is there to follow delimiters across chunks.\<close>

theorem fence_depends_on_chunking:
  "let s = NewTokenStream 8 100 in
   t_openFence (processToken ''x'' (processToken ''``````'' s)) \<and>
   \<not> t_openFence (processToken ''x'' (processToken ''```'' (processToken ''```'' s)))"
  by code_simp

end
