(* ===== verification/Input.thy ===== *)
theory Input
  imports GoPrelude
begin

text \<open>
  \<open>internal/app/cli/input\<close> (\<open>history.go\<close>, \<open>mode.go\<close>, \<open>move.go\<close>, \<open>resolve.go\<close>),
  \<open>internal/app/cli/keybindings\<close>, the key codes of \<open>render/terminal/driver.go\<close> (the values the
  source states for tcell's constants) and \<open>program/dispatch.go\<close>.  A buffer is the list of its runes:
  all edits go through \<open>[]rune\<close>, and the two byte-indexed tests look at an ASCII first byte.
  \<open>string(runes)\<close> replaces a rune that is no Unicode scalar value by U+FFFD (\<open>enc_rune\<close>).
\<close>

subsection \<open>The history ring\<close>

definition RingCapacity :: nat where "RingCapacity = 256"

record ring =
  entries :: "runes list"
  r_head :: nat
  r_size :: nat

definition NewRing :: ring where
  "NewRing = \<lparr>entries = replicate RingCapacity [], r_head = 0, r_size = 0\<rparr>"

definition Ring_Len :: "ring \<Rightarrow> nat" where
  "Ring_Len r = r_size r"

definition Ring_Push :: "ring \<Rightarrow> runes \<Rightarrow> ring" where
  "Ring_Push r entry =
     (if entry = [] then r
      else if r_size r > 0 \<and> entries r ! ((r_head r + RingCapacity - 1) mod RingCapacity) = entry then r
      else r\<lparr>entries := (entries r)[r_head r := entry],
             r_head := (r_head r + 1) mod RingCapacity,
             r_size := (if r_size r < RingCapacity then r_size r + 1 else r_size r)\<rparr>)"

definition Ring_At :: "ring \<Rightarrow> int \<Rightarrow> runes \<times> bool" where
  "Ring_At r idx =
     (if idx < 0 \<or> idx \<ge> int (r_size r) then ([], False)
      else (entries r ! ((r_head r + RingCapacity - r_size r + nat idx) mod RingCapacity), True))"

definition Ring_Clone :: "ring \<Rightarrow> ring" where
  "Ring_Clone r = \<lparr>entries = entries r, r_head = r_head r, r_size = r_size r\<rparr>"

text \<open>The history a ring stands for, oldest entry first, and what pushing does to it.\<close>

definition ring_ok :: "ring \<Rightarrow> bool" where
  "ring_ok r \<longleftrightarrow> length (entries r) = RingCapacity \<and> r_head r < RingCapacity \<and> r_size r \<le> RingCapacity"

definition ring_list :: "ring \<Rightarrow> runes list" where
  "ring_list r = map (\<lambda>i. entries r ! ((r_head r + RingCapacity - r_size r + i) mod RingCapacity)) [0..<r_size r]"

definition hist_push :: "runes list \<Rightarrow> runes \<Rightarrow> runes list" where
  "hist_push h e =
     (if e = [] \<or> h \<noteq> [] \<and> last h = e then h
      else (if length h < RingCapacity then h else tl h) @ [e])"

subsection \<open>Modes\<close>

datatype mode = ModeNatural | ModeSlash | ModeSQL

definition Mode_String :: "mode \<Rightarrow> string" where
  "Mode_String m = (case m of ModeNatural \<Rightarrow> ''natural'' | ModeSlash \<Rightarrow> ''slash'' | ModeSQL \<Rightarrow> ''sql'')"

definition TriggerRune :: "mode \<Rightarrow> rune" where
  "TriggerRune m = (case m of ModeSlash \<Rightarrow> 47 | ModeSQL \<Rightarrow> 92 | ModeNatural \<Rightarrow> 0)"

definition DeriveMode :: "runes \<Rightarrow> mode" where
  "DeriveMode buffer =
     (case buffer of
        [] \<Rightarrow> ModeNatural
      | c # _ \<Rightarrow> if c = 47 then ModeSlash else if c = 92 then ModeSQL else ModeNatural)"

text \<open>Both triggers are one byte long, so slicing one byte drops the first rune.\<close>

definition ValueWithoutPrefix :: "runes \<Rightarrow> runes" where
  "ValueWithoutPrefix buffer =
     (if DeriveMode buffer = ModeNatural \<or> buffer = [] then buffer else drop 1 buffer)"

subsection \<open>Cursor movement and edits\<close>

datatype movement = MoveNone | MoveLeft | MoveRight | MoveHome | MoveEnd

definition clamp_cursor :: "runes \<Rightarrow> int \<Rightarrow> int" where
  "clamp_cursor buffer cursor =
     (let c = (if cursor < 0 then 0 else cursor)
      in if c > int (length buffer) then int (length buffer) else c)"

definition MoveCursor :: "runes \<Rightarrow> int \<Rightarrow> movement \<Rightarrow> int" where
  "MoveCursor buffer cursor movement =
     (let runeCount = int (length buffer); cursor = clamp_cursor buffer cursor in
      case movement of
        MoveLeft \<Rightarrow> if cursor > 0 then cursor - 1 else 0
      | MoveRight \<Rightarrow> if cursor < runeCount then cursor + 1 else runeCount
      | MoveHome \<Rightarrow> 0
      | MoveEnd \<Rightarrow> runeCount
      | MoveNone \<Rightarrow> cursor)"

definition KeyBackspace :: int where "KeyBackspace = 8"
definition KeyEnter :: int where "KeyEnter = 13"
definition KeyEscape :: int where "KeyEscape = 27"
definition KeyCtrlA :: int where "KeyCtrlA = 65"
definition KeyCtrlC :: int where "KeyCtrlC = 67"
definition KeyCtrlE :: int where "KeyCtrlE = 69"
definition KeyCtrlBackslash :: int where "KeyCtrlBackslash = 92"
definition KeyRune :: int where "KeyRune = 256"
definition KeyUp :: int where "KeyUp = 257"
definition KeyDown :: int where "KeyDown = 258"
definition KeyRight :: int where "KeyRight = 259"
definition KeyLeft :: int where "KeyLeft = 260"
definition KeyDelete :: int where "KeyDelete = 271"

lemmas key_codes = KeyBackspace_def KeyEnter_def KeyEscape_def KeyCtrlA_def KeyCtrlC_def KeyCtrlE_def
  KeyCtrlBackslash_def KeyRune_def KeyUp_def KeyDown_def KeyRight_def KeyLeft_def KeyDelete_def

definition enc_rune :: "rune \<Rightarrow> rune" where
  "enc_rune r = (if r < 0 \<or> r > 1114111 \<or> 55296 \<le> r \<and> r \<le> 57343 then 65533 else r)"

definition ResolveMode :: "runes \<Rightarrow> int \<Rightarrow> int \<Rightarrow> rune \<Rightarrow> runes \<times> int" where
  "ResolveMode buffer cursor code r =
     (let cursor = clamp_cursor buffer cursor; c = nat cursor in
      if code = KeyRune then (take c buffer @ [enc_rune r] @ drop c buffer, cursor + 1)
      else if code = KeyBackspace then
        (if cursor = 0 \<or> buffer = [] then (buffer, cursor)
         else (take (c - 1) buffer @ drop c buffer, cursor - 1))
      else if code = KeyDelete then
        (if cursor \<ge> int (length buffer) \<or> buffer = [] then (buffer, cursor)
         else (take c buffer @ drop (c + 1) buffer, cursor))
      else (buffer, cursor))"

subsection \<open>Key bindings\<close>

datatype action = ActionNone | ActionInsertRune | ActionDeleteBackward | ActionDeleteForward | ActionMoveLeft
  | ActionMoveRight | ActionMoveHome | ActionMoveEnd | ActionHistoryPrev | ActionHistoryNext | ActionSubmit
  | ActionCancel | ActionQuit

record key_event =
  Code :: int
  KRune :: rune
  Mod :: u8

definition defaultBindings :: "int \<Rightarrow> action option" where
  "defaultBindings =
     [KeyBackspace \<mapsto> ActionDeleteBackward, KeyEnter \<mapsto> ActionSubmit, KeyEscape \<mapsto> ActionCancel,
      KeyCtrlA \<mapsto> ActionMoveHome, KeyCtrlC \<mapsto> ActionQuit, KeyCtrlE \<mapsto> ActionMoveEnd,
      KeyCtrlBackslash \<mapsto> ActionQuit, KeyUp \<mapsto> ActionHistoryPrev, KeyDown \<mapsto> ActionHistoryNext,
      KeyRight \<mapsto> ActionMoveRight, KeyLeft \<mapsto> ActionMoveLeft, KeyDelete \<mapsto> ActionDeleteForward]"

definition Resolve :: "key_event \<Rightarrow> action" where
  "Resolve event =
     (if Code event = KeyRune then ActionInsertRune
      else case defaultBindings (Code event) of Some a \<Rightarrow> a | None \<Rightarrow> ActionNone)"

definition IsReserved :: "action \<Rightarrow> bool" where
  "IsReserved a \<longleftrightarrow> a = ActionQuit"

definition ActionToMovement :: "action \<Rightarrow> movement" where
  "ActionToMovement a =
     (case a of ActionMoveLeft \<Rightarrow> MoveLeft | ActionMoveRight \<Rightarrow> MoveRight | ActionMoveHome \<Rightarrow> MoveHome
      | ActionMoveEnd \<Rightarrow> MoveEnd | _ \<Rightarrow> MoveNone)"

text \<open>The edit a key makes to the line: what \<open>handleAction\<close> does with an editing or movement action.\<close>

definition edit_key :: "key_event \<Rightarrow> runes \<times> int \<Rightarrow> runes \<times> int" where
  "edit_key k bc =
     (case Resolve k of
        ActionInsertRune \<Rightarrow> ResolveMode (fst bc) (snd bc) (Code k) (KRune k)
      | ActionDeleteBackward \<Rightarrow> ResolveMode (fst bc) (snd bc) (Code k) (KRune k)
      | ActionDeleteForward \<Rightarrow> ResolveMode (fst bc) (snd bc) (Code k) (KRune k)
      | ActionMoveLeft \<Rightarrow> (fst bc, MoveCursor (fst bc) (snd bc) (ActionToMovement (Resolve k)))
      | ActionMoveRight \<Rightarrow> (fst bc, MoveCursor (fst bc) (snd bc) (ActionToMovement (Resolve k)))
      | ActionMoveHome \<Rightarrow> (fst bc, MoveCursor (fst bc) (snd bc) (ActionToMovement (Resolve k)))
      | ActionMoveEnd \<Rightarrow> (fst bc, MoveCursor (fst bc) (snd bc) (ActionToMovement (Resolve k)))
      | _ \<Rightarrow> bc)"

subsection \<open>The line as a zipper\<close>

text \<open>The text left of the cursor and the text right of it.\<close>

definition zip_line :: "runes \<times> int \<Rightarrow> runes \<times> runes" where
  "zip_line bc = (take (nat (snd bc)) (fst bc), drop (nat (snd bc)) (fst bc))"

definition zip_key :: "key_event \<Rightarrow> runes \<times> runes \<Rightarrow> runes \<times> runes" where
  "zip_key k lr =
     (case lr of (l, r) \<Rightarrow>
      case Resolve k of
        ActionInsertRune \<Rightarrow> (l @ [enc_rune (KRune k)], r)
      | ActionDeleteBackward \<Rightarrow> (butlast l, r)
      | ActionDeleteForward \<Rightarrow> (l, tl r)
      | ActionMoveLeft \<Rightarrow> if l = [] then (l, r) else (butlast l, last l # r)
      | ActionMoveRight \<Rightarrow> (case r of [] \<Rightarrow> (l, r) | c # r' \<Rightarrow> (l @ [c], r'))
      | ActionMoveHome \<Rightarrow> ([], l @ r)
      | ActionMoveEnd \<Rightarrow> (l @ r, [])
      | _ \<Rightarrow> (l, r))"

definition cursor_ok :: "runes \<times> int \<Rightarrow> bool" where
  "cursor_ok bc \<longleftrightarrow> 0 \<le> snd bc \<and> snd bc \<le> int (length (fst bc))"

lemma clamp_id: "cursor_ok (b, c) \<Longrightarrow> clamp_cursor b c = c"
  by (simp add: cursor_ok_def clamp_cursor_def Let_def)

lemma clamp_ok: "cursor_ok (b, clamp_cursor b c)"
  by (simp add: cursor_ok_def clamp_cursor_def Let_def)

lemma Resolve_code:
  "Resolve k = ActionDeleteBackward \<longleftrightarrow> Code k = KeyBackspace"
  "Resolve k = ActionDeleteForward \<longleftrightarrow> Code k = KeyDelete"
  "Resolve k = ActionInsertRune \<longleftrightarrow> Code k = KeyRune"
  by (auto simp: Resolve_def defaultBindings_def key_codes)

lemma edit_key_zip:
  assumes "cursor_ok (b, c)"
  shows "cursor_ok (edit_key k (b, c)) \<and> zip_line (edit_key k (b, c)) = zip_key k (zip_line (b, c))"
proof -
  obtain n where c: "c = int n" "n \<le> length b" using assms by (auto simp: cursor_ok_def elim: nonneg_int_cases)
  note defs = edit_key_def zip_key_def zip_line_def cursor_ok_def Let_def
  note clamp = clamp_id [OF assms, unfolded c(1)]
  show ?thesis
  proof (cases "Resolve k")
    case ActionInsertRune
    moreover from this have "Code k = KeyRune" using Resolve_code(3) by blast
    ultimately show ?thesis using c by (simp add: defs ResolveMode_def clamp nat_add_distrib)
  next
    case ActionDeleteBackward
    moreover from this have "Code k = KeyBackspace" using Resolve_code(1) by blast
    moreover have "clamp_cursor b 0 = 0" if "n = 0" using clamp that by simp
    moreover have "butlast (take n b) = take (n - 1) b" using c by (simp add: butlast_take)
    ultimately show ?thesis using c
      by (cases "n = 0") (auto simp: defs ResolveMode_def clamp key_codes nat_diff_distrib')
  next
    case ActionDeleteForward
    moreover from this have "Code k = KeyDelete" using Resolve_code(2) by blast
    ultimately show ?thesis using c by (auto simp: defs ResolveMode_def clamp key_codes drop_Suc tl_drop)
  next
    case ActionMoveLeft
    show ?thesis
    proof (cases n)
      case (Suc m)
      with c have "take n b = take m b @ [b ! m]" "drop m b = b ! m # drop n b"
        by (simp_all add: take_Suc_conv_app_nth Cons_nth_drop_Suc)
      moreover have "clamp_cursor b (1 + int m) = 1 + int m" "nat (1 + int m) = Suc m" "b \<noteq> []"
        using clamp Suc c by auto
      ultimately show ?thesis using ActionMoveLeft c Suc by (simp add: defs MoveCursor_def ActionToMovement_def)
    qed (use ActionMoveLeft c clamp in \<open>simp add: defs MoveCursor_def ActionToMovement_def\<close>)
  next
    case ActionMoveRight
    show ?thesis
    proof (cases "n < length b")
      case True
      then have "drop n b = b ! n # drop (Suc n) b" "take (Suc n) b = take n b @ [b ! n]"
        by (simp_all add: take_Suc_conv_app_nth Cons_nth_drop_Suc)
      with ActionMoveRight c True show ?thesis
        by (simp add: defs MoveCursor_def ActionToMovement_def clamp nat_add_distrib)
    qed (use ActionMoveRight c clamp in \<open>simp add: defs MoveCursor_def ActionToMovement_def\<close>)
  qed (use c clamp in \<open>simp_all add: defs MoveCursor_def ActionToMovement_def clamp\<close>)
qed

subsection \<open>The ring as a list\<close>

lemma length_ring_list [simp]: "length (ring_list r) = r_size r"
  by (simp add: ring_list_def)

lemma NewRing_ok: "ring_ok NewRing" "ring_list NewRing = []"
  by (simp_all add: ring_ok_def NewRing_def ring_list_def RingCapacity_def)

lemma ring_last:
  assumes "ring_ok r" and "0 < r_size r"
  shows "last (ring_list r) = entries r ! ((r_head r + RingCapacity - 1) mod RingCapacity)"
proof -
  have "ring_list r \<noteq> []" using assms(2) by (simp add: ring_list_def)
  then have "last (ring_list r) = ring_list r ! (r_size r - 1)" by (simp add: last_conv_nth)
  also have "\<dots> = entries r ! ((r_head r + RingCapacity - r_size r + (r_size r - 1)) mod RingCapacity)"
    using assms(2) by (simp add: ring_list_def)
  also have "r_head r + RingCapacity - r_size r + (r_size r - 1) = r_head r + RingCapacity - 1"
    using assms by (simp add: ring_ok_def)
  finally show ?thesis .
qed

lemma ring_slot:
  assumes "ring_ok r" and "k < r_size r" and "r_size r < RingCapacity \<or> 0 < k"
  shows "(r_head r + RingCapacity - r_size r + k) mod RingCapacity \<noteq> r_head r"
proof
  let ?C = "RingCapacity" let ?x = "r_head r + ?C - r_size r + k"
  assume eq: "?x mod ?C = r_head r"
  have x: "?x < r_head r + ?C" "r_head r < ?C" using assms by (auto simp: ring_ok_def)
  have "?x = r_head r + ?C * (?x div ?C)" using eq mult_div_mod_eq [of ?C ?x] by simp
  moreover have "?x div ?C \<le> 0"
  proof (rule ccontr)
    assume "\<not> ?x div ?C \<le> 0"
    then have "?C * 1 \<le> ?C * (?x div ?C)" by (intro mult_le_mono2) simp
    with \<open>?x = _\<close> x show False by simp
  qed
  ultimately have "?x = r_head r" by simp
  with assms show False by (auto simp: ring_ok_def)
qed

lemma Ring_Push_list:
  assumes ok: "ring_ok r"
  shows "ring_ok (Ring_Push r e) \<and> ring_list (Ring_Push r e) = hist_push (ring_list r) e"
proof (cases "e = [] \<or> ring_list r \<noteq> [] \<and> last (ring_list r) = e")
  case True
  then have "Ring_Push r e = r" using ring_last [OF ok] by (auto simp: Ring_Push_def ring_list_def)
  with True ok show ?thesis by (simp add: hist_push_def)
next
  case False
  let ?C = "RingCapacity" let ?s = "r_size r" let ?h = "r_head r"
  define r' where "r' = r\<lparr>entries := (entries r)[?h := e], r_head := (?h + 1) mod ?C,
             r_size := (if ?s < ?C then ?s + 1 else ?s)\<rparr>"
  have push: "Ring_Push r e = r'"
    using False ring_last [OF ok] by (auto simp: Ring_Push_def r'_def ring_list_def)
  have C: "0 < ?C" by (simp add: RingCapacity_def)
  have h: "?h < ?C" "?s \<le> ?C" "length (entries r) = ?C" using ok by (simp_all add: ring_ok_def)
  have ok': "ring_ok r'" using ok C by (auto simp: r'_def ring_ok_def)
  have pos: "((?h + 1) mod ?C + ?C - r_size r' + i) mod ?C = (?h + 1 + ?C - r_size r' + i) mod ?C" for i
  proof -
    have "r_size r' \<le> ?C" using ok' by (simp add: ring_ok_def)
    then have "(?h + 1) mod ?C + ?C - r_size r' + i = (?h + 1) mod ?C + (?C - r_size r' + i)"
      "?h + 1 + ?C - r_size r' + i = (?h + 1) + (?C - r_size r' + i)" by simp_all
    then show ?thesis by (simp only: mod_add_left_eq)
  qed
  have nth: "ring_list r' ! i = (entries r)[?h := e] ! ((?h + 1 + ?C - r_size r' + i) mod ?C)" if "i < r_size r'" for i
    using that pos by (simp add: ring_list_def r'_def)
  have "ring_list r' = (if ?s < ?C then ring_list r else tl (ring_list r)) @ [e]"
  proof (rule nth_equalityI)
    show "length (ring_list r') = length ((if ?s < ?C then ring_list r else tl (ring_list r)) @ [e])"
      using h C by (simp add: r'_def)
    fix i assume i: "i < length (ring_list r')"
    show "ring_list r' ! i = ((if ?s < ?C then ring_list r else tl (ring_list r)) @ [e]) ! i"
    proof (cases "i = r_size r' - 1")
      case True
      then have "(?h + 1 + ?C - r_size r' + i) mod ?C = ?h"
        using h C i by (simp add: r'_def)
      with True i h C show ?thesis
        by (simp add: nth) (simp add: r'_def nth_append nth_tl)
    next
      case less: False
      define k where "k = (if ?s < ?C then i else i + 1)"
      have k: "k < ?s" "?s < ?C \<or> 0 < k" using less i h by (auto simp: k_def r'_def split: if_splits)
      have "?h + 1 + ?C - r_size r' + i = ?h + ?C - ?s + k" using h by (simp add: k_def r'_def)
      then have "ring_list r' ! i = entries r ! ((?h + ?C - ?s + k) mod ?C)"
        using i ring_slot [OF ok k] by (simp add: nth)
      also have "\<dots> = ring_list r ! k" using k by (simp add: ring_list_def)
      finally show ?thesis using k i h less by (auto simp: k_def nth_append nth_tl r'_def split: if_splits)
    qed
  qed
  moreover have "hist_push (ring_list r) e = (if ?s < ?C then ring_list r else tl (ring_list r)) @ [e]"
    unfolding hist_push_def using False by auto
  ultimately show ?thesis using push ok' by simp
qed

lemma Ring_At_list:
  "ring_ok r \<Longrightarrow> Ring_At r i = (if 0 \<le> i \<and> i < int (length (ring_list r)) then (ring_list r ! nat i, True) else ([], False))"
  by (auto simp: Ring_At_def ring_list_def)

subsection \<open>Properties\<close>

text \<open>C37: The 256-slot history ring refines a plain list: after any pushes it holds exactly what the list
  specification holds (empty entries and repeats of the newest entry are skipped, the oldest entry falls out when
  256 are stored), \<open>At\<close> reads it oldest first and reports everything else out of range.\<close>

theorem ring_refines_history:
  "let r = fold (\<lambda>e r. Ring_Push r e) es NewRing; h = fold (\<lambda>e h. hist_push h e) es [] in
   Ring_Len r = length h \<and> length h \<le> 256 \<and>
   Ring_At (Ring_Clone r) i = (if 0 \<le> i \<and> i < int (length h) then (h ! nat i, True) else ([], False))"
proof -
  have step: "ring_ok (fold (\<lambda>e r. Ring_Push r e) es r) \<and>
      ring_list (fold (\<lambda>e r. Ring_Push r e) es r) = fold (\<lambda>e h. hist_push h e) es (ring_list r)"
    if "ring_ok r" for r es
    using that
  proof (induction es arbitrary: r)
    case (Cons e es)
    with Ring_Push_list [of r e] show ?case by simp
  qed simp
  let ?r = "fold (\<lambda>e r. Ring_Push r e) es NewRing"
  have r: "ring_ok ?r" "ring_list ?r = fold (\<lambda>e h. hist_push h e) es []" using step [OF NewRing_ok(1)] NewRing_ok(2) by simp_all
  have "Ring_Clone ?r = ?r" by (simp add: Ring_Clone_def)
  with r Ring_At_list [OF r(1), of i] length_ring_list [of ?r] show ?thesis
    by (simp add: Let_def Ring_Len_def ring_ok_def RingCapacity_def del: length_ring_list)
qed

text \<open>C38: Line editing refines the text split at the cursor: every key decoded by the key bindings does to the
  buffer and rune cursor what inserting before, deleting before or after, or moving the split point does, and the
  cursor never leaves the buffer.\<close>

theorem edit_refines_zipper:
  assumes "0 \<le> c" and "c \<le> int (length b)"
  shows "let bc = fold edit_key ks (b, c) in
    0 \<le> snd bc \<and> snd bc \<le> int (length (fst bc)) \<and>
    zip_line bc = fold zip_key ks (take (nat c) b, drop (nat c) b)"
proof -
  have "cursor_ok (fold edit_key ks bc) \<and> zip_line (fold edit_key ks bc) = fold zip_key ks (zip_line bc)"
    if "cursor_ok bc" for bc
    using that
  proof (induction ks arbitrary: bc)
    case (Cons k ks)
    with edit_key_zip [of "fst bc" "snd bc" k] show ?case by simp
  qed simp
  from this [of "(b, c)"] assms show ?thesis by (simp add: cursor_ok_def zip_line_def Let_def)
qed

theorem edit_refines_zipper_witness:
  "zip_line (fold edit_key [\<lparr>Code = 256, KRune = 104, Mod = 0\<rparr>, \<lparr>Code = 260, KRune = 0, Mod = 0\<rparr>] ([], 0)) = ([], [104])"
  using edit_refines_zipper [of 0 "[]" "[\<lparr>Code = 256, KRune = 104, Mod = 0\<rparr>, \<lparr>Code = 260, KRune = 0, Mod = 0\<rparr>]"]
  by (simp add: Let_def zip_key_def Resolve_def defaultBindings_def key_codes enc_rune_def)

text \<open>Typing is undone by Backspace: inserting any rune at any cursor, even one outside the buffer, and deleting
  backward gives the buffer back with the cursor clamped into it.\<close>

theorem insert_backspace:
  "case ResolveMode buffer cursor KeyRune r of
     (b, c) \<Rightarrow> ResolveMode b c KeyBackspace r' = (buffer, clamp_cursor buffer cursor)"
proof -
  obtain n where n: "clamp_cursor buffer cursor = int n" "n \<le> length buffer"
    using clamp_ok [of buffer cursor] by (auto simp: cursor_ok_def elim: nonneg_int_cases)
  have "clamp_cursor (take n buffer @ enc_rune r # drop n buffer) (int n + 1) = int n + 1"
    using n(2) by (simp add: clamp_cursor_def Let_def)
  with n show ?thesis
    by (simp add: ResolveMode_def Let_def key_codes nat_add_distrib)
qed

end
