(* ===== verification/ChatModel.thy ===== *)
theory ChatModel
  imports DiagLoop TokenStream Input Style
begin

text \<open>
  \<open>internal/app/cli/llmapp\<close>: the chat model.  \<open>Update\<close> is the pure transition function of \<open>model.go\<close>, with
  the handlers it calls; \<open>snapshot.go\<close> and \<open>loop_adapter.go\<close> turn the events of a diagnose run into control
  messages.  A returned command is a value of \<open>cmd\<close>; what its closure does when the scheduler runs it is
  said there.  \<open>cancel\<close> and \<open>control\<close> are non-nil exactly when \<open>cm_cancel\<close> and \<open>cm_control\<close> hold.  Times are left
  out of snapshots.  The Markdown text \<open>report.Generate\<close> makes of a snapshot is the argument \<open>generate\<close>.
\<close>

subsection \<open>Texts\<close>

text \<open>The bytes of a line of runes.\<close>

definition rune_bytes :: "runes \<Rightarrow> string" where
  "rune_bytes b = utf8 b"

definition cancelled_marker :: string where
  "cancelled_marker = ''['' @ utf8 [24050, 21462, 28040] @ '']''"

definition max_turns_marker :: string where
  "max_turns_marker = ''[DIAGNOSE.MAX_TURNS: '' @ utf8 [35786, 26029, 36718, 25968, 36798, 19978, 38480] @ '']''"

definition total_timeout_marker :: string where
  "total_timeout_marker = ''[DIAGNOSE.TOTAL_TIMEOUT: '' @ utf8 [35786, 26029, 24635, 26102, 38271, 36229, 38480] @ '']''"

definition tool_unknown_marker :: string where
  "tool_unknown_marker = ''[DIAGNOSE.TOOL_UNKNOWN: ''
      @ utf8 [27169, 22411, 35831, 27714, 26410, 27880, 20876, 30340, 24037, 20855] @ '']''"

definition unexpected_pause_marker :: string where
  "unexpected_pause_marker = ''[DIAGNOSE.UNEXPECTED_PAUSE: '' @ utf8 [38750, 39044, 26399] @ '' pause_turn]''"

definition refusal_marker :: string where
  "refusal_marker = ''[LLM.PROVIDER_REFUSAL: '' @ utf8 [27169, 22411, 25298, 32477, 29983, 25104] @ '']''"

definition stream_empty_marker :: string where
  "stream_empty_marker = ''[LLM.STREAM_EMPTY: '' @ utf8 [26080, 21487, 35265, 36755, 20986] @ '']''"

definition truncated_marker :: string where
  "truncated_marker = ''['' @ utf8 [25130, 26029] @ '': '' @ utf8 [36798, 21040] @ '' max_tokens]''"

definition error_prefix :: string where
  "error_prefix = ''['' @ utf8 [38169, 35823] @ '': ''"

definition reportNoDiagnosisMsg :: string where
  "reportNoDiagnosisMsg =
     utf8 [36824, 27809, 26377, 21487, 29983, 25104, 25253, 21578, 30340, 35786, 26029, 65307, 20808, 38382, 19968, 20010, 35786, 26029, 38382, 39064, 65292, 23436, 25104, 21518, 20877]
      @ '' /report'' @ utf8 [12290]"

definition reportStreamingBusyMsg :: string where
  "reportStreamingBusyMsg = utf8 [35786, 26029, 36827, 34892, 20013, 65292, 35831, 31561, 23436, 25104, 21518, 20877]
      @ '' /report'' @ utf8 [12290]"

definition reportWrittenPrefix :: string where
  "reportWrittenPrefix = utf8 [25253, 21578, 24050, 20889, 20837] @ '': ''"

definition reportWriteFailPrefix :: string where
  "reportWriteFailPrefix = utf8 [25253, 21578, 24050, 28210, 26579, 65292, 20294, 20889, 20837, 25991, 20214, 22833, 36133]
      @ '': ''"

definition reportHeaderTitle :: string where
  "reportHeaderTitle = utf8 [35786, 26029, 25253, 21578]"

definition thinking_marker :: string where
  "thinking_marker = ''['' @ utf8 [27169, 22411, 20165, 36820, 22238] @ '' thinking;'' @ utf8 [22914, 38656, 26597, 30475, 35831, 35774, 32622] @ '' strip_think: false]''"

subsection \<open>Snapshots and control messages\<close>

record 'i tool_event =
  te_Name :: string
  te_Input :: 'i
  te_Result :: string
  te_IsError :: bool
  te_Cached :: bool

record 'i snapshot =
  sn_Prompt :: string
  sn_FinalAnswer :: string
  sn_ToolTimeline :: "'i tool_event list"
  sn_Turns :: int
  sn_FinishStatus :: finish_reason
  sn_TermCode :: string

record 'i control_msg =
  PreviewTick :: bool
  SealedText :: string
  SealedTruncated :: bool
  Thinking :: bool
  ThinkingToken :: string
  ct_ToolUse :: "'i llm_tool_use option"
  ct_ToolResult :: "llm_tool_result option"
  ct_Cached :: bool
  ct_Finish :: finish_reason
  ct_TermCode :: string
  ct_Err :: "go_error option"
  ct_Snapshot :: "'i snapshot option"

definition control0 :: "'i control_msg" where
  "control0 =
     \<lparr>PreviewTick = False, SealedText = [], SealedTruncated = False, Thinking = False, ThinkingToken = [],
      ct_ToolUse = None, ct_ToolResult = None, ct_Cached = False, ct_Finish = finish_reason.FinishUnset, ct_TermCode = [],
      ct_Err = None, ct_Snapshot = None\<rparr>"

datatype 'i chat_msg =
    KeyActionMsg key_event action
  | CancelCmdMsg
  | ReadControlMsg
  | StreamControlMsg "'i control_msg"
  | StreamDoneMsg
  | ReportWrittenMsg string
  | ReportWriteFailedMsg go_error

text \<open>
  \<open>PullControl\<close> receives one control message, or \<open>StreamDoneMsg\<close> once the channel is closed; \<open>ArmReader\<close>
  answers \<open>ReadControlMsg\<close>; \<open>CallCancel\<close> calls the cancel function; \<open>LoopStart\<close> starts the run and answers
  \<open>ReadControlMsg\<close>; \<open>WriteReport\<close> writes the report.
\<close>

datatype 'i cmd =
    NoCmd
  | PullControl
  | ArmReader
  | CallCancel
  | LoopStart "'i request" string
  | WriteReport string

subsection \<open>The model\<close>

definition defaultMaxHistory :: int where "defaultMaxHistory = 50"
definition defaultMaxTokens :: int where "defaultMaxTokens = 4096"

record chat_options =
  co_ModelName :: string
  co_SystemPrompt :: string
  co_MaxTokens :: int
  co_MaxHistory :: int
  co_StripThink :: bool
  co_ThinkingMode :: thinking_mode
  co_ThinkingBudget :: int
  co_Welcome :: bool
  co_Cwd :: string
  co_GitBranch :: string

record 'i chat =
  cm_modelName :: string
  cm_systemPrompt :: string
  cm_maxTokens :: int
  cm_maxHistory :: int
  cm_stripThink :: bool
  cm_thinkingMode :: thinking_mode
  cm_thinkingBudget :: int
  cm_buffer :: runes
  cm_cursor :: int
  cm_history :: "'i llm_message list"
  cm_stream :: "token_stream option"
  cm_control :: bool
  cm_previewNodes :: "'i node list"
  cm_cancel :: bool
  cm_streaming :: bool
  cm_sawContent :: bool
  cm_sawThinking :: bool
  cm_thinkingBuf :: string
  cm_finishHandled :: bool
  cm_toolUseNames :: "string \<Rightarrow> string"
  cm_scrollback :: "'i node list"
  cm_sealedTruncated :: bool
  cm_lastSnapshot :: "'i snapshot option"
  cm_cwd :: string
  cm_gitBranch :: string

text \<open>A Go map of strings answers the empty string for a missing key.\<close>

definition New_chat :: "chat_options \<Rightarrow> 'i chat" where
  "New_chat opts =
     \<lparr>cm_modelName = co_ModelName opts, cm_systemPrompt = co_SystemPrompt opts,
      cm_maxTokens = (if co_MaxTokens opts \<le> 0 then defaultMaxTokens else co_MaxTokens opts),
      cm_maxHistory = (if co_MaxHistory opts \<le> 0 then defaultMaxHistory else co_MaxHistory opts),
      cm_stripThink = co_StripThink opts, cm_thinkingMode = co_ThinkingMode opts, cm_thinkingBudget = co_ThinkingBudget opts,
      cm_buffer = [], cm_cursor = 0, cm_history = [], cm_stream = None, cm_control = False, cm_previewNodes = [],
      cm_cancel = False, cm_streaming = False, cm_sawContent = False, cm_sawThinking = False, cm_thinkingBuf = [],
      cm_finishHandled = False, cm_toolUseNames = (\<lambda>_. []), cm_scrollback = (if co_Welcome opts then [WelcomeNode] else []),
      cm_sealedTruncated = False, cm_lastSnapshot = None, cm_cwd = co_Cwd opts, cm_gitBranch = co_GitBranch opts\<rparr>"

subsection \<open>Helpers\<close>

definition appendBounded :: "'i llm_message list \<Rightarrow> 'i llm_message \<Rightarrow> int \<Rightarrow> 'i llm_message list" where
  "appendBounded history m bound =
     (let next = history @ [m] in
      if int (length next) > bound then drop (nat (int (length next) - bound)) next else next)"

definition filterThinkingOnlyEmpty :: "'i node list \<Rightarrow> bool \<Rightarrow> bool \<Rightarrow> 'i node list" where
  "filterThinkingOnlyEmpty nodes sawThinking sawContent =
     (if \<not> sawThinking \<or> sawContent \<or> nodes = [] then nodes
      else filter (\<lambda>n. case n of MessageNode m \<Rightarrow> \<not> Empty m | _ \<Rightarrow> True) nodes)"

fun markFirstAssistant :: "'i node list \<Rightarrow> 'i node list" where
  "markFirstAssistant [] = []"
| "markFirstAssistant (n # ns) =
     (case n of
        MessageNode m \<Rightarrow> if Text m = [] \<or> Empty m then n # markFirstAssistant ns
                          else MessageNode (m\<lparr>Speaker := SpeakerAssistant\<rparr>) # ns
      | _ \<Rightarrow> n # markFirstAssistant ns)"

text \<open>Walking from the tail is walking the reversed list.\<close>

fun transition_rev :: "string \<Rightarrow> tool_state \<Rightarrow> 'i node list \<Rightarrow> 'i node list" where
  "transition_rev i st [] = []"
| "transition_rev i st (n # ns) =
     (case n of
        ToolUseNode tu \<Rightarrow> if tu_ID tu = i then ToolUseNode (tu\<lparr>tu_State := st\<rparr>) # ns else n # transition_rev i st ns
      | _ \<Rightarrow> n # transition_rev i st ns)"

definition transitionToolUseState :: "'i node list \<Rightarrow> string \<Rightarrow> tool_state \<Rightarrow> 'i node list" where
  "transitionToolUseState sb i st = rev (transition_rev i st (rev sb))"

definition isCancelledFinish :: "'i control_msg \<Rightarrow> bool" where
  "isCancelledFinish m \<longleftrightarrow>
     ct_Finish m = finish_reason.FinishCancelled \<or> ct_Finish m = finish_reason.FinishError \<and> Is_opt (ct_Err m) Canceled"

definition notice :: "string \<Rightarrow> 'i node" where
  "notice t = MessageNode (plain_msg t)"

definition said_by :: "speaker \<Rightarrow> string \<Rightarrow> bool \<Rightarrow> 'i node" where
  "said_by sp t trunc = MessageNode ((plain_msg t)\<lparr>Truncated := trunc, Speaker := sp\<rparr>)"

definition drain_preview :: "'i chat \<Rightarrow> 'i node list \<times> 'i chat" where
  "drain_preview m =
     (case cm_stream m of
        None \<Rightarrow> ([], m)
      | Some ts \<Rightarrow> (case Drain ts of (ms, ts') \<Rightarrow> (map MessageNode ms, m\<lparr>cm_stream := Some ts'\<rparr>)))"

definition isReportCommand :: "runes \<Rightarrow> bool" where
  "isReportCommand b \<longleftrightarrow> DeriveMode b = ModeSlash \<and> ValueWithoutPrefix b = [114, 101, 112, 111, 114, 116]"

subsection \<open>Control messages\<close>

definition appendFinishNode :: "'i control_msg \<Rightarrow> 'i chat \<Rightarrow> 'i node list" where
  "appendFinishNode msg m =
     (if ct_TermCode msg = ''DIAGNOSE.MAX_TURNS'' then cm_scrollback m @ [notice max_turns_marker]
      else if ct_TermCode msg = ''DIAGNOSE.TOTAL_TIMEOUT'' then cm_scrollback m @ [notice total_timeout_marker]
      else if ct_TermCode msg = ''DIAGNOSE.TOOL_UNKNOWN'' then cm_scrollback m @ [notice tool_unknown_marker]
      else if ct_TermCode msg = ''DIAGNOSE.UNEXPECTED_PAUSE'' then cm_scrollback m @ [notice unexpected_pause_marker]
      else
        let base = (if cm_thinkingBuf m \<noteq> [] then cm_scrollback m @ [ThinkingNode (cm_thinkingBuf m) True] else cm_scrollback m) in
        if cm_sawThinking m \<and> \<not> cm_sawContent m \<and> ct_Finish msg = finish_reason.FinishStop
        then (if cm_thinkingBuf m \<noteq> [] then base else base @ [notice thinking_marker])
        else if isCancelledFinish msg then base @ [notice cancelled_marker]
        else if ct_Finish msg = finish_reason.FinishError \<and> ct_Err msg \<noteq> None
        then base @ [notice (error_prefix @ err_text (ct_Err msg) @ '']'')]
        else if ct_Finish msg = finish_reason.FinishRefusal then base @ [notice refusal_marker]
        else if \<not> cm_sawContent m \<and> ct_Finish msg \<noteq> finish_reason.FinishStop then base @ [notice stream_empty_marker]
        else if ct_Finish msg = finish_reason.FinishLength
        then (if cm_sealedTruncated m then base else base @ [notice truncated_marker])
        else base)"

definition control_preview :: "'i chat \<Rightarrow> 'i chat" where
  "control_preview m =
     (case drain_preview m of (nodes, m1) \<Rightarrow>
        m1\<lparr>cm_previewNodes := cm_previewNodes m1 @ filterThinkingOnlyEmpty nodes (cm_sawThinking m) (cm_sawContent m)\<rparr>)"

definition control_sealed :: "'i control_msg \<Rightarrow> 'i chat \<Rightarrow> 'i chat" where
  "control_sealed msg m =
     (snd (drain_preview m))
       \<lparr>cm_sawContent := True, cm_sealedTruncated := SealedTruncated msg,
        cm_scrollback := cm_scrollback m @ [said_by SpeakerAssistant (SealedText msg) (SealedTruncated msg)],
        cm_previewNodes := []\<rparr>"

definition control_tool_use :: "'i llm_tool_use \<Rightarrow> 'i chat \<Rightarrow> 'i chat" where
  "control_tool_use tu m =
     m\<lparr>cm_toolUseNames := (cm_toolUseNames m)(lu_ID tu := lu_Name tu),
       cm_scrollback := cm_scrollback m @
         [ToolUseNode ((NewToolUse (lu_ID tu) (lu_Name tu) (lu_Input tu))\<lparr>tu_State := StateRunning\<rparr>)]\<rparr>"

definition control_tool_result :: "llm_tool_result \<Rightarrow> bool \<Rightarrow> 'i chat \<Rightarrow> 'i chat" where
  "control_tool_result tr cached m =
     (let name = cm_toolUseNames m (lr_ToolUseID tr) in
      if name = [] then m
      else
        let target = (if lr_IsError tr then StateError else StateResolved);
            sb = transitionToolUseState (cm_scrollback m) (lr_ToolUseID tr) target
        in m\<lparr>cm_scrollback := sb @
              [ToolResultNode ((NewToolResult (lr_ToolUseID tr) name (lr_Content tr) (lr_IsError tr))\<lparr>tr_Cached := cached\<rparr>)]\<rparr>)"

definition control_finish :: "'i control_msg \<Rightarrow> 'i chat \<Rightarrow> 'i chat" where
  "control_finish msg m =
     (let m1 = (snd (drain_preview m))\<lparr>cm_finishHandled := True, cm_scrollback := appendFinishNode msg m, cm_previewNodes := []\<rparr>
      in if ct_Snapshot msg \<noteq> None \<and> \<not> isCancelledFinish msg then m1\<lparr>cm_lastSnapshot := ct_Snapshot msg\<rparr> else m1)"

definition handleControl :: "'i control_msg \<Rightarrow> 'i chat \<Rightarrow> 'i chat \<times> 'i cmd" where
  "handleControl msg m =
     (if PreviewTick msg then control_preview m
      else if SealedText msg \<noteq> [] then control_sealed msg m
      else if Thinking msg then m\<lparr>cm_sawThinking := True, cm_thinkingBuf := cm_thinkingBuf m @ ThinkingToken msg\<rparr>
      else case ct_ToolUse msg of
             Some tu \<Rightarrow> control_tool_use tu m
           | None \<Rightarrow>
               (case ct_ToolResult msg of
                  Some tr \<Rightarrow> control_tool_result tr (ct_Cached msg) m
                | None \<Rightarrow> if Terminal (ct_Finish msg) then control_finish msg m else m),
      ArmReader)"

subsection \<open>Keys\<close>

definition user_message :: "string \<Rightarrow> 'i llm_message" where
  "user_message t = \<lparr>Role = RoleUser, Content = [BlockText t]\<rparr>"

definition buildRequest :: "string \<Rightarrow> 'i chat \<Rightarrow> 'i request" where
  "buildRequest userText m =
     \<lparr>rq_System = (if cm_systemPrompt m \<noteq> [] then [(cm_systemPrompt m, True)] else []),
      rq_Messages = cm_history m @ [user_message userText], rq_Tools = [], rq_MaxTokens = cm_maxTokens m,
      rq_Temperature = None, rq_ThinkingMode = cm_thinkingMode m, rq_ThinkingBudget = cm_thinkingBudget m\<rparr>"

definition submit :: "'i chat \<Rightarrow> 'i chat \<times> 'i cmd" where
  "submit m =
     (let userText = rune_bytes (cm_buffer m) in
      (m\<lparr>cm_buffer := [], cm_cursor := 0, cm_stream := Some (NewTokenStream defaultChanCap defaultLineBufCap),
         cm_control := True, cm_cancel := True, cm_streaming := True, cm_sawContent := False, cm_sawThinking := False,
         cm_thinkingBuf := [], cm_previewNodes := [], cm_sealedTruncated := False, cm_finishHandled := False,
         cm_history := appendBounded (cm_history m) (user_message userText) (cm_maxHistory m),
         cm_scrollback := cm_scrollback m @ [said_by SpeakerUser userText False], cm_toolUseNames := (\<lambda>_. [])\<rparr>,
       LoopStart (buildRequest userText m) userText))"

definition handleCancel :: "'i chat \<Rightarrow> 'i chat \<times> 'i cmd" where
  "handleCancel m =
     (if \<not> cm_cancel m then (m\<lparr>cm_buffer := [], cm_cursor := 0\<rparr>, NoCmd) else (m, CallCancel))"

definition dispatchReport :: "('i snapshot \<Rightarrow> string) \<Rightarrow> 'i chat \<Rightarrow> 'i node list \<times> 'i cmd" where
  "dispatchReport generate m =
     (case cm_lastSnapshot m of
        None \<Rightarrow> ([notice reportNoDiagnosisMsg], NoCmd)
      | Some sn \<Rightarrow>
          let md = generate sn in
          ([said_by SpeakerAssistant reportHeaderTitle False, MarkdownNode md], WriteReport md))"

definition handleAction :: "('i snapshot \<Rightarrow> string) \<Rightarrow> key_event \<Rightarrow> action \<Rightarrow> 'i chat \<Rightarrow> 'i chat \<times> 'i cmd" where
  "handleAction generate k a m =
     (if cm_streaming m \<and> a \<noteq> ActionCancel then
        (if a = ActionSubmit \<and> isReportCommand (cm_buffer m)
         then (m\<lparr>cm_scrollback := cm_scrollback m @ [notice reportStreamingBusyMsg]\<rparr>, NoCmd)
         else (m, NoCmd))
      else if a = ActionInsertRune \<or> a = ActionDeleteBackward \<or> a = ActionDeleteForward then
        (case ResolveMode (cm_buffer m) (cm_cursor m) (Code k) (KRune k) of
           (b, c) \<Rightarrow> (m\<lparr>cm_buffer := b, cm_cursor := c\<rparr>, NoCmd))
      else if a = ActionMoveLeft \<or> a = ActionMoveRight \<or> a = ActionMoveHome \<or> a = ActionMoveEnd then
        (m\<lparr>cm_cursor := MoveCursor (cm_buffer m) (cm_cursor m) (ActionToMovement a)\<rparr>, NoCmd)
      else if a = ActionSubmit then
        (if cm_buffer m = [] then (m, NoCmd)
         else if isReportCommand (cm_buffer m) then
           (let m1 = m\<lparr>cm_buffer := [], cm_cursor := 0\<rparr> in
            case dispatchReport generate m1 of (nodes, c) \<Rightarrow> (m1\<lparr>cm_scrollback := cm_scrollback m1 @ nodes\<rparr>, c))
         else submit m)
      else if a = ActionCancel then handleCancel m
      else (m, NoCmd))"

subsection \<open>Update\<close>

definition streamDone :: "'i chat \<Rightarrow> 'i chat" where
  "streamDone m =
     (case drain_preview m of (drained, m1) \<Rightarrow>
        let residual = filterThinkingOnlyEmpty (cm_previewNodes m @ drained) (cm_sawThinking m) (cm_sawContent m);
            m2 = (if residual \<noteq> []
                  then m1\<lparr>cm_scrollback := cm_scrollback m1 @ markFirstAssistant residual, cm_sawContent := True\<rparr> else m1);
            m3 = (if \<not> cm_finishHandled m2 then m2\<lparr>cm_scrollback := cm_scrollback m2 @ [notice cancelled_marker]\<rparr> else m2)
        in m3\<lparr>cm_previewNodes := [], cm_stream := None, cm_control := False, cm_cancel := False, cm_streaming := False,
              cm_sawThinking := False, cm_thinkingBuf := [], cm_sealedTruncated := False, cm_finishHandled := False\<rparr>)"

definition Update :: "('i snapshot \<Rightarrow> string) \<Rightarrow> 'i chat_msg \<Rightarrow> 'i chat \<Rightarrow> 'i chat \<times> 'i cmd" where
  "Update generate msg m =
     (case msg of
        KeyActionMsg k a \<Rightarrow> handleAction generate k a m
      | CancelCmdMsg \<Rightarrow> handleCancel m
      | ReadControlMsg \<Rightarrow> (m, if cm_control m then PullControl else NoCmd)
      | StreamControlMsg c \<Rightarrow> handleControl c m
      | ReportWrittenMsg path \<Rightarrow> (m\<lparr>cm_scrollback := cm_scrollback m @ [notice (reportWrittenPrefix @ path)]\<rparr>, NoCmd)
      | ReportWriteFailedMsg e \<Rightarrow>
          (m\<lparr>cm_scrollback := cm_scrollback m @ [notice (reportWriteFailPrefix @ Error_text e)]\<rparr>, NoCmd)
      | StreamDoneMsg \<Rightarrow> (streamDone m, NoCmd))"

definition Cleanup :: "'i chat \<Rightarrow> 'i cmd" where
  "Cleanup m = (if cm_cancel m then CallCancel else NoCmd)"

definition StatusSegments :: "string \<Rightarrow> 'i chat \<Rightarrow> (string \<times> style) list" where
  "StatusSegments providerName m =
     (let dim = zero_style\<lparr>FG := Palette 8\<rparr> in
      [(if cm_modelName m = [] then providerName else cm_modelName m, zero_style)]
      @ (if cm_cwd m \<noteq> [] then [(cm_cwd m, dim)] else [])
      @ (if cm_gitBranch m \<noteq> [] then [(cm_gitBranch m, dim)] else [])
      @ (if cm_streaming m then [(utf8 [9679], zero_style\<lparr>Bold := True\<rparr>)] else []))"

end
