(* ===== verification/ChatRun.thy ===== *)
theory ChatRun
  imports ChatModel
begin

text \<open>
  A diagnose run and the chat model side by side: \<open>llmapp/loop_adapter.go\<close> turns the events of the loop
  into appends to the token stream and sends on the control channel, \<open>snapshot.go\<close> collects the run, and
  the model consumes the channel while keys keep arriving.  The two goroutines are interleaved by the step
  relation \<open>run_step\<close>; a send that finds the context cancelled ends the producer.
\<close>

subsection \<open>The snapshot builder\<close>

record 'i builder =
  sb_prompt :: string
  sb_answer :: string
  sb_timeline :: "'i tool_event list"
  sb_idIndex :: "string \<rightharpoonup> nat"

definition newSnapshotBuilder :: "string \<Rightarrow> 'i builder" where
  "newSnapshotBuilder prompt = \<lparr>sb_prompt = prompt, sb_answer = [], sb_timeline = [], sb_idIndex = Map.empty\<rparr>"

definition addText :: "string \<Rightarrow> 'i builder \<Rightarrow> 'i builder" where
  "addText t b = b\<lparr>sb_answer := sb_answer b @ t\<rparr>"

definition addToolCall :: "'i llm_tool_use \<Rightarrow> 'i builder \<Rightarrow> 'i builder" where
  "addToolCall tu b =
     b\<lparr>sb_timeline := sb_timeline b @
          [\<lparr>te_Name = lu_Name tu, te_Input = lu_Input tu, te_Result = [], te_IsError = False, te_Cached = False\<rparr>],
       sb_idIndex := (sb_idIndex b)(lu_ID tu \<mapsto> length (sb_timeline b))\<rparr>"

definition addToolResult :: "llm_tool_result \<Rightarrow> bool \<Rightarrow> 'i builder \<Rightarrow> 'i builder" where
  "addToolResult tr cached b =
     (case sb_idIndex b (lr_ToolUseID tr) of
        None \<Rightarrow> b
      | Some i \<Rightarrow>
          b\<lparr>sb_timeline := (sb_timeline b)[i := (sb_timeline b ! i)
               \<lparr>te_Result := lr_Content tr, te_IsError := lr_IsError tr, te_Cached := cached\<rparr>]\<rparr>)"

definition seal_snapshot :: "int \<Rightarrow> finish_reason \<Rightarrow> string \<Rightarrow> 'i builder \<Rightarrow> 'i snapshot" where
  "seal_snapshot turn fr code b =
     \<lparr>sn_Prompt = sb_prompt b, sn_FinalAnswer = sb_answer b, sn_ToolTimeline = sb_timeline b, sn_Turns = turn,
      sn_FinishStatus = fr, sn_TermCode = code\<rparr>"

subsection \<open>The emit adapter\<close>

text \<open>What the producer does, in order: append a token, send a control message, close stream and channel.\<close>

datatype 'i produce = PAppend string | PSend "'i control_msg" | PClose

text \<open>The pending segment \<open>segBuf\<close> and the builder.\<close>

type_synonym 'i emitter = "string \<times> 'i builder"

definition seal_acts :: "bool \<Rightarrow> string \<Rightarrow> 'i produce list" where
  "seal_acts trunc seg = (if seg = [] then [] else [PSend (control0\<lparr>SealedText := seg, SealedTruncated := trunc\<rparr>)])"

fun makeEmit :: "bool \<Rightarrow> 'i event \<Rightarrow> 'i emitter \<Rightarrow> 'i produce list \<times> 'i emitter" where
  "makeEmit stripThink (EventText t txt True) (seg, b) =
     ([PSend (control0\<lparr>Thinking := True, ThinkingToken := (if stripThink then [] else txt)\<rparr>)], (seg, b))"
| "makeEmit stripThink (EventText t txt False) (seg, b) =
     (if txt = [] then ([], (seg, b))
      else ([PAppend txt, PSend (control0\<lparr>PreviewTick := True\<rparr>)], (seg @ txt, addText txt b)))"
| "makeEmit stripThink (EventToolCall t tu) (seg, b) =
     (seal_acts False seg @ [PSend (control0\<lparr>ct_ToolUse := Some tu\<rparr>)], ([], addToolCall tu b))"
| "makeEmit stripThink (EventToolResult t tr cached) (seg, b) =
     (seal_acts False seg @ [PSend (control0\<lparr>ct_ToolResult := Some tr, ct_Cached := cached\<rparr>)],
      ([], addToolResult tr cached b))"
| "makeEmit stripThink (EventFinish t fr code err) (seg, b) =
     (seal_acts (fr = finish_reason.FinishLength) seg @
        [PSend (control0\<lparr>ct_Finish := fr, ct_TermCode := code, ct_Err := err, ct_Snapshot := Some (seal_snapshot t fr code b)\<rparr>)],
      ([], b))"
| "makeEmit stripThink (EventTurnStart t) (seg, b) = ([], (seg, b))"

fun emit_all :: "bool \<Rightarrow> 'i event list \<Rightarrow> 'i emitter \<Rightarrow> 'i produce list \<times> 'i emitter" where
  "emit_all strip [] em = ([], em)"
| "emit_all strip (e # es) em =
     (case makeEmit strip e em of (acts, em1) \<Rightarrow> (case emit_all strip es em1 of (rest, em2) \<Rightarrow> (acts @ rest, em2)))"

subsection \<open>Producer and consumer\<close>

definition ctrlBufSize :: nat where "ctrlBufSize = 64"

record 'i run =
  rn_chat :: "'i chat"
  rn_ctrl :: "'i control_msg list"
  rn_inflight :: "'i control_msg option"
  rn_todo :: "'i produce list"
  rn_cancelled :: bool
  rn_failed :: bool

definition token_chunk :: "string \<Rightarrow> chunk" where
  "token_chunk t = \<lparr>Token = t, CFinish = finish.FinishUnset, CErr = None\<rparr>"

text \<open>The stream the goroutine holds is the one in the model; an append that is refused is ignored.\<close>

definition with_stream :: "(token_stream \<Rightarrow> token_stream) \<Rightarrow> 'i chat \<Rightarrow> 'i chat" where
  "with_stream f m = m\<lparr>cm_stream := map_option f (cm_stream m)\<rparr>"

definition append_token :: "string \<Rightarrow> token_stream \<Rightarrow> token_stream" where
  "append_token t ts = (case AppendChunk (token_chunk t) ts of Appended ts' \<Rightarrow> ts' | _ \<Rightarrow> ts)"

definition blocked :: "string \<Rightarrow> 'i chat \<Rightarrow> bool" where
  "blocked t m = (case cm_stream m of Some ts \<Rightarrow> AppendChunk (token_chunk t) ts = Blocks | None \<Rightarrow> False)"

definition start_run :: "bool \<Rightarrow> 'i event list \<Rightarrow> 'i chat \<Rightarrow> 'i run" where
  "start_run strip evs m =
     \<lparr>rn_chat = fst (submit m), rn_ctrl = [], rn_inflight = None,
      rn_todo = fst (emit_all strip evs ([], newSnapshotBuilder (rune_bytes (cm_buffer m)))) @ [PClose],
      rn_cancelled = False, rn_failed = False\<rparr>"

inductive run_step :: "('i snapshot \<Rightarrow> string) \<Rightarrow> 'i run \<Rightarrow> 'i run \<Rightarrow> bool" for gen where
  append: "rn_todo r = PAppend t # ps \<Longrightarrow> \<not> blocked t (rn_chat r) \<Longrightarrow>
    run_step gen r (r\<lparr>rn_chat := with_stream (append_token t) (rn_chat r), rn_todo := ps\<rparr>)"
| send: "rn_todo r = PSend c # ps \<Longrightarrow> length (rn_ctrl r) < ctrlBufSize \<Longrightarrow>
    run_step gen r (r\<lparr>rn_ctrl := rn_ctrl r @ [c], rn_todo := ps\<rparr>)"
| fail: "rn_todo r = PSend c # ps \<Longrightarrow> rn_cancelled r \<Longrightarrow> run_step gen r (r\<lparr>rn_todo := [PClose], rn_failed := True\<rparr>)"
| close: "rn_todo r = [PClose] \<Longrightarrow>
    run_step gen r (r\<lparr>rn_chat := with_stream (\<lambda>ts. snd (Close ts)) (rn_chat r), rn_todo := []\<rparr>)"
| pull: "rn_ctrl r = c # cs \<Longrightarrow> rn_inflight r = None \<Longrightarrow> run_step gen r (r\<lparr>rn_ctrl := cs, rn_inflight := Some c\<rparr>)"
| handle: "rn_inflight r = Some c \<Longrightarrow>
    run_step gen r (r\<lparr>rn_chat := fst (Update gen (StreamControlMsg c) (rn_chat r)), rn_inflight := None\<rparr>)"
| key: "Update gen (KeyActionMsg k a) (rn_chat r) = (m', c) \<Longrightarrow> cm_streaming (rn_chat r) \<Longrightarrow>
    run_step gen r
      (r\<lparr>rn_chat := (if c = CallCancel then with_stream (\<lambda>ts. ts\<lparr>t_ctxDone := True\<rparr>) m' else m'),
         rn_cancelled := (rn_cancelled r \<or> c = CallCancel)\<rparr>)"

inductive reachable :: "('i snapshot \<Rightarrow> string) \<Rightarrow> 'i run \<Rightarrow> 'i run \<Rightarrow> bool" for gen r0 where
  start: "reachable gen r0 r0"
| step: "reachable gen r0 r \<Longrightarrow> run_step gen r r' \<Longrightarrow> reachable gen r0 r'"

inductive_cases run_stepE: "run_step gen r r'"

subsection \<open>The text of a run\<close>

fun visible_text :: "'i event list \<Rightarrow> string" where
  "visible_text [] = []"
| "visible_text (EventText t txt False # es) = txt @ visible_text es"
| "visible_text (e # es) = visible_text es"

definition assistant_text :: "'i node list \<Rightarrow> string" where
  "assistant_text ns =
     concat (map (\<lambda>n. case n of MessageNode m \<Rightarrow> if Speaker m = SpeakerAssistant then Text m else [] | _ \<Rightarrow> []) ns)"

definition sealed_of :: "'i control_msg \<Rightarrow> string" where
  "sealed_of c = (if PreviewTick c then [] else SealedText c)"

fun sealed_acts :: "'i produce list \<Rightarrow> string" where
  "sealed_acts [] = []"
| "sealed_acts (PSend c # ps) = sealed_of c @ sealed_acts ps"
| "sealed_acts (_ # ps) = sealed_acts ps"

lemma sealed_acts_append [simp]: "sealed_acts (xs @ ys) = sealed_acts xs @ sealed_acts ys"
  by (induction xs rule: sealed_acts.induct) auto

lemma assistant_text_simps [simp]:
  "assistant_text [] = []" "assistant_text (xs @ ys) = assistant_text xs @ assistant_text ys"
  "assistant_text (n # ns) =
     (case n of MessageNode m \<Rightarrow> if Speaker m = SpeakerAssistant then Text m else [] | _ \<Rightarrow> []) @ assistant_text ns"
  by (simp_all add: assistant_text_def)

lemma sealed_seal_acts [simp]: "sealed_acts (seal_acts trunc seg) = seg"
  by (simp add: seal_acts_def sealed_of_def control0_def)

text \<open>Sealing conserves the text: what is sealed and what is still pending is what was said.\<close>

lemma makeEmit_conserves:
  "makeEmit strip e (seg, b) = (acts, (seg', b')) \<Longrightarrow> sealed_acts acts @ seg' = seg @ visible_text [e]"
  by (cases "(strip, e, (seg, b))" rule: makeEmit.cases)
     (auto simp: sealed_of_def control0_def split: if_splits)

lemma visible_text_Cons: "visible_text (e # es) = visible_text [e] @ visible_text es"
  by (cases "e # es" rule: visible_text.cases) auto

lemma emit_all_conserves:
  "emit_all strip es (seg, b) = (acts, (seg', b')) \<Longrightarrow> sealed_acts acts @ seg' = seg @ visible_text es"
proof (induction es arbitrary: seg b acts)
  case (Cons e es)
  obtain a1 s1 b1 where m: "makeEmit strip e (seg, b) = (a1, (s1, b1))" by (metis prod.exhaust)
  obtain a2 where r: "emit_all strip es (s1, b1) = (a2, (seg', b'))" and acts: "acts = a1 @ a2"
    using Cons.prems m by (auto split: prod.splits)
  from Cons.IH [OF r] makeEmit_conserves [OF m] acts show ?case
    by (metis append.assoc sealed_acts_append visible_text_Cons)
qed simp

lemma emit_all_append:
  "emit_all strip (xs @ ys) em =
     (case emit_all strip xs em of (a, em1) \<Rightarrow> (case emit_all strip ys em1 of (b, em2) \<Rightarrow> (a @ b, em2)))"
  by (induction xs arbitrary: em) (simp_all split: prod.splits)

subsection \<open>What a handler does to the text and to the stream\<close>

lemma drain_preview_keeps [simp]:
  "cm_scrollback (snd (drain_preview m)) = cm_scrollback m" "cm_streaming (snd (drain_preview m)) = cm_streaming m"
  "cm_cancel (snd (drain_preview m)) = cm_cancel m" "cm_control (snd (drain_preview m)) = cm_control m"
  "cm_buffer (snd (drain_preview m)) = cm_buffer m" "cm_cursor (snd (drain_preview m)) = cm_cursor m"
  "cm_history (snd (drain_preview m)) = cm_history m" "cm_maxHistory (snd (drain_preview m)) = cm_maxHistory m"
  "cm_stream (snd (drain_preview m)) = map_option (\<lambda>ts. snd (Drain ts)) (cm_stream m)"
  by (auto simp: drain_preview_def split: option.splits prod.splits)

lemma assistant_text_transition:
  "assistant_text (rev (transition_rev i st ns)) = assistant_text (rev ns)"
  by (induction ns) (auto split: node.splits)

lemma assistant_text_transitionToolUseState [simp]: "assistant_text (transitionToolUseState sb i st) = assistant_text sb"
  using assistant_text_transition [of i st "rev sb"] by (simp add: transitionToolUseState_def)

lemma assistant_text_notice [simp]: "assistant_text [notice t] = []"
  by (simp add: notice_def plain_msg_def)

lemma assistant_text_appendFinishNode [simp]: "assistant_text (appendFinishNode msg m) = assistant_text (cm_scrollback m)"
  using assistant_text_notice by (simp add: appendFinishNode_def Let_def del: assistant_text_simps(3)) (simp add: notice_def plain_msg_def)

lemma handleControl_text:
  "assistant_text (cm_scrollback (fst (handleControl c m))) = assistant_text (cm_scrollback m) @ sealed_of c"
  by (auto simp: handleControl_def control_preview_def control_sealed_def control_tool_use_def control_tool_result_def
      control_finish_def said_by_def plain_msg_def sealed_of_def NewToolUse_def Let_def split: prod.splits option.splits
      dest: arg_cong [of "drain_preview m" _ "\<lambda>p. cm_scrollback (snd p)"])

lemma handleControl_streaming: "cm_streaming (fst (handleControl c m)) = cm_streaming m"
  by (auto simp: handleControl_def control_preview_def control_sealed_def control_tool_use_def control_tool_result_def
      control_finish_def Let_def split: prod.splits option.splits
      dest: arg_cong [of "drain_preview m" _ "\<lambda>p. cm_streaming (snd p)"])

lemma busy_key:
  assumes "handleAction gen k a m = (m', c)" and "cm_streaming m"
  shows "cm_streaming m' \<and> cm_stream m' = cm_stream m \<and> assistant_text (cm_scrollback m') = assistant_text (cm_scrollback m)"
  using assms assistant_text_notice
  by (auto simp: handleAction_def handleCancel_def simp del: assistant_text_simps(3) split: if_splits)

lemma with_stream_simps [simp]:
  "cm_streaming (with_stream f m) = cm_streaming m" "cm_scrollback (with_stream f m) = cm_scrollback m"
  "cm_stream (with_stream f m) = map_option f (cm_stream m)"
  by (simp_all add: with_stream_def)

subsection \<open>The conservation of the text\<close>

definition in_transit :: "'i run \<Rightarrow> string" where
  "in_transit r =
     (case rn_inflight r of Some c \<Rightarrow> sealed_of c | None \<Rightarrow> []) @ concat (map sealed_of (rn_ctrl r)) @ sealed_acts (rn_todo r)"

definition text_inv :: "string \<Rightarrow> 'i run \<Rightarrow> bool" where
  "text_inv full r \<longleftrightarrow> cm_streaming (rn_chat r) \<and>
     (\<exists>lost. assistant_text (cm_scrollback (rn_chat r)) @ in_transit r @ lost = full \<and> (\<not> rn_failed r \<longrightarrow> lost = []))"

lemma text_inv_step: "run_step gen r r' \<Longrightarrow> text_inv full r \<Longrightarrow> text_inv full r'"
proof (induction rule: run_step.induct)
  case (append r t ps)
  then show ?case by (simp add: text_inv_def in_transit_def)
next
  case (send r c ps)
  then show ?case by (simp add: text_inv_def in_transit_def)
next
  case (fail r c ps)
  then show ?case by (auto simp: text_inv_def in_transit_def)
next
  case (close r)
  then show ?case by (simp add: text_inv_def in_transit_def)
next
  case (pull r c cs)
  then show ?case by (simp add: text_inv_def in_transit_def)
next
  case (handle r c)
  then show ?case by (simp add: text_inv_def in_transit_def Update_def handleControl_text handleControl_streaming)
next
  case (key k a r m' c)
  have "handleAction gen k a (rn_chat r) = (m', c)" using key(1) by (simp add: Update_def)
  from busy_key [OF this key(2)] key(3) show ?case by (auto simp: text_inv_def in_transit_def)
qed

lemma text_inv_reachable: "reachable gen r0 r \<Longrightarrow> text_inv full r0 \<Longrightarrow> text_inv full r"
  by (induction rule: reachable.induct) (auto intro: text_inv_step)

lemma submit_simps [simp]:
  "assistant_text (cm_scrollback (fst (submit m))) = assistant_text (cm_scrollback m)" "cm_streaming (fst (submit m))"
  "cm_stream (fst (submit m)) = Some (NewTokenStream defaultChanCap defaultLineBufCap)"
  by (simp_all add: submit_def said_by_def plain_msg_def Let_def)

lemma visible_text_append: "visible_text (xs @ ys) = visible_text xs @ visible_text ys"
  by (induction xs rule: visible_text.induct) auto

lemma emit_all_finish:
  assumes "es = pre @ [EventFinish t fr code err]"
  shows "sealed_acts (fst (emit_all strip es ([], b))) = visible_text es"
proof -
  obtain a1 s1 b1 where p: "emit_all strip pre ([], b) = (a1, (s1, b1))" by (metis prod.exhaust)
  from emit_all_conserves [OF p] have "sealed_acts a1 @ s1 = visible_text pre" by simp
  moreover have "fst (emit_all strip es ([], b)) = a1 @ fst (makeEmit strip (EventFinish t fr code err) (s1, b1))"
    using assms p by (simp add: emit_all_append)
  ultimately show ?thesis
    using assms by (simp add: visible_text_append sealed_of_def control0_def)
qed

lemma text_inv_start:
  assumes "es = pre @ [EventFinish t fr code err]"
  shows "text_inv (assistant_text (cm_scrollback m) @ visible_text es) (start_run strip es m)"
  using emit_all_finish [OF assms] by (simp add: text_inv_def start_run_def in_transit_def)

subsection \<open>The token channel never fills\<close>

fun wf_todo :: "'i produce list \<Rightarrow> bool" where
  "wf_todo [] = True"
| "wf_todo (PAppend t # ps) = (case ps of PSend c # qs \<Rightarrow> PreviewTick c \<and> wf_todo qs | _ \<Rightarrow> False)"
| "wf_todo (PSend c # ps) = (\<not> PreviewTick c \<and> wf_todo ps)"
| "wf_todo (PClose # ps) = (ps = [])"

definition ticks :: "'i control_msg list \<Rightarrow> nat" where
  "ticks cs = length (filter PreviewTick cs)"

fun due :: "'i produce list \<Rightarrow> nat" where
  "due (PSend c # ps) = (if PreviewTick c then 1 else 0)"
| "due _ = 0"

definition todo_ok :: "'i produce list \<Rightarrow> bool" where
  "todo_ok ps \<longleftrightarrow> wf_todo ps \<or> (case ps of PSend c # qs \<Rightarrow> PreviewTick c \<and> wf_todo qs | _ \<Rightarrow> False)"

definition token_inv :: "'i run \<Rightarrow> bool" where
  "token_inv r \<longleftrightarrow> cm_streaming (rn_chat r) \<and> todo_ok (rn_todo r) \<and> length (rn_ctrl r) \<le> ctrlBufSize \<and>
     (rn_failed r \<longrightarrow> rn_todo r = [] \<or> rn_todo r = [PClose]) \<and>
     (\<exists>ts. cm_stream (rn_chat r) = Some ts \<and> t_chanCap ts = defaultChanCap \<and>
        length (t_tokens ts) \<le> ticks (rn_ctrl r) + (case rn_inflight r of Some c \<Rightarrow> ticks [c] | None \<Rightarrow> 0) +
          due (rn_todo r) + (if rn_failed r then 1 else 0))"

lemma tokens_drain [simp]:
  "t_tokens (drainChunks s) = []" "t_chanCap (drainChunks s) = t_chanCap s"
  "t_tokens (snd (Drain s)) = []" "t_chanCap (snd (Drain s)) = t_chanCap s"
proof -
  have "t_tokens (fold processChunk cs u) = t_tokens u \<and> t_chanCap (fold processChunk cs u) = t_chanCap u" for cs u
    by (induction cs arbitrary: u) simp_all
  then show "t_tokens (drainChunks s) = []" "t_chanCap (drainChunks s) = t_chanCap s"
    by (simp_all add: drainChunks_def)
  then show "t_tokens (snd (Drain s)) = []" "t_chanCap (snd (Drain s)) = t_chanCap s"
    by (simp_all add: Drain_def Let_def)
qed

lemma tokens_close: "length (t_tokens (snd (Close s))) \<le> length (t_tokens s) \<and> t_chanCap (snd (Close s)) = t_chanCap s"
  by (auto simp: Close_def Let_def)

lemma handleControl_stream:
  assumes "cm_stream m = Some ts"
  obtains ts' where "cm_stream (fst (handleControl c m)) = Some ts'" "t_chanCap ts' = t_chanCap ts"
    "length (t_tokens ts') \<le> (if PreviewTick c then 0 else length (t_tokens ts))"
proof -
  have "\<exists>ts'. cm_stream (fst (handleControl c m)) = Some ts' \<and> (ts' = ts \<and> \<not> PreviewTick c \<or> ts' = snd (Drain ts))"
    using assms drain_preview_keeps(9) [of m]
    by (auto simp: handleControl_def control_preview_def control_sealed_def control_tool_use_def control_tool_result_def
        control_finish_def Let_def split_beta split: option.splits)
  then show ?thesis using that by (metis (full_types) le_refl le_zero_eq list.size(3) tokens_drain(3,4) zero_le)
qed

lemma ticks_simps [simp]: "ticks [] = 0" "ticks (c # cs) = (if PreviewTick c then 1 else 0) + ticks cs" "ticks (xs @ ys) = ticks xs + ticks ys"
  by (simp_all add: ticks_def)

lemma append_token_tokens:
  "length (t_tokens (append_token t ts)) \<le> length (t_tokens ts) + 1 \<and> t_chanCap (append_token t ts) = t_chanCap ts"
  by (auto simp: append_token_def AppendChunk_def)

lemma due_wf: "wf_todo ps \<Longrightarrow> due ps = 0"
  by (cases ps rule: due.cases) simp_all

lemma token_inv_step: "run_step gen r r' \<Longrightarrow> token_inv r \<Longrightarrow> token_inv r'"
proof (induction rule: run_step.induct)
  case (append r t ps)
  then obtain c qs where ps: "ps = PSend c # qs" "PreviewTick c" "wf_todo qs" "\<not> rn_failed r"
    by (auto simp: token_inv_def todo_ok_def split: list.splits produce.splits)
  from append.prems obtain ts where ts: "cm_stream (rn_chat r) = Some ts" "t_chanCap ts = defaultChanCap"
    "length (t_tokens ts) \<le> ticks (rn_ctrl r) + (case rn_inflight r of Some c \<Rightarrow> ticks [c] | None \<Rightarrow> 0)"
    using append ps by (auto simp: token_inv_def)
  with append ps append_token_tokens [of t ts] show ?case by (auto simp: token_inv_def todo_ok_def)
next
  case (send r c ps)
  then have wf: "wf_todo ps" and nf: "\<not> rn_failed r" by (auto simp: token_inv_def todo_ok_def)
  from wf have "due ps = 0" by (rule due_wf)
  with send wf nf show ?case by (auto simp: token_inv_def todo_ok_def)
next
  case (fail r c ps)
  then show ?case by (auto simp: token_inv_def todo_ok_def split: if_splits)
next
  case (close r)
  then obtain ts where ts: "cm_stream (rn_chat r) = Some ts" by (auto simp: token_inv_def)
  with close tokens_close [of ts] show ?case by (auto simp: token_inv_def todo_ok_def split: if_splits)
next
  case (pull r c cs)
  then show ?case by (auto simp: token_inv_def)
next
  case (handle r c)
  then obtain ts where ts: "cm_stream (rn_chat r) = Some ts" by (auto simp: token_inv_def)
  obtain ts' where "cm_stream (fst (handleControl c (rn_chat r))) = Some ts'" "t_chanCap ts' = t_chanCap ts"
    "length (t_tokens ts') \<le> (if PreviewTick c then 0 else length (t_tokens ts))"
    by (rule handleControl_stream [OF ts])
  with handle ts show ?case
    by (auto simp: token_inv_def Update_def handleControl_streaming split: if_splits)
next
  case (key k a r m' c)
  have "handleAction gen k a (rn_chat r) = (m', c)" using key(1) by (simp add: Update_def)
  from busy_key [OF this key(2)] key(3) show ?case by (auto simp: token_inv_def)
qed

lemma token_inv_reachable: "reachable gen r0 r \<Longrightarrow> token_inv r0 \<Longrightarrow> token_inv r"
  by (induction rule: reachable.induct) (auto intro: token_inv_step)

lemma wf_todo_append: "wf_todo xs \<Longrightarrow> PClose \<notin> set xs \<Longrightarrow> wf_todo ys \<Longrightarrow> wf_todo (xs @ ys)"
  by (induction xs rule: wf_todo.induct) (auto split: list.splits produce.splits)

lemma makeEmit_wf: "wf_todo (fst (makeEmit strip e em)) \<and> PClose \<notin> set (fst (makeEmit strip e em))"
  by (cases "(strip, e, em)" rule: makeEmit.cases) (auto simp: seal_acts_def control0_def)

lemma emit_all_wf: "wf_todo (fst (emit_all strip es em)) \<and> PClose \<notin> set (fst (emit_all strip es em))"
proof (induction es arbitrary: em)
  case (Cons e es)
  note rest = Cons.IH [of "snd (makeEmit strip e em)"] and here = makeEmit_wf [of strip e em]
  then have "wf_todo (fst (makeEmit strip e em) @ fst (emit_all strip es (snd (makeEmit strip e em))))"
    by (intro wf_todo_append) simp_all
  with rest here show ?case by (simp add: split_beta)
qed simp

lemma token_inv_start: "token_inv (start_run strip es m)"
  using emit_all_wf [of strip es "([], newSnapshotBuilder (rune_bytes (cm_buffer m)))"]
  by (auto simp: token_inv_def start_run_def todo_ok_def NewTokenStream_def intro!: wf_todo_append)

subsection \<open>Executing a schedule\<close>

datatype run_op = OAppend | OSend | OFail | OClose | OPull | OHandle | OKey key_event action

definition exec_op :: "('i snapshot \<Rightarrow> string) \<Rightarrow> run_op \<Rightarrow> 'i run \<Rightarrow> 'i run option" where
  "exec_op gen oper r =
     (case oper of
        OAppend \<Rightarrow>
          (case rn_todo r of
             PAppend t # ps \<Rightarrow>
               if blocked t (rn_chat r) then None
               else Some (r\<lparr>rn_chat := with_stream (append_token t) (rn_chat r), rn_todo := ps\<rparr>)
           | _ \<Rightarrow> None)
      | OSend \<Rightarrow>
          (case rn_todo r of
             PSend c # ps \<Rightarrow>
               if length (rn_ctrl r) < ctrlBufSize then Some (r\<lparr>rn_ctrl := rn_ctrl r @ [c], rn_todo := ps\<rparr>) else None
           | _ \<Rightarrow> None)
      | OFail \<Rightarrow>
          (case rn_todo r of
             PSend c # ps \<Rightarrow> if rn_cancelled r then Some (r\<lparr>rn_todo := [PClose], rn_failed := True\<rparr>) else None
           | _ \<Rightarrow> None)
      | OClose \<Rightarrow>
          (case rn_todo r of
             [PClose] \<Rightarrow> Some (r\<lparr>rn_chat := with_stream (\<lambda>ts. snd (Close ts)) (rn_chat r), rn_todo := []\<rparr>)
           | _ \<Rightarrow> None)
      | OPull \<Rightarrow>
          (case (rn_ctrl r, rn_inflight r) of
             (c # cs, None) \<Rightarrow> Some (r\<lparr>rn_ctrl := cs, rn_inflight := Some c\<rparr>)
           | _ \<Rightarrow> None)
      | OHandle \<Rightarrow>
          (case rn_inflight r of
             Some c \<Rightarrow> Some (r\<lparr>rn_chat := fst (Update gen (StreamControlMsg c) (rn_chat r)), rn_inflight := None\<rparr>)
           | None \<Rightarrow> None)
      | OKey k a \<Rightarrow>
          if cm_streaming (rn_chat r)
          then (case Update gen (KeyActionMsg k a) (rn_chat r) of
                  (m', c) \<Rightarrow>
                    Some (r\<lparr>rn_chat := (case c of CallCancel \<Rightarrow> with_stream (\<lambda>ts. ts\<lparr>t_ctxDone := True\<rparr>) m' | _ \<Rightarrow> m'),
                            rn_cancelled := (rn_cancelled r \<or> (case c of CallCancel \<Rightarrow> True | _ \<Rightarrow> False))\<rparr>))
          else None)"

fun exec_ops :: "('i snapshot \<Rightarrow> string) \<Rightarrow> run_op list \<Rightarrow> 'i run \<Rightarrow> 'i run option" where
  "exec_ops gen [] r = Some r"
| "exec_ops gen (oper # opers) r = (case exec_op gen oper r of None \<Rightarrow> None | Some r' \<Rightarrow> exec_ops gen opers r')"

lemma exec_op_step: "exec_op gen oper r = Some r' \<Longrightarrow> run_step gen r r'"
proof (cases oper)
  case (OKey k a)
  assume e: "exec_op gen oper r = Some r'"
  obtain m' c where u: "Update gen (KeyActionMsg k a) (rn_chat r) = (m', c)" by fastforce
  have "run_step gen r (r\<lparr>rn_chat := (if c = CallCancel then with_stream (\<lambda>ts. ts\<lparr>t_ctxDone := True\<rparr>) m' else m'),
         rn_cancelled := (rn_cancelled r \<or> c = CallCancel)\<rparr>)"
    using e OKey by (intro run_step.key [OF u]) (simp add: exec_op_def split: if_splits)
  with e OKey u show ?thesis by (cases c) (simp_all add: exec_op_def split: if_splits)
qed (auto simp: exec_op_def intro: run_step.intros split: list.splits produce.splits if_splits option.splits)

lemma exec_ops_reachable: "exec_ops gen opers r = Some r' \<Longrightarrow> reachable gen r0 r \<Longrightarrow> reachable gen r0 r'"
  by (induction opers arbitrary: r) (auto split: option.splits dest: exec_op_step intro: reachable.step)

definition demo_chat :: "string chat" where
  "demo_chat = (New_chat \<lparr>co_ModelName = ''m'', co_SystemPrompt = [], co_MaxTokens = 0, co_MaxHistory = 0, co_StripThink = True,
     co_ThinkingMode = ThinkingDisabled, co_ThinkingBudget = 0, co_Welcome = False, co_Cwd = [], co_GitBranch = []\<rparr>)
     \<lparr>cm_buffer := [104, 105], cm_cursor := 2\<rparr>"

definition demo_finish :: "string event" where
  "demo_finish = EventFinish 1 finish_reason.FinishStop [] None"



text \<open>The producer never blocks on the token channel.  At most 66 tokens are pending in the stream (each has its tick
  in the control channel, in flight, or about to be sent), far below its capacity of 512, so the append of a
  token always goes through or is refused.\<close>

theorem append_never_blocks:
  assumes "reachable gen (start_run strip es m) r"
  shows "(\<exists>ts. cm_stream (rn_chat r) = Some ts \<and> length (t_tokens ts) \<le> 66) \<and> \<not> blocked t (rn_chat r)"
proof -
  have inv: "token_inv r" by (rule token_inv_reachable [OF assms token_inv_start])
  then obtain ts where ts: "cm_stream (rn_chat r) = Some ts" "t_chanCap ts = defaultChanCap"
    "length (t_tokens ts) \<le> ticks (rn_ctrl r) + (case rn_inflight r of Some c \<Rightarrow> ticks [c] | None \<Rightarrow> 0) +
       due (rn_todo r) + (if rn_failed r then 1 else 0)" by (auto simp: token_inv_def)
  have "ticks (rn_ctrl r) \<le> 64" using inv length_filter_le [of PreviewTick "rn_ctrl r"]
    by (simp add: token_inv_def ticks_def ctrlBufSize_def del: length_filter_le)
  moreover have "(case rn_inflight r of Some c \<Rightarrow> ticks [c] | None \<Rightarrow> 0) \<le> 1" by (simp split: option.split)
  moreover have "due (rn_todo r) + (if rn_failed r then 1 else 0) \<le> 1"
    using inv by (cases "rn_todo r" rule: due.cases) (auto simp: token_inv_def)
  ultimately have "length (t_tokens ts) \<le> 66" using ts(3) by linarith
  with ts show ?thesis by (auto simp: blocked_def AppendChunk_def defaultChanCap_def)
qed

theorem append_never_blocks_witness:
  "\<exists>r. reachable (\<lambda>_. []) (start_run True [EventText 1 ''ok'' False, demo_finish] demo_chat) r \<and> rn_cancelled r \<and>
     \<not> blocked ''ok'' (rn_chat r)"
proof -
  let ?r0 = "start_run True [EventText 1 ''ok'' False, demo_finish] demo_chat"
  let ?ops = "[OKey \<lparr>Code = KeyEscape, KRune = 0, Mod = 0\<rparr> ActionCancel]"
  have "case exec_ops (\<lambda>_. []) ?ops ?r0 of Some r \<Rightarrow> rn_cancelled r | None \<Rightarrow> False" by code_simp
  then obtain r where r: "exec_ops (\<lambda>_. []) ?ops ?r0 = Some r" and d: "rn_cancelled r" by (auto split: option.splits)
  have reach: "reachable (\<lambda>_. []) ?r0 r" by (rule exec_ops_reachable [OF r]) (rule reachable.start)
  with d append_never_blocks [OF reach] show ?thesis by blast
qed

text \<open>Cancelling after a tool call shows sealed text twice.  The handler of a sealed segment discards the
  blocks of the preview stream but not its unfinished line, which \<open>Close\<close> flushes and \<open>streamDone\<close> then
  commits as recovered text: here the run said \<open>a\<close>, called a tool and said \<open>b\<close>, and the scrollback ends
  up with \<open>a\<close> and \<open>ab\<close>.\<close>

theorem cancel_repeats_sealed_text:
  "\<exists>es r. visible_text es = ''ab'' \<and> reachable (\<lambda>_. []) (start_run True es demo_chat) r \<and>
     rn_todo r = [] \<and> rn_ctrl r = [] \<and> rn_inflight r = None \<and>
     assistant_text (cm_scrollback (rn_chat r)) = ''a'' \<and>
     assistant_text (cm_scrollback (fst (Update (\<lambda>_. []) StreamDoneMsg (rn_chat r)))) = ''aab''"
proof -
  let ?es = "[EventText 1 ''a'' False, EventToolCall 1 \<lparr>lu_ID = ''1'', lu_Name = ''t'', lu_Input = []\<rparr>,
     EventToolResult 1 \<lparr>lr_ToolUseID = ''1'', lr_Content = [], lr_IsError = False\<rparr> False, EventText 2 ''b'' False, demo_finish]"
  let ?r0 = "start_run True ?es demo_chat"
  let ?ops = "[OAppend, OSend, OPull, OHandle, OSend, OSend, OSend, OPull, OHandle, OPull, OHandle, OPull, OHandle,
     OAppend, OKey \<lparr>Code = KeyEscape, KRune = 0, Mod = 0\<rparr> ActionCancel, OFail, OClose]"
  have "case exec_ops (\<lambda>_. []) ?ops ?r0 of
      Some r \<Rightarrow> length (rn_todo r) = 0 \<and> length (rn_ctrl r) = 0 \<and> (case rn_inflight r of None \<Rightarrow> True | Some _ \<Rightarrow> False) \<and>
        assistant_text (cm_scrollback (rn_chat r)) = ''a'' \<and>
        assistant_text (cm_scrollback (fst (Update (\<lambda>_. []) StreamDoneMsg (rn_chat r)))) = ''aab''
    | None \<Rightarrow> False" by code_simp
  then obtain r where r: "exec_ops (\<lambda>_. []) ?ops ?r0 = Some r" and
    d: "rn_todo r = [] \<and> rn_ctrl r = [] \<and> rn_inflight r = None \<and> assistant_text (cm_scrollback (rn_chat r)) = ''a'' \<and>
        assistant_text (cm_scrollback (fst (Update (\<lambda>_. []) StreamDoneMsg (rn_chat r)))) = ''aab''"
    by (auto split: option.splits)
  have reach: "reachable (\<lambda>_. []) ?r0 r" by (rule exec_ops_reachable [OF r]) (rule reachable.start)
  have "visible_text ?es = ''ab''" by (simp add: demo_finish_def)
  with d reach show ?thesis by blast
qed

subsection \<open>The states of the chat model\<close>

text \<open>Any messages in any order, with the stream changing under the producer's hands.\<close>

inductive chat_reachable :: "('i snapshot \<Rightarrow> string) \<Rightarrow> chat_options \<Rightarrow> 'i chat \<Rightarrow> bool" for gen opts where
  init: "chat_reachable gen opts (New_chat opts)"
| update: "chat_reachable gen opts m \<Longrightarrow> chat_reachable gen opts (fst (Update gen msg m))"
| stream: "chat_reachable gen opts m \<Longrightarrow> chat_reachable gen opts (with_stream f m)"

definition is_user_message :: "'i llm_message \<Rightarrow> bool" where
  "is_user_message m \<longleftrightarrow> Role m = RoleUser \<and> (case Content m of [BlockText t] \<Rightarrow> True | _ \<Rightarrow> False)"

definition chat_ok :: "'i chat \<Rightarrow> bool" where
  "chat_ok m \<longleftrightarrow> (cm_streaming m \<longleftrightarrow> cm_cancel m) \<and> (cm_streaming m \<longleftrightarrow> cm_control m) \<and> (cm_streaming m \<longleftrightarrow> cm_stream m \<noteq> None) \<and>
     (cm_streaming m \<longrightarrow> cm_buffer m = []) \<and> cursor_ok (cm_buffer m, cm_cursor m) \<and>
     0 < cm_maxHistory m \<and> int (length (cm_history m)) \<le> cm_maxHistory m \<and> list_all is_user_message (cm_history m)"

lemma appendBounded_ok:
  assumes "0 < n" and "list_all is_user_message h" and "is_user_message x"
  shows "int (length (appendBounded h x n)) \<le> n \<and> list_all is_user_message (appendBounded h x n)"
  using assms by (auto simp: appendBounded_def Let_def list_all_iff dest: in_set_dropD)

lemma chat_ok_cong:
  assumes "cm_streaming m' = cm_streaming m" "cm_cancel m' = cm_cancel m" "cm_control m' = cm_control m"
    "(cm_stream m' = None) = (cm_stream m = None)" "cm_buffer m' = cm_buffer m" "cm_cursor m' = cm_cursor m"
    "cm_maxHistory m' = cm_maxHistory m" "cm_history m' = cm_history m"
  shows "chat_ok m' = chat_ok m"
  using assms by (simp add: chat_ok_def)

lemma handleControl_ok: "chat_ok (fst (handleControl c m)) = chat_ok m"
  by (rule chat_ok_cong)
     (auto simp: handleControl_def control_preview_def control_sealed_def control_tool_use_def control_tool_result_def
       control_finish_def Let_def split_beta drain_preview_keeps split: option.splits)

lemma MoveCursor_ok: "cursor_ok (b, MoveCursor b c mv)"
  by (cases mv) (auto simp: cursor_ok_def MoveCursor_def clamp_cursor_def Let_def)

lemma ResolveMode_ok: "ResolveMode b c k r = (b', c') \<Longrightarrow> cursor_ok (b', c')"
  by (auto simp: cursor_ok_def ResolveMode_def clamp_cursor_def Let_def min_def split: if_splits)

lemma submit_ok: "chat_ok m \<Longrightarrow> chat_ok (fst (submit m))"
  using appendBounded_ok [of "cm_maxHistory m" "cm_history m"]
  by (simp add: chat_ok_def submit_def Let_def cursor_ok_def is_user_message_def user_message_def)

lemma handleAction_ok:
  assumes "chat_ok m" and "handleAction gen k a m = (m', c)"
  shows "chat_ok m'"
proof (cases "cm_streaming m \<and> a \<noteq> ActionCancel")
  case True
  with assms show ?thesis by (auto simp: handleAction_def chat_ok_def split: if_splits)
next
  case idle: False
  show ?thesis
  proof (cases "a = ActionSubmit \<and> cm_buffer m \<noteq> [] \<and> \<not> isReportCommand (cm_buffer m)")
    case True
    with idle assms submit_ok [OF assms(1)] show ?thesis by (auto simp: handleAction_def)
  next
    case False
    have empty: "cursor_ok ([], 0)" by (simp add: cursor_ok_def)
    from False idle assms empty show ?thesis
      by (cases a) (auto simp: handleAction_def chat_ok_def handleCancel_def MoveCursor_ok Let_def
          split: if_splits prod.splits dest: ResolveMode_ok)
  qed
qed

lemma streamDone_ok: "chat_ok m \<Longrightarrow> chat_ok (streamDone m)"
  by (auto simp: streamDone_def chat_ok_def Let_def split_beta)

lemma handleCancel_ok: "chat_ok m \<Longrightarrow> chat_ok (fst (handleCancel m))"
  by (auto simp: handleCancel_def chat_ok_def cursor_ok_def)

lemma with_stream_ok: "chat_ok (with_stream f m) = chat_ok m"
  by (rule chat_ok_cong) (simp_all add: with_stream_def)

lemma scrollback_ok: "chat_ok (m\<lparr>cm_scrollback := x\<rparr>) = chat_ok m"
  by (rule chat_ok_cong) simp_all

lemma Update_ok: "chat_ok m \<Longrightarrow> chat_ok (fst (Update gen msg m))"
proof (cases msg)
  case (KeyActionMsg k a)
  assume ok: "chat_ok m"
  have "handleAction gen k a m = (fst (handleAction gen k a m), snd (handleAction gen k a m))" by simp
  from handleAction_ok [OF ok this] KeyActionMsg show ?thesis by (simp add: Update_def)
qed (simp_all add: Update_def handleControl_ok streamDone_ok handleCancel_ok scrollback_ok)

lemma chat_reachable_ok: "chat_reachable gen opts m \<Longrightarrow> chat_ok m"
proof (induction rule: chat_reachable.induct)
  case init
  then show ?case
    by (simp add: chat_ok_def New_chat_def cursor_ok_def defaultMaxHistory_def)
next
  case (update m msg)
  then show ?case by (simp add: Update_ok)
next
  case (stream m f)
  then show ?case by (simp add: with_stream_ok)
qed

text \<open>C24: The state machine of the chat.  In every reachable state the model is streaming exactly when it holds a
  stream, a control channel and a cancel function; the input line is empty while it streams; the cursor is
  inside the line; and the history never exceeds its cap.\<close>

theorem chat_state_machine:
  assumes "chat_reachable gen opts m"
  shows "(cm_streaming m \<longleftrightarrow> cm_cancel m) \<and> (cm_streaming m \<longleftrightarrow> cm_control m) \<and> (cm_streaming m \<longleftrightarrow> cm_stream m \<noteq> None) \<and>
    (cm_streaming m \<longrightarrow> cm_buffer m = []) \<and> 0 \<le> cm_cursor m \<and> cm_cursor m \<le> int (length (cm_buffer m)) \<and>
    int (length (cm_history m)) \<le> cm_maxHistory m"
  using chat_reachable_ok [OF assms] by (auto simp: chat_ok_def cursor_ok_def)

definition demo_options :: chat_options where
  "demo_options = \<lparr>co_ModelName = ''m'', co_SystemPrompt = [], co_MaxTokens = 0, co_MaxHistory = 0, co_StripThink = True,
     co_ThinkingMode = ThinkingDisabled, co_ThinkingBudget = 0, co_Welcome = False, co_Cwd = [], co_GitBranch = []\<rparr>"

definition typed_and_sent :: "string chat" where
  "typed_and_sent =
     (let press = (\<lambda>k a m. fst (Update (\<lambda>_. []) (KeyActionMsg \<lparr>Code = k, KRune = 104, Mod = 0\<rparr> a) m))
      in press KeyEnter ActionSubmit (press KeyRune ActionInsertRune (New_chat demo_options)))"

lemma typed_and_sent_reachable: "chat_reachable (\<lambda>_. []) demo_options typed_and_sent"
  unfolding typed_and_sent_def Let_def by (intro chat_reachable.intros)

theorem chat_state_machine_witness:
  "chat_reachable (\<lambda>_. []) demo_options typed_and_sent \<and> cm_streaming typed_and_sent \<and> cm_cancel typed_and_sent"
proof -
  have "cm_streaming typed_and_sent" by code_simp
  with chat_state_machine [OF typed_and_sent_reachable] typed_and_sent_reachable show ?thesis by blast
qed

text \<open>A report asked for during a run is dropped without a word.  The code means to reject \<open>/report\<close> with a note while a
  diagnosis runs, but the line is empty then and stays so, so no key other than cancel changes anything or returns a
  command.\<close>

theorem busy_note_never_shown:
  assumes "chat_reachable gen opts m" and "cm_streaming m" and "a \<noteq> ActionCancel"
  shows "handleAction gen k a m = (m, NoCmd)"
  using chat_reachable_ok [OF assms(1)] assms(2,3)
  by (simp add: handleAction_def chat_ok_def isReportCommand_def DeriveMode_def)

theorem busy_note_never_shown_witness:
  "handleAction (\<lambda>_. []) \<lparr>Code = KeyEnter, KRune = 0, Mod = 0\<rparr> ActionSubmit typed_and_sent = (typed_and_sent, NoCmd)"
proof -
  have "cm_streaming typed_and_sent" by code_simp
  from busy_note_never_shown [OF typed_and_sent_reachable this, of ActionSubmit] show ?thesis by simp
qed

text \<open>Follow-up questions are sent without the answers.  Every message of the history is a user message, so the request
  built for a new question consists of user messages only, whatever was answered before.\<close>

text \<open>The chat sends a model no answer it ever gave: in every reachable state the request built for the
  next question holds messages of the user only, the earlier questions and the new one.\<close>

theorem history_holds_no_answers:
  assumes "chat_reachable gen opts m"
  shows "list_all (\<lambda>x. Role x = RoleUser) (rq_Messages (buildRequest t m))"
  using chat_reachable_ok [OF assms]
  by (auto simp: chat_ok_def buildRequest_def user_message_def is_user_message_def list_all_iff)

theorem history_holds_no_answers_witness:
  "list_all (\<lambda>x. Role x = RoleUser) (rq_Messages (buildRequest ''and?'' typed_and_sent)) \<and>
   length (rq_Messages (buildRequest ''and?'' typed_and_sent)) = 2"
proof -
  have "length (rq_Messages (buildRequest ''and?'' typed_and_sent)) = 2" by code_simp
  with history_holds_no_answers [OF typed_and_sent_reachable] show ?thesis by blast
qed

end
