(* ===== verification/Program.thy ===== *)
theory Program
  imports Paint Input
begin

text \<open>
  \<open>internal/app/cli/program\<close>: the program around a model.  \<open>layout.go\<close> splits the screen, \<open>handleMsg\<close> routes
  a message to the system keys or to the model, and \<open>renderFn\<close> paints the frame.  Everything runs on the
  scheduler's goroutine.  The model is reached through its interface: \<open>update\<close> answers the new model
  (\<open>None\<close> for nil) and a command, or panics; the clock is the argument \<open>now\<close>, in nanoseconds.  Commands and
  errors handed to the scheduler are the lists \<open>p_scheduled\<close> and \<open>p_errors\<close>.
\<close>

subsection \<open>The layout of the screen\<close>

record layout =
  Cols :: int
  Rows :: int

definition inputBoxMinRows :: int where "inputBoxMinRows = 5"

definition BoxMode :: "layout \<Rightarrow> bool" where
  "BoxMode l \<longleftrightarrow> Rows l \<ge> inputBoxMinRows"

definition ScrollbackSize :: "layout \<Rightarrow> int \<times> int" where
  "ScrollbackSize l =
     (let rows = (if BoxMode l then Rows l - 4 else Rows l - 2)
      in (Cols l, if rows < 0 then 0 else rows))"

definition InputRow :: "layout \<Rightarrow> int" where
  "InputRow l = (if BoxMode l then Rows l - 3 else if Rows l < 2 then -1 else Rows l - 2)"

definition InputBoxTop :: "layout \<Rightarrow> int" where
  "InputBoxTop l = (if \<not> BoxMode l then -1 else Rows l - 4)"

definition InputBoxBottom :: "layout \<Rightarrow> int" where
  "InputBoxBottom l = (if \<not> BoxMode l then -1 else Rows l - 2)"

definition StatusLine :: "layout \<Rightarrow> int" where
  "StatusLine l = (if Rows l < 1 then -1 else Rows l - 1)"

text \<open>The rows that are painted, top to bottom; a region at a negative row is absent.\<close>

definition present :: "int \<Rightarrow> int list" where
  "present r = (if r < 0 then [] else [r])"

definition painted_rows :: "layout \<Rightarrow> int list" where
  "painted_rows l = [0..snd (ScrollbackSize l) - 1] @ present (InputBoxTop l) @ present (InputRow l) @
     present (InputBoxBottom l) @ present (StatusLine l)"

subsection \<open>Messages and the program's state\<close>

datatype 'x prog_msg =
    KeyMsg key_event
  | ResizeMsg int int
  | QuitMsg
  | QuitDisarmMsg
  | OtherMsg 'x

text \<open>What reaches the model: keys come decoded.\<close>

datatype 'x model_msg =
    ToModelKey key_event action
  | ToModelCancel
  | ToModelResize int int
  | ToModelOther 'x

record ('m, 'c) program =
  p_model :: 'm
  p_quitArmed :: bool
  p_quitArmedAt :: int
  p_timer :: "int option"
  p_quitWindow :: int
  p_quit :: bool
  p_scheduled :: "'c list"
  p_errors :: "string list"
  p_msgCount :: int

definition DefaultQuitWindow :: int where "DefaultQuitWindow = 800 * 10 ^ 6"

definition New_program :: "'m \<Rightarrow> int \<Rightarrow> ('m, 'c) program" where
  "New_program m window =
     \<lparr>p_model = m, p_quitArmed = False, p_quitArmedAt = 0, p_timer = None, p_quitWindow = window, p_quit = False,
      p_scheduled = [], p_errors = [], p_msgCount = 0\<rparr>"

definition requestQuit :: "('m, 'c) program \<Rightarrow> ('m, 'c) program" where
  "requestQuit p = p\<lparr>p_quit := True\<rparr>"

text \<open>The timer posts \<open>QuitDisarmMsg\<close> at \<open>p_timer\<close>; arming again stops the old one.\<close>

definition handleCtrlC :: "int \<Rightarrow> ('m, 'c) program \<Rightarrow> bool \<times> ('m, 'c) program" where
  "handleCtrlC now p =
     (if p_quitArmed p \<and> now - p_quitArmedAt p \<le> p_quitWindow p then (True, p)
      else (False, p\<lparr>p_quitArmed := True, p_quitArmedAt := now, p_timer := Some (now + p_quitWindow p)\<rparr>))"

definition panic_text :: "string \<Rightarrow> string" where
  "panic_text e = ''program.handleMsg: '' @ e"

type_synonym ('x, 'm, 'c) updater = "'x model_msg \<Rightarrow> 'm \<Rightarrow> string + 'm option \<times> 'c option"

definition call_update :: "('x, 'm, 'c) updater \<Rightarrow> 'x model_msg \<Rightarrow> ('m, 'c) program \<Rightarrow> ('m, 'c) program" where
  "call_update update msg p =
     (case update msg (p_model p) of
        Inl e \<Rightarrow> p\<lparr>p_errors := p_errors p @ [panic_text e]\<rparr>
      | Inr (newModel, cmd) \<Rightarrow>
          (let p1 = (case newModel of Some m \<Rightarrow> p\<lparr>p_model := m\<rparr> | None \<Rightarrow> p)
           in case cmd of Some c \<Rightarrow> p1\<lparr>p_scheduled := p_scheduled p1 @ [c]\<rparr> | None \<Rightarrow> p1))"

definition preDispatchSystem :: "('x, 'm, 'c) updater \<Rightarrow> int \<Rightarrow> 'x prog_msg \<Rightarrow> ('m, 'c) program \<Rightarrow> bool \<times> ('m, 'c) program" where
  "preDispatchSystem update now msg p =
     (case msg of
        KeyMsg k \<Rightarrow>
          if Code k = KeyCtrlBackslash then (True, requestQuit p)
          else if Code k = KeyCtrlC then
            (case handleCtrlC now p of
               (True, p1) \<Rightarrow> (True, requestQuit p1)
             | (False, p1) \<Rightarrow> (True, call_update update ToModelCancel p1))
          else (False, p)
      | QuitMsg \<Rightarrow> (True, requestQuit p)
      | QuitDisarmMsg \<Rightarrow> (True, p\<lparr>p_quitArmed := False\<rparr>)
      | _ \<Rightarrow> (False, p))"

definition decodeKeyMsg :: "key_event \<Rightarrow> action" where
  "decodeKeyMsg k = Resolve k"

definition handleMsg :: "('x, 'm, 'c) updater \<Rightarrow> int \<Rightarrow> 'x prog_msg \<Rightarrow> ('m, 'c) program \<Rightarrow> ('m, 'c) program" where
  "handleMsg update now msg p =
     (case preDispatchSystem update now msg (p\<lparr>p_msgCount := p_msgCount p + 1\<rparr>) of
        (True, p1) \<Rightarrow> p1
      | (False, p1) \<Rightarrow>
          call_update update
            (case msg of
               KeyMsg k \<Rightarrow> ToModelKey k (decodeKeyMsg k)
             | ResizeMsg c r \<Rightarrow> ToModelResize c r
             | OtherMsg x \<Rightarrow> ToModelOther x
             | _ \<Rightarrow> ToModelCancel) p1)"

text \<open>A history of messages with the time each was handled.\<close>

definition handle_all :: "('x, 'm, 'c) updater \<Rightarrow> (int \<times> 'x prog_msg) list \<Rightarrow> ('m, 'c) program \<Rightarrow> ('m, 'c) program" where
  "handle_all update evs p = fold (\<lambda>(now, msg). handleMsg update now msg) evs p"

subsection \<open>Painting the chrome\<close>

fun paintTextAt :: "(rune \<Rightarrow> int) \<Rightarrow> int \<Rightarrow> int \<Rightarrow> style \<Rightarrow> runes \<Rightarrow> int \<Rightarrow> grid \<Rightarrow> int \<times> grid" where
  "paintTextAt rw cols y st [] x g = (x, g)"
| "paintTextAt rw cols y st (r # rs) x g =
     (let w = RuneWidth rw r in
      if w \<le> 0 then paintTextAt rw cols y st rs x g
      else if x + w > cols then (x, g)
      else paintTextAt rw cols y st rs (x + w) (Grid_SetCell rw g x y \<lparr>Ch = r, St = st\<rparr>))"

definition inputBoxRule :: rune where "inputBoxRule = 0x2500"

text \<open>\<open>? for shortcuts\<close>\<close>

definition inputBoxHint :: runes where
  "inputBoxHint = [63, 32, 102, 111, 114, 32, 115, 104, 111, 114, 116, 99, 117, 116, 115]"

definition paintInputRule ::
    "(rune \<Rightarrow> int) \<Rightarrow> (runes \<Rightarrow> int) \<Rightarrow> int \<Rightarrow> runes \<Rightarrow> style \<Rightarrow> int \<Rightarrow> grid \<Rightarrow> grid" where
  "paintInputRule rw sw y hint st cols g =
     (if cols \<le> 0 \<or> y < 0 then g
      else
        let g1 = for_upto cols (\<lambda>x g. Grid_SetCell rw g x y \<lparr>Ch = inputBoxRule, St = st\<rparr>) g in
        if hint = [] then g1
        else
          let label = [32] @ hint @ [32]; start = cols - Width sw label - 1 in
          if start < 0 then g1 else snd (paintTextAt rw cols y st label start g1))"

definition StyleFor :: "mode \<Rightarrow> style" where
  "StyleFor md =
     (case md of
        ModeSlash \<Rightarrow> zero_style\<lparr>FG := RGB 0x00 0xC0 0xC0\<rparr>
      | ModeSQL \<Rightarrow> zero_style\<lparr>FG := RGB 0x50 0xC8 0x50\<rparr>
      | ModeNatural \<Rightarrow> zero_style)"

text \<open>\<open>Press Ctrl+C again to quit\<close> and the static prompt\<close>

definition quit_prompt :: runes where
  "quit_prompt = [80, 114, 101, 115, 115, 32, 67, 116, 114, 108, 43, 67, 32, 97, 103, 97, 105, 110, 32, 116, 111, 32, 113, 117,
     105, 116]"

definition idle_prompt :: runes where "idle_prompt = [62, 32, 95]"

definition paintInputRow ::
    "(rune \<Rightarrow> int) \<Rightarrow> bool \<Rightarrow> int \<Rightarrow> (runes \<times> int) option \<Rightarrow> grid \<Rightarrow> grid" where
  "paintInputRow rw quitArmed row inp g =
     (let cols = fst (Grid_Size g) in
      if quitArmed then snd (paintTextAt rw cols row (zero_style\<lparr>Bold := True\<rparr>) quit_prompt 0 g)
      else
        case inp of
          None \<Rightarrow> snd (paintTextAt rw cols row zero_style idle_prompt 0 g)
        | Some (buffer, cur) \<Rightarrow>
            let md = DeriveMode buffer; ist = StyleFor md;
                cursor = nat (if cur < 0 then 0 else if cur > int (length buffer) then int (length buffer) else cur);
                (x0, g0) = (if md = ModeNatural then paintTextAt rw cols row zero_style [62, 32] 0 g else (0, g));
                (x1, g1) = paintTextAt rw cols row ist (take cursor buffer) x0 g0;
                (x2, g2) = (if x1 < cols then (x1 + 1, Grid_SetCell rw g1 x1 row \<lparr>Ch = 95, St = zero_style\<lparr>Bold := True\<rparr>\<rparr>)
                            else (x1, g1))
            in snd (paintTextAt rw cols row ist (drop cursor buffer) x2 g2))"

definition paintInputBox ::
    "(rune \<Rightarrow> int) \<Rightarrow> (runes \<Rightarrow> int) \<Rightarrow> bool \<Rightarrow> layout \<Rightarrow> (runes \<times> int) option \<Rightarrow> grid \<Rightarrow> grid" where
  "paintInputBox rw sw quitArmed l inp g =
     (let content = InputRow l in
      if content < 0 then g
      else if \<not> BoxMode l then paintInputRow rw quitArmed content inp g
      else
        let cols = fst (Grid_Size g); d = zero_style\<lparr>FG := Palette 8\<rparr>;
            g1 = (if InputBoxTop l \<ge> 0 then paintInputRule rw sw (InputBoxTop l) [] d cols g else g);
            g2 = paintInputRow rw quitArmed content inp g1
        in if InputBoxBottom l \<ge> 0 then paintInputRule rw sw (InputBoxBottom l) inputBoxHint d cols g2 else g2)"

text \<open>\<open>i\<close> tells the first segment from the others.\<close>

fun paint_segments :: "(rune \<Rightarrow> int) \<Rightarrow> int \<Rightarrow> int \<Rightarrow> bool \<Rightarrow> (runes \<times> style) list \<Rightarrow> int \<Rightarrow> grid \<Rightarrow> grid" where
  "paint_segments rw cols row first [] x g = g"
| "paint_segments rw cols row first ((t, st) # segs) x g =
     (if x \<ge> cols then g
      else
        let (x1, g1) = (if first then (x, g)
                        else paintTextAt rw cols row (zero_style\<lparr>FG := Palette 8\<rparr>) [32, 183, 32] x g) in
        if \<not> first \<and> x1 \<ge> cols then g1
        else let (x2, g2) = paintTextAt rw cols row st t x1 g1 in paint_segments rw cols row False segs x2 g2)"

text \<open>\<open>opendbx\<close> and the names of the modes\<close>

definition fallback_segment :: "runes \<times> style" where
  "fallback_segment = ([111, 112, 101, 110, 100, 98, 120], zero_style)"

definition mode_runes :: "mode \<Rightarrow> runes" where
  "mode_runes md = map of_char (Mode_String md)"

definition paintStatusLine ::
    "(rune \<Rightarrow> int) \<Rightarrow> int \<Rightarrow> (runes \<times> style) list option \<Rightarrow> (runes \<times> int) option \<Rightarrow> grid \<Rightarrow> grid" where
  "paintStatusLine rw row status inp g =
     (let segs = (case status of Some ss \<Rightarrow> ss | None \<Rightarrow> []);
          segs1 = (if segs = [] then [fallback_segment] else segs);
          segs2 = (case inp of Some (buffer, _) \<Rightarrow> segs1 @ [(mode_runes (DeriveMode buffer), zero_style)] | None \<Rightarrow> segs1)
      in paint_segments rw (fst (Grid_Size g)) row True segs2 0 g)"

text \<open>The optional interfaces of the model answer \<open>None\<close> when it lacks them.\<close>

record 'm model_views =
  mv_View :: "'m \<Rightarrow> int \<Rightarrow> int \<Rightarrow> buf option"
  mv_InputState :: "'m \<Rightarrow> (runes \<times> int) option"
  mv_StatusSegments :: "'m \<Rightarrow> (runes \<times> style) list option"

definition layout_of :: "grid \<Rightarrow> layout" where
  "layout_of g = \<lparr>Cols = fst (Grid_Size g), Rows = snd (Grid_Size g)\<rparr>"

definition paint_scrollback :: "(rune \<Rightarrow> int) \<Rightarrow> 'm model_views \<Rightarrow> ('m, 'c) program \<Rightarrow> grid \<Rightarrow> grid" where
  "paint_scrollback rw mv p g =
     (case ScrollbackSize (layout_of g) of (sbCols, sbRows) \<Rightarrow>
        if sbRows > 0 then the (BlitAt rw (Some g) (mv_View mv (p_model p) sbCols sbRows) 0 0) else g)"

definition renderFn :: "(rune \<Rightarrow> int) \<Rightarrow> (runes \<Rightarrow> int) \<Rightarrow> 'm model_views \<Rightarrow> ('m, 'c) program \<Rightarrow> grid \<Rightarrow> grid" where
  "renderFn rw sw mv p g =
     (let l = layout_of g;
          g1 = paint_scrollback rw mv p g;
          inp = mv_InputState mv (p_model p);
          g2 = paintInputBox rw sw (p_quitArmed p) l inp g1
      in if StatusLine l \<ge> 0
         then paintStatusLine rw (StatusLine l) (mv_StatusSegments mv (p_model p)) inp g2
         else g2)"

subsection \<open>The screen is split without gap or overlap\<close>

lemma upto_snoc_int: "i \<le> j \<Longrightarrow> [i..j] = [i..j - 1] @ [j]"
  by (rule upto_rec2)

text \<open>The layout partitions the screen.  For every size, the scrollback rows, the top rule, the input row, the bottom
  rule and the status line, in this order and each only where it is present, are exactly the rows \<open>0\<close> to \<open>Rows - 1\<close>:
  no row is left out and none is given to two regions.\<close>

theorem layout_partitions_rows: "painted_rows l = [0..Rows l - 1]"
proof (cases "Rows l \<ge> 5")
  case True
  have "[0..Rows l - 1] = [0..Rows l - 5] @ [Rows l - 4, Rows l - 3, Rows l - 2, Rows l - 1]"
    using True upto_snoc_int [of 0 "Rows l - 1"] upto_snoc_int [of 0 "Rows l - 2"] upto_snoc_int [of 0 "Rows l - 3"]
      upto_snoc_int [of 0 "Rows l - 4"] by simp
  with True show ?thesis
    by (simp add: painted_rows_def ScrollbackSize_def BoxMode_def inputBoxMinRows_def present_def InputRow_def
        InputBoxTop_def InputBoxBottom_def StatusLine_def)
next
  case False
  then consider "Rows l \<le> 0" | "Rows l = 1" | "Rows l = 2" | "Rows l = 3" | "Rows l = 4" by linarith
  then show ?thesis
    by cases (simp_all add: painted_rows_def ScrollbackSize_def BoxMode_def inputBoxMinRows_def present_def InputRow_def
        InputBoxTop_def InputBoxBottom_def StatusLine_def upto.simps Let_def)
qed

subsection \<open>Painting stays in its rows\<close>

definition only_rows :: "(int \<Rightarrow> bool) \<Rightarrow> grid \<Rightarrow> grid \<Rightarrow> bool" where
  "only_rows R g g' \<longleftrightarrow> (wf_grid g \<longrightarrow> wf_grid g' \<and> Grid_Size g' = Grid_Size g \<and>
     (\<forall>u v. \<not> R v \<longrightarrow> Grid_Cell g' u v = Grid_Cell g u v))"

lemma only_rows_refl [simp, intro]: "only_rows R g g"
  by (simp add: only_rows_def)

lemma only_rows_trans: "only_rows R g g' \<Longrightarrow> only_rows R g' g'' \<Longrightarrow> only_rows R g g''"
  by (simp add: only_rows_def)

lemma only_rows_mono: "only_rows R g g' \<Longrightarrow> (\<And>v. R v \<Longrightarrow> S v) \<Longrightarrow> only_rows S g g'"
  by (auto simp: only_rows_def)

lemma only_rows_SetCell: "only_rows (\<lambda>v. v = y) g (Grid_SetCell rw g x y c)"
proof (cases "in_grid g x y")
  case True
  then show ?thesis
    by (auto simp: only_rows_def Grid_Cell_SetCell set_spec_def clear_spec_def SetCell_wf Grid_Size_def)
qed (simp add: SetCell_outside)

lemma only_rows_paintTextAt: "only_rows (\<lambda>v. v = y) g (snd (paintTextAt rw cols y st rs x g))"
proof (induction rs arbitrary: x g)
  case (Cons r rs)
  then show ?case
    by (auto simp: Let_def intro: only_rows_trans [OF only_rows_SetCell])
qed simp

declare paintTextAt.simps [simp del]

lemma only_rows_paintTextAt': "paintTextAt rw cols y st rs x g = (x', g') \<Longrightarrow> only_rows (\<lambda>v. v = y) g g'"
  using only_rows_paintTextAt [of y g rw cols st rs x] by simp

lemma only_rows_paintInputRule: "only_rows (\<lambda>v. v = y) g (paintInputRule rw sw y hint st cols g)"
proof -
  have "only_rows (\<lambda>v. v = y) g (for_upto cols (\<lambda>x g. Grid_SetCell rw g x y c) g)" for c
    by (rule for_upto_invariant) (auto intro: only_rows_trans only_rows_SetCell)
  then show ?thesis
    by (auto simp: paintInputRule_def Let_def intro: only_rows_trans only_rows_paintTextAt)
qed

lemma only_rows_paintInputRow: "only_rows (\<lambda>v. v = row) g (paintInputRow rw armed row inp g)"
proof (cases "armed \<or> inp = None")
  case True
  then show ?thesis by (auto simp: paintInputRow_def Let_def intro: only_rows_paintTextAt)
next
  case False
  then obtain b cur where inp: "inp = Some (b, cur)" "\<not> armed" by auto
  show ?thesis
    unfolding paintInputRow_def inp Let_def
    by (auto split: prod.splits if_splits
        intro!: only_rows_trans [OF _ only_rows_paintTextAt] only_rows_trans [OF _ only_rows_SetCell]
        dest!: only_rows_paintTextAt' simp: inp(2) intro: only_rows_trans)
qed

lemma only_rows_paint_segments: "only_rows (\<lambda>v. v = row) g (paint_segments rw cols row first segs x g)"
proof (induction segs arbitrary: first x g)
  case (Cons s segs)
  obtain t st where s: "s = (t, st)" by (cases s)
  show ?case
    using Cons.IH unfolding s
    by (auto simp: Let_def split: prod.splits dest!: only_rows_paintTextAt' intro: only_rows_trans)
qed simp

lemma only_rows_paintStatusLine: "only_rows (\<lambda>v. v = row) g (paintStatusLine rw row status inp g)"
  by (simp add: paintStatusLine_def Let_def only_rows_paint_segments)

lemma only_rows_paintInputBox:
  "only_rows (\<lambda>v. v \<in> set (present (InputBoxTop l) @ present (InputRow l) @ present (InputBoxBottom l))) g
     (paintInputBox rw sw armed l inp g)"
proof -
  define R where "R = (\<lambda>v. v \<in> set (present (InputBoxTop l) @ present (InputRow l) @ present (InputBoxBottom l)))"
  let ?d = "zero_style\<lparr>FG := Palette 8\<rparr>" and ?cols = "fst (Grid_Size g)"
  have member: "0 \<le> InputBoxTop l \<Longrightarrow> R (InputBoxTop l)" "0 \<le> InputRow l \<Longrightarrow> R (InputRow l)"
    "0 \<le> InputBoxBottom l \<Longrightarrow> R (InputBoxBottom l)" by (simp_all add: R_def present_def)
  have rule: "only_rows R h (paintInputRule rw sw y hint st cols h)" if "R y" for y hint st cols h
    by (rule only_rows_mono [OF only_rows_paintInputRule]) (use that in simp)
  have row: "only_rows R h (paintInputRow rw armed (InputRow l) inp h)" if "0 \<le> InputRow l" for h
    by (rule only_rows_mono [OF only_rows_paintInputRow]) (use that member in simp)
  define g1 where "g1 = (if InputBoxTop l \<ge> 0 then paintInputRule rw sw (InputBoxTop l) [] ?d ?cols g else g)"
  define g2 where "g2 = paintInputRow rw armed (InputRow l) inp g1"
  define g3 where "g3 = (if InputBoxBottom l \<ge> 0 then paintInputRule rw sw (InputBoxBottom l) inputBoxHint ?d ?cols g2 else g2)"
  have box: "paintInputBox rw sw armed l inp g =
      (if InputRow l < 0 then g else if \<not> BoxMode l then paintInputRow rw armed (InputRow l) inp g else g3)"
    by (simp add: paintInputBox_def Let_def g1_def g2_def g3_def)
  have "only_rows R g (paintInputBox rw sw armed l inp g)"
  proof (cases "InputRow l < 0")
    case True
    then show ?thesis by (simp add: box)
  next
    case False
    have "only_rows R g g1" unfolding g1_def by (auto intro: rule member)
    moreover have "only_rows R g1 g2" unfolding g2_def using False by (intro row) simp
    moreover have "only_rows R g2 g3" unfolding g3_def by (auto intro: rule member)
    ultimately have "only_rows R g g3" by (blast intro: only_rows_trans)
    with False row [of g] show ?thesis by (simp add: box)
  qed
  then show ?thesis by (simp only: R_def)
qed

lemma BlitAt_wf: "wf_grid g \<Longrightarrow> wf_grid (the (BlitAt rw (Some g) (Some src) xOff yOff))"
  unfolding BlitAt_def
  by (auto simp: Let_def intro!: for_upto_invariant [where P = wf_grid] wf_intros)

lemma paint_scrollback_wf:
  assumes "wf_grid g" shows "wf_grid (paint_scrollback rw mv p g)"
proof -
  have "wf_grid (the (BlitAt rw (Some g) src 0 0))" for src
  proof (cases src)
    case None
    with assms show ?thesis by (simp add: BlitAt_def)
  next
    case (Some b)
    then show ?thesis by (simp only: BlitAt_wf [OF assms])
  qed
  with assms show ?thesis by (simp add: paint_scrollback_def split_beta)
qed

text \<open>C20: The chrome never paints over the scrollback.  Whatever the model's input, status and texts are, a frame shows in
  every scrollback row exactly what blitting the model's view put there; rules, input row and status line only
  change the rows below.\<close>

theorem chrome_leaves_scrollback:
  assumes "wf_grid g" and "y < snd (ScrollbackSize (layout_of g))"
  shows "Grid_Cell (renderFn rw sw mv p g) x y = Grid_Cell (paint_scrollback rw mv p g) x y"
proof -
  let ?l = "layout_of g"
  let ?g1 = "paint_scrollback rw mv p g"
  let ?g2 = "paintInputBox rw sw (p_quitArmed p) ?l (mv_InputState mv (p_model p)) ?g1"
  have out: "y \<notin> set (present (InputBoxTop ?l) @ present (InputRow ?l) @ present (InputBoxBottom ?l))"
    "0 \<le> StatusLine ?l \<Longrightarrow> y \<noteq> StatusLine ?l"
    using assms(2)
    by (auto simp: present_def InputBoxTop_def InputRow_def InputBoxBottom_def StatusLine_def ScrollbackSize_def
        BoxMode_def inputBoxMinRows_def Let_def split: if_splits)
  from only_rows_paintInputBox [of ?l ?g1 rw sw "p_quitArmed p" "mv_InputState mv (p_model p)"]
    paint_scrollback_wf [OF assms(1), of rw mv p] out(1)
  have g2: "wf_grid ?g2" "Grid_Cell ?g2 x y = Grid_Cell ?g1 x y" by (auto simp: only_rows_def)
  show ?thesis
  proof (cases "0 \<le> StatusLine ?l")
    case True
    with only_rows_paintStatusLine [of "StatusLine ?l" ?g2 rw] g2 out(2) show ?thesis
      by (auto simp: only_rows_def renderFn_def Let_def)
  next
    case False
    with g2 show ?thesis by (simp add: renderFn_def Let_def)
  qed
qed

definition demo_views :: "unit model_views" where
  "demo_views = \<lparr>mv_View = (\<lambda>_ c r. Some \<lparr>b_size = (c, r), b_cell = (\<lambda>x y. \<lparr>Ch = 97, St = zero_style\<rparr>)\<rparr>),
     mv_InputState = (\<lambda>_. Some ([104, 105], 1)), mv_StatusSegments = (\<lambda>_. None)\<rparr>"

definition demo_screen :: grid where
  "demo_screen = \<lparr>g_cols = 2, g_rows = 6, g_cells = replicate 12 zero_cell, g_cellGen = replicate 12 0, g_generation = 1,
     g_cap = 12\<rparr>"

theorem chrome_leaves_scrollback_witness:
  "Grid_Cell (renderFn (\<lambda>_. 1) (\<lambda>_. 1) demo_views (New_program () 0 :: (unit, unit) program) demo_screen) 1 1 = \<lparr>Ch = 97, St = zero_style\<rparr>"
proof -
  have wf: "wf_grid demo_screen" by (simp add: demo_screen_def wf_grid_def MaxInt32_def)
  have "1 < snd (ScrollbackSize (layout_of demo_screen))" by code_simp
  from chrome_leaves_scrollback [OF wf this, of "\<lambda>_. 1" "\<lambda>_. 1" demo_views "New_program () 0 :: (unit, unit) program" 1]
  have "Grid_Cell (renderFn (\<lambda>_. 1) (\<lambda>_. 1) demo_views (New_program () 0 :: (unit, unit) program) demo_screen) 1 1 =
    Grid_Cell (paint_scrollback (\<lambda>_. 1) demo_views (New_program () 0 :: (unit, unit) program) demo_screen) 1 1" .
  also have "\<dots> = \<lparr>Ch = 97, St = zero_style\<rparr>" by code_simp
  finally show ?thesis .
qed

subsection \<open>The double press\<close>

definition is_ctrlC :: "'x prog_msg \<Rightarrow> bool" where
  "is_ctrlC m = (case m of KeyMsg k \<Rightarrow> Code k = KeyCtrlC | _ \<Rightarrow> False)"

definition hard_quit :: "'x prog_msg \<Rightarrow> bool" where
  "hard_quit m = (case m of KeyMsg k \<Rightarrow> Code k = KeyCtrlBackslash | QuitMsg \<Rightarrow> True | _ \<Rightarrow> False)"

definition disarms :: "'x prog_msg \<Rightarrow> bool" where
  "disarms m = (case m of QuitDisarmMsg \<Rightarrow> True | _ \<Rightarrow> False)"

text \<open>The time of the last press that no disarm followed.\<close>

fun armed_at :: "(int \<times> 'x prog_msg) list \<Rightarrow> int option \<Rightarrow> int option" where
  "armed_at [] a = a"
| "armed_at ((t, m) # es) a = armed_at es (if is_ctrlC m then Some t else if disarms m then None else a)"

definition double_press :: "int \<Rightarrow> (int \<times> 'x prog_msg) list \<Rightarrow> bool" where
  "double_press w es \<longleftrightarrow> (\<exists>pre t1 m1 mid t2 m2 post. es = pre @ (t1, m1) # mid @ (t2, m2) # post \<and> is_ctrlC m1 \<and> is_ctrlC m2 \<and>
     (\<forall>e \<in> set mid. \<not> is_ctrlC (snd e) \<and> \<not> disarms (snd e)) \<and> t2 - t1 \<le> w)"

lemma armed_at_append: "armed_at (xs @ ys) a = armed_at ys (armed_at xs a)"
  by (induction xs a rule: armed_at.induct) auto

lemma armed_at_quiet: "\<forall>e \<in> set es. \<not> is_ctrlC (snd e) \<and> \<not> disarms (snd e) \<Longrightarrow> armed_at es a = a"
  by (induction es a rule: armed_at.induct) auto

lemma armed_at_Some:
  assumes "armed_at es None = Some t"
  shows "\<exists>pre m mid. es = pre @ (t, m) # mid \<and> is_ctrlC m \<and> (\<forall>e \<in> set mid. \<not> is_ctrlC (snd e) \<and> \<not> disarms (snd e))"
  using assms
proof (induction es rule: rev_induct)
  case (snoc e es)
  obtain t' m' where e: "e = (t', m')" by (cases e)
  show ?case
  proof (cases "is_ctrlC m'")
    case True
    with snoc.prems e have "t' = t" by (simp add: armed_at_append)
    with True e show ?thesis by (intro exI [of _ es] exI [of _ m'] exI [of _ "[]"]) simp
  next
    case False
    with snoc.prems e have d: "\<not> disarms m'" and a: "armed_at es None = Some t" by (auto simp: armed_at_append split: if_splits)
    from snoc.IH [OF a] obtain pre m mid where "es = pre @ (t, m) # mid" "is_ctrlC m"
      "\<forall>e \<in> set mid. \<not> is_ctrlC (snd e) \<and> \<not> disarms (snd e)" by blast
    with False d e show ?thesis by (intro exI [of _ pre] exI [of _ m] exI [of _ "mid @ [e]"]) auto
  qed
qed simp

lemma double_press_snoc:
  "double_press w (es @ [(t, m)]) \<longleftrightarrow>
     double_press w es \<or> is_ctrlC m \<and> (\<exists>t1. armed_at es None = Some t1 \<and> t - t1 \<le> w)"
proof
  assume "double_press w (es @ [(t, m)])"
  then obtain pre t1 m1 mid t2 m2 post where d: "es @ [(t, m)] = pre @ (t1, m1) # mid @ (t2, m2) # post"
    "is_ctrlC m1" "is_ctrlC m2" "\<forall>e \<in> set mid. \<not> is_ctrlC (snd e) \<and> \<not> disarms (snd e)" "t2 - t1 \<le> w"
    by (auto simp: double_press_def)
  show "double_press w es \<or> is_ctrlC m \<and> (\<exists>t1. armed_at es None = Some t1 \<and> t - t1 \<le> w)"
  proof (cases post rule: rev_cases)
    case Nil
    with d(1) have "es @ [(t, m)] = (pre @ (t1, m1) # mid) @ [(t2, m2)]" by simp
    then have es: "es = pre @ (t1, m1) # mid" "t = t2" "m = m2" by (simp_all only: append1_eq_conv prod.inject)
    with d have "armed_at es None = Some t1" by (simp add: armed_at_append armed_at_quiet)
    with es d show ?thesis by blast
  next
    case (snoc post' z)
    with d(1) have "es @ [(t, m)] = (pre @ (t1, m1) # mid @ (t2, m2) # post') @ [z]" by simp
    then have "es = pre @ (t1, m1) # mid @ (t2, m2) # post'" by (simp only: append1_eq_conv)
    with d(2-) show ?thesis unfolding double_press_def by blast
  qed
next
  assume "double_press w es \<or> is_ctrlC m \<and> (\<exists>t1. armed_at es None = Some t1 \<and> t - t1 \<le> w)"
  then show "double_press w (es @ [(t, m)])"
  proof
    assume "double_press w es"
    then show ?thesis unfolding double_press_def by (metis append.assoc append_Cons)
  next
    assume "is_ctrlC m \<and> (\<exists>t1. armed_at es None = Some t1 \<and> t - t1 \<le> w)"
    with armed_at_Some show ?thesis unfolding double_press_def by fastforce
  qed
qed

lemma call_update_frame [simp]:
  "p_quit (call_update update msg p) = p_quit p" "p_quitArmed (call_update update msg p) = p_quitArmed p"
  "p_quitArmedAt (call_update update msg p) = p_quitArmedAt p" "p_quitWindow (call_update update msg p) = p_quitWindow p"
  by (auto simp: call_update_def Let_def split: sum.splits option.splits prod.splits)

definition arm_of :: "('m, 'c) program \<Rightarrow> int option" where
  "arm_of p = (if p_quitArmed p then Some (p_quitArmedAt p) else None)"

lemma key_codes_distinct: "KeyCtrlC \<noteq> KeyCtrlBackslash"
  by (simp add: KeyCtrlC_def KeyCtrlBackslash_def)

lemma handleMsg_quit:
  "p_quitWindow (handleMsg update now msg p) = p_quitWindow p"
  "p_quit (handleMsg update now msg p) \<longleftrightarrow> p_quit p \<or> hard_quit msg \<or>
     is_ctrlC msg \<and> (\<exists>t. arm_of p = Some t \<and> now - t \<le> p_quitWindow p)"
  "\<not> p_quit (handleMsg update now msg p) \<Longrightarrow>
     arm_of (handleMsg update now msg p) = (if is_ctrlC msg then Some now else if disarms msg then None else arm_of p)"
  using key_codes_distinct
  by (cases msg; auto simp: handleMsg_def preDispatchSystem_def handleCtrlC_def requestQuit_def arm_of_def
      is_ctrlC_def hard_quit_def disarms_def split: if_splits)+

lemma handle_all_snoc: "handle_all update (es @ [(t, m)]) p = handleMsg update t m (handle_all update es p)"
  by (simp add: handle_all_def)

lemma quit_inv:
  fixes m :: 'm
  shows "p_quitWindow (handle_all update es (New_program m w)) = w \<and>
    (p_quit (handle_all update es (New_program m w)) \<longleftrightarrow> (\<exists>e \<in> set es. hard_quit (snd e)) \<or> double_press w es) \<and>
    (\<not> p_quit (handle_all update es (New_program m w)) \<longrightarrow>
       arm_of (handle_all update es (New_program m w)) = armed_at es None)"
proof (induction es rule: rev_induct)
  case Nil
  then show ?case by (simp add: handle_all_def New_program_def arm_of_def double_press_def)
next
  case (snoc e es)
  obtain t msg where e: "e = (t, msg)" by (cases e)
  let ?p = "handle_all update es (New_program m w)"
  note step = handleMsg_quit [of update t msg ?p]
  have "p_quit (handleMsg update t msg ?p) \<longleftrightarrow> (\<exists>e \<in> set (es @ [e]). hard_quit (snd e)) \<or> double_press w (es @ [e])"
    using snoc.IH step(2) by (cases "p_quit ?p") (auto simp: e double_press_snoc)
  with snoc.IH step(1,3) show ?case
    by (auto simp: e handle_all_snoc armed_at_append step(2))
qed

text \<open>C18: The quit protocol.  Starting unarmed, the program has asked to quit after a history of timed messages exactly when
  the history holds a hard quit (Ctrl+backslash or a quit message), or two presses of Ctrl+C at most the window apart
  with neither another press nor a handled disarm between them.  Nothing the model does, panics included,
  can cause or prevent it.\<close>

theorem quit_protocol:
  "p_quit (handle_all update es (New_program m w)) \<longleftrightarrow> (\<exists>e \<in> set es. hard_quit (snd e)) \<or> double_press w es"
  by (rule quit_inv [THEN conjunct2, THEN conjunct1])

subsection \<open>The contract of a model\<close>

text \<open>A model promises an invariant its updates keep; a panic keeps the old model.\<close>

locale model_contract =
  fixes update :: "('x, 'm, 'c) updater" and inv :: "'m \<Rightarrow> bool"
  assumes update_inv: "inv m \<Longrightarrow> update msg m = Inr (Some m', c) \<Longrightarrow> inv m'"
begin

lemma call_update_inv: "inv (p_model p) \<Longrightarrow> inv (p_model (call_update update msg p))"
  by (auto simp: call_update_def Let_def dest: update_inv split: sum.splits option.splits prod.splits)

lemma handleMsg_inv: "inv (p_model p) \<Longrightarrow> inv (p_model (handleMsg update now msg p))"
  by (cases msg) (auto simp: handleMsg_def preDispatchSystem_def handleCtrlC_def requestQuit_def intro: call_update_inv)

lemma handle_all_inv: "inv (p_model p) \<Longrightarrow> inv (p_model (handle_all update es p))"
  unfolding handle_all_def by (induction es arbitrary: p) (auto intro: handleMsg_inv)

end

end
