(* ===== verification/ChatProgram.thy ===== *)
theory ChatProgram
  imports ChatRun Program
begin

text \<open>
  The chat model as the program's model: \<open>llmapp.Model\<close> behind the interfaces of \<open>program/model.go\<close>, its
  \<open>View\<close> and \<open>InputState\<close>, and what the two layers promise together.  What a node paints is the argument
  \<open>render\<close>, \<open>None\<close> for an error or a nil buffer.
\<close>

definition chat_update :: "('i snapshot \<Rightarrow> string) \<Rightarrow> ('i chat_msg, 'i chat, 'i cmd) updater" where
  "chat_update gen msg m =
     (let (m', c) = (case msg of
          ToModelKey k a \<Rightarrow> Update gen (KeyActionMsg k a) m
        | ToModelCancel \<Rightarrow> Update gen CancelCmdMsg m
        | ToModelResize cols rows \<Rightarrow> (m, NoCmd)
        | ToModelOther x \<Rightarrow> Update gen x m)
      in Inr (Some m', case c of NoCmd \<Rightarrow> None | _ \<Rightarrow> Some c))"

definition InputState :: "'i chat \<Rightarrow> runes \<times> int" where
  "InputState m = (cm_buffer m, cm_cursor m)"

text \<open>The nodes bottom-up, while there is room above.\<close>

fun view_nodes ::
    "(rune \<Rightarrow> int) \<Rightarrow> ('i node \<Rightarrow> int \<Rightarrow> int \<Rightarrow> buf option) \<Rightarrow> int \<Rightarrow> int \<Rightarrow> 'i node list \<Rightarrow> int \<Rightarrow> grid \<Rightarrow> grid" where
  "view_nodes rw render cols rows [] y g = g"
| "view_nodes rw render cols rows (n # ns) y g =
     (if y < 0 then g
      else case render n cols rows of
             None \<Rightarrow> view_nodes rw render cols rows ns y g
           | Some nb \<Rightarrow>
               let top = y - snd (b_size nb) + 1
               in view_nodes rw render cols rows ns (top - 1) (the (BlitAt rw (Some g) (Some nb) 0 top)))"

definition chat_View ::
    "(rune \<Rightarrow> int) \<Rightarrow> ('i node \<Rightarrow> int \<Rightarrow> int \<Rightarrow> buf option) \<Rightarrow> 'i chat \<Rightarrow> int \<Rightarrow> int \<Rightarrow> buf option" where
  "chat_View rw render m cols rows =
     (case NewGrid cols rows of
        Inl _ \<Rightarrow> None
      | Inr g \<Rightarrow> Some (as_buf (view_nodes rw render cols rows (rev (cm_scrollback m @ cm_previewNodes m)) (rows - 1) g)))"

lemma Update_ok': "Update gen msg m = (m', c) \<Longrightarrow> chat_ok m \<Longrightarrow> chat_ok m'"
  using Update_ok [of m gen msg] by simp

interpretation chat_contract: model_contract "chat_update gen" chat_ok
  by unfold_locales (auto simp: chat_update_def Let_def split: model_msg.splits prod.splits intro: Update_ok')

text \<open>C19: Ctrl+C stops a running diagnosis before it stops the program.  In any history of messages the program starts
  from a fresh chat, the chat keeps its state invariant; and when the last message is a Ctrl+C that finds a run
  in flight and the quit not armed, the program does not quit, the chat is unchanged, and exactly the
  command that cancels the run is scheduled.\<close>

theorem ctrlC_cancels_run:
  fixes opts :: chat_options
  assumes "p = handle_all (chat_update gen) es (New_program (New_chat opts) w)"
    and "cm_streaming (p_model p)" and "\<not> p_quitArmed p" and "Code k = KeyCtrlC"
  shows "chat_ok (p_model p) \<and> p_model (handleMsg (chat_update gen) now (KeyMsg k) p) = p_model p \<and>
    p_quit (handleMsg (chat_update gen) now (KeyMsg k) p) = p_quit p \<and>
    p_scheduled (handleMsg (chat_update gen) now (KeyMsg k) p) = p_scheduled p @ [CallCancel]"
proof -
  have "chat_ok (New_chat opts :: 'a chat)" by (rule chat_reachable_ok) (rule chat_reachable.init)
  then have "chat_ok (p_model p)"
    unfolding assms(1) by (intro chat_contract.handle_all_inv) (simp add: New_program_def)
  moreover from this assms(2) have "cm_cancel (p_model p)" by (simp add: chat_ok_def)
  ultimately show ?thesis
    using assms(3,4) key_codes_distinct
    by (simp add: handleMsg_def preDispatchSystem_def handleCtrlC_def call_update_def chat_update_def Update_def
        handleCancel_def Let_def)
qed

definition demo_keys :: "(int \<times> string chat_msg prog_msg) list" where
  "demo_keys = [(0, KeyMsg \<lparr>Code = KeyRune, KRune = 104, Mod = 0\<rparr>), (1, KeyMsg \<lparr>Code = KeyEnter, KRune = 0, Mod = 0\<rparr>)]"

theorem ctrlC_cancels_run_witness:
  "let p = handle_all (chat_update (\<lambda>_. [])) demo_keys (New_program (New_chat demo_options) 800) in
     p_scheduled (handleMsg (chat_update (\<lambda>_. [])) 2 (KeyMsg \<lparr>Code = KeyCtrlC, KRune = 0, Mod = 0\<rparr>) p) = p_scheduled p @ [CallCancel]"
proof -
  let ?p = "handle_all (chat_update (\<lambda>_. [])) demo_keys (New_program (New_chat demo_options) 800)"
  have "cm_streaming (p_model ?p)" "\<not> p_quitArmed ?p" by code_simp+
  from ctrlC_cancels_run [OF refl this, of "\<lparr>Code = KeyCtrlC, KRune = 0, Mod = 0\<rparr>" 2] show ?thesis by (simp add: Let_def)
qed

end
