(* ===== verification/GoText.thy ===== *)
theory GoText
  imports ErrCode
begin

text \<open>
  What the source uses of Go's packages \<open>strings\<close>, \<open>strconv\<close>, \<open>unicode\<close> and \<open>regexp\<close>, on byte strings:
  splitting and joining at newlines, trimming white space, \<open>Atoi\<close> of a digit string, and leftmost-first
  matching with capture groups for the form of expression the repository writes.
\<close>

subsection \<open>Lines\<close>

definition NL :: char where "NL = CHR 0x0A"

text \<open>\<open>strings.Split(s, "\n")\<close> and \<open>strings.Join(ls, "\n")\<close>.\<close>

fun split_nl :: "string \<Rightarrow> string list" where
  "split_nl [] = [[]]"
| "split_nl (c # cs) =
     (if c = NL then [] # split_nl cs
      else (case split_nl cs of [] \<Rightarrow> [[c]] | l # ls \<Rightarrow> (c # l) # ls))"

fun join_nl :: "string list \<Rightarrow> string" where
  "join_nl [] = []"
| "join_nl [l] = l"
| "join_nl (l # ls) = l @ NL # join_nl ls"

lemma split_nl_not_Nil [simp]: "split_nl s \<noteq> []"
  by (cases s) (auto split: list.splits)

lemma join_nl_Cons: "ls \<noteq> [] \<Longrightarrow> join_nl (l # ls) = l @ NL # join_nl ls"
  by (cases ls) auto

lemma join_split_nl [simp]: "join_nl (split_nl s) = s"
proof (induction s)
  case (Cons c s)
  obtain l ls where "split_nl s = l # ls" using split_nl_not_Nil by (meson neq_Nil_conv)
  with Cons show ?case by (cases ls) (auto simp: join_nl_Cons)
qed simp

lemma split_nl_line: "NL \<notin> set l \<Longrightarrow> split_nl l = [l]"
  by (induction l) auto

lemma split_nl_append: "NL \<notin> set l \<Longrightarrow> split_nl (l @ NL # s) = l # split_nl s"
  by (induction l) auto

lemma split_join_nl: "ls \<noteq> [] \<Longrightarrow> list_all (\<lambda>l. NL \<notin> set l) ls \<Longrightarrow> split_nl (join_nl ls) = ls"
  by (induction ls rule: join_nl.induct) (auto simp: split_nl_line split_nl_append)

lemma split_nl_no_NL: "l \<in> set (split_nl s) \<Longrightarrow> NL \<notin> set l"
  by (induction s arbitrary: l) (auto split: if_splits list.splits)

text \<open>Text in which every line is ended by a newline splits into its lines and one empty one.\<close>

definition end_lines :: "string list \<Rightarrow> string" where
  "end_lines ls = concat (map (\<lambda>l. l @ [NL]) ls)"

lemma end_lines_simps [simp]: "end_lines [] = []" "end_lines (l # ls) = l @ NL # end_lines ls"
  "end_lines (ls @ ms) = end_lines ls @ end_lines ms"
  by (simp_all add: end_lines_def)

lemma end_lines_split: "end_lines (split_nl s) = s @ [NL]"
  by (induction s) (auto split: list.splits)

lemma split_end_lines: "list_all (\<lambda>l. NL \<notin> set l) ls \<Longrightarrow> split_nl (end_lines ls) = ls @ [[]]"
  by (induction ls) (auto simp: split_nl_append)

subsection \<open>White space\<close>

text \<open>The encodings of the runes for which \<open>unicode.IsSpace\<close> holds.\<close>

definition space_runes :: "int list" where
  "space_runes = [9, 10, 11, 12, 13, 32, 0x85, 0xA0, 0x1680, 0x2000, 0x2001, 0x2002, 0x2003, 0x2004, 0x2005, 0x2006,
     0x2007, 0x2008, 0x2009, 0x200A, 0x2028, 0x2029, 0x202F, 0x205F, 0x3000]"

definition leading_space :: "string \<Rightarrow> string option" where
  "leading_space s = find (\<lambda>p. prefix p s) (map utf8_rune space_runes)"

lemma utf8_rune_not_Nil [simp]: "utf8_rune c \<noteq> []"
  by (simp add: utf8_rune_def)

lemma leading_space_prefix: "leading_space s = Some p \<Longrightarrow> prefix p s \<and> p \<noteq> []"
  unfolding leading_space_def find_Some_iff by (auto simp: in_set_conv_nth)

lemma leading_space_length: "leading_space s = Some p \<Longrightarrow> length (drop (length p) s) < length s"
  using leading_space_prefix [of s p] by (auto simp: prefix_def)

text \<open>\<open>strings.TrimLeftFunc(s, unicode.IsSpace)\<close>; \<open>strings.TrimSpace(s) == ""\<close> holds when nothing is left.\<close>

function TrimLeftSpace :: "string \<Rightarrow> string" where
  "TrimLeftSpace s = (case leading_space s of None \<Rightarrow> s | Some p \<Rightarrow> TrimLeftSpace (drop (length p) s))"
  by pat_completeness auto
termination
  by (relation "measure length") (use leading_space_length in auto)

declare TrimLeftSpace.simps [simp del]

definition blank :: "string \<Rightarrow> bool" where
  "blank s \<longleftrightarrow> TrimLeftSpace s = []"

lemma leading_space_Nil [simp]: "leading_space [] = None"
  by (simp add: leading_space_def space_runes_def utf8_rune_def)

lemma TrimLeftSpace_Nil [simp]: "TrimLeftSpace [] = []"
  by (simp add: TrimLeftSpace.simps)

lemma blank_Nil [simp]: "blank []"
  by (simp add: blank_def)

text \<open>A printable ASCII character starts no white space.\<close>

definition graphic :: "char \<Rightarrow> bool" where
  "graphic c \<longleftrightarrow> 33 \<le> (of_char c :: nat) \<and> (of_char c :: nat) < 127"

lemma space_heads: "\<forall>p \<in> set (map utf8_rune space_runes). p \<noteq> [] \<and> \<not> graphic (hd p)"
  by code_simp

lemma leading_space_graphic: "graphic c \<Longrightarrow> leading_space (c # s) = None"
  using space_heads by (fastforce simp: leading_space_def find_None_iff prefix_Cons)

lemma TrimLeftSpace_graphic: "graphic c \<Longrightarrow> TrimLeftSpace (c # s) = c # s"
  by (subst TrimLeftSpace.simps) (simp add: leading_space_graphic)

lemma blank_graphic [simp]: "graphic c \<Longrightarrow> \<not> blank (c # s)"
  by (simp add: blank_def TrimLeftSpace_graphic)

lemma TrimLeftSpace_suffix: "suffix (TrimLeftSpace s) s"
proof (induction s rule: TrimLeftSpace.induct)
  case (1 s)
  show ?case
  proof (cases "leading_space s")
    case None
    then show ?thesis by (simp add: TrimLeftSpace.simps [of s])
  next
    case (Some p)
    then show ?thesis using "1.IH" [OF Some] suffix_drop suffix_order.trans
      by (simp add: TrimLeftSpace.simps [of s]) blast
  qed
qed

subsection \<open>Digit strings\<close>

definition is_digit :: "char \<Rightarrow> bool" where
  "is_digit c \<longleftrightarrow> 48 \<le> (of_char c :: nat) \<and> (of_char c :: nat) \<le> 57"

text \<open>\<open>strconv.Atoi\<close> on a digit string, its error dropped: out of range it returns the largest integer.\<close>

definition Atoi :: "string \<Rightarrow> int" where
  "Atoi s = min (int (read_nat s)) (2 ^ 63 - 1)"

lemma show_nat_is_digit: "c \<in> set (show_nat n) \<Longrightarrow> is_digit c"
  using show_nat_digits by (simp add: is_digit_def)

lemma Atoi_show_nat: "int n < 2 ^ 63 \<Longrightarrow> Atoi (show_nat n) = int n"
  by (simp add: Atoi_def)

subsection \<open>Separators\<close>

text \<open>A separator that does not occur before (or after) it splits a text in one way.\<close>

lemma sep_inject: "a @ c # x = b @ c # y \<Longrightarrow> c \<notin> set a \<Longrightarrow> c \<notin> set b \<Longrightarrow> a = b \<and> x = y"
proof (induction a arbitrary: b)
  case Nil
  then show ?case by (cases b) auto
next
  case (Cons d a)
  then show ?case by (cases b) auto
qed

lemma sep_inject_last:
  assumes "x @ c # a = y @ c # b" and "c \<notin> set a" and "c \<notin> set b"
  shows "x = y \<and> a = b"
proof -
  from assms(1) have "rev a @ c # rev x = rev b @ c # rev y" by (metis append.assoc append_Cons append_Nil rev.simps(2) rev_append)
  from sep_inject [OF this] assms(2,3) show ?thesis by simp
qed

lemma show_int_chars: "c \<in> set (show_int n) \<Longrightarrow> is_digit c \<or> c = CHR ''-''"
  using show_nat_is_digit by (auto simp: show_int_def split: if_splits)

lemma not_in_show_int [simp]:
  "CHR '':'' \<notin> set (show_int n)" "CHR '','' \<notin> set (show_int n)" "CHR ''+'' \<notin> set (show_int n)"
  "CHR ''@'' \<notin> set (show_int n)" "CHR '' '' \<notin> set (show_int n)"
  using show_int_chars [of _ n] by (force simp: is_digit_def)+

lemma show_int_inject [simp]: "show_int m = show_int n \<longleftrightarrow> m = n"
proof
  have minus: "hd (show_nat k) \<noteq> CHR ''-''" for k
    using show_nat_is_digit [of "hd (show_nat k)" k] by (auto simp: is_digit_def)
  assume "show_int m = show_int n"
  then show "m = n" using minus [of "nat m"] minus [of "nat n"]
    by (auto simp: show_int_def split: if_splits) (metis list.sel(1))+
qed simp

subsection \<open>Decoding\<close>

text \<open>
  \<open>utf8.DecodeRuneInString\<close>: the rune at the start of a non-empty string and its size; a byte that
  starts no valid encoding is \<open>U+FFFD\<close> of size 1.
\<close>

definition byte_at :: "string \<Rightarrow> nat \<Rightarrow> int" where
  "byte_at s i = (if i < length s then of_char (s ! i) else 0)"

definition cont :: "int \<Rightarrow> bool" where
  "cont b \<longleftrightarrow> 128 \<le> b \<and> b < 192"

definition RuneError :: int where "RuneError = 0xFFFD"

definition DecodeRune :: "string \<Rightarrow> int \<times> nat" where
  "DecodeRune s =
     (let a = byte_at s 0; b = byte_at s 1; c = byte_at s 2; d = byte_at s 3 in
      if a < 128 then (a, 1)
      else if 194 \<le> a \<and> a < 224 \<and> cont b then ((a - 192) * 64 + (b - 128), 2)
      else if 224 \<le> a \<and> a < 240 \<and> cont b \<and> cont c \<and> (a = 224 \<longrightarrow> 160 \<le> b) \<and> (a = 237 \<longrightarrow> b < 160)
      then ((a - 224) * 4096 + (b - 128) * 64 + (c - 128), 3)
      else if 240 \<le> a \<and> a < 245 \<and> cont b \<and> cont c \<and> cont d \<and> (a = 240 \<longrightarrow> 144 \<le> b) \<and> (a = 244 \<longrightarrow> b < 144)
      then ((a - 240) * 262144 + (b - 128) * 4096 + (c - 128) * 64 + (d - 128), 4)
      else (RuneError, 1))"

lemma DecodeRune_pos: "0 < snd (DecodeRune s)"
  by (simp add: DecodeRune_def Let_def)

text \<open>The runes \<open>for _, r := range s\<close> visits.\<close>

function runes_of :: "string \<Rightarrow> int list" where
  "runes_of s = (if s = [] then [] else fst (DecodeRune s) # runes_of (drop (snd (DecodeRune s)) s))"
  by pat_completeness auto
termination
  by (relation "measure length") (use DecodeRune_pos in auto)

declare runes_of.simps [simp del]

lemma runes_of_Nil [simp]: "runes_of [] = []"
  by (simp add: runes_of.simps)

definition valid_rune :: "int \<Rightarrow> bool" where
  "valid_rune r \<longleftrightarrow> 0 \<le> r \<and> r < 0x110000 \<and> \<not> (0xD800 \<le> r \<and> r < 0xE000)"

lemma of_char_of_int [simp]: "0 \<le> n \<Longrightarrow> n < 256 \<Longrightarrow> (of_char (char_of n) :: int) = n"
  by (simp add: of_char_of)

lemma byte_at_simps [simp]:
  "byte_at (c # s) 0 = of_char c" "byte_at (c # s) (Suc i) = byte_at s i" "byte_at (c # s) 1 = byte_at s 0"
  "byte_at (c # s) 2 = byte_at s 1" "byte_at (c # s) 3 = byte_at s 2"
  by (simp_all add: byte_at_def numeral_2_eq_2 numeral_3_eq_3)

lemma DecodeRune_2: "2 \<le> p \<Longrightarrow> p < 32 \<Longrightarrow> 0 \<le> q \<Longrightarrow> q < 64 \<Longrightarrow>
   DecodeRune (char_of (192 + p) # char_of (128 + q) # s) = (p * 64 + q, 2)"
  by (simp add: DecodeRune_def Let_def cont_def)

lemma DecodeRune_3: "0 \<le> p \<Longrightarrow> p < 16 \<Longrightarrow> 0 \<le> q \<Longrightarrow> q < 64 \<Longrightarrow> 0 \<le> t \<Longrightarrow> t < 64 \<Longrightarrow> (p = 0 \<Longrightarrow> 32 \<le> q) \<Longrightarrow> (p = 13 \<Longrightarrow> q < 32) \<Longrightarrow>
   DecodeRune (char_of (224 + p) # char_of (128 + q) # char_of (128 + t) # s) = (p * 4096 + q * 64 + t, 3)"
  by (auto simp: DecodeRune_def Let_def cont_def)

lemma DecodeRune_4: "0 \<le> p \<Longrightarrow> p < 5 \<Longrightarrow> 0 \<le> q \<Longrightarrow> q < 64 \<Longrightarrow> 0 \<le> t \<Longrightarrow> t < 64 \<Longrightarrow> 0 \<le> u \<Longrightarrow> u < 64 \<Longrightarrow>
   (p = 0 \<Longrightarrow> 16 \<le> q) \<Longrightarrow> (p = 4 \<Longrightarrow> q < 16) \<Longrightarrow>
   DecodeRune (char_of (240 + p) # char_of (128 + q) # char_of (128 + t) # char_of (128 + u) # s) =
     (p * 262144 + q * 4096 + t * 64 + u, 4)"
  by (auto simp: DecodeRune_def Let_def cont_def)

lemma DecodeRune_utf8_rune:
  assumes "valid_rune r"
  shows "DecodeRune (utf8_rune r @ s) = (r, length (utf8_rune r))"
proof -
  define a b c where "a = r div 64" and "b = a div 64" and "c = b div 64"
  have q: "r div 4096 = b" "r div 262144 = c"
    using zdiv_zmult2_eq [of 64 r 64] zdiv_zmult2_eq [of 4096 r 64] zdiv_zmult2_eq [of 64 "r div 64" 64]
    by (simp_all add: a_def b_def c_def)
  have m: "r = 64 * a + r mod 64" "a = 64 * b + a mod 64" "b = 64 * c + b mod 64"
    by (simp_all add: a_def b_def c_def)
  have l: "0 \<le> r mod 64" "r mod 64 < 64" "0 \<le> a mod 64" "a mod 64 < 64" "0 \<le> b mod 64" "b mod 64 < 64" by simp_all
  have r: "0 \<le> r" "r < 1114112" "r < 55296 \<or> 57344 \<le> r" using assms by (auto simp: valid_rune_def)
  consider "r < 128" | "128 \<le> r" "r < 2048" | "2048 \<le> r" "r < 65536" | "65536 \<le> r" by linarith
  then show ?thesis
  proof cases
    case 1
    with r show ?thesis by (simp add: DecodeRune_def utf8_rune_def Let_def)
  next
    case 2
    have "2 \<le> a" "a < 32" using 2 m l by linarith+
    from DecodeRune_2 [OF this l(1,2)] 2 m(1) show ?thesis by (simp add: utf8_rune_def a_def [symmetric])
  next
    case 3
    have "0 \<le> b" "b < 16" "b = 0 \<Longrightarrow> 32 \<le> a mod 64" "b = 13 \<Longrightarrow> a mod 64 < 32" using 3 m l r by linarith+
    from DecodeRune_3 [OF this(1,2) l(3,4,1,2) this(3,4)] 3 m(1,2) show ?thesis
      by (simp add: utf8_rune_def q a_def [symmetric])
  next
    case 4
    have "0 \<le> c" "c < 5" "c = 0 \<Longrightarrow> 16 \<le> b mod 64" "c = 4 \<Longrightarrow> b mod 64 < 16" using 4 m l r by linarith+
    from DecodeRune_4 [OF this(1,2) l(5,6,3,4,1,2) this(3,4)] 4 m show ?thesis
      by (simp add: utf8_rune_def q a_def [symmetric])
  qed
qed

text \<open>Decoding an encoded text gives its runes back.\<close>

lemma runes_of_utf8: "list_all valid_rune rs \<Longrightarrow> runes_of (utf8 rs) = rs"
proof (induction rs)
  case (Cons r rs)
  then have "utf8_rune r @ utf8 rs \<noteq> []" by simp
  with Cons show ?case
    by (subst runes_of.simps) (simp add: utf8_def DecodeRune_utf8_rune)
qed (simp add: utf8_def)

text \<open>An ASCII byte is a rune of its own wherever it stands.\<close>

lemma DecodeRune_before_ascii:
  assumes "x \<noteq> []" and "(of_char c :: int) < 128"
  shows "DecodeRune (x @ c # b) = DecodeRune x" and "snd (DecodeRune x) \<le> length x"
proof -
  have n: "\<not> cont (of_char c)" "\<not> cont 0" using assms(2) by (simp_all add: cont_def)
  obtain a y where x: "x = a # y" using assms(1) by (cases x) auto
  have e: "byte_at [] k = 0" for k by (simp add: byte_at_def)
  consider "y = []" | p where "y = [p]" | p q where "y = [p, q]" | p q t z where "y = p # q # t # z"
    by (metis neq_Nil_conv)
  then show "DecodeRune (x @ c # b) = DecodeRune x" "snd (DecodeRune x) \<le> length x"
    by (cases; auto simp: x DecodeRune_def Let_def n e)+
qed

lemma runes_of_ascii:
  assumes "(of_char c :: int) < 128"
  shows "runes_of (x @ c # b) = runes_of x @ of_char c # runes_of b"
proof (induction x rule: length_induct)
  case (1 x)
  show ?case
  proof (cases "x = []")
    case True
    then show ?thesis using assms by (subst runes_of.simps) (simp add: DecodeRune_def)
  next
    case False
    let ?k = "snd (DecodeRune x)"
    note d = DecodeRune_before_ascii(1) [OF False assms, of b] DecodeRune_before_ascii(2) [OF False assms]
    have "length (drop ?k x) < length x" using False DecodeRune_pos [of x] by simp
    with 1 have "runes_of (drop ?k x @ c # b) = runes_of (drop ?k x) @ of_char c # runes_of b" by blast
    moreover have "runes_of x = fst (DecodeRune x) # runes_of (drop ?k x)"
      using False by (subst runes_of.simps) simp
    moreover have "runes_of (x @ c # b) = fst (DecodeRune x) # runes_of (drop ?k x @ c # b)"
      using d by (subst runes_of.simps) simp
    ultimately show ?thesis by simp
  qed
qed

subsection \<open>Regular expressions\<close>

text \<open>
  The expressions of the repository: classes of bytes, greedy repetitions of one class, sequence,
  alternatives, an optional part and capture groups.  \<open>Matches r s\<close> lists the ways \<open>r\<close> matches at the start of
  \<open>s\<close> in the order of preference of package \<open>regexp\<close>: what is consumed, what is left, and the groups.  A group
  that takes no part is empty.
\<close>

datatype regex =
    Cls "char \<Rightarrow> bool"
  | Many nat "char \<Rightarrow> bool"
  | Eps
  | Cat regex regex
  | Alt regex regex
  | Opt regex
  | Cap regex

fun groups_of :: "regex \<Rightarrow> nat" where
  "groups_of (Cat a b) = groups_of a + groups_of b"
| "groups_of (Alt a b) = groups_of a + groups_of b"
| "groups_of (Opt a) = groups_of a"
| "groups_of (Cap a) = Suc (groups_of a)"
| "groups_of _ = 0"

type_synonym re_match = "string \<times> string \<times> string list"

fun Matches :: "regex \<Rightarrow> string \<Rightarrow> re_match list" where
  "Matches (Cls p) s = (case s of [] \<Rightarrow> [] | c # t \<Rightarrow> if p c then [([c], t, [])] else [])"
| "Matches (Many n p) s =
     map (\<lambda>k. (take k s, drop k s, [])) (rev [n..<Suc (length (takeWhile p s))])"
| "Matches Eps s = [([], s, [])]"
| "Matches (Cat a b) s =
     concat (map (\<lambda>(u, t, g). map (\<lambda>(v, t', h). (u @ v, t', g @ h)) (Matches b t)) (Matches a s))"
| "Matches (Alt a b) s =
     map (\<lambda>(u, t, g). (u, t, g @ replicate (groups_of b) [])) (Matches a s) @
     map (\<lambda>(u, t, g). (u, t, replicate (groups_of a) [] @ g)) (Matches b s)"
| "Matches (Opt a) s = Matches a s @ [([], s, replicate (groups_of a) [])]"
| "Matches (Cap a) s = map (\<lambda>(u, t, g). (u, t, u # g)) (Matches a s)"

text \<open>\<open>FindStringSubmatch\<close> of an expression that starts with the anchor \<open>^\<close>.\<close>

definition MatchAt :: "regex \<Rightarrow> string \<Rightarrow> re_match option" where
  "MatchAt r s = (case Matches r s of [] \<Rightarrow> None | m # _ \<Rightarrow> Some m)"

fun lit :: "string \<Rightarrow> regex" where
  "lit [] = Eps"
| "lit (c # cs) = Cat (Cls (\<lambda>d. d = c)) (lit cs)"

lemma Matches_split: "(u, t, g) \<in> set (Matches r s) \<Longrightarrow> s = u @ t"
  by (induction r arbitrary: s u t g) (auto split: list.splits if_splits)

lemma MatchAt_split: "MatchAt r s = Some (u, t, g) \<Longrightarrow> s = u @ t"
  using Matches_split [of u t g r s] by (cases "Matches r s") (auto simp: MatchAt_def)

lemma Matches_lit [simp]: "Matches (lit l) s = (if prefix l s then [(l, drop (length l) s, [])] else [])"
proof (induction l arbitrary: s)
  case (Cons c l)
  then show ?case by (cases s) (auto simp: lit.simps)
qed (simp add: lit.simps)

declare lit.simps [simp del]

text \<open>A greedy run takes every byte of its class first.\<close>

lemma Matches_Many_run:
  assumes "list_all p u" and "t = [] \<or> \<not> p (hd t)" and "n \<le> length u"
  shows "Matches (Many n p) (u @ t) = (u, t, []) # map (\<lambda>k. (take k u, drop k u @ t, [])) (rev [n..<length u])"
proof -
  have "takeWhile p (u @ t) = u"
    using assms(1,2) by (cases t) (auto simp: list_all_iff takeWhile_append)
  moreover have "rev [n..<Suc (length u)] = length u # rev [n..<length u]" using assms(3) by simp
  moreover have "map (\<lambda>k. (take k (u @ t), drop k (u @ t), [])) (rev [n..<length u]) =
      map (\<lambda>k. (take k u, drop k u @ t, [] :: string list)) (rev [n..<length u])"
    by (rule map_cong) auto
  ultimately show ?thesis by simp
qed

text \<open>The preferred match of a composed expression from those of its parts.\<close>

lemma MatchAt_Cat:
  "MatchAt a s = Some (u, t, g) \<Longrightarrow> MatchAt b t = Some (v, t', h) \<Longrightarrow> MatchAt (Cat a b) s = Some (u @ v, t', g @ h)"
  by (auto simp: MatchAt_def split: list.splits)

lemma MatchAt_lit [simp]: "MatchAt (lit l) s = (if prefix l s then Some (l, drop (length l) s, []) else None)"
  by (simp add: MatchAt_def)

lemma MatchAt_lit_append: "MatchAt (lit l) (l @ t) = Some (l, t, [])"
  by simp

lemma MatchAt_Cap: "MatchAt a s = Some (u, t, g) \<Longrightarrow> MatchAt (Cap a) s = Some (u, t, u # g)"
  by (auto simp: MatchAt_def split: list.splits)

lemma MatchAt_Opt: "MatchAt a s = Some m \<Longrightarrow> MatchAt (Opt a) s = Some m"
  by (auto simp: MatchAt_def split: list.splits)

lemma MatchAt_Many:
  assumes "list_all p u" and "t = [] \<or> \<not> p (hd t)" and "n \<le> length u"
  shows "MatchAt (Many n p) (u @ t) = Some (u, t, [])"
  unfolding MatchAt_def Matches_Many_run [OF assms] by simp

text \<open>An expression that starts with a literal needs that literal.\<close>

lemma MatchAt_Cat_None: "MatchAt a s = None \<Longrightarrow> MatchAt (Cat a b) s = None"
  by (auto simp: MatchAt_def split: list.splits)

lemma MatchAt_Alt:
  "MatchAt (Alt a b) s =
     (case MatchAt a s of
        Some (u, t, g) \<Rightarrow> Some (u, t, g @ replicate (groups_of b) [])
      | None \<Rightarrow> (case MatchAt b s of Some (u, t, g) \<Rightarrow> Some (u, t, replicate (groups_of a) [] @ g) | None \<Rightarrow> None))"
  by (auto simp: MatchAt_def split: list.splits)

lemma groups_of_lit [simp]: "groups_of (lit l) = 0"
  by (induction l) (simp_all add: lit.simps)

end
