(* ===== verification/TextWrap.thy ===== *)
theory TextWrap
  imports GoText Width
begin

text \<open>
  The wrapping of block text: \<open>internal/app/cli/render/block/wrap.go\<close> and \<open>expand.go\<close>.  Text comes in
  as bytes and is split at newlines; a line is then the list of its runes, which is all \<open>wrap\<close> and its
  callers look at.  The offset \<open>lastSpace\<close> counts runes instead of bytes.  The two width functions are those of
  \<open>Width\<close>, so \<open>rw\<close> and \<open>sw\<close> stand for go-runewidth.
\<close>

datatype wrap_policy = WrapSoft | WrapHard | WrapNone

definition space :: rune where "space = 32"

subsection \<open>The three policies\<close>

text \<open>The loop of \<open>wrapSoft\<close>: emitted lines, current line, its width, and where its last space ends.\<close>

definition soft_break ::
    "(runes \<Rightarrow> int) \<Rightarrow> runes list \<Rightarrow> runes \<Rightarrow> nat option \<Rightarrow> runes list \<times> runes \<times> int \<times> nat option" where
  "soft_break sw ls cur lastSpace =
     (case lastSpace of
        Some k \<Rightarrow> (ls @ [take (k - 1) cur], drop k cur, Width sw (drop k cur), None)
      | None \<Rightarrow> (ls @ [cur], [], 0, None))"

function wrapSoft_loop ::
    "(rune \<Rightarrow> int) \<Rightarrow> (runes \<Rightarrow> int) \<Rightarrow> int \<Rightarrow> runes list \<Rightarrow> runes \<Rightarrow> int \<Rightarrow> nat option \<Rightarrow> runes \<Rightarrow> runes list \<times> runes" where
  "wrapSoft_loop rw sw cols ls cur curW lastSpace [] = (ls, cur)"
| "wrapSoft_loop rw sw cols ls cur curW lastSpace (r # rs) =
     (if r = space then
        (if curW + RuneWidth rw r > cols
         then wrapSoft_loop rw sw cols (ls @ [cur]) [] 0 None (dropWhile (\<lambda>c. c = space) rs)
         else wrapSoft_loop rw sw cols ls (cur @ [r]) (curW + RuneWidth rw r) (Some (length cur + 1)) rs)
      else
        (let (ls1, cur1, w1, sp1) =
               (if curW + RuneWidth rw r > cols then soft_break sw ls cur lastSpace else (ls, cur, curW, lastSpace))
         in wrapSoft_loop rw sw cols ls1 (cur1 @ [r]) (w1 + RuneWidth rw r) sp1 rs))"
  by pat_completeness auto
termination
  by (relation "measure (\<lambda>(rw, sw, cols, ls, cur, w, sp, rs). length rs)")
     (auto simp: le_imp_less_Suc length_dropWhile_le)

definition wrapSoft :: "(rune \<Rightarrow> int) \<Rightarrow> (runes \<Rightarrow> int) \<Rightarrow> runes \<Rightarrow> int \<Rightarrow> runes list" where
  "wrapSoft rw sw line cols =
     (if line = [] then [[]]
      else if Width sw line \<le> cols then [line]
      else case wrapSoft_loop rw sw cols [] [] 0 None line of
             (ls, cur) \<Rightarrow> if cur \<noteq> [] \<or> ls = [] then ls @ [cur] else ls)"

fun wrapHard_loop :: "(rune \<Rightarrow> int) \<Rightarrow> int \<Rightarrow> runes list \<Rightarrow> runes \<Rightarrow> int \<Rightarrow> runes \<Rightarrow> runes list \<times> runes" where
  "wrapHard_loop rw cols ls cur curW [] = (ls, cur)"
| "wrapHard_loop rw cols ls cur curW (r # rs) =
     (if curW + RuneWidth rw r > cols
      then wrapHard_loop rw cols (ls @ [cur]) [r] (RuneWidth rw r) rs
      else wrapHard_loop rw cols ls (cur @ [r]) (curW + RuneWidth rw r) rs)"

definition wrapHard :: "(rune \<Rightarrow> int) \<Rightarrow> (runes \<Rightarrow> int) \<Rightarrow> runes \<Rightarrow> int \<Rightarrow> runes list" where
  "wrapHard rw sw line cols =
     (if line = [] then [[]]
      else if Width sw line \<le> cols then [line]
      else case wrapHard_loop rw cols [] [] 0 line of (ls, cur) \<Rightarrow> if cur \<noteq> [] then ls @ [cur] else ls)"

fun wrapNone_loop :: "(rune \<Rightarrow> int) \<Rightarrow> int \<Rightarrow> int \<Rightarrow> runes \<Rightarrow> runes" where
  "wrapNone_loop rw cols w [] = []"
| "wrapNone_loop rw cols w (r # rs) =
     (if w + RuneWidth rw r > cols - 1 then [] else r # wrapNone_loop rw cols (w + RuneWidth rw r) rs)"

definition wrapNone :: "(rune \<Rightarrow> int) \<Rightarrow> (runes \<Rightarrow> int) \<Rightarrow> runes \<Rightarrow> int \<Rightarrow> runes" where
  "wrapNone rw sw line cols =
     (if line = [] then []
      else if Width sw line \<le> cols then line
      else wrapNone_loop rw cols 0 line @ [ellipsis])"

definition wrap_line :: "(rune \<Rightarrow> int) \<Rightarrow> (runes \<Rightarrow> int) \<Rightarrow> int \<Rightarrow> wrap_policy \<Rightarrow> runes \<Rightarrow> runes list" where
  "wrap_line rw sw cols policy line =
     (case policy of
        WrapHard \<Rightarrow> wrapHard rw sw line cols
      | WrapNone \<Rightarrow> [wrapNone rw sw line cols]
      | WrapSoft \<Rightarrow> wrapSoft rw sw line cols)"

definition wrap :: "(rune \<Rightarrow> int) \<Rightarrow> (runes \<Rightarrow> int) \<Rightarrow> string \<Rightarrow> int \<Rightarrow> wrap_policy \<Rightarrow> runes list" where
  "wrap rw sw text cols policy =
     (if text = [] then []
      else if cols \<le> 0 then []
      else concat (map (\<lambda>l. wrap_line rw sw cols policy (runes_of l)) (split_nl text)))"

subsection \<open>Rows of a block\<close>

record 'k blockRow =
  br_text :: string
  br_style :: 'k

text \<open>A row of \<open>expandBlockRows\<close>'s result carries the runes of its line.\<close>

definition expand_one :: "(rune \<Rightarrow> int) \<Rightarrow> (runes \<Rightarrow> int) \<Rightarrow> int \<Rightarrow> wrap_policy \<Rightarrow> string \<Rightarrow> runes list" where
  "expand_one rw sw cols policy t =
     (let lines = wrap rw sw t cols policy in if lines = [] then [runes_of t] else lines)"

definition expandBlockRows ::
    "(rune \<Rightarrow> int) \<Rightarrow> (runes \<Rightarrow> int) \<Rightarrow> int \<Rightarrow> wrap_policy \<Rightarrow> bool \<Rightarrow> 'k blockRow list \<Rightarrow> (runes \<times> 'k) list" where
  "expandBlockRows rw sw cols policy splitNewlines rows =
     concat (map (\<lambda>r.
       map (\<lambda>l. (l, br_style r))
         (if splitNewlines then concat (map (expand_one rw sw cols policy) (split_nl (br_text r)))
          else expand_one rw sw cols policy (br_text r))) rows)"

subsection \<open>No text is lost\<close>

definition visible :: "runes \<Rightarrow> runes" where
  "visible rs = filter (\<lambda>r. r \<noteq> space) rs"

lemma visible_simps [simp]:
  "visible [] = []" "visible (r # rs) = (if r = space then visible rs else r # visible rs)"
  "visible (xs @ ys) = visible xs @ visible ys"
  by (simp_all add: visible_def)

lemma visible_dropWhile [simp]: "visible (dropWhile (\<lambda>c. c = space) rs) = visible rs"
  by (induction rs) auto

definition sp_ok :: "runes \<Rightarrow> nat option \<Rightarrow> bool" where
  "sp_ok cur sp \<longleftrightarrow> (case sp of None \<Rightarrow> True | Some k \<Rightarrow> 0 < k \<and> k \<le> length cur \<and> cur ! (k - 1) = space)"

lemma sp_ok_simps [simp]: "sp_ok cur None" "sp_ok (cur @ [space]) (Some (Suc (length cur)))"
  by (simp_all add: sp_ok_def)

lemma sp_ok_snoc: "sp_ok cur sp \<Longrightarrow> sp_ok (cur @ [r]) sp"
  by (auto simp: sp_ok_def nth_append split: option.splits)

lemma cut_at_space:
  assumes "sp_ok cur (Some k)"
  shows "cur = take (k - 1) cur @ space # drop k cur"
proof -
  have "k - 1 < length cur" "Suc (k - 1) = k" "cur ! (k - 1) = space" using assms by (auto simp: sp_ok_def)
  then show ?thesis using id_take_nth_drop [of "k - 1" cur] by metis
qed

lemma soft_break_visible:
  assumes "sp_ok cur sp" and "soft_break sw ls cur sp = (ls', cur', w', sp')"
  shows "visible (concat ls' @ cur') = visible (concat ls @ cur)" "sp' = None"
proof -
  have "visible cur = visible (take (k - 1) cur) @ visible (drop k cur)" if "sp = Some k" for k
    using cut_at_space [of cur k] assms(1) that by (metis append_Nil visible_simps(2,3))
  with assms(2) show "visible (concat ls' @ cur') = visible (concat ls @ cur)" "sp' = None"
    by (auto simp: soft_break_def split: option.splits)
qed

lemma wrapSoft_loop_visible:
  "wrapSoft_loop rw sw cols ls cur w sp s = (ls', cur') \<Longrightarrow> sp_ok cur sp \<Longrightarrow>
   visible (concat ls' @ cur') = visible (concat ls @ cur @ s)"
proof (induction rw sw cols ls cur w sp s rule: wrapSoft_loop.induct)
  case (2 rw sw cols ls cur w sp r rs)
  show ?case
  proof (cases "r = space")
    case True
    with 2 show ?thesis by (auto split: if_splits)
  next
    case False
    obtain ls1 cur1 w1 sp1 where b: "(if w + RuneWidth rw r > cols then soft_break sw ls cur sp else (ls, cur, w, sp)) = (ls1, cur1, w1, sp1)"
      by (metis prod_cases4)
    have v: "visible (concat ls1 @ cur1) = visible (concat ls @ cur)" "sp_ok cur1 sp1"
      using b soft_break_visible [OF 2(5), of sw ls ls1 cur1 w1 sp1] 2(5) by (auto split: if_splits)
    from 2(3) [OF False b [symmetric] refl refl refl] 2(4) b v sp_ok_snoc [OF v(2)] False
    show ?thesis by simp
  qed
qed simp

text \<open>\<open>wrapHard\<close> runs the loop of \<open>width.Wrap\<close>.\<close>

lemma wrapHard_loop_eq: "wrapHard_loop rw cols ls cur w s = Wrap_loop (RuneWidth rw) cols ls cur w s"
  by (induction s arbitrary: ls cur w) simp_all

lemma wrapHard_loop_concat:
  "wrapHard_loop rw cols ls cur w s = (ls', cur') \<Longrightarrow> concat ls' @ cur' = concat ls @ cur @ s"
  unfolding wrapHard_loop_eq by (rule Wrap_loop_concat)

lemma wrapSoft_visible: "visible (concat (wrapSoft rw sw line cols)) = visible line"
  using wrapSoft_loop_visible [of rw sw cols "[]" "[]" 0 None line]
  by (auto simp: wrapSoft_def split: prod.splits)

lemma wrapHard_concat: "concat (wrapHard rw sw line cols) = line"
  using wrapHard_loop_concat [of rw cols "[]" "[]" 0 line]
  by (auto simp: wrapHard_def split: prod.splits)

subsection \<open>Rows fit\<close>

definition plain_widths :: "(rune \<Rightarrow> int) \<Rightarrow> (runes \<Rightarrow> int) \<Rightarrow> rune set \<Rightarrow> bool" where
  "plain_widths rw sw A \<longleftrightarrow>
     (\<forall>r \<in> A. RuneWidth rw r = 1 \<or> RuneWidth rw r = 2) \<and> (\<forall>t. set t \<subseteq> A \<longrightarrow> Width sw t = cols_of (RuneWidth rw) t)"

lemma plain_widths_mono: "plain_widths rw sw A \<Longrightarrow> B \<subseteq> A \<Longrightarrow> plain_widths rw sw B"
  unfolding plain_widths_def by (meson subsetD subset_trans)

lemma cols_of_nonneg: "plain_widths rw sw A \<Longrightarrow> set t \<subseteq> A \<Longrightarrow> int (length t) \<le> cols_of (RuneWidth rw) t"
  by (induction t) (auto simp: plain_widths_def)

text \<open>The invariant of \<open>wrapSoft\<close>'s loop: the current line fits, does not begin with a space, and \<open>lastSpace\<close> points
  just after a space that has something before it.\<close>

definition soft_inv :: "(rune \<Rightarrow> int) \<Rightarrow> int \<Rightarrow> rune set \<Rightarrow> runes list \<Rightarrow> runes \<Rightarrow> int \<Rightarrow> nat option \<Rightarrow> bool" where
  "soft_inv rw cols A ls cur w sp \<longleftrightarrow>
     (\<forall>l \<in> set ls. cols_of (RuneWidth rw) l \<le> cols) \<and> w = cols_of (RuneWidth rw) cur \<and> w \<le> cols \<and> set cur \<subseteq> A \<and>
     sp_ok cur sp \<and> sp \<noteq> Some 1"

lemma soft_break_inv:
  assumes "plain_widths rw sw A" and "soft_inv rw cols A ls cur w sp" and "2 \<le> cols"
    and "soft_break sw ls cur sp = (ls', cur', w', sp')"
  shows "soft_inv rw cols A ls' cur' w' sp' \<and> w' + 2 \<le> cols"
proof (cases sp)
  case None
  with assms show ?thesis by (auto simp: soft_break_def soft_inv_def)
next
  case (Some k)
  with assms(2) have sp: "sp_ok cur (Some k)" and A: "set cur \<subseteq> A" by (auto simp: soft_inv_def)
  note c = cut_at_space [OF sp]
  have k: "1 < k" "k \<le> length cur" using assms(2) Some sp by (auto simp: soft_inv_def sp_ok_def)
  have A': "set (take (k - 1) cur) \<subseteq> A" "set (drop k cur) \<subseteq> A"
    using A set_take_subset [of "k - 1" cur] set_drop_subset [of k cur] by auto
  have "cols_of (RuneWidth rw) cur =
      cols_of (RuneWidth rw) (take (k - 1) cur) + 1 + cols_of (RuneWidth rw) (drop k cur)"
    by (subst c) (simp add: space_def RuneWidth_def)
  moreover have t: "1 \<le> cols_of (RuneWidth rw) (take (k - 1) cur)" "0 \<le> cols_of (RuneWidth rw) (drop k cur)"
    using cols_of_nonneg [OF assms(1) A'(1)] cols_of_nonneg [OF assms(1) A'(2)] k by auto
  moreover have "Width sw (drop k cur) = cols_of (RuneWidth rw) (drop k cur)"
    using assms(1) A'(2) by (simp add: plain_widths_def)
  moreover have e: "ls' = ls @ [take (k - 1) cur]" "cur' = drop k cur" "w' = Width sw (drop k cur)" "sp' = None"
    using assms(4) Some by (auto simp: soft_break_def)
  moreover have i: "cols_of (RuneWidth rw) cur \<le> cols" "\<forall>l \<in> set ls. cols_of (RuneWidth rw) l \<le> cols"
    using assms(2) by (auto simp: soft_inv_def)
  ultimately have "w' = cols_of (RuneWidth rw) cur'" "w' + 2 \<le> cols" "cols_of (RuneWidth rw) (take (k - 1) cur) \<le> cols"
    by auto
  with e i A' show ?thesis by (simp add: soft_inv_def)
qed

lemma soft_inv_snoc:
  assumes "soft_inv rw cols A ls cur w sp" and "w + RuneWidth rw r \<le> cols" and "r \<in> A"
  shows "soft_inv rw cols A ls (cur @ [r]) (w + RuneWidth rw r) sp"
  using assms sp_ok_snoc [of cur sp r] by (auto simp: soft_inv_def)

lemma wrapSoft_loop_fits:
  "wrapSoft_loop rw sw cols ls cur w sp s = (ls', cur') \<Longrightarrow> plain_widths rw sw A \<Longrightarrow> 2 \<le> cols \<Longrightarrow>
   soft_inv rw cols A ls cur w sp \<Longrightarrow> set s \<subseteq> A \<Longrightarrow> (cur = [] \<Longrightarrow> s = [] \<or> hd s \<noteq> space) \<Longrightarrow>
   (\<forall>l \<in> set ls'. cols_of (RuneWidth rw) l \<le> cols) \<and> cols_of (RuneWidth rw) cur' \<le> cols"
proof (induction rw sw cols ls cur w sp s rule: wrapSoft_loop.induct)
  case (1 rw sw cols ls cur w sp)
  then show ?case by (auto simp: soft_inv_def)
next
  case (2 rw sw cols ls cur w sp r rs)
  note p = "2.prems"
  have w: "RuneWidth rw r \<le> 2" "r \<in> A" using p by (auto simp: plain_widths_def)
  show ?case
  proof (cases "r = space")
    case sp: True
    show ?thesis
    proof (cases "w + RuneWidth rw r > cols")
      case True
      have "set (dropWhile (\<lambda>c. c = space) rs) \<subseteq> A" using p(5) by (auto dest: set_dropWhileD)
      moreover have "soft_inv rw cols A (ls @ [cur]) [] 0 None" using p(3,4) by (auto simp: soft_inv_def)
      moreover have "dropWhile (\<lambda>c. c = space) rs = [] \<or> hd (dropWhile (\<lambda>c. c = space) rs) \<noteq> space"
        using hd_dropWhile [of "\<lambda>c. c = space" rs] by blast
      ultimately show ?thesis using "2.IH"(1) [OF sp True] p(1-3) sp True by simp
    next
      case False
      have "cur \<noteq> []" using p(6) sp by auto
      then have "soft_inv rw cols A ls (cur @ [r]) (w + RuneWidth rw r) (Some (length cur + 1))"
        using p(4) False w sp by (auto simp: soft_inv_def)
      with "2.IH"(2) [OF sp False] p(1-3,5) sp False show ?thesis by simp
    qed
  next
    case False
    obtain ls1 cur1 w1 sp1 where b: "(if w + RuneWidth rw r > cols then soft_break sw ls cur sp else (ls, cur, w, sp)) = (ls1, cur1, w1, sp1)"
      by (metis prod_cases4)
    have "soft_inv rw cols A ls1 cur1 w1 sp1 \<and> w1 + RuneWidth rw r \<le> cols"
    proof (cases "w + RuneWidth rw r > cols")
      case True
      with b soft_break_inv [OF p(2,4,3)] w(1) show ?thesis by fastforce
    qed (use b p(4) in auto)
    with soft_inv_snoc w(2) have "soft_inv rw cols A ls1 (cur1 @ [r]) (w1 + RuneWidth rw r) sp1" by blast
    with "2.IH"(3) [OF False b [symmetric] refl refl refl] p(1-3,5) b False show ?thesis by simp
  qed
qed

lemma wrapNone_loop_fits: "w \<le> cols - 1 \<Longrightarrow> w + cols_of (RuneWidth rw) (wrapNone_loop rw cols w s) \<le> cols - 1"
  by (induction rw cols w s rule: wrapNone_loop.induct) (auto simp: algebra_simps)

lemma wrapSoft_fits:
  assumes "plain_widths rw sw (set line)" and "2 \<le> cols" and "line = [] \<or> hd line \<noteq> space" and "l \<in> set (wrapSoft rw sw line cols)"
  shows "cols_of (RuneWidth rw) l \<le> cols"
proof -
  obtain ls cur where r: "wrapSoft_loop rw sw cols [] [] 0 None line = (ls, cur)" by fastforce
  have "soft_inv rw cols (set line) [] [] 0 None" using assms(2) by (simp add: soft_inv_def)
  from wrapSoft_loop_fits [OF r assms(1,2) this] assms(3)
  have "(\<forall>l \<in> set ls. cols_of (RuneWidth rw) l \<le> cols) \<and> cols_of (RuneWidth rw) cur \<le> cols" by simp
  with assms r show ?thesis by (auto simp: wrapSoft_def plain_widths_def split: if_splits)
qed

lemma wrapHard_fits:
  assumes "plain_widths rw sw (set line)" and "2 \<le> cols" and "l \<in> set (wrapHard rw sw line cols)"
  shows "cols_of (RuneWidth rw) l \<le> cols"
proof -
  obtain ls cur where r: "wrapHard_loop rw cols [] [] 0 line = (ls, cur)" by fastforce
  have "\<forall>r \<in> set line. RuneWidth rw r \<le> cols" using assms(1,2) by (auto simp: plain_widths_def)
  from Wrap_loop_bound [OF r [unfolded wrapHard_loop_eq] _ _ _ this] assms(2)
  have "(\<forall>l \<in> set ls. cols_of (RuneWidth rw) l \<le> cols) \<and> cols_of (RuneWidth rw) cur \<le> cols" by simp
  with assms r show ?thesis by (auto simp: wrapHard_def plain_widths_def split: if_splits)
qed

lemma wrapNone_fits:
  assumes "plain_widths rw sw (set line)" and "2 \<le> cols" and "RuneWidth rw ellipsis = 1"
  shows "cols_of (RuneWidth rw) (wrapNone rw sw line cols) \<le> cols"
  using assms wrapNone_loop_fits [of 0 cols rw line] by (auto simp: wrapNone_def plain_widths_def)

definition line_starts :: "string \<Rightarrow> bool" where
  "line_starts text \<longleftrightarrow> list_all (\<lambda>l. runes_of l = [] \<or> hd (runes_of l) \<noteq> space) (split_nl text)"

definition text_runes :: "string \<Rightarrow> rune set" where
  "text_runes text = set (concat (map runes_of (split_nl text)))"

text \<open>C36: Wrapped rows fit their width: for every text whose runes have width 1 or 2 (and whose string width is the
  sum), every policy and every width of at least two columns, each row \<open>wrap\<close> returns is at most that wide; for the
  word-aware policy this needs that no line of the text begins with a space.\<close>

theorem wrap_fits:
  assumes "plain_widths rw sw (text_runes text)" and "2 \<le> cols" and "RuneWidth rw ellipsis = 1"
    and "policy = WrapSoft \<Longrightarrow> line_starts text" and "l \<in> set (wrap rw sw text cols policy)"
  shows "cols_of (RuneWidth rw) l \<le> cols"
proof -
  from assms(2,5) obtain b where b: "b \<in> set (split_nl text)" "l \<in> set (wrap_line rw sw cols policy (runes_of b))"
    by (auto simp: wrap_def split: if_splits)
  have "set (runes_of b) \<subseteq> text_runes text" using b(1) by (auto simp: text_runes_def)
  from plain_widths_mono [OF assms(1) this] have A: "plain_widths rw sw (set (runes_of b))" .
  show ?thesis
  proof (cases policy)
    case WrapSoft
    with assms(4) b(1) have "runes_of b = [] \<or> hd (runes_of b) \<noteq> space" by (auto simp: line_starts_def list_all_iff)
    with WrapSoft b(2) wrapSoft_fits [OF A assms(2)] show ?thesis by (simp add: wrap_line_def)
  qed (use b(2) wrapHard_fits [OF A assms(2)] wrapNone_fits [OF A assms(2,3)] in \<open>auto simp: wrap_line_def\<close>)
qed

text \<open>A concrete measure: the ideograph U+4E16 is two columns wide, everything else one.\<close>

definition demo_rw :: "rune \<Rightarrow> int" where "demo_rw r = (if r = 0x4E16 then 2 else 1)"
definition demo_sw :: "runes \<Rightarrow> int" where "demo_sw rs = cols_of (RuneWidth demo_rw) rs"
definition demo_text :: string where "demo_text = ''select '' @ utf8 [0x4E16, 0x4E16] @ '' from t''"

lemma demo_plain: "plain_widths demo_rw demo_sw A"
  by (auto simp: plain_widths_def demo_sw_def Width_def RuneWidth_def demo_rw_def)

theorem wrap_fits_witness:
  "wrap demo_rw demo_sw demo_text 8 WrapSoft = [runes_of ''select'', runes_of (utf8 [0x4E16, 0x4E16]), runes_of ''from t''] \<and>
   list_all (\<lambda>l. cols_of (RuneWidth demo_rw) l \<le> 8) (wrap demo_rw demo_sw demo_text 8 WrapSoft)"
proof -
  have "wrap demo_rw demo_sw demo_text 8 WrapSoft = [runes_of ''select'', runes_of (utf8 [0x4E16, 0x4E16]), runes_of ''from t'']"
    by code_simp
  moreover have "line_starts demo_text" by code_simp
  ultimately show ?thesis using wrap_fits [OF demo_plain, of 8 WrapSoft demo_text]
    by (simp add: RuneWidth_def demo_rw_def ellipsis_def list_all_iff)
qed

text \<open>Wrapping loses no text: hard and word-aware wrapping return rows whose runes, spaces apart, are those of
  the text in order.\<close>

theorem wrap_keeps_text:
  assumes "0 < cols" and "policy \<noteq> WrapNone"
  shows "visible (concat (wrap rw sw text cols policy)) = visible (concat (map runes_of (split_nl text)))"
proof -
  have "visible (concat (wrap_line rw sw cols policy b)) = visible b" for b
    using assms(2) by (cases policy) (simp_all add: wrap_line_def wrapSoft_visible wrapHard_concat)
  then have "visible (concat (concat (map (\<lambda>l. wrap_line rw sw cols policy (runes_of l)) ls))) =
      visible (concat (map runes_of ls))" for ls
    by (induction ls) simp_all
  with assms(1) show ?thesis by (simp add: wrap_def)
qed

theorem wrap_keeps_text_witness:
  "visible (concat (wrap demo_rw demo_sw demo_text 8 WrapSoft)) = runes_of ''select'' @ [0x4E16, 0x4E16] @ runes_of ''fromt''"
proof -
  have "visible (concat (map runes_of (split_nl demo_text))) = runes_of ''select'' @ [0x4E16, 0x4E16] @ runes_of ''fromt''"
    by code_simp
  with wrap_keeps_text [of 8 WrapSoft demo_rw demo_sw demo_text] show ?thesis by simp
qed

text \<open>A row can overflow: when a line begins with a space, breaking there frees a single column, and a wide rune
  that comes next is put on the row all the same; at five columns the row is six wide, and the row before it is empty.\<close>

theorem wrapSoft_overflows:
  "wrap demo_rw demo_sw ('' abcd'' @ utf8 [0x4E16]) 5 WrapSoft = [[], runes_of ''abcd'' @ [0x4E16]] \<and>
   cols_of (RuneWidth demo_rw) (runes_of ''abcd'' @ [0x4E16]) = 6"
  by code_simp

end
