(* ===== verification/Theme.thy ===== *)
theory Theme
  imports Style TextWrap Complex_Main
begin

text \<open>
  What every content block is rendered with, from \<open>internal/app/cli/render/block\<close>: the style kinds and the default
  theme (\<open>theme.go\<close>), the render context (\<open>node.go\<close>), and the downgrade of colours to what the terminal can
  show (\<open>color_downgrade.go\<close>).  A colour of the chroma package is its three bytes; the distance chroma
  computes between two colours is the argument \<open>distance\<close>.
\<close>

datatype style_kind =
    StyleNormal | StyleDimmed | StyleWarning | StyleCode | StyleCodeBg | StyleLangLabel | StyleBold | StyleItalic
  | StyleLink | StyleHeading | StyleKeyword | StyleString | StyleNumber | StyleComment | StyleName | StyleOperator
  | StylePunctuation | StyleDiffAdded | StyleDiffRemoved | StyleDiffHunkHeader | StyleDiffContext

text \<open>A theme: its palette, the chroma style when it is a \<open>HighlighterTheme\<close>, and its identity in the cache.\<close>

record theme =
  th_Style :: "style_kind \<Rightarrow> style"
  th_CodeStyle :: "string option"
  th_key :: string

definition DefaultTheme_Style :: "style_kind \<Rightarrow> style" where
  "DefaultTheme_Style kind =
     (case kind of
        StyleDimmed \<Rightarrow> zero_style\<lparr>FG := Palette 8\<rparr>
      | StyleWarning \<Rightarrow> zero_style\<lparr>FG := RGB 0xFF 0xA5 0x00\<rparr>
      | StyleCodeBg \<Rightarrow> zero_style\<lparr>BG := RGB 0x28 0x2C 0x34\<rparr>
      | StyleLangLabel \<Rightarrow> zero_style\<lparr>FG := Palette 8\<rparr>
      | StyleBold \<Rightarrow> zero_style\<lparr>Bold := True\<rparr>
      | StyleItalic \<Rightarrow> zero_style\<lparr>Italic := True\<rparr>
      | StyleLink \<Rightarrow> zero_style\<lparr>FG := Palette 8, Underline := True\<rparr>
      | StyleHeading \<Rightarrow> zero_style\<lparr>Bold := True\<rparr>
      | StyleDiffAdded \<Rightarrow> zero_style\<lparr>FG := RGB 0x50 0xC8 0x50\<rparr>
      | StyleDiffRemoved \<Rightarrow> zero_style\<lparr>FG := RGB 0xDC 0x5A 0x5A\<rparr>
      | StyleDiffHunkHeader \<Rightarrow> zero_style\<lparr>FG := RGB 0x00 0xB7 0xCC\<rparr>
      | _ \<Rightarrow> zero_style)"

definition DefaultTheme :: theme where
  "DefaultTheme = \<lparr>th_Style = DefaultTheme_Style, th_CodeStyle = Some ''monokai'', th_key = ''block.DefaultTheme''\<rparr>"

record block_ctx =
  Cols :: int
  CRows :: int
  CTheme :: "theme option"
  MeasureOnly :: bool
  CWrap :: wrap_policy
  Verbose :: bool
  IsTranscript :: bool
  ColorDepth :: int

definition themeOrDefault :: "theme option \<Rightarrow> theme" where
  "themeOrDefault t = (case t of None \<Rightarrow> DefaultTheme | Some th \<Rightarrow> th)"

subsection \<open>Colour depth\<close>

type_synonym rgb = "u8 \<times> u8 \<times> u8"

definition palette16 :: "rgb list" where
  "palette16 =
     [(0x00, 0x00, 0x00), (0xcd, 0x00, 0x00), (0x00, 0xcd, 0x00), (0xcd, 0xcd, 0x00), (0x00, 0x00, 0xee), (0xcd, 0x00, 0xcd),
      (0x00, 0xcd, 0xcd), (0xe5, 0xe5, 0xe5), (0x7f, 0x7f, 0x7f), (0xff, 0x00, 0x00), (0x00, 0xff, 0x00), (0xff, 0xff, 0x00),
      (0x5c, 0x5c, 0xff), (0xff, 0x00, 0xff), (0x00, 0xff, 0xff), (0xff, 0xff, 0xff)]"

definition cubeAxis :: "u8 list" where "cubeAxis = [0x00, 0x5f, 0x87, 0xaf, 0xd7, 0xff]"

definition palette256 :: "rgb list" where
  "palette256 =
     concat (map (\<lambda>r. concat (map (\<lambda>g. map (\<lambda>b. (r, g, b)) cubeAxis) cubeAxis)) cubeAxis) @
     map (\<lambda>i. (let gray = 0x08 + of_nat i * 10 in (gray, gray, gray))) [0..<24]"

text \<open>The search loop: index and distance of the best entry so far; a later entry must be strictly nearer.\<close>

fun nearest_loop :: "(rgb \<Rightarrow> rgb \<Rightarrow> rat) \<Rightarrow> rgb \<Rightarrow> nat \<Rightarrow> rgb list \<Rightarrow> u8 \<times> rat \<Rightarrow> u8 \<times> rat" where
  "nearest_loop distance c i [] best = best"
| "nearest_loop distance c i (p # ps) best =
     nearest_loop distance c (Suc i) ps (if distance c p < snd best then (of_nat i, distance c p) else best)"

definition nearest256 :: "(rgb \<Rightarrow> rgb \<Rightarrow> rat) \<Rightarrow> rgb \<Rightarrow> u32" where
  "nearest256 distance c = Palette (fst (nearest_loop distance c 16 palette256 (16, 2 ^ 31 - 1)))"

definition nearest16 :: "(rgb \<Rightarrow> rgb \<Rightarrow> rat) \<Rightarrow> rgb \<Rightarrow> u32" where
  "nearest16 distance c = Palette (fst (nearest_loop distance c 0 palette16 (0, 2 ^ 31 - 1)))"

definition Truecolor :: int where "Truecolor = 16777216"

text \<open>The colour is given, so the branch for an unset chroma colour does not occur here.\<close>

definition mapChromaColor :: "(rgb \<Rightarrow> rgb \<Rightarrow> rat) \<Rightarrow> rgb \<Rightarrow> int \<Rightarrow> u32" where
  "mapChromaColor distance c depth =
     (if depth = Truecolor then RGB (fst c) (fst (snd c)) (snd (snd c))
      else if depth = 256 then nearest256 distance c
      else nearest16 distance c)"

definition downgradeOneColor :: "(rgb \<Rightarrow> rgb \<Rightarrow> rat) \<Rightarrow> u32 \<Rightarrow> int \<Rightarrow> u32" where
  "downgradeOneColor distance c depth =
     (if c AND truecolorBit = 0 then c
      else mapChromaColor distance (ucast (drop_bit 16 c AND 0xFF), ucast (drop_bit 8 c AND 0xFF), ucast (c AND 0xFF)) depth)"

definition downgradeStyleColor :: "(rgb \<Rightarrow> rgb \<Rightarrow> rat) \<Rightarrow> style \<Rightarrow> int \<Rightarrow> style" where
  "downgradeStyleColor distance s depth =
     (if depth = Truecolor then s
      else s\<lparr>FG := downgradeOneColor distance (FG s) depth, BG := downgradeOneColor distance (BG s) depth\<rparr>)"

subsection \<open>What the downgrade guarantees\<close>

lemma length_palettes: "length palette16 = 16" "length palette256 = 240"
  by (simp_all add: palette16_def palette256_def cubeAxis_def)

lemma nearest_loop_least:
  "nearest_loop distance c i ps best = (k, d) \<Longrightarrow>
   d \<le> snd best \<and> (\<forall>p \<in> set ps. d \<le> distance c p) \<and>
   ((k, d) = best \<or> (\<exists>j < length ps. k = of_nat (i + j) \<and> d = distance c (ps ! j)))"
proof (induction ps arbitrary: i best)
  case (Cons p ps)
  let ?b = "if distance c p < snd best then (of_nat i, distance c p) else best"
  from Cons.IH [of "Suc i" ?b] Cons.prems have
    d: "d \<le> snd ?b" "\<forall>p \<in> set ps. d \<le> distance c p" and
    o: "(k, d) = ?b \<or> (\<exists>j < length ps. k = of_nat (Suc i + j) \<and> d = distance c (ps ! j))" by auto
  from o have "(k, d) = best \<or> (\<exists>j < length (p # ps). k = of_nat (i + j) \<and> d = distance c ((p # ps) ! j))"
  proof
    assume "(k, d) = ?b"
    then show ?thesis by (cases "distance c p < snd best") (auto intro!: exI [of _ 0])
  next
    assume "\<exists>j < length ps. k = of_nat (Suc i + j) \<and> d = distance c (ps ! j)"
    then obtain j where "j < length ps" "k = of_nat (Suc i + j)" "d = distance c (ps ! j)" by blast
    then show ?thesis by (intro disjI2 exI [of _ "Suc j"]) simp
  qed
  with d show ?case by (auto split: if_splits)
qed auto

text \<open>A palette entry never carries the true-colour bit.\<close>

lemma AND_truecolorBit: "c AND truecolorBit = (if bit c 24 then truecolorBit else 0)" for c :: u32
proof (rule bit_eqI)
  fix n
  have "bit truecolorBit n \<longleftrightarrow> n = 24" if "n < 32"
    unfolding masks using that by (simp only: bit_push_bit_iff bit_1_iff possible_bit_word) auto
  then show "bit (c AND truecolorBit) n = bit (if bit c 24 then truecolorBit else 0) n" if "possible_bit TYPE(u32) n"
    using that by (auto simp: bit_and_iff possible_bit_word)
qed

lemma Palette_AND_truecolorBit [simp]: "Palette i AND truecolorBit = 0"
  using Palette_lt_truecolorBit [of i] word_and_le2 [of "Palette i" truecolorBit]
  by (auto simp: AND_truecolorBit split: if_splits)

definition is_nearest :: "(rgb \<Rightarrow> rgb \<Rightarrow> rat) \<Rightarrow> rgb \<Rightarrow> nat \<Rightarrow> rgb list \<Rightarrow> u32 \<Rightarrow> bool" where
  "is_nearest distance c base ps col \<longleftrightarrow>
     (\<exists>j < length ps. col = Palette (of_nat (base + j)) \<and> (\<forall>p \<in> set ps. distance c (ps ! j) \<le> distance c p))"

lemma nearest_loop_is_nearest:
  assumes "ps \<noteq> []" and "\<forall>p \<in> set ps. distance c p < snd best"
  shows "is_nearest distance c i ps (Palette (fst (nearest_loop distance c i ps best)))"
proof -
  obtain k d where r: "nearest_loop distance c i ps best = (k, d)" by fastforce
  from nearest_loop_least [OF r] assms show ?thesis
    unfolding r is_nearest_def by (metis fst_conv leD list.set_intros(1) neq_Nil_conv prod.collapse snd_conv)
qed

text \<open>The downgrade fits the terminal: below true colour no foreground or background keeps the true-colour bit,
  a palette colour is left alone, and a true colour becomes the palette entry nearest to it (of entries 16 to 255
  at depth 256, of the first 16 at every other depth, unset included), whatever distance is used.\<close>

theorem downgrade_fits_terminal:
  assumes "depth \<noteq> Truecolor" and "\<And>a b. distance a b < 2 ^ 31 - 1"
  shows "FG (downgradeStyleColor distance s depth) AND truecolorBit = 0 \<and>
    BG (downgradeStyleColor distance s depth) AND truecolorBit = 0 \<and>
    downgradeOneColor distance (Palette i) depth = Palette i \<and>
    (if depth = 256 then is_nearest distance (r, g, b) 16 palette256 (downgradeOneColor distance (RGB r g b) depth)
     else is_nearest distance (r, g, b) 0 palette16 (downgradeOneColor distance (RGB r g b) depth))"
proof -
  have n: "(downgradeOneColor distance c depth) AND truecolorBit = 0" for c
    using assms(1) by (simp add: downgradeOneColor_def mapChromaColor_def nearest256_def nearest16_def)
  have "bit (RGB r g b) 24" by (simp add: bit_RGB)
  moreover have "ucast (drop_bit 16 (RGB r g b) AND 0xFF) = r" "ucast (drop_bit 8 (RGB r g b) AND 0xFF) = g"
    "ucast (RGB r g b AND 0xFF) = b"
    unfolding masks by (rule bit_eqI; auto simp: bit_simps bit_RGB bit_u8_high dest: bit_imp_le_length)+
  ultimately have d: "downgradeOneColor distance (RGB r g b) depth = mapChromaColor distance (r, g, b) depth"
    by (simp add: downgradeOneColor_def AND_truecolorBit) (simp add: truecolorBit_def)
  have "palette256 \<noteq> []" "palette16 \<noteq> []" using length_palettes by auto
  with assms(2) have "is_nearest distance (r, g, b) 16 palette256 (nearest256 distance (r, g, b))"
    "is_nearest distance (r, g, b) 0 palette16 (nearest16 distance (r, g, b))"
    unfolding nearest256_def nearest16_def by (simp_all add: nearest_loop_is_nearest)
  moreover have "downgradeOneColor distance (Palette i) depth = Palette i" by (simp add: downgradeOneColor_def)
  ultimately show ?thesis using n assms(1)
    unfolding d by (simp add: downgradeStyleColor_def mapChromaColor_def)
qed

definition demo_distance :: "rgb \<Rightarrow> rgb \<Rightarrow> rat" where
  "demo_distance a b =
     (case (a, b) of ((r, g, b1), (r', g', b2)) \<Rightarrow>
        of_int (\<bar>uint r - uint r'\<bar> + \<bar>uint g - uint g'\<bar> + \<bar>uint b1 - uint b2\<bar>))"

theorem downgrade_fits_terminal_witness:
  "is_nearest demo_distance (0x50, 0xC8, 0x50) 0 palette16 (downgradeOneColor demo_distance (RGB 0x50 0xC8 0x50) 16)"
proof -
  have b: "0 \<le> uint x" "uint x < 256" for x :: u8 using uint_bounded [of x] by simp_all
  have k: "\<bar>uint x - uint x'\<bar> + \<bar>uint y - uint y'\<bar> + \<bar>uint z - uint z'\<bar> < 2147483647" for x x' y y' z z' :: u8
    using b [of x] b [of x'] b [of y] b [of y'] b [of z] b [of z'] by linarith
  have "demo_distance a c < 2 ^ 31 - 1" for a c
  proof -
    obtain x y z x' y' z' where "a = (x, y, z)" "c = (x', y', z')" by (metis prod.exhaust)
    then show ?thesis
      using of_int_less_iff [where 'a = rat, THEN iffD2, OF k [of x x' y y' z z']] by (simp add: demo_distance_def)
  qed
  from downgrade_fits_terminal [of 16 demo_distance, OF _ this] show ?thesis by (simp add: Truecolor_def)
qed

end
