(* ===== verification/BlockCache.thy ===== *)
theory BlockCache
  imports GoText TextWrap
begin

text \<open>
  The cache of rendered blocks, \<open>internal/app/cli/render/block/cache.go\<close>.  The LRU list is the list of its entries,
  most recent first; the map of the code is the index of this list.  Every method runs under the cache's lock.
  The hash of a source (sixteen bytes of SHA-256 in hexadecimal) is the argument \<open>digest\<close>.  The locale states
  what a cache promises to its clients; blocks rendered through one are proved correct once, inside it.
\<close>

record 'b blockLRU =
  l_cap :: int
  l_order :: "(string \<times> 'b) list"

definition blockCacheCap :: int where "blockCacheCap = 256"
definition blockCacheMaxSourceBytes :: int where "blockCacheMaxSourceBytes = 256 * 1024"

definition newLRU :: "int \<Rightarrow> 'b blockLRU" where
  "newLRU cap = \<lparr>l_cap = cap, l_order = []\<rparr>"

definition without :: "string \<Rightarrow> (string \<times> 'b) list \<Rightarrow> (string \<times> 'b) list" where
  "without key es = filter (\<lambda>e. fst e \<noteq> key) es"

definition LRU_Get :: "string \<Rightarrow> 'b blockLRU \<Rightarrow> 'b option \<times> 'b blockLRU" where
  "LRU_Get key l =
     (case map_of (l_order l) key of
        Some b \<Rightarrow> (Some b, l\<lparr>l_order := (key, b) # without key (l_order l)\<rparr>)
      | None \<Rightarrow> (None, l))"

definition LRU_Put :: "string \<Rightarrow> 'b \<Rightarrow> 'b blockLRU \<Rightarrow> 'b blockLRU" where
  "LRU_Put key b l =
     (case map_of (l_order l) key of
        Some _ \<Rightarrow> l\<lparr>l_order := (key, b) # without key (l_order l)\<rparr>
      | None \<Rightarrow>
          let order = (key, b) # l_order l
          in l\<lparr>l_order := (if int (length order) > l_cap l then butlast order else order)\<rparr>)"

definition LRU_Len :: "'b blockLRU \<Rightarrow> int" where
  "LRU_Len l = int (length (l_order l))"

definition show_bool :: "bool \<Rightarrow> string" where
  "show_bool b = (if b then ''true'' else ''false'')"

definition wrap_int :: "wrap_policy \<Rightarrow> int" where
  "wrap_int p = (case p of WrapSoft \<Rightarrow> 0 | WrapHard \<Rightarrow> 1 | WrapNone \<Rightarrow> 2)"

definition makeBlockCacheKey ::
    "(string \<Rightarrow> string) \<Rightarrow> string \<Rightarrow> int \<Rightarrow> bool \<Rightarrow> string \<Rightarrow> wrap_policy \<Rightarrow> string \<Rightarrow> string \<Rightarrow> int \<Rightarrow> string" where
  "makeBlockCacheKey digest source cols verbose themeKey policy lang codeStyleName colorDepth =
     digest source @ '':'' @ show_int cols @ '':'' @ show_bool verbose @ '':'' @ themeKey @ '':'' @
     show_int (wrap_int policy) @ '':'' @ lang @ '':'' @ codeStyleName @ '':'' @ show_int colorDepth"

subsection \<open>The interface\<close>

text \<open>The way the blocks use the cache: look up, and on a miss store what was computed.\<close>

definition through :: "string \<Rightarrow> 'b \<Rightarrow> 'b blockLRU \<Rightarrow> 'b \<times> 'b blockLRU" where
  "through key b l =
     (case LRU_Get key l of (Some hit, l1) \<Rightarrow> (hit, l1) | (None, l1) \<Rightarrow> (b, LRU_Put key b l1))"

locale memo_cache =
  fixes content :: "'l \<Rightarrow> string \<Rightarrow> 'b option"
    and get :: "string \<Rightarrow> 'l \<Rightarrow> 'b option \<times> 'l" and put :: "string \<Rightarrow> 'b \<Rightarrow> 'l \<Rightarrow> 'l"
  assumes get_result: "fst (get k l) = content l k"
    and get_keeps: "content (snd (get k l)) = content l"
    and put_adds: "content (put k b l) k' = Some v \<Longrightarrow> k' = k \<and> v = b \<or> content l k' = Some v"
begin

text \<open>Every entry is right for its key.\<close>

definition sound :: "(string \<Rightarrow> 'b \<Rightarrow> bool) \<Rightarrow> 'l \<Rightarrow> bool" where
  "sound right l \<longleftrightarrow> (\<forall>k v. content l k = Some v \<longrightarrow> right k v)"

lemma sound_get: "sound right l \<Longrightarrow> sound right (snd (get k l))"
  by (simp add: sound_def get_keeps)

lemma sound_put: "sound right l \<Longrightarrow> right k b \<Longrightarrow> sound right (put k b l)"
  unfolding sound_def using put_adds by blast

lemma hit_is_right: "sound right l \<Longrightarrow> get k l = (Some v, l') \<Longrightarrow> right k v"
  unfolding sound_def using get_result [of k l] by simp

end

subsection \<open>The LRU list provides it\<close>

lemma map_of_without: "map_of (without k es) k' = (if k' = k then None else map_of es k')"
  by (induction es) (auto simp: without_def)

lemma map_of_butlast: "map_of (butlast es) k = Some v \<Longrightarrow> map_of es k = Some v"
  by (metis append_butlast_last_id butlast.simps(1) map_add_Some_iff map_of_append)

interpretation lru: memo_cache "\<lambda>l. map_of (l_order l)" LRU_Get LRU_Put
proof
  fix k k' :: string and b v :: 'b and l :: "'b blockLRU"
  show "fst (LRU_Get k l) = map_of (l_order l) k" by (simp add: LRU_Get_def split: option.splits)
  show "map_of (l_order (snd (LRU_Get k l))) = map_of (l_order l)"
    by (auto simp: LRU_Get_def map_of_without fun_eq_iff split: option.splits)
  show "map_of (l_order (LRU_Put k b l)) k' = Some v \<Longrightarrow> k' = k \<and> v = b \<or> map_of (l_order l) k' = Some v"
    by (auto simp: LRU_Put_def Let_def map_of_without split: option.splits if_splits dest: map_of_butlast)
qed

text \<open>Within its capacity and with distinct keys, and it stays so; a stored entry is found.\<close>

definition lru_wf :: "'b blockLRU \<Rightarrow> bool" where
  "lru_wf l \<longleftrightarrow> distinct (map fst (l_order l)) \<and> LRU_Len l \<le> l_cap l \<and> 0 < l_cap l"

lemma lru_wf_new: "0 < cap \<Longrightarrow> lru_wf (newLRU cap)"
  by (simp add: lru_wf_def newLRU_def LRU_Len_def)

lemma distinct_without: "distinct (map fst es) \<Longrightarrow> distinct (map fst ((k, b) # without k es))"
  by (auto simp: without_def distinct_map_filter)

lemma length_without: "map_of es k = Some v \<Longrightarrow> length (without k es) < length es"
  unfolding without_def by (rule length_filter_less [of "(k, v)"]) (auto dest: map_of_SomeD)

lemma lru_wf_Get: "lru_wf l \<Longrightarrow> lru_wf (snd (LRU_Get k l))"
proof (cases "map_of (l_order l) k")
  case (Some v)
  assume "lru_wf l"
  with Some distinct_without [of "l_order l" k v] length_without [OF Some] show ?thesis
    by (auto simp: lru_wf_def LRU_Get_def LRU_Len_def)
qed (simp add: LRU_Get_def)

lemma lru_wf_Put: "lru_wf l \<Longrightarrow> lru_wf (LRU_Put k b l)"
proof (cases "map_of (l_order l) k")
  case None
  assume "lru_wf l"
  with None have "distinct (map fst ((k, b) # l_order l))" by (simp add: lru_wf_def map_of_eq_None_iff)
  then have "distinct (map fst (butlast ((k, b) # l_order l)))" by (metis distinct_butlast map_butlast)
  with None \<open>lru_wf l\<close> \<open>distinct (map fst ((k, b) # l_order l))\<close> show ?thesis
    by (auto simp: lru_wf_def LRU_Put_def LRU_Len_def Let_def simp del: butlast.simps)
next
  case (Some v)
  assume "lru_wf l"
  with Some distinct_without [of "l_order l" k b] length_without [OF Some] show ?thesis
    by (auto simp: lru_wf_def LRU_Put_def LRU_Len_def)
qed

lemma put_get: "lru_wf l \<Longrightarrow> fst (LRU_Get k (LRU_Put k b l)) = Some b"
  by (auto simp: lru_wf_def lru.get_result LRU_Put_def LRU_Len_def Let_def neq_Nil_conv split: option.splits)

subsection \<open>The key\<close>

text \<open>For one theme the key determines everything else it is made of, the hash in place of the source.\<close>

lemma show_bool_inject: "show_bool a @ CHR '':'' # x = show_bool b @ CHR '':'' # y \<Longrightarrow> a = b \<and> x = y"
  by (auto simp: show_bool_def split: if_splits)

lemma wrap_int_inject [simp]: "wrap_int p = wrap_int q \<longleftrightarrow> p = q"
  by (auto simp: wrap_int_def split: wrap_policy.splits)

lemma key_inject:
  assumes "makeBlockCacheKey digest s c v T w l S d = makeBlockCacheKey digest s' c' v' T w' l' S d'"
    and "CHR '':'' \<notin> set (digest s)" and "CHR '':'' \<notin> set (digest s')"
  shows "digest s = digest s' \<and> c = c' \<and> v = v' \<and> w = w' \<and> l = l' \<and> d = d'"
proof -
  let ?C = "CHR '':''"
  have "digest s @ ?C # show_int c @ ?C # show_bool v @ ?C # T @ ?C # show_int (wrap_int w) @ ?C # l @ ?C # S @ ?C # show_int d =
        digest s' @ ?C # show_int c' @ ?C # show_bool v' @ ?C # T @ ?C # show_int (wrap_int w') @ ?C # l' @ ?C # S @ ?C # show_int d'"
    using assms(1) by (simp add: makeBlockCacheKey_def)
  from sep_inject [OF this assms(2,3)] have ds: "digest s = digest s'" and
    "show_int c @ ?C # show_bool v @ ?C # T @ ?C # show_int (wrap_int w) @ ?C # l @ ?C # S @ ?C # show_int d =
     show_int c' @ ?C # show_bool v' @ ?C # T @ ?C # show_int (wrap_int w') @ ?C # l' @ ?C # S @ ?C # show_int d'" by auto
  from sep_inject [OF this(2)] have c: "c = c'" and
    "show_bool v @ ?C # T @ ?C # show_int (wrap_int w) @ ?C # l @ ?C # S @ ?C # show_int d =
     show_bool v' @ ?C # T @ ?C # show_int (wrap_int w') @ ?C # l' @ ?C # S @ ?C # show_int d'" by auto
  from show_bool_inject [OF this(2)] have v: "v = v'" and
    "show_int (wrap_int w) @ ?C # l @ ?C # S @ ?C # show_int d = show_int (wrap_int w') @ ?C # l' @ ?C # S @ ?C # show_int d'" by auto
  from sep_inject [OF this(2)] have w: "w = w'" and "(l @ ?C # S) @ ?C # show_int d = (l' @ ?C # S) @ ?C # show_int d'" by auto
  from sep_inject_last [OF this(2)] have "d = d'" "l = l'" by auto
  with ds c v w show ?thesis by simp
qed

end
