(* ===== verification/CodeBlock.thy ===== *)
theory CodeBlock
  imports Theme BlockCache Paint
begin

text \<open>
  Buffers of rendered blocks and the code block, from \<open>internal/app/cli/render/block\<close>: the measure-only buffer, the
  tail markers and the row count (\<open>markers.go\<close>), writing a row of text (\<open>message.go\<close>), and \<open>renderCodeBlock\<close>
  with its cache (\<open>code.go\<close>).  \<open>rv_hl\<close> is what the highlighter makes of a body: one list of cells per row,
  or nothing when no lexer is found or chroma fails.
\<close>

record renv =
  rv_rw :: "rune \<Rightarrow> int"
  rv_sw :: "runes \<Rightarrow> int"
  rv_hl :: "string \<Rightarrow> string \<Rightarrow> string \<Rightarrow> int \<Rightarrow> cell list list option"
  rv_digest :: "string \<Rightarrow> string"

subsection \<open>Buffers\<close>

datatype rbuf = MeasureBuf int int | GridBuf grid

definition measureOnlyBuf :: "int \<Rightarrow> int \<Rightarrow> rbuf" where
  "measureOnlyBuf cols rows = MeasureBuf (if cols < 0 then 0 else cols) (if rows < 0 then 0 else rows)"

fun rb_Size :: "rbuf \<Rightarrow> int \<times> int" where
  "rb_Size (MeasureBuf c r) = (c, r)"
| "rb_Size (GridBuf g) = Grid_Size g"

definition rb_rows :: "rbuf \<Rightarrow> int" where
  "rb_rows b = snd (rb_Size b)"

text \<open>The pattern of every block: a new grid that \<open>paint\<close> fills, or the measure-only buffer when it fails.\<close>

definition grid_or_measure :: "int \<Rightarrow> int \<Rightarrow> (grid \<Rightarrow> grid) \<Rightarrow> rbuf" where
  "grid_or_measure cols rows paint =
     (case NewGrid cols rows of Inr g \<Rightarrow> GridBuf (paint g) | Inl _ \<Rightarrow> measureOnlyBuf cols rows)"

fun writeTextRow :: "(rune \<Rightarrow> int) \<Rightarrow> grid \<Rightarrow> int \<Rightarrow> int \<Rightarrow> runes \<Rightarrow> style \<Rightarrow> int \<Rightarrow> grid" where
  "writeTextRow rw g x y [] s cols = g"
| "writeTextRow rw g x y (r # rs) s cols =
     (if \<not> x < cols then g
      else if RuneWidth rw r \<le> 0 then writeTextRow rw g x y rs s cols
      else if x + RuneWidth rw r > cols then g
      else writeTextRow rw (Grid_SetCell rw g x y \<lparr>Ch = r, St = s\<rparr>) (x + RuneWidth rw r) y rs s cols)"

text \<open>The painting of ready cells from column \<open>x\<close> up to the limit \<open>limit\<close>.\<close>

fun paint_cells :: "(rune \<Rightarrow> int) \<Rightarrow> grid \<Rightarrow> int \<Rightarrow> int \<Rightarrow> int \<Rightarrow> cell list \<Rightarrow> grid" where
  "paint_cells rw g x y limit [] = g"
| "paint_cells rw g x y limit (c # cs) =
     (if RuneWidth rw (Ch c) \<le> 0 then paint_cells rw g x y limit cs
      else if x + RuneWidth rw (Ch c) > limit then g
      else paint_cells rw (Grid_SetCell rw g x y c) (x + RuneWidth rw (Ch c)) y limit cs)"

text \<open>One rune per column, as labels and placeholders are written.\<close>

fun write_label :: "(rune \<Rightarrow> int) \<Rightarrow> grid \<Rightarrow> int \<Rightarrow> runes \<Rightarrow> style \<Rightarrow> int \<Rightarrow> grid" where
  "write_label rw g x [] s cols = g"
| "write_label rw g x (r # rs) s cols =
     (if x \<ge> cols then g else write_label rw (Grid_SetCell rw g x 0 \<lparr>Ch = r, St = s\<rparr>) (x + 1) rs s cols)"

subsection \<open>Markers\<close>

definition markerRune :: rune where "markerRune = 0x2026"

definition filled :: "cell \<Rightarrow> bool" where
  "filled c \<longleftrightarrow> \<not> (Ch c = 0 \<or> Ch c = space)"

text \<open>The scan for the last filled cell of row \<open>y\<close> among the first \<open>n\<close> columns.\<close>

primrec last_filled :: "grid \<Rightarrow> int \<Rightarrow> nat \<Rightarrow> int option" where
  "last_filled g y 0 = None"
| "last_filled g y (Suc n) = (if filled (Grid_Cell g (int n) y) then Some (int n) else last_filled g y n)"

definition applyTailMarker :: "(rune \<Rightarrow> int) \<Rightarrow> grid \<Rightarrow> style \<Rightarrow> grid" where
  "applyTailMarker rw g s =
     (let (cols, rows) = Grid_Size g; y = rows - 1; m = \<lparr>Ch = markerRune, St = s\<rparr> in
      if cols \<le> 0 \<or> rows \<le> 0 then g
      else case last_filled g y (nat cols) of
        Some x \<Rightarrow> if x + 1 < cols then Grid_SetCell rw g (x + 1) y m else Grid_SetCell rw g x y m
      | None \<Rightarrow> Grid_SetCell rw g 0 y m)"

definition applyTruncated :: "(rune \<Rightarrow> int) \<Rightarrow> grid \<Rightarrow> theme \<Rightarrow> grid" where
  "applyTruncated rw g th = applyTailMarker rw g (th_Style th StyleWarning)"

definition applyContinued :: "(rune \<Rightarrow> int) \<Rightarrow> grid \<Rightarrow> theme \<Rightarrow> grid" where
  "applyContinued rw g th = applyTailMarker rw g (th_Style th StyleDimmed)"

definition emptyPlaceholder :: "renv \<Rightarrow> block_ctx \<Rightarrow> rbuf" where
  "emptyPlaceholder E ctx =
     (if MeasureOnly ctx then measureOnlyBuf (Cols ctx) 1
      else if Cols ctx \<le> 0 then measureOnlyBuf 0 1
      else grid_or_measure (Cols ctx) 1
        (\<lambda>g. write_label (rv_rw E) g 0 (runes_of ''(no output)'') (th_Style (themeOrDefault (CTheme ctx)) StyleDimmed) (Cols ctx)))"

text \<open>The rows of a text, one more when a marker finds the last row full.\<close>

definition rowsWithMarker :: "renv \<Rightarrow> string \<Rightarrow> int \<Rightarrow> wrap_policy \<Rightarrow> bool \<Rightarrow> int" where
  "rowsWithMarker E text cols policy marked =
     (if cols \<le> 0 then 0
      else let lines = wrap (rv_rw E) (rv_sw E) text cols policy; rows = int (length lines) in
        if rows = 0 then 0
        else if marked \<and> Width (rv_sw E) (last lines) \<ge> cols then rows + 1
        else rows)"

subsection \<open>The code block\<close>

definition dash :: rune where "dash = 0x2500"

definition buildLangLabel :: "string \<Rightarrow> int \<Rightarrow> runes" where
  "buildLangLabel lang cols =
     (if cols \<le> 0 then []
      else if lang = [] then replicate (nat cols) dash
      else let mid = runes_of ('' '' @ lang @ '' ''); dashTotal = cols - int (length mid) in
        if dashTotal < 6 then replicate 3 dash @ mid
        else let left = dashTotal div 2; right = dashTotal - left
          in replicate (nat left) dash @ mid @ replicate (nat right) dash)"

definition mergeStyles :: "style \<Rightarrow> style \<Rightarrow> style" where
  "mergeStyles fg bg = (if BG bg \<noteq> 0 then fg\<lparr>BG := BG bg\<rparr> else fg)"

text \<open>\<open>highlight\<close> answers nothing for an empty body and for a blank language.\<close>

definition highlight :: "renv \<Rightarrow> string \<Rightarrow> string \<Rightarrow> string \<Rightarrow> int \<Rightarrow> cell list list option" where
  "highlight E lang body codeStyle depth =
     (if body = [] \<or> blank lang then None else rv_hl E lang body codeStyle depth)"

fun paint_rows :: "(grid \<Rightarrow> int \<Rightarrow> 'r \<Rightarrow> grid) \<Rightarrow> int \<Rightarrow> 'r list \<Rightarrow> grid \<Rightarrow> grid" where
  "paint_rows f y [] g = g"
| "paint_rows f y (r # rs) g = paint_rows f (y + 1) rs (f g y r)"

text \<open>Painting the body of the plain code block: background over the whole row, then the text from column 1.\<close>

definition paint_code_line :: "(rune \<Rightarrow> int) \<Rightarrow> style \<Rightarrow> int \<Rightarrow> grid \<Rightarrow> int \<Rightarrow> string \<Rightarrow> grid" where
  "paint_code_line rw st cols g y line =
     (let bg = for_upto cols (\<lambda>x g. Grid_SetCell rw g x y \<lparr>Ch = space, St = st\<rparr>) g
      in paint_cells rw bg 1 y (cols - 1) (map (\<lambda>r. \<lparr>Ch = r, St = st\<rparr>) (runes_of line)))"

definition body_lines :: "string \<Rightarrow> string list" where
  "body_lines body = (let ls = split_nl body in if last ls = [] then butlast ls else ls)"

definition lang_label_row :: "renv \<Rightarrow> theme \<Rightarrow> string \<Rightarrow> int \<Rightarrow> grid \<Rightarrow> grid" where
  "lang_label_row E th lang cols g =
     write_label (rv_rw E) g 0 (buildLangLabel lang cols) (th_Style th StyleLangLabel) cols"

definition renderHighlightedCodeBlock ::
    "renv \<Rightarrow> block_ctx \<Rightarrow> string \<Rightarrow> string \<Rightarrow> string \<Rightarrow> (rbuf \<times> int) option" where
  "renderHighlightedCodeBlock E ctx lang body codeStyle =
     (case highlight E lang body codeStyle (ColorDepth ctx) of
        None \<Rightarrow> None
      | Some rows \<Rightarrow>
          let tot = 1 + int (length rows); th = themeOrDefault (CTheme ctx); cols = Cols ctx in
          if MeasureOnly ctx then Some (measureOnlyBuf cols tot, tot)
          else case NewGrid cols tot of
            Inl _ \<Rightarrow> None
          | Inr g \<Rightarrow>
              Some (GridBuf (paint_rows (\<lambda>g y cs. paint_cells (rv_rw E) g 1 y (cols - 1) cs) 1 rows
                               (lang_label_row E th lang cols g)), tot))"

text \<open>What \<open>renderCodeBlock\<close> computes when the cache does not answer: the buffer, the row count, and whether the
  highlighted rendering succeeded, which is the case in which it is stored.\<close>

definition code_render :: "renv \<Rightarrow> block_ctx \<Rightarrow> string \<Rightarrow> string \<Rightarrow> rbuf \<times> int \<times> bool" where
  "code_render E ctx lang body =
     (let th = themeOrDefault (CTheme ctx);
          plain =
            (let ls = body_lines body; rows = 1 + int (length ls); cols = Cols ctx;
                 st = mergeStyles (th_Style th StyleCode) (th_Style th StyleCodeBg) in
             if MeasureOnly ctx then (measureOnlyBuf cols rows, rows, False)
             else (grid_or_measure cols rows
                     (\<lambda>g. paint_rows (paint_code_line (rv_rw E) st cols) 1 ls (lang_label_row E th lang cols g)),
                   rows, False))
      in case th_CodeStyle th of
           None \<Rightarrow> plain
         | Some cs \<Rightarrow>
             if blank lang then plain
             else case renderHighlightedCodeBlock E ctx lang body cs of
                    None \<Rightarrow> plain
                  | Some (b, rows) \<Rightarrow> (b, rows, True))"

definition code_key :: "renv \<Rightarrow> block_ctx \<Rightarrow> string \<Rightarrow> string \<Rightarrow> string" where
  "code_key E ctx lang source =
     (let th = themeOrDefault (CTheme ctx);
          styleName = (case th_CodeStyle th of None \<Rightarrow> [] | Some cs \<Rightarrow> cs)
      in makeBlockCacheKey (rv_digest E) source (Cols ctx) (Verbose ctx) (th_key th) (CWrap ctx) lang styleName (ColorDepth ctx))"

definition renderCodeBlock ::
    "renv \<Rightarrow> block_ctx \<Rightarrow> string \<Rightarrow> string \<Rightarrow> rbuf blockLRU \<Rightarrow> (rbuf \<times> int) \<times> rbuf blockLRU" where
  "renderCodeBlock E ctx lang body cache =
     (let cacheable = (\<not> MeasureOnly ctx \<and> int (length body) \<le> blockCacheMaxSourceBytes);
          key = code_key E ctx lang body;
          (hit, cache1) = (if cacheable then LRU_Get key cache else (None, cache))
      in case hit of
           Some b \<Rightarrow> ((b, rb_rows b), cache1)
         | None \<Rightarrow>
             (case code_render E ctx lang body of
                (b, rows, highlighted) \<Rightarrow>
                  ((b, rows), if highlighted \<and> cacheable then LRU_Put key b cache1 else cache1)))"

definition Code_Render :: "renv \<Rightarrow> block_ctx \<Rightarrow> string \<Rightarrow> string \<Rightarrow> rbuf blockLRU \<Rightarrow> rbuf \<times> rbuf blockLRU" where
  "Code_Render E ctx source lang cache =
     (if Cols ctx \<le> 0 then (measureOnlyBuf 0 0, cache)
      else case renderCodeBlock E ctx lang source cache of ((b, _), cache1) \<Rightarrow> (b, cache1))"

subsection \<open>Row counts\<close>

lemma NewGrid_rows: "NewGrid cols rows = Inr g \<Longrightarrow> g_cols g = cols \<and> g_rows g = rows"
  by (auto simp: NewGrid_def Let_def split: if_splits)

lemma writeTextRow_frame [simp]:
  "g_cols (writeTextRow rw g x y rs s cols) = g_cols g" "g_rows (writeTextRow rw g x y rs s cols) = g_rows g"
  by (induction rw g x y rs s cols rule: writeTextRow.induct) simp_all

lemma paint_cells_frame [simp]:
  "g_cols (paint_cells rw g x y limit cs) = g_cols g" "g_rows (paint_cells rw g x y limit cs) = g_rows g"
  by (induction rw g x y limit cs rule: paint_cells.induct) simp_all

lemma write_label_frame [simp]:
  "g_cols (write_label rw g x rs s cols) = g_cols g" "g_rows (write_label rw g x rs s cols) = g_rows g"
  by (induction rw g x rs s cols rule: write_label.induct) simp_all

lemma applyTailMarker_frame [simp]:
  "g_cols (applyTailMarker rw g s) = g_cols g" "g_rows (applyTailMarker rw g s) = g_rows g"
  by (auto simp: applyTailMarker_def Let_def split: prod.splits option.splits)

lemma paint_rows_frame:
  assumes "\<And>g y r. g_rows (f g y r) = g_rows g"
  shows "g_rows (paint_rows f y rs g) = g_rows g"
  using assms by (induction f y rs g rule: paint_rows.induct) auto

lemma paint_code_line_frame [simp]: "g_rows (paint_code_line rw st cols g y line) = g_rows g"
proof -
  have "g_rows (for_upto cols (\<lambda>x g. Grid_SetCell rw g x y \<lparr>Ch = space, St = st\<rparr>) g) = g_rows g"
    by (rule for_upto_invariant [where P = "\<lambda>h. g_rows h = g_rows g"]) simp_all
  then show ?thesis by (simp add: paint_code_line_def Let_def)
qed

lemma rb_rows_measure [simp]: "0 \<le> rows \<Longrightarrow> rb_rows (measureOnlyBuf cols rows) = rows"
  by (simp add: rb_rows_def measureOnlyBuf_def)

lemma rb_rows_grid: "0 \<le> rows \<Longrightarrow> (\<And>g. g_rows (paint g) = g_rows g) \<Longrightarrow> rb_rows (grid_or_measure cols rows paint) = rows"
  using NewGrid_rows [of cols rows]
  by (auto simp: grid_or_measure_def rb_rows_def Grid_Size_def measureOnlyBuf_def split: sum.splits)

lemma rowsWithMarker_nonneg: "0 \<le> rowsWithMarker E t cols p b"
  by (simp add: rowsWithMarker_def Let_def)

lemma rb_rows_placeholder: "rb_rows (emptyPlaceholder E ctx) = 1"
  by (simp add: emptyPlaceholder_def rb_rows_grid)

text \<open>The rows a code block reports are those of its buffer, and measuring counts what rendering produces, as long as
  the highlighted body fits a grid.\<close>

lemma highlighted_rows:
  "renderHighlightedCodeBlock E ctx lang body cs = Some (b, rows) \<Longrightarrow> rb_rows b = rows"
  using NewGrid_rows
  by (fastforce simp: renderHighlightedCodeBlock_def lang_label_row_def Let_def rb_rows_def Grid_Size_def measureOnlyBuf_def
      paint_rows_frame split: option.splits if_splits sum.splits)

lemma code_render_rows: "code_render E ctx lang body = (b, rows, h) \<Longrightarrow> rb_rows b = rows"
  using highlighted_rows
  by (fastforce simp: code_render_def Let_def rb_rows_grid paint_rows_frame lang_label_row_def split: option.splits if_splits)

definition code_fits :: "renv \<Rightarrow> block_ctx \<Rightarrow> string \<Rightarrow> string \<Rightarrow> bool" where
  "code_fits E ctx lang body \<longleftrightarrow>
     (case th_CodeStyle (themeOrDefault (CTheme ctx)) of
        None \<Rightarrow> True
      | Some cs \<Rightarrow>
          (case highlight E lang body cs (ColorDepth ctx) of
             None \<Rightarrow> True
           | Some rows \<Rightarrow> 0 < Cols ctx \<and> Cols ctx * (1 + int (length rows)) \<le> MaxInt32))"

lemma NewGrid_fits: "0 < cols \<Longrightarrow> 0 < rows \<Longrightarrow> cols * rows \<le> MaxInt32 \<Longrightarrow> \<exists>g. NewGrid cols rows = Inr g"
  by (auto simp: NewGrid_def wrap64_small Let_def mult_less_0_iff)

lemma code_measures:
  assumes "code_fits E ctx lang body"
  shows "fst (snd (code_render E (ctx\<lparr>MeasureOnly := True\<rparr>) lang body)) = fst (snd (code_render E (ctx\<lparr>MeasureOnly := False\<rparr>) lang body))"
proof (cases "th_CodeStyle (themeOrDefault (CTheme ctx))")
  case (Some cs)
  show ?thesis
  proof (cases "highlight E lang body cs (ColorDepth ctx)")
    case None
    with Some show ?thesis by (simp add: code_render_def renderHighlightedCodeBlock_def Let_def)
  next
    case h: (Some rows)
    with assms Some NewGrid_fits [of "Cols ctx" "1 + int (length rows)"]
    obtain g where "NewGrid (Cols ctx) (1 + int (length rows)) = Inr g" by (auto simp: code_fits_def)
    with Some h show ?thesis by (simp add: code_render_def renderHighlightedCodeBlock_def Let_def)
  qed
qed (simp add: code_render_def Let_def)

subsection \<open>The cache is transparent to code blocks\<close>

text \<open>An entry is right when it is the rendering of every code block, in this theme and with a source of \<open>S\<close>, whose key it
  has.\<close>

definition code_right :: "renv \<Rightarrow> theme \<Rightarrow> string set \<Rightarrow> string \<Rightarrow> rbuf \<Rightarrow> bool" where
  "code_right E th S k b \<longleftrightarrow>
     (\<forall>ctx lang body. themeOrDefault (CTheme ctx) = th \<and> \<not> MeasureOnly ctx \<and> body \<in> S \<and> code_key E ctx lang body = k \<longrightarrow>
        b = fst (code_render E ctx lang body))"

text \<open>The hash separates the sources of \<open>S\<close>; hexadecimal digits contain no colon.\<close>

definition good_digest :: "renv \<Rightarrow> string set \<Rightarrow> bool" where
  "good_digest E S \<longleftrightarrow> inj_on (rv_digest E) S \<and> (\<forall>s. CHR '':'' \<notin> set (rv_digest E s))"

lemma code_key_inject:
  assumes "good_digest E S" and "s \<in> S" and "s' \<in> S" and "code_key E ctx lang s = code_key E ctx' lang' s'"
    and "themeOrDefault (CTheme ctx) = themeOrDefault (CTheme ctx')"
  shows "s = s' \<and> lang = lang' \<and> Cols ctx = Cols ctx' \<and> ColorDepth ctx = ColorDepth ctx'"
  using key_inject [OF assms(4) [unfolded code_key_def Let_def assms(5)]] assms(1-3)
  by (auto simp: good_digest_def dest: inj_onD)

lemma code_render_cong:
  assumes "themeOrDefault (CTheme ctx) = themeOrDefault (CTheme ctx')" and "Cols ctx = Cols ctx'"
    and "ColorDepth ctx = ColorDepth ctx'" and "MeasureOnly ctx = MeasureOnly ctx'"
  shows "code_render E ctx lang body = code_render E ctx' lang body"
proof -
  have "renderHighlightedCodeBlock E ctx lang body cs = renderHighlightedCodeBlock E ctx' lang body cs" for cs
    unfolding renderHighlightedCodeBlock_def assms by (rule refl)
  then show ?thesis unfolding code_render_def assms by (simp only:)
qed

lemma renderCodeBlock_sound:
  assumes "lru.sound (code_right E th S) cache" and "good_digest E S" and "body \<in> S" and "themeOrDefault (CTheme ctx) = th"
    and "renderCodeBlock E ctx lang body cache = ((b, rows), cache')"
  shows "(b, rows) = (fst (code_render E ctx lang body), fst (snd (code_render E ctx lang body))) \<and>
    lru.sound (code_right E th S) cache'"
proof -
  let ?c = "\<not> MeasureOnly ctx \<and> int (length body) \<le> blockCacheMaxSourceBytes" and ?k = "code_key E ctx lang body"
  obtain b0 rows0 h where r: "code_render E ctx lang body = (b0, rows0, h)" by (metis prod_cases3)
  obtain hit c1 where g: "(if ?c then LRU_Get ?k cache else (None, cache)) = (hit, c1)" by fastforce
  have s1: "lru.sound (code_right E th S) c1"
    using g lru.sound_get [OF assms(1), of ?k] assms(1) by (auto split: if_splits)
  show ?thesis
  proof (cases hit)
    case (Some v)
    with g have "?c" and "LRU_Get ?k cache = (Some v, c1)" by (auto split: if_splits)
    with lru.hit_is_right [OF assms(1)] have "code_right E th S ?k v" by blast
    with assms(3,4) \<open>?c\<close> have "v = b0" unfolding code_right_def using r by (metis fst_conv)
    with Some assms(5) g s1 code_render_rows [OF r] r show ?thesis by (auto simp: renderCodeBlock_def Let_def)
  next
    case None
    have "code_right E th S ?k b0" if "?c"
      unfolding code_right_def
    proof (intro allI impI, elim conjE)
      fix ctx' lang' body'
      assume p: "themeOrDefault (CTheme ctx') = th" "\<not> MeasureOnly ctx'" "body' \<in> S" "code_key E ctx' lang' body' = ?k"
      from code_key_inject [OF assms(2) p(3) assms(3) p(4)] p(1) assms(4)
      have "body' = body \<and> lang' = lang \<and> Cols ctx' = Cols ctx \<and> ColorDepth ctx' = ColorDepth ctx" by auto
      with code_render_cong [of ctx' ctx E lang body] p(1,2) assms(4) that r
      show "b0 = fst (code_render E ctx' lang' body')" by auto
    qed
    with None assms(5) g s1 r lru.sound_put [OF s1] show ?thesis
      by (auto simp: renderCodeBlock_def Let_def split: if_splits)
  qed
qed

end
