(* ===== verification/Fence.thy ===== *)
theory Fence
  imports GoText
begin

text \<open>
  The scanner of backtick fences, \<open>internal/app/cli/render/block/fence.go\<close>, on the lines of a byte string, and the
  partition of a message into prose and code, \<open>splitSegments\<close> of \<open>message.go\<close>.
\<close>

record fenceRange =
  FStart :: nat
  FEnd :: nat
  Lang :: string
  OpenRun :: nat
  FClosed :: bool

definition in_range :: "'a :: ord \<Rightarrow> 'a \<Rightarrow> 'a \<Rightarrow> bool" where
  "in_range lo hi c \<longleftrightarrow> lo \<le> c \<and> c \<le> hi"

definition isLangChar :: "char \<Rightarrow> bool" where
  "isLangChar c \<longleftrightarrow>
     in_range (CHR ''a'') (CHR ''z'') c \<or> in_range (CHR ''A'') (CHR ''Z'') c \<or> in_range (CHR ''0'') (CHR ''9'') c \<or>
     c \<in> {CHR ''_'', CHR ''+'', CHR ''-'', CHR ''.'', CHR ''#''}"

definition is_tick :: "char \<Rightarrow> bool" where
  "is_tick c \<longleftrightarrow> c = CHR 0x60"

definition is_sp :: "char \<Rightarrow> bool" where
  "is_sp c \<longleftrightarrow> c = CHR '' ''"

text \<open>The backtick run of a line and what follows it, unless the line is indented by more than three spaces.\<close>

definition tick_run :: "string \<Rightarrow> (nat \<times> string) option" where
  "tick_run line =
     (let indent = length (takeWhile is_sp line); rest = drop indent line; run = length (takeWhile is_tick rest)
      in if indent > 3 then None else Some (run, drop run rest))"

definition parseFenceOpen :: "string \<Rightarrow> (nat \<times> string) option" where
  "parseFenceOpen line =
     (case tick_run line of
        None \<Rightarrow> None
      | Some (run, rest) \<Rightarrow>
          if run < 3 then None
          else let tail = TrimLeftSpace rest; lang = takeWhile isLangChar tail; after = drop (length lang) tail
            in if \<not> blank after then None else Some (run, lang))"

definition isFenceClose :: "string \<Rightarrow> nat \<Rightarrow> bool" where
  "isFenceClose line openRun =
     (case tick_run line of None \<Rightarrow> False | Some (run, rest) \<Rightarrow> \<not> run < openRun \<and> blank rest)"

text \<open>The inner loop: the index of the closing fence at or after \<open>j\<close>.\<close>

fun find_close :: "nat \<Rightarrow> nat \<Rightarrow> string list \<Rightarrow> nat option" where
  "find_close openRun j [] = None"
| "find_close openRun j (l # ls) = (if isFenceClose l openRun then Some j else find_close openRun (j + 1) ls)"

lemma find_close_bound: "find_close n j ls = Some k \<Longrightarrow> j \<le> k \<and> k < j + length ls"
  by (induction n j ls rule: find_close.induct) (auto split: if_splits)

text \<open>The outer loop: \<open>i\<close> is the index of the first of the lines left, \<open>n\<close> the number of all lines.\<close>

function scan_loop :: "nat \<Rightarrow> nat \<Rightarrow> string list \<Rightarrow> fenceRange list" where
  "scan_loop n i [] = []"
| "scan_loop n i (l # ls) =
     (case parseFenceOpen l of
        None \<Rightarrow> scan_loop n (i + 1) ls
      | Some (openRun, lang) \<Rightarrow>
          (case find_close openRun (i + 1) ls of
             None \<Rightarrow> [\<lparr>FStart = i, FEnd = n - 1, Lang = lang, OpenRun = openRun, FClosed = False\<rparr>]
           | Some e \<Rightarrow>
               \<lparr>FStart = i, FEnd = e, Lang = lang, OpenRun = openRun, FClosed = True\<rparr> #
               scan_loop n (e + 1) (drop (e - i) ls)))"
  by pat_completeness auto
termination
  by (relation "measure (\<lambda>(n, i, ls). length ls)") auto

definition scanFenceRanges :: "string \<Rightarrow> fenceRange list" where
  "scanFenceRanges text =
     (if text = [] then [] else let lines = split_nl text in scan_loop (length lines) 0 lines)"

subsection \<open>Segments\<close>

datatype segment = segProse string | segFence string string

definition slice :: "nat \<Rightarrow> nat \<Rightarrow> 'a list \<Rightarrow> 'a list" where
  "slice a b xs = drop a (take b xs)"

definition prose_segs :: "string list \<Rightarrow> segment list" where
  "prose_segs ls = (let prose = join_nl ls in if blank prose then [] else [segProse prose])"

definition fence_body :: "string list \<Rightarrow> fenceRange \<Rightarrow> string list" where
  "fence_body lines f = (if FClosed f then slice (FStart f + 1) (FEnd f) lines else drop (FStart f + 1) lines)"

fun segments_from :: "string list \<Rightarrow> nat \<Rightarrow> fenceRange list \<Rightarrow> segment list" where
  "segments_from lines cur [] = (if cur < length lines then prose_segs (drop cur lines) else [])"
| "segments_from lines cur (f # fs) =
     (if FStart f > cur then prose_segs (slice cur (FStart f) lines) else []) @
     [segFence (join_nl (fence_body lines f)) (Lang f)] @
     segments_from lines (if FClosed f then FEnd f + 1 else length lines) fs"

definition splitSegments :: "string \<Rightarrow> fenceRange list \<Rightarrow> segment list" where
  "splitSegments text fences = segments_from (split_nl text) 0 fences"

subsection \<open>Ranges\<close>

text \<open>Ordered, disjoint ranges inside the text; only the last may be unclosed, and it runs to the end.\<close>

fun ranges_ok :: "nat \<Rightarrow> nat \<Rightarrow> fenceRange list \<Rightarrow> bool" where
  "ranges_ok n i [] \<longleftrightarrow> True"
| "ranges_ok n i (f # fs) \<longleftrightarrow>
     i \<le> FStart f \<and> FEnd f < n \<and> 3 \<le> OpenRun f \<and>
     (if FClosed f then FStart f < FEnd f \<and> ranges_ok n (FEnd f + 1) fs
      else FStart f \<le> FEnd f \<and> FEnd f = n - 1 \<and> fs = [])"

lemma parseFenceOpen_run: "parseFenceOpen l = Some (r, lang) \<Longrightarrow> 3 \<le> r"
  by (auto simp: parseFenceOpen_def Let_def split: option.splits if_splits)

lemma ranges_ok_mono: "ranges_ok n i fs \<Longrightarrow> j \<le> i \<Longrightarrow> ranges_ok n j fs"
  by (cases fs) auto

lemma scan_loop_ranges: "i + length ls = n \<Longrightarrow> ranges_ok n i (scan_loop n i ls)"
proof (induction n i ls rule: scan_loop.induct)
  case (2 n i l ls)
  show ?case
  proof (cases "parseFenceOpen l")
    case None
    with 2 ranges_ok_mono [of n "Suc i" "scan_loop n (Suc i) ls" i] show ?thesis by auto
  next
    case (Some p)
    obtain r lang where p: "p = (r, lang)" by fastforce
    show ?thesis
    proof (cases "find_close r (i + 1) ls")
      case None
      with Some p parseFenceOpen_run [of l r lang] 2 show ?thesis by auto
    next
      case c: (Some e)
      note b = find_close_bound [OF c]
      have "e + 1 + length (drop (e - i) ls) = n" using b 2(3) by auto
      from 2(2) [OF Some p [symmetric] c this] Some p c b 2(3) parseFenceOpen_run [of l r lang]
      show ?thesis by auto
    qed
  qed
qed simp

subsection \<open>The code of a text\<close>

text \<open>What the two passes amount to: the code blocks of a list of lines, each with its language.\<close>

function fenced :: "string list \<Rightarrow> (string \<times> string list) list" where
  "fenced [] = []"
| "fenced (l # ls) =
     (case parseFenceOpen l of
        None \<Rightarrow> fenced ls
      | Some (openRun, lang) \<Rightarrow>
          (case find_close openRun 0 ls of
             None \<Rightarrow> [(lang, ls)]
           | Some e \<Rightarrow> (lang, take e ls) # fenced (drop (e + 1) ls)))"
  by pat_completeness auto
termination
  by (relation "measure length") auto

lemma find_close_shift: "find_close r (Suc j) ls = map_option Suc (find_close r j ls)"
  by (induction ls arbitrary: j) auto

lemma find_close_plus: "find_close r (j + i) ls = map_option (\<lambda>e. e + i) (find_close r j ls)"
  by (induction i) (auto simp: find_close_shift option.map_comp o_def option.map_ident)

fun is_code :: "segment \<Rightarrow> bool" where
  "is_code (segFence _ _) = True"
| "is_code (segProse _) = False"

lemma prose_segs_no_code [simp]: "filter is_code (prose_segs ls) = []"
  by (simp add: prose_segs_def Let_def)

lemma segments_are_fenced:
  "cur \<le> i \<Longrightarrow> i \<le> length lines \<Longrightarrow>
   filter is_code (segments_from lines cur (scan_loop (length lines) i (drop i lines))) =
     map (\<lambda>(lang, b). segFence (join_nl b) lang) (fenced (drop i lines))"
proof (induction "length lines - i" arbitrary: cur i rule: less_induct)
  case less
  show ?case
  proof (cases "i = length lines")
    case True
    then show ?thesis by simp
  next
    case False
    define l ls where "l = lines ! i" and "ls = drop (Suc i) lines"
    have i: "i < length lines" and dr: "drop i lines = l # ls"
      using False less.prems by (simp_all add: l_def ls_def Cons_nth_drop_Suc)
    show ?thesis
    proof (cases "parseFenceOpen l")
      case None
      have "length lines - Suc i < length lines - i" using i by simp
      from less.hyps [OF this, of cur] i less.prems None dr show ?thesis by (simp add: ls_def)
    next
      case (Some p)
      obtain r lang where p: "p = (r, lang)" by fastforce
      note sh = find_close_plus [of r 0 "Suc i" ls, simplified]
      show ?thesis
      proof (cases "find_close r 0 ls")
        case None
        with Some p dr sh i less.prems show ?thesis by (simp add: fence_body_def ls_def)
      next
        case c: (Some e)
        have e: "e < length ls" using find_close_bound [OF c] by simp
        have b: "slice (Suc i) (Suc (e + i)) lines = take e ls" by (simp add: slice_def ls_def drop_take)
        have d: "drop (Suc (Suc (e + i))) lines = drop (Suc e) ls" by (simp add: ls_def add.commute)
        have "length lines - (e + Suc (Suc i)) < length lines - i" "e + Suc (Suc i) \<le> length lines"
          using e i by (simp_all add: ls_def)
        from less.hyps [OF this(1) order_refl this(2)] Some p dr c sh show ?thesis
          by (simp add: fence_body_def b d)
      qed
    qed
  qed
qed

lemma parseFenceOpen_Nil [simp]: "parseFenceOpen [] = None"
  by (simp add: parseFenceOpen_def tick_run_def)

lemma code_of_text:
  "filter is_code (splitSegments text (scanFenceRanges text)) =
     map (\<lambda>(lang, b). segFence (join_nl b) lang) (fenced (split_nl text))"
  using segments_are_fenced [of 0 0 "split_nl text"]
  by (auto simp: splitSegments_def scanFenceRanges_def Let_def prose_segs_def)

lemma scan_loop_None: "scan_loop n i ls = [] \<Longrightarrow> list_all (\<lambda>l. parseFenceOpen l = None) ls"
  by (induction n i ls rule: scan_loop.induct) (auto split: option.splits)

lemma no_fence_lines: "scanFenceRanges s = [] \<Longrightarrow> list_all (\<lambda>l. parseFenceOpen l = None) (split_nl s)"
  using scan_loop_None by (auto simp: scanFenceRanges_def Let_def split: if_splits)

lemma fenced_prose: "list_all (\<lambda>l. parseFenceOpen l = None) a \<Longrightarrow> fenced (a @ b) = fenced b"
  by (induction a) auto

lemma find_close_at: "list_all (\<lambda>l. \<not> isFenceClose l r) body \<Longrightarrow> isFenceClose c r \<Longrightarrow>
   find_close r 0 (body @ c # rest) = Some (length body)"
  by (induction body) (auto simp: find_close_shift)

lemma fenced_block:
  "parseFenceOpen l = Some (r, lang) \<Longrightarrow> list_all (\<lambda>l. \<not> isFenceClose l r) body \<Longrightarrow> isFenceClose c r \<Longrightarrow>
   fenced (l # body @ c # rest) = (lang, body) # fenced rest"
  by (simp add: find_close_at)

end
