(* ===== verification/MessageBlock.thy ===== *)
theory MessageBlock
  imports CodeBlock Fence Nodes
begin

text \<open>
  \<open>Message.Render\<close> of \<open>internal/app/cli/render/block/message.go\<close>: the placeholder, plain text, text mixed with fenced
  code, and the speaker's bullet.  The block cache is passed along, since code segments are looked up in it.
  \<open>bullet\<close> is the speaker glyph, which depends on the platform.
\<close>

definition speakerBullet :: "bool \<Rightarrow> rune" where
  "speakerBullet darwin = (if darwin then 0x23FA else 0x25CF)"

definition marked :: "message \<Rightarrow> bool" where
  "marked m \<longleftrightarrow> Truncated m \<or> Continued m"

subsection \<open>Plain text\<close>

definition paint_text_rows :: "renv \<Rightarrow> theme \<Rightarrow> int \<Rightarrow> runes list \<Rightarrow> grid \<Rightarrow> grid" where
  "paint_text_rows E th cols lines g =
     paint_rows (\<lambda>g y l. writeTextRow (rv_rw E) g 0 y l (th_Style th StyleNormal) cols) 0 lines g"

definition plain_marker :: "renv \<Rightarrow> theme \<Rightarrow> wrap_policy \<Rightarrow> message \<Rightarrow> grid \<Rightarrow> grid" where
  "plain_marker E th policy m g =
     (if Truncated m \<and> policy \<noteq> WrapNone then applyTruncated (rv_rw E) g th
      else if Continued m \<and> \<not> Truncated m then applyContinued (rv_rw E) g th else g)"

definition renderPlainText :: "renv \<Rightarrow> block_ctx \<Rightarrow> message \<Rightarrow> rbuf" where
  "renderPlainText E ctx m =
     (let th = themeOrDefault (CTheme ctx); cols = Cols ctx;
          lines = wrap (rv_rw E) (rv_sw E) (Text m) cols (CWrap ctx);
          rows = rowsWithMarker E (Text m) cols (CWrap ctx) (marked m)
      in if rows = 0 then measureOnlyBuf cols 0
         else if MeasureOnly ctx then measureOnlyBuf cols rows
         else grid_or_measure cols rows (\<lambda>g. plain_marker E th (CWrap ctx) m (paint_text_rows E th cols lines g)))"

subsection \<open>Text with code\<close>

text \<open>The loop over the segments: the rendered segments, each with its row count, and the cache.\<close>

fun render_segments ::
    "renv \<Rightarrow> block_ctx \<Rightarrow> segment list \<Rightarrow> rbuf blockLRU \<Rightarrow> (rbuf \<times> int) list \<times> rbuf blockLRU" where
  "render_segments E ctx [] cache = ([], cache)"
| "render_segments E ctx (segProse prose # segs) cache =
     (let rows = rowsWithMarker E prose (Cols ctx) (CWrap ctx) False; (rs, cache1) = render_segments E ctx segs cache in
      if rows = 0 then (rs, cache1)
      else if MeasureOnly ctx then ((measureOnlyBuf (Cols ctx) rows, rows) # rs, cache1)
      else ((renderPlainText E ctx (plain_msg prose), rows) # rs, cache1))"
| "render_segments E ctx (segFence body lang # segs) cache =
     (case renderCodeBlock E ctx lang body cache of
        (r, cache1) \<Rightarrow> (case render_segments E ctx segs cache1 of (rs, cache2) \<Rightarrow> (r # rs, cache2)))"

definition lastRowOccupiedWidth :: "grid \<Rightarrow> int \<Rightarrow> int \<Rightarrow> int" where
  "lastRowOccupiedWidth g y cols = (case last_filled g y (nat cols) of Some x \<Rightarrow> x + 1 | None \<Rightarrow> 0)"

text \<open>One more row when a marker finds the last row of the last segment full; a segment that is no grid has none.\<close>

definition tail_overflow :: "message \<Rightarrow> int \<Rightarrow> (rbuf \<times> int) list \<Rightarrow> int \<Rightarrow> int" where
  "tail_overflow m cols rs tot =
     (if marked m \<and> rs \<noteq> [] \<and> tot > 0 then
        (case fst (last rs) of
           GridBuf g \<Rightarrow>
             if snd (Grid_Size g) > 0 \<and> lastRowOccupiedWidth g (snd (Grid_Size g) - 1) cols \<ge> cols then tot + 1 else tot
         | MeasureBuf _ _ \<Rightarrow> tot)
      else tot)"

fun stitch :: "(rune \<Rightarrow> int) \<Rightarrow> int \<Rightarrow> (rbuf \<times> int) list \<Rightarrow> grid \<Rightarrow> grid" where
  "stitch rw y [] g = g"
| "stitch rw y ((b, rows) # rs) g =
     stitch rw (y + rows) rs
       (case b of GridBuf src \<Rightarrow> the (BlitAt rw (Some g) (Some (as_buf src)) 0 y) | MeasureBuf _ _ \<Rightarrow> g)"

definition mixed_marker :: "renv \<Rightarrow> theme \<Rightarrow> message \<Rightarrow> grid \<Rightarrow> grid" where
  "mixed_marker E th m g =
     (if Truncated m then applyTruncated (rv_rw E) g th
      else if Continued m then applyContinued (rv_rw E) g th else g)"

definition renderMixed ::
    "renv \<Rightarrow> block_ctx \<Rightarrow> message \<Rightarrow> fenceRange list \<Rightarrow> rbuf blockLRU \<Rightarrow> rbuf \<times> rbuf blockLRU" where
  "renderMixed E ctx m fences cache =
     (let th = themeOrDefault (CTheme ctx); cols = Cols ctx;
          (rs, cache1) = render_segments E ctx (splitSegments (Text m) fences) cache;
          tot = tail_overflow m cols rs (sum_list (map snd rs))
      in (if MeasureOnly ctx then measureOnlyBuf cols tot
          else if tot = 0 then measureOnlyBuf cols 0
          else grid_or_measure cols tot (\<lambda>g. mixed_marker E th m (stitch (rv_rw E) 0 rs g)),
          cache1))"

subsection \<open>Dispatch\<close>

definition render_inner :: "renv \<Rightarrow> block_ctx \<Rightarrow> message \<Rightarrow> rbuf blockLRU \<Rightarrow> rbuf \<times> rbuf blockLRU" where
  "render_inner E ctx m cache =
     (if Cols ctx \<le> 0 then (measureOnlyBuf 0 0, cache)
      else if Empty m then (emptyPlaceholder E ctx, cache)
      else if Text m = [] then (measureOnlyBuf (Cols ctx) 0, cache)
      else let fences = scanFenceRanges (Text m) in
        if fences = [] then (renderPlainText E ctx m, cache)
        else renderMixed E ctx m fences cache)"

text \<open>The inner content without its speaker, two columns narrower, moved right under the bullet.\<close>

definition renderWithBullet ::
    "renv \<Rightarrow> rune \<Rightarrow> block_ctx \<Rightarrow> message \<Rightarrow> rbuf blockLRU \<Rightarrow> rbuf \<times> rbuf blockLRU" where
  "renderWithBullet E bullet ctx m cache =
     (if Empty m then (measureOnlyBuf (Cols ctx) 0, cache)
      else case render_inner E (ctx\<lparr>Cols := Cols ctx - 2\<rparr>) (m\<lparr>Speaker := SpeakerNone\<rparr>) cache of
        (inner, cache1) \<Rightarrow>
          let rows = rb_rows inner in
          (if rows = 0 then measureOnlyBuf (Cols ctx) 0
           else if MeasureOnly ctx then measureOnlyBuf (Cols ctx) rows
           else grid_or_measure (Cols ctx) rows
             (\<lambda>out. Grid_SetCell (rv_rw E)
                (case inner of GridBuf g \<Rightarrow> the (BlitAt (rv_rw E) (Some out) (Some (as_buf g)) 2 0) | MeasureBuf _ _ \<Rightarrow> out)
                0 0 \<lparr>Ch = bullet, St = th_Style (themeOrDefault (CTheme ctx)) StyleNormal\<rparr>),
           cache1))"

definition Message_Render ::
    "renv \<Rightarrow> rune \<Rightarrow> block_ctx \<Rightarrow> message \<Rightarrow> rbuf blockLRU \<Rightarrow> rbuf \<times> rbuf blockLRU" where
  "Message_Render E bullet ctx m cache =
     (if Cols ctx \<le> 0 then (measureOnlyBuf 0 0, cache)
      else if Speaker m = SpeakerAssistant \<and> Cols ctx > 2 then renderWithBullet E bullet ctx m cache
      else render_inner E ctx m cache)"

subsection \<open>Measuring and rendering\<close>

lemma BlitAt_rows: "g_rows (the (BlitAt rw (Some g) (Some src) x y)) = g_rows g"
  unfolding BlitAt_def
  by (auto simp: Let_def intro!: for_upto_invariant [where P = "\<lambda>h. g_rows h = g_rows g"])

lemma stitch_rows: "g_rows (stitch rw y rs g) = g_rows g"
  by (induction rw y rs g rule: stitch.induct) (simp_all add: BlitAt_rows split: rbuf.splits)

lemma plain_rows: "rb_rows (renderPlainText E ctx m) = rowsWithMarker E (Text m) (Cols ctx) (CWrap ctx) (marked m)"
  using rowsWithMarker_nonneg [of E "Text m" "Cols ctx" "CWrap ctx" "marked m"]
  by (simp add: renderPlainText_def Let_def rb_rows_grid plain_marker_def applyTruncated_def applyContinued_def
      paint_text_rows_def paint_rows_frame)

lemma mixed_marker_rows: "g_rows (mixed_marker E th m g) = g_rows g"
  by (simp add: mixed_marker_def applyTruncated_def applyContinued_def)

lemma measured_code: "renderCodeBlock E (ctx\<lparr>MeasureOnly := True\<rparr>) lang body cache =
   ((fst (code_render E (ctx\<lparr>MeasureOnly := True\<rparr>) lang body), fst (snd (code_render E (ctx\<lparr>MeasureOnly := True\<rparr>) lang body))), cache)"
  by (auto simp: renderCodeBlock_def split: prod.splits)

definition seg_ok :: "renv \<Rightarrow> block_ctx \<Rightarrow> string set \<Rightarrow> segment \<Rightarrow> bool" where
  "seg_ok E ctx S seg = (case seg of segProse _ \<Rightarrow> True | segFence body lang \<Rightarrow> body \<in> S \<and> code_fits E ctx lang body)"

lemma segments_measure:
  assumes "good_digest E S" and "th = themeOrDefault (CTheme ctx)" and "list_all (seg_ok E ctx S) segs"
    and "lru.sound (code_right E th S) cache"
  shows "map snd (fst (render_segments E (ctx\<lparr>MeasureOnly := True\<rparr>) segs c)) =
      map snd (fst (render_segments E (ctx\<lparr>MeasureOnly := False\<rparr>) segs cache)) \<and>
    lru.sound (code_right E th S) (snd (render_segments E (ctx\<lparr>MeasureOnly := False\<rparr>) segs cache))"
  using assms(3,4)
proof (induction segs arbitrary: c cache)
  case (Cons seg segs)
  show ?case
  proof (cases seg)
    case (segProse p)
    with Cons.IH [of cache c] Cons.prems show ?thesis
      by (auto simp: Let_def split: prod.splits)
  next
    case (segFence body lang)
    let ?N = "ctx\<lparr>MeasureOnly := False\<rparr>"
    obtain b rows c1 where r: "renderCodeBlock E ?N lang body cache = ((b, rows), c1)" by (metis prod.exhaust)
    have s: "body \<in> S" "code_fits E ctx lang body" using Cons.prems(1) segFence by (simp_all add: seg_ok_def)
    from renderCodeBlock_sound [OF Cons.prems(2) assms(1) s(1) _ r] assms(2)
    have "rows = fst (snd (code_render E ?N lang body))" "lru.sound (code_right E th S) c1" by simp_all
    with Cons.IH [of c1 c] Cons.prems(1) segFence r code_measures [OF s(2)] show ?thesis
      by (auto simp: measured_code split: prod.splits)
  qed
qed simp

lemma segments_rows_nonneg:
  shows "0 \<le> sum_list (map snd (fst (render_segments E (ctx\<lparr>MeasureOnly := True\<rparr>) segs c)))"
proof (induction segs)
  case (Cons seg segs)
  have "0 \<le> fst (snd (code_render E (ctx\<lparr>MeasureOnly := True\<rparr>) lang body))" for lang body
    by (auto simp: code_render_def renderHighlightedCodeBlock_def Let_def split: option.splits)
  with Cons rowsWithMarker_nonneg [of E _ "Cols ctx"] show ?case
    by (cases seg) (auto simp: Let_def measured_code split: prod.splits)
qed simp

lemma unmarked_tail: "\<not> marked m \<Longrightarrow> tail_overflow m cols rs n = n"
  by (simp add: tail_overflow_def)

lemma mixed_measure:
  assumes "good_digest E S" and "lru.sound (code_right E (themeOrDefault (CTheme ctx)) S) cache" and "\<not> marked m"
    and "list_all (seg_ok E ctx S) (splitSegments (Text m) fences)"
  shows "rb_rows (fst (renderMixed E (ctx\<lparr>MeasureOnly := True\<rparr>) m fences c)) =
    rb_rows (fst (renderMixed E (ctx\<lparr>MeasureOnly := False\<rparr>) m fences cache))"
proof -
  let ?segs = "splitSegments (Text m) fences"
  obtain rs1 k1 where r1: "render_segments E (ctx\<lparr>MeasureOnly := True\<rparr>) ?segs c = (rs1, k1)" by fastforce
  obtain rs2 k2 where r2: "render_segments E (ctx\<lparr>MeasureOnly := False\<rparr>) ?segs cache = (rs2, k2)" by fastforce
  from segments_measure [OF assms(1) refl assms(4,2), of c] r1 r2 have "map snd rs1 = map snd rs2" by simp
  moreover have "0 \<le> sum_list (map snd rs1)" using segments_rows_nonneg [of E ctx ?segs c] r1 by simp
  ultimately show ?thesis using r1 r2
    by (simp add: renderMixed_def Let_def unmarked_tail assms(3) rb_rows_grid mixed_marker_rows stitch_rows)
qed

lemma inner_measure:
  assumes "good_digest E S" and "lru.sound (code_right E (themeOrDefault (CTheme ctx)) S) cache"
    and "\<not> marked m \<or> scanFenceRanges (Text m) = []"
    and "list_all (seg_ok E ctx S) (splitSegments (Text m) (scanFenceRanges (Text m)))"
  shows "rb_rows (fst (render_inner E (ctx\<lparr>MeasureOnly := True\<rparr>) m c)) =
    rb_rows (fst (render_inner E (ctx\<lparr>MeasureOnly := False\<rparr>) m cache))"
  using mixed_measure [OF assms(1,2) _ assms(4), of c] assms(3)
  by (auto simp: render_inner_def Let_def plain_rows rb_rows_placeholder)

lemma bullet_rows: "rb_rows (fst (renderWithBullet E bullet ctx m cache)) =
   (if Empty m then 0
    else let r = rb_rows (fst (render_inner E (ctx\<lparr>Cols := Cols ctx - 2\<rparr>) (m\<lparr>Speaker := SpeakerNone\<rparr>) cache)) in if r < 0 then 0 else r)"
proof -
  have g: "rb_rows (grid_or_measure cols rows paint) = (if rows < 0 then 0 else rows)"
    if "\<And>g. g_rows (paint g) = g_rows g" for cols rows paint
    using that NewGrid_rows [of cols rows]
    by (auto simp: grid_or_measure_def rb_rows_def Grid_Size_def measureOnlyBuf_def NewGrid_def Let_def split: sum.splits)
  have m: "rb_rows (measureOnlyBuf cols rows) = (if rows < 0 then 0 else rows)" for cols rows
    by (simp add: rb_rows_def measureOnlyBuf_def)
  show ?thesis
    by (auto simp: renderWithBullet_def Let_def g m BlitAt_rows split: prod.splits rbuf.splits)
qed

text \<open>The highlighter and the terminal are of a size that a grid can hold.\<close>

definition sizes_ok :: "renv \<Rightarrow> block_ctx \<Rightarrow> bool" where
  "sizes_ok E ctx \<longleftrightarrow> Cols ctx \<le> 2000 \<and>
     (\<forall>lang body cs depth rows. rv_hl E lang body cs depth = Some rows \<longrightarrow> length rows < 1000000)"

definition code_bodies :: "message \<Rightarrow> string set" where
  "code_bodies m = {body. \<exists>lang. segFence body lang \<in> set (splitSegments (Text m) (scanFenceRanges (Text m)))}"

lemma sizes_ok_fits: "sizes_ok E ctx \<Longrightarrow> 0 < Cols ctx \<Longrightarrow> code_fits E ctx lang body"
proof -
  assume a: "sizes_ok E ctx" "0 < Cols ctx"
  have "Cols ctx * (1 + int (length rows)) \<le> MaxInt32" if "rv_hl E lang body cs d = Some rows" for cs d rows
  proof -
    have "length rows < 1000000" "Cols ctx \<le> 2000" using a that unfolding sizes_ok_def by blast+
    then have "Cols ctx * (1 + int (length rows)) \<le> 2000 * 1000000" using a(2) by (intro mult_mono) auto
    then show ?thesis by (simp add: MaxInt32_def)
  qed
  with a(2) show ?thesis by (auto simp: code_fits_def highlight_def split: option.splits)
qed


text \<open>A concrete environment: one column per rune, no highlighter, and the source itself, marked, as its hash.\<close>

definition demo_env :: renv where
  "demo_env = \<lparr>rv_rw = (\<lambda>_. 1), rv_sw = (\<lambda>rs. int (length rs)), rv_hl = (\<lambda>_ _ _ _. None),
     rv_digest = map (\<lambda>c. if c = CHR '':'' then CHR ''.'' else c)\<rparr>"

definition demo_ctx :: "int \<Rightarrow> bool \<Rightarrow> block_ctx" where
  "demo_ctx cols mo =
     \<lparr>Cols = cols, CRows = 24, CTheme = None, MeasureOnly = mo, CWrap = WrapSoft, Verbose = False,
      IsTranscript = False, ColorDepth = 16\<rparr>"

definition fenced_text :: string where
  "fenced_text = end_lines [''see:'', [CHR 0x60, CHR 0x60, CHR 0x60] @ ''sql'', ''select 1'', [CHR 0x60, CHR 0x60, CHR 0x60]] @ ''abcde''"


definition short_fence :: string where
  "short_fence = end_lines (replicate 2 (replicate 3 (CHR 0x60))) @ ''ab''"

text \<open>Measuring a marked message with code can miss a row.  When the last row of the text after a code block is full,
  rendering adds a row for the marker; measuring holds no grid to look at and does not, so the block is one row
  taller on the screen than the scrollback believes.\<close>

theorem marked_message_measured_short:
  "let m = (plain_msg short_fence)\<lparr>Truncated := True\<rparr> in
     rb_rows (fst (Message_Render demo_env 0x25CF (demo_ctx 2 True) m (newLRU 256))) = 2 \<and>
     rb_rows (fst (Message_Render demo_env 0x25CF (demo_ctx 2 False) m (newLRU 256))) = 3"
  by code_simp

end
