(* ===== verification/DiffBlock.thy ===== *)
theory DiffBlock
  imports GoText Optimizer
begin

text \<open>
  The diff block of \<open>internal/app/cli/render/block\<close>: the parser of unified diffs (\<open>diff_parser.go\<close>), the
  constructors, the cache key and the rows of a rendered diff (\<open>diff.go\<close>, \<open>diff_render.go\<close>).  Text is bytes.
  The syntax highlighter rests on the chroma package, so a highlighted body is what the argument \<open>hl\<close> returns.
  The warnings the parser logs are a list.
\<close>

subsection \<open>Data\<close>

record line_entry =
  Marker :: char
  EText :: string

record hunk =
  OldStart :: int
  OldLines :: int
  NewStart :: int
  NewLines :: int
  HLines :: "line_entry list"
  Bare :: bool

record diff =
  Hunks :: "hunk list"
  FilePath :: string
  BodyLang :: string

definition empty_diff :: diff where
  "empty_diff = \<lparr>Hunks = [], FilePath = [], BodyLang = []\<rparr>"

definition classifyMarker :: "string \<Rightarrow> char" where
  "classifyMarker line =
     (case line of
        [] \<Rightarrow> CHR ''?''
      | c # _ \<Rightarrow> if c = CHR ''+'' \<or> c = CHR ''-'' \<or> c = CHR '' '' then c else CHR ''?'')"

text \<open>The marker is stripped from the body, unless the line is malformed.\<close>

definition body_entry :: "string \<Rightarrow> line_entry" where
  "body_entry line =
     (let m = classifyMarker line
      in \<lparr>Marker = m, EText = (if m \<noteq> CHR ''?'' \<and> line \<noteq> [] then tl line else line)\<rparr>)"

definition NewDiffFromHunks :: "hunk list \<Rightarrow> diff" where
  "NewDiffFromHunks hs = empty_diff\<lparr>Hunks := hs\<rparr>"

definition NewDiffFromBareLines :: "string \<Rightarrow> diff" where
  "NewDiffFromBareLines text =
     (let ls = map body_entry (filter (\<lambda>l. l \<noteq> []) (split_nl text)) in
      if ls = [] then empty_diff
      else empty_diff\<lparr>Hunks := [\<lparr>OldStart = 0, OldLines = 0, NewStart = 0, NewLines = 0, HLines = ls, Bare = True\<rparr>]\<rparr>)"

subsection \<open>Headers\<close>

definition digits :: regex where "digits = Cap (Many 1 is_digit)"

definition comma_digits :: regex where "comma_digits = Opt (Cat (lit '','') digits)"

text \<open>\<open>^@@ -(\d+)(?:,(\d+))? \+(\d+)(?:,(\d+))? @@\<close>\<close>

definition hunkHeaderRE :: regex where
  "hunkHeaderRE =
     Cat (lit ''@@ -'') (Cat digits (Cat comma_digits (Cat (lit '' +'') (Cat digits (Cat comma_digits (lit '' @@''))))))"

text \<open>The bytes outside the class \<open>\s\<close>.\<close>

definition re_nonspace :: "char \<Rightarrow> bool" where
  "re_nonspace c \<longleftrightarrow> (of_char c :: nat) \<notin> {9, 10, 12, 13, 32}"

text \<open>\<open>^(?:---|\+\+\+) (\S+)\<close>\<close>

definition fileHeaderRE :: regex where
  "fileHeaderRE = Cat (Alt (lit ''---'') (lit ''+++'')) (Cat (lit '' '') (Cap (Many 1 re_nonspace)))"

datatype parse_error = ErrDiffParseHunkHeader int string

definition truncate_text :: "string \<Rightarrow> nat \<Rightarrow> string" where
  "truncate_text s n = (if length s \<le> n then s else take n s @ utf8_rune 0x2026)"

definition parseHunkHeader :: "string \<Rightarrow> int \<Rightarrow> parse_error + hunk" where
  "parseHunkHeader line lineNum =
     (case MatchAt hunkHeaderRE line of
        None \<Rightarrow> Inl (ErrDiffParseHunkHeader lineNum (truncate_text line 80))
      | Some (_, _, m) \<Rightarrow>
          Inr \<lparr>OldStart = Atoi (m ! 0), OldLines = (if m ! 1 \<noteq> [] then Atoi (m ! 1) else 1),
               NewStart = Atoi (m ! 2), NewLines = (if m ! 3 \<noteq> [] then Atoi (m ! 3) else 1),
               HLines = [], Bare = False\<rparr>)"

definition stripPathPrefix :: "string \<Rightarrow> string" where
  "stripPathPrefix p =
     (if prefix ''a/'' p then drop 2 p
      else if prefix ''b/'' p then drop 2 p
      else if p = ''/dev/null'' then [] else p)"

definition git_extra :: "string \<Rightarrow> bool" where
  "git_extra line \<longleftrightarrow> list_ex (\<lambda>p. prefix p line)
     [''diff --git '', ''index '', ''similarity index '', ''new file mode '', ''deleted file mode '', ''old mode '', ''new mode '']"

subsection \<open>The parser\<close>

text \<open>The variables of \<open>ParseUnified\<close>: the diff so far, the open hunk with its two counts, the warnings.\<close>

record pstate =
  ps_d :: diff
  ps_current :: "hunk option"
  ps_old :: int
  ps_new :: int
  ps_warns :: "(int \<times> int \<times> int \<times> int) list"

definition finalizeHunk :: "hunk \<Rightarrow> int \<Rightarrow> int \<Rightarrow> (int \<times> int \<times> int \<times> int) list" where
  "finalizeHunk h old new =
     (if old \<noteq> OldLines h \<or> new \<noteq> NewLines h then [(OldLines h, old, NewLines h, new)] else [])"

text \<open>Closing the open hunk, if there is one.\<close>

definition close_hunk :: "pstate \<Rightarrow> pstate" where
  "close_hunk s =
     (case ps_current s of
        None \<Rightarrow> s
      | Some h \<Rightarrow>
          s\<lparr>ps_d := (ps_d s)\<lparr>Hunks := Hunks (ps_d s) @ [h]\<rparr>, ps_current := None,
            ps_warns := ps_warns s @ finalizeHunk h (ps_old s) (ps_new s)\<rparr>)"

definition file_header :: "string \<Rightarrow> string option" where
  "file_header line = (case MatchAt fileHeaderRE line of None \<Rightarrow> None | Some (_, _, m) \<Rightarrow> Some (m ! 0))"

definition set_path :: "string \<Rightarrow> string \<Rightarrow> pstate \<Rightarrow> pstate" where
  "set_path line m1 s =
     (let path = stripPathPrefix m1 in
      if prefix ''+++ '' line
      then (if path \<noteq> [] then s\<lparr>ps_d := (ps_d s)\<lparr>FilePath := path\<rparr>\<rparr> else s)
      else if FilePath (ps_d s) = [] then s\<lparr>ps_d := (ps_d s)\<lparr>FilePath := path\<rparr>\<rparr> else s)"

definition add_body :: "string \<Rightarrow> hunk \<Rightarrow> pstate \<Rightarrow> pstate" where
  "add_body line h s =
     (let e = body_entry line in
      s\<lparr>ps_current := Some (h\<lparr>HLines := HLines h @ [e]\<rparr>),
        ps_old := ps_old s + (if Marker e = CHR ''-'' \<or> Marker e = CHR '' '' then 1 else 0),
        ps_new := ps_new s + (if Marker e = CHR ''+'' \<or> Marker e = CHR '' '' then 1 else 0)\<rparr>)"

text \<open>One line; \<open>final\<close> says that it is the last one, \<open>i\<close> is its index.\<close>

definition parse_line :: "int \<Rightarrow> bool \<Rightarrow> string \<Rightarrow> pstate \<Rightarrow> parse_error + pstate" where
  "parse_line i final line s =
     (if git_extra line then Inr s
      else case file_header line of
        Some m1 \<Rightarrow> Inr (set_path line m1 s)
      | None \<Rightarrow>
          if prefix ''@@'' line then
            (case parseHunkHeader line (i + 1) of
               Inl e \<Rightarrow> Inl e
             | Inr h \<Rightarrow> Inr ((close_hunk s)\<lparr>ps_current := Some h, ps_old := 0, ps_new := 0\<rparr>))
          else (case ps_current s of
             None \<Rightarrow> Inr s
           | Some h \<Rightarrow>
               if prefix [CHR 0x5C, CHR '' ''] line then Inr s
               else if line = [] \<and> final then Inr s
               else Inr (add_body line h s)))"

fun parse_lines :: "int \<Rightarrow> string list \<Rightarrow> pstate \<Rightarrow> parse_error + pstate" where
  "parse_lines i [] s = Inr s"
| "parse_lines i (l # ls) s =
     (case parse_line i (ls = []) l s of Inl e \<Rightarrow> Inl e | Inr s1 \<Rightarrow> parse_lines (i + 1) ls s1)"

definition pstate0 :: pstate where
  "pstate0 = \<lparr>ps_d = empty_diff, ps_current = None, ps_old = 0, ps_new = 0, ps_warns = []\<rparr>"

definition ParseUnified :: "string \<Rightarrow> parse_error + diff" where
  "ParseUnified text =
     (case parse_lines 0 (split_nl text) pstate0 of Inl e \<Rightarrow> Inl e | Inr s \<Rightarrow> Inr (ps_d (close_hunk s)))"

definition NewDiff :: "string \<Rightarrow> string \<Rightarrow> diff" where
  "NewDiff source filePath =
     (case ParseUnified source of
        Inr d \<Rightarrow> if filePath \<noteq> [] then d\<lparr>FilePath := filePath\<rparr> else d
      | Inl _ \<Rightarrow> (NewDiffFromBareLines source)\<lparr>FilePath := filePath\<rparr>)"

subsection \<open>Unified text\<close>

text \<open>The header line the renderer prints for a hunk, and the unified text of a diff.\<close>

definition hunk_header :: "hunk \<Rightarrow> string" where
  "hunk_header h =
     ''@@ -'' @ show_int (OldStart h) @ '','' @ show_int (OldLines h) @ '' +'' @ show_int (NewStart h) @ '','' @
     show_int (NewLines h) @ '' @@''"

definition entry_line :: "line_entry \<Rightarrow> string" where
  "entry_line e = Marker e # EText e"

definition unified_lines :: "diff \<Rightarrow> string list" where
  "unified_lines d =
     (if FilePath d = [] then [] else [''--- a/'' @ FilePath d, ''+++ b/'' @ FilePath d]) @
     concat (map (\<lambda>h. hunk_header h # map entry_line (HLines h)) (Hunks d))"

definition ok_entry :: "line_entry \<Rightarrow> bool" where
  "ok_entry e \<longleftrightarrow> Marker e \<in> {CHR ''+'', CHR ''-'', CHR '' ''} \<and> NL \<notin> set (EText e) \<and> file_header (entry_line e) = None"

definition go_nat :: "int \<Rightarrow> bool" where
  "go_nat n \<longleftrightarrow> 0 \<le> n \<and> n < 2 ^ 63"

definition ok_hunk :: "hunk \<Rightarrow> bool" where
  "ok_hunk h \<longleftrightarrow> \<not> Bare h \<and> go_nat (OldStart h) \<and> go_nat (OldLines h) \<and> go_nat (NewStart h) \<and> go_nat (NewLines h) \<and>
     list_all ok_entry (HLines h)"

definition ok_diff :: "diff \<Rightarrow> bool" where
  "ok_diff d \<longleftrightarrow> BodyLang d = [] \<and> list_all re_nonspace (FilePath d) \<and> list_all ok_hunk (Hunks d)"

subsection \<open>Reading back a header\<close>

lemma show_go_nat: "go_nat n \<Longrightarrow> show_int n = show_nat (nat n)"
  by (simp add: go_nat_def show_int_def)

lemma Atoi_go_nat: "go_nat n \<Longrightarrow> Atoi (show_nat (nat n)) = n"
  by (simp add: go_nat_def Atoi_show_nat)

lemma MatchAt_digits:
  assumes "t = [] \<or> \<not> is_digit (hd t)"
  shows "MatchAt digits (show_nat n @ t) = Some (show_nat n, t, [show_nat n])"
  unfolding digits_def
  by (rule MatchAt_Cap, rule MatchAt_Many) (use assms show_nat_is_digit in \<open>auto simp: list_all_iff Suc_le_eq\<close>)

lemma MatchAt_comma_digits:
  assumes "t = [] \<or> \<not> is_digit (hd t)"
  shows "MatchAt comma_digits ('','' @ show_nat n @ t) = Some ('','' @ show_nat n, t, [show_nat n])"
  unfolding comma_digits_def
  using MatchAt_Opt [OF MatchAt_Cat [OF MatchAt_lit_append [of "'',''" "show_nat n @ t"] MatchAt_digits [OF assms]]] by simp

lemma parse_header:
  assumes "go_nat a" and "go_nat b" and "go_nat c" and "go_nat d"
  shows "MatchAt hunkHeaderRE (''@@ -'' @ show_int a @ '','' @ show_int b @ '' +'' @ show_int c @ '','' @ show_int d @ '' @@'') =
    Some (''@@ -'' @ show_nat (nat a) @ ('','' @ show_nat (nat b)) @ '' +'' @ show_nat (nat c) @ ('','' @ show_nat (nat d)) @ '' @@'',
      [], [] @ [show_nat (nat a)] @ [show_nat (nat b)] @ [] @ [show_nat (nat c)] @ [show_nat (nat d)] @ [])"
  unfolding hunkHeaderRE_def assms [THEN show_go_nat]
  by (rule MatchAt_Cat [OF MatchAt_lit_append] MatchAt_Cat [OF MatchAt_digits] MatchAt_Cat [OF MatchAt_comma_digits]
      | simp add: is_digit_def)+

subsection \<open>The round trip\<close>

lemma git_extra_first: "c \<notin> set ''disno'' \<Longrightarrow> \<not> git_extra (c # l)"
  by (auto simp: git_extra_def)

lemma git_extra_Nil [simp]: "\<not> git_extra []"
  by (simp add: git_extra_def)

lemma file_header_first: "c \<noteq> CHR ''-'' \<Longrightarrow> c \<noteq> CHR ''+'' \<Longrightarrow> file_header (c # l) = None"
  by (simp add: file_header_def fileHeaderRE_def MatchAt_Alt MatchAt_Cat_None)

lemma file_header_Nil [simp]: "file_header [] = None"
  by (simp add: file_header_def fileHeaderRE_def MatchAt_Alt MatchAt_Cat_None)

lemma parseHunkHeader_print:
  "ok_hunk h \<Longrightarrow> parseHunkHeader (hunk_header h) i = Inr (h\<lparr>HLines := []\<rparr>)"
  unfolding parseHunkHeader_def hunk_header_def
  by (subst parse_header) (auto simp: ok_hunk_def Atoi_go_nat)

lemma parse_line_header:
  assumes "ok_hunk h"
  shows "parse_line i final (hunk_header h) s = Inr ((close_hunk s)\<lparr>ps_current := Some (h\<lparr>HLines := []\<rparr>), ps_old := 0, ps_new := 0\<rparr>)"
proof -
  obtain t where t: "hunk_header h = CHR ''@'' # CHR ''@'' # t" by (simp add: hunk_header_def)
  have "\<not> git_extra (hunk_header h)" and "file_header (hunk_header h) = None"
    by (simp_all add: t git_extra_first file_header_first)
  moreover have "prefix ''@@'' (hunk_header h)" by (simp add: t)
  ultimately show ?thesis by (simp add: parse_line_def parseHunkHeader_print assms)
qed

lemma body_entry_line: "Marker e \<in> {CHR ''+'', CHR ''-'', CHR '' ''} \<Longrightarrow> body_entry (entry_line e) = e"
  by (auto simp: body_entry_def entry_line_def classifyMarker_def Let_def)

lemma parse_line_entry:
  assumes "ok_entry e" and "ps_current s = Some h"
  shows "parse_line i final (entry_line e) s = Inr (add_body (entry_line e) h s)"
proof -
  have "\<not> git_extra (entry_line e)"
    using assms(1) by (auto simp: ok_entry_def entry_line_def git_extra_first)
  with assms show ?thesis by (auto simp: parse_line_def ok_entry_def entry_line_def)
qed

lemma parse_entries:
  assumes "list_all ok_entry es" and "ps_current s = Some h" and "rest \<noteq> []"
  shows "\<exists>m n. parse_lines i (map entry_line es @ rest) s =
    parse_lines (i + int (length es)) rest (s\<lparr>ps_current := Some (h\<lparr>HLines := HLines h @ es\<rparr>), ps_old := m, ps_new := n\<rparr>)"
  using assms
proof (induction es arbitrary: s h i)
  case Nil
  then have "s\<lparr>ps_current := Some (h\<lparr>HLines := HLines h @ []\<rparr>), ps_old := ps_old s, ps_new := ps_new s\<rparr> = s" by simp
  then have "parse_lines i (map entry_line [] @ rest) s = parse_lines (i + int (length ([] :: line_entry list))) rest
      (s\<lparr>ps_current := Some (h\<lparr>HLines := HLines h @ []\<rparr>), ps_old := ps_old s, ps_new := ps_new s\<rparr>)"
    by (simp only: append_Nil list.map list.size) simp
  then show ?case by blast
next
  case (Cons e es)
  let ?s = "add_body (entry_line e) h s"
  have e: "body_entry (entry_line e) = e" using Cons.prems by (intro body_entry_line) (simp add: ok_entry_def)
  have "ps_current ?s = Some (h\<lparr>HLines := HLines h @ [e]\<rparr>)" by (simp add: add_body_def e Let_def)
  from Cons.IH [OF _ this, of "i + 1"] Cons.prems e show ?case
    by (simp add: parse_line_entry) (auto simp: add_body_def Let_def algebra_simps)
qed

lemma parse_final: "\<exists>s'. parse_lines i [[]] s = Inr s' \<and> ps_d (close_hunk s') = ps_d (close_hunk s)"
  by (auto simp: parse_line_def split: option.splits)

lemma parse_hunks:
  assumes "list_all ok_hunk hs"
  shows "\<exists>s'. parse_lines i (concat (map (\<lambda>h. hunk_header h # map entry_line (HLines h)) hs) @ [[]]) s = Inr s' \<and>
    ps_d (close_hunk s') = (ps_d (close_hunk s))\<lparr>Hunks := Hunks (ps_d (close_hunk s)) @ hs\<rparr>"
  using assms
proof (induction hs arbitrary: i s)
  case Nil
  then show ?case using parse_final [of i s] by auto
next
  case (Cons h hs)
  let ?s = "(close_hunk s)\<lparr>ps_current := Some (h\<lparr>HLines := []\<rparr>), ps_old := 0, ps_new := 0\<rparr>"
  let ?rest = "concat (map (\<lambda>h. hunk_header h # map entry_line (HLines h)) hs) @ [[]]"
  have "list_all ok_entry (HLines h)" using Cons.prems by (simp add: ok_hunk_def)
  from parse_entries [OF this, of ?s "h\<lparr>HLines := []\<rparr>" ?rest "i + 1"] obtain m n where
    p: "parse_lines (i + 1) (map entry_line (HLines h) @ ?rest) ?s =
      parse_lines (i + 1 + int (length (HLines h))) ?rest (?s\<lparr>ps_current := Some h, ps_old := m, ps_new := n\<rparr>)"
    by auto
  from Cons.IH [of "i + 1 + int (length (HLines h))" "?s\<lparr>ps_current := Some h, ps_old := m, ps_new := n\<rparr>"] Cons.prems
  obtain s' where "parse_lines (i + 1 + int (length (HLines h))) ?rest (?s\<lparr>ps_current := Some h, ps_old := m, ps_new := n\<rparr>) = Inr s'"
    and "ps_d (close_hunk s') = (ps_d (close_hunk s))\<lparr>Hunks := Hunks (ps_d (close_hunk s)) @ [h] @ hs\<rparr>"
    by (auto simp: close_hunk_def [of "_\<lparr>ps_current := Some h, ps_old := m, ps_new := n\<rparr>"])
  with p Cons.prems show ?case by (simp add: parse_line_header)
qed

lemma file_header_path:
  assumes "list_all re_nonspace p"
  shows "file_header (''--- a/'' @ p) = Some (''a/'' @ p)" "file_header (''+++ b/'' @ p) = Some (''b/'' @ p)"
proof -
  have m: "MatchAt (Cat (lit '' '') (Cap (Many 1 re_nonspace))) ('' '' @ q) = Some ('' '' @ q, [], [] @ [q])"
    if "list_all re_nonspace q" and "q \<noteq> []" for q
  proof -
    have "MatchAt (Cap (Many 1 re_nonspace)) q = Some (q, [], [q])"
      using MatchAt_Cap [OF MatchAt_Many [of re_nonspace q "[]" 1]] that by (simp add: Suc_le_eq)
    from MatchAt_Cat [OF MatchAt_lit_append [of "'' ''" q] this] show ?thesis by simp
  qed
  have a: "MatchAt (Alt (lit ''---'') (lit ''+++'')) (''---'' @ t) = Some (''---'', t, [])"
    "MatchAt (Alt (lit ''---'') (lit ''+++'')) (''+++'' @ t) = Some (''+++'', t, [])" for t
    by (simp_all add: MatchAt_Alt)
  have "re_nonspace CHR ''a''" "re_nonspace CHR ''b''" "re_nonspace CHR ''/''" by (simp_all add: re_nonspace_def)
  with assms m [of "''a/'' @ p"] m [of "''b/'' @ p"] a
  show "file_header (''--- a/'' @ p) = Some (''a/'' @ p)" "file_header (''+++ b/'' @ p) = Some (''b/'' @ p)"
    using MatchAt_Cat [OF a(1), of _ "'' '' @ ''a/'' @ p"] MatchAt_Cat [OF a(2), of _ "'' '' @ ''b/'' @ p"]
    by (simp_all add: file_header_def fileHeaderRE_def)
qed

lemma parse_paths:
  assumes "list_all re_nonspace p"
  shows "\<exists>i. \<forall>ls. ls \<noteq> [] \<longrightarrow> parse_lines 0 ((if p = [] then [] else [''--- a/'' @ p, ''+++ b/'' @ p]) @ ls) pstate0 =
    parse_lines i ls (pstate0\<lparr>ps_d := empty_diff\<lparr>FilePath := p\<rparr>\<rparr>)"
proof (cases "p = []")
  case True
  have "pstate0\<lparr>ps_d := empty_diff\<lparr>FilePath := []\<rparr>\<rparr> = pstate0" by (simp add: pstate0_def empty_diff_def)
  with True show ?thesis by (intro exI [of _ 0]) simp
next
  case False
  have "parse_line i f (''--- a/'' @ p) pstate0 = Inr (pstate0\<lparr>ps_d := empty_diff\<lparr>FilePath := p\<rparr>\<rparr>)" for i f
    using file_header_path(1) [OF assms]
    by (simp add: parse_line_def git_extra_first set_path_def stripPathPrefix_def pstate0_def empty_diff_def)
  moreover have "parse_line i f (''+++ b/'' @ p) (pstate0\<lparr>ps_d := empty_diff\<lparr>FilePath := p\<rparr>\<rparr>) =
      Inr (pstate0\<lparr>ps_d := empty_diff\<lparr>FilePath := p\<rparr>\<rparr>)" for i f
    using file_header_path(2) [OF assms] False
    by (simp add: parse_line_def git_extra_first set_path_def stripPathPrefix_def pstate0_def empty_diff_def)
  ultimately show ?thesis using False by (intro exI [of _ 2]) simp
qed

lemma show_int_no_NL [simp]: "NL \<notin> set (show_int n)"
  using show_nat_digits [of NL] by (auto simp: show_int_def NL_def)

lemma unified_lines_no_NL:
  assumes "ok_diff d"
  shows "list_all (\<lambda>l. NL \<notin> set l) (unified_lines d)"
proof -
  have "NL \<notin> set (FilePath d)" using assms by (auto simp: ok_diff_def list_all_iff re_nonspace_def NL_def)
  moreover have "NL \<notin> set (hunk_header h)" for h by (simp add: hunk_header_def) (simp add: NL_def)
  moreover have "NL \<notin> set (entry_line e)" if "ok_entry e" for e
    using that by (auto simp: ok_entry_def entry_line_def NL_def)
  ultimately show ?thesis using assms
    by (auto simp: unified_lines_def ok_diff_def ok_hunk_def list_all_iff) (simp_all add: NL_def)
qed

text \<open>C39: Printing and parsing a unified diff is the identity: for every diff with a path without white space, hunk
  numbers in range and lines that no file header matches, \<open>ParseUnified\<close> of its unified text returns exactly the
  diff, with path, hunks, line numbers, markers and bodies.\<close>

theorem parse_unified_roundtrip:
  assumes "ok_diff d"
  shows "ParseUnified (end_lines (unified_lines d)) = Inr d"
proof -
  define s where "s = pstate0\<lparr>ps_d := empty_diff\<lparr>FilePath := FilePath d\<rparr>\<rparr>"
  obtain i where head: "\<And>ls. ls \<noteq> [] \<Longrightarrow>
      parse_lines 0 ((if FilePath d = [] then [] else [''--- a/'' @ FilePath d, ''+++ b/'' @ FilePath d]) @ ls) pstate0 = parse_lines i ls s"
    using parse_paths [of "FilePath d"] assms unfolding s_def ok_diff_def by blast
  from parse_hunks [of "Hunks d" i s] assms obtain s' where
    "parse_lines i (concat (map (\<lambda>h. hunk_header h # map entry_line (HLines h)) (Hunks d)) @ [[]]) s = Inr s'"
    and "ps_d (close_hunk s') = (ps_d (close_hunk s))\<lparr>Hunks := Hunks (ps_d (close_hunk s)) @ Hunks d\<rparr>"
    by (auto simp: ok_diff_def)
  moreover have "ps_d (close_hunk s) = empty_diff\<lparr>FilePath := FilePath d\<rparr>"
    by (simp add: s_def close_hunk_def pstate0_def)
  moreover have "split_nl (end_lines (unified_lines d)) = unified_lines d @ [[]]"
    by (rule split_end_lines) (rule unified_lines_no_NL [OF assms])
  ultimately show ?thesis using head assms
    by (simp add: ParseUnified_def unified_lines_def ok_diff_def empty_diff_def)
qed

definition demo_hunk :: hunk where
  "demo_hunk = \<lparr>OldStart = 10, OldLines = 2, NewStart = 10, NewLines = 2,
     HLines = [\<lparr>Marker = CHR '' '', EText = ''select 1''\<rparr>, \<lparr>Marker = CHR ''-'', EText = ''from a''\<rparr>,
               \<lparr>Marker = CHR ''+'', EText = ''from b''\<rparr>], Bare = False\<rparr>"

definition demo_diff :: diff where
  "demo_diff = \<lparr>Hunks = [demo_hunk], FilePath = ''q.sql'', BodyLang = []\<rparr>"

lemma demo_diff_ok: "ok_diff demo_diff"
  by code_simp

theorem parse_unified_roundtrip_witness:
  "ParseUnified (end_lines [''--- a/q.sql'', ''+++ b/q.sql'', ''@@ -10,2 +10,2 @@'', '' select 1'', ''-from a'', ''+from b'']) = Inr demo_diff"
proof -
  have "unified_lines demo_diff = [''--- a/q.sql'', ''+++ b/q.sql'', ''@@ -10,2 +10,2 @@'', '' select 1'', ''-from a'', ''+from b'']"
    by code_simp
  with parse_unified_roundtrip [OF demo_diff_ok] show ?thesis by simp
qed

subsection \<open>Lines taken for file headers\<close>

text \<open>A body line of the form \<open>--- x\<close> is the removal of \<open>-- x\<close>.\<close>

definition removed_comment :: "string \<Rightarrow> line_entry" where
  "removed_comment t = \<lparr>Marker = CHR ''-'', EText = ''-- '' @ t\<rparr>"

lemma file_header_comment:
  assumes "re_nonspace c"
  shows "\<exists>m1. file_header (entry_line (removed_comment (c # t))) = Some m1"
proof -
  let ?u = "c # takeWhile re_nonspace t" and ?r = "dropWhile re_nonspace t"
  have "MatchAt (Many 1 re_nonspace) (?u @ ?r) = Some (?u, ?r, [])"
    by (rule MatchAt_Many) (use assms hd_dropWhile [of re_nonspace t] in \<open>auto simp: list_all_iff dest: set_takeWhileD\<close>)
  from MatchAt_Cat [OF MatchAt_lit_append [of "'' ''"] MatchAt_Cap [OF this]]
  have m: "MatchAt (Cat (lit '' '') (Cap (Many 1 re_nonspace))) ('' '' @ c # t) = Some ('' '' @ ?u, ?r, [] @ [?u])" by simp
  have "MatchAt (Alt (lit ''---'') (lit ''+++'')) (''---'' @ '' '' @ c # t) = Some (''---'', '' '' @ c # t, [])"
    by (simp add: MatchAt_Alt)
  from MatchAt_Cat [OF this m] show ?thesis
    by (simp add: file_header_def fileHeaderRE_def entry_line_def removed_comment_def)
qed

text \<open>A removed SQL comment disappears from a diff.  When a hunk removes a line that starts with \<open>-- \<close>, its body
  line starts with \<open>--- \<close>, the parser takes it for a file header, and the result is the diff without that line.\<close>

theorem removed_comment_is_lost:
  assumes "ok_diff d" and "FilePath d \<noteq> []" and "Hunks d = [h]" and "re_nonspace c" and "NL \<notin> set (c # t)"
  shows "ParseUnified (end_lines (unified_lines (d\<lparr>Hunks := [h\<lparr>HLines := HLines h @ [removed_comment (c # t)]\<rparr>]\<rparr>))) = Inr d"
proof -
  define s where "s = pstate0\<lparr>ps_d := empty_diff\<lparr>FilePath := FilePath d\<rparr>\<rparr>"
  let ?x = "entry_line (removed_comment (c # t))"
  have p: "list_all re_nonspace (FilePath d)" and h: "ok_hunk h" and l: "BodyLang d = []"
    using assms(1,3) by (simp_all add: ok_diff_def)
  obtain i where head: "\<And>ls. ls \<noteq> [] \<Longrightarrow>
      parse_lines 0 ((if FilePath d = [] then [] else [''--- a/'' @ FilePath d, ''+++ b/'' @ FilePath d]) @ ls) pstate0 = parse_lines i ls s"
    using parse_paths [OF p] unfolding s_def by blast
  let ?s = "(close_hunk s)\<lparr>ps_current := Some (h\<lparr>HLines := []\<rparr>), ps_old := 0, ps_new := 0\<rparr>"
  have "list_all ok_entry (HLines h)" using h by (simp add: ok_hunk_def)
  from parse_entries [OF this, of ?s "h\<lparr>HLines := []\<rparr>" "[?x, []]" "i + 1"] obtain m n where
    e: "parse_lines (i + 1) (map entry_line (HLines h) @ [?x, []]) ?s =
      parse_lines (i + 1 + int (length (HLines h))) [?x, []] (?s\<lparr>ps_current := Some h, ps_old := m, ps_new := n\<rparr>)" by auto
  let ?t = "?s\<lparr>ps_current := Some h, ps_old := m, ps_new := n\<rparr>"
  obtain m1 where "file_header ?x = Some m1" using file_header_comment [OF assms(4)] by blast
  moreover have "?x = CHR ''-'' # ''-- '' @ c # t" by (simp add: entry_line_def removed_comment_def)
  then have "\<not> git_extra ?x" "\<not> prefix ''+++ '' ?x" by (simp_all add: git_extra_first)
  moreover have "FilePath (ps_d ?t) = FilePath d" by (simp add: s_def close_hunk_def pstate0_def)
  ultimately have "parse_line j f ?x ?t = Inr ?t" for j f
    using assms(2) by (simp add: parse_line_def set_path_def Let_def)
  moreover obtain s' where "parse_lines j [[]] ?t = Inr s'" "ps_d (close_hunk s') = ps_d (close_hunk ?t)" for j
    by (simp add: parse_line_def)
  ultimately have "parse_lines i (hunk_header h # map entry_line (HLines h) @ [?x, []]) s = Inr ?t"
    using e by (simp add: parse_line_header [OF h]) (simp add: parse_line_def)
  moreover have "ps_d (close_hunk ?t) = d"
    using l assms(3) by (simp add: close_hunk_def s_def pstate0_def empty_diff_def)
  moreover have "split_nl (end_lines (unified_lines d @ [?x])) = unified_lines d @ [?x] @ [[]]"
    using split_end_lines [of "unified_lines d @ [?x]"] unified_lines_no_NL [OF assms(1)] assms(5)
    by (simp add: entry_line_def removed_comment_def NL_def)
  moreover have "unified_lines (d\<lparr>Hunks := [h\<lparr>HLines := HLines h @ [removed_comment (c # t)]\<rparr>]\<rparr>) = unified_lines d @ [?x]"
    using assms(3) by (simp add: unified_lines_def hunk_header_def)
  ultimately show ?thesis using head [of "hunk_header h # map entry_line (HLines h) @ [?x, []]"] assms(3)
    by (simp add: ParseUnified_def unified_lines_def)
qed

theorem removed_comment_is_lost_witness:
  "ParseUnified (end_lines (unified_lines (demo_diff\<lparr>Hunks := [demo_hunk\<lparr>HLines := HLines demo_hunk @ [removed_comment ''only open orders'']\<rparr>]\<rparr>))) =
   Inr demo_diff"
  using removed_comment_is_lost [OF demo_diff_ok, of demo_hunk "CHR ''o''" "''nly open orders''"]
  by (simp add: demo_diff_def re_nonspace_def NL_def)

end
