(* ===== verification/DiffRender.thy ===== *)
theory DiffRender
  imports DiffBlock CodeBlock
begin

text \<open>
  Rendering a diff, \<open>diff.go\<close> and \<open>diff_render.go\<close> of \<open>internal/app/cli/render/block\<close>: the serialised form that is the
  source of the cache key, the rows with their line-number gutter, and \<open>Diff.Render\<close> through the cache.
  \<open>distance\<close> is chroma's distance of colours.
\<close>

subsection \<open>The serialised form\<close>

definition hunk_line :: "hunk \<Rightarrow> string" where
  "hunk_line h =
     (if Bare h then CHR ''B'' else CHR ''S'') # ''@@'' @ show_int (OldStart h) @ '','' @ show_int (OldLines h) @ ''+'' @
     show_int (NewStart h) @ '','' @ show_int (NewLines h) @ ''@@''"

definition serializeDiff :: "diff \<Rightarrow> string" where
  "serializeDiff d =
     FilePath d @ [NL] @ BodyLang d @ [NL] @
     concat (map (\<lambda>h. hunk_line h @ [NL] @ concat (map (\<lambda>e. Marker e # EText e @ [NL]) (HLines h))) (Hunks d))"

subsection \<open>Rows\<close>

record diffRow =
  dr_prefix :: runes
  dr_style :: style
  dr_cells :: "cell list"

function digit_loop :: "nat \<Rightarrow> nat" where
  "digit_loop n = (if n > 0 then Suc (digit_loop (n div 10)) else 0)"
  by pat_completeness auto
termination by (relation "measure id") auto

declare digit_loop.simps [simp del]

definition digitCount :: "int \<Rightarrow> int" where
  "digitCount n = (if n \<le> 0 then 1 else int (digit_loop (nat n)))"

definition computeGutterDigits :: "hunk \<Rightarrow> int" where
  "computeGutterDigits h =
     (if Bare h then 0
      else let maxNo = wrap64 (OldStart h + OldLines h - 1); n = wrap64 (NewStart h + NewLines h - 1)
        in digitCount (if n > maxNo then n else maxNo))"

text \<open>\<open>fmt.Sprintf("%*d ", digits, n)\<close>: right-aligned in \<open>dg\<close> columns.\<close>

definition pad_left :: "int \<Rightarrow> string \<Rightarrow> string" where
  "pad_left w s = replicate (nat w - length s) (CHR '' '') @ s"

definition singleColumnGutter :: "char \<Rightarrow> int \<Rightarrow> int \<Rightarrow> int \<Rightarrow> bool \<Rightarrow> string" where
  "singleColumnGutter marker oldNo newNo dg hasGutter =
     (if \<not> hasGutter \<or> dg = 0 then []
      else if marker = CHR ''+'' then pad_left dg (show_int newNo) @ '' ''
      else if marker = CHR ''-'' then pad_left dg (show_int oldNo) @ '' ''
      else if marker = CHR '' '' then pad_left dg (show_int newNo) @ '' ''
      else replicate (nat dg) (CHR '' '') @ '' '')"

definition prefixStyleForMarker :: "char \<Rightarrow> theme \<Rightarrow> style" where
  "prefixStyleForMarker marker th =
     (if marker = CHR ''+'' then th_Style th StyleDiffAdded
      else if marker = CHR ''-'' then th_Style th StyleDiffRemoved
      else if marker = CHR '' '' then th_Style th StyleDiffContext
      else zero_style)"

definition plainBodyCells :: "string \<Rightarrow> cell list" where
  "plainBodyCells body = map (\<lambda>r. \<lparr>Ch = r, St = zero_style\<rparr>) (runes_of body)"

text \<open>The lines that are highlighted together, all but the removed ones, with their indices.\<close>

definition kept_lines :: "hunk \<Rightarrow> (nat \<times> string) list" where
  "kept_lines h =
     map (\<lambda>(i, e). (i, EText e)) (filter (\<lambda>(i, e). Marker e \<noteq> CHR ''-'') (enumerate 0 (HLines h)))"

definition highlightHunkBatch :: "renv \<Rightarrow> hunk \<Rightarrow> string \<Rightarrow> int \<Rightarrow> string option \<Rightarrow> (nat \<times> cell list) list" where
  "highlightHunkBatch E h lang depth codeStyle =
     (case codeStyle of
        None \<Rightarrow> []
      | Some cs \<Rightarrow>
          let ks = kept_lines h in
          if lang = [] \<or> ks = [] then []
          else case highlight E lang (join_nl (map snd ks)) cs depth of
            None \<Rightarrow> []
          | Some rows \<Rightarrow> if length rows \<noteq> length ks then [] else zip (map fst ks) rows)"

definition renderDiffHunkBody :: "renv \<Rightarrow> char \<Rightarrow> string \<Rightarrow> string \<Rightarrow> int \<Rightarrow> string option \<Rightarrow> cell list" where
  "renderDiffHunkBody E marker body lang depth codeStyle =
     (if marker = CHR ''-'' \<or> lang = [] then plainBodyCells body
      else case codeStyle of
        None \<Rightarrow> plainBodyCells body
      | Some cs \<Rightarrow>
          (case highlight E lang body cs depth of
             Some (row # _) \<Rightarrow> row
           | _ \<Rightarrow> plainBodyCells body))"

definition line_row ::
    "renv \<Rightarrow> (rgb \<Rightarrow> rgb \<Rightarrow> rat) \<Rightarrow> block_ctx \<Rightarrow> theme \<Rightarrow> string \<Rightarrow> (nat \<times> cell list) list \<Rightarrow> bool \<Rightarrow> int \<Rightarrow>
     nat \<Rightarrow> int \<Rightarrow> int \<Rightarrow> line_entry \<Rightarrow> diffRow" where
  "line_row E distance ctx th lang batch bare dg i oldNo newNo e =
     \<lparr>dr_prefix = runes_of (singleColumnGutter (Marker e) oldNo newNo dg (\<not> bare) @ [Marker e] @ '' ''),
      dr_style = downgradeStyleColor distance (prefixStyleForMarker (Marker e) th) (ColorDepth ctx),
      dr_cells =
        (case map_of batch i of
           Some cells \<Rightarrow>
             if Marker e = CHR ''-'' then renderDiffHunkBody E (Marker e) (EText e) lang (ColorDepth ctx) (th_CodeStyle th)
             else cells
         | None \<Rightarrow> renderDiffHunkBody E (Marker e) (EText e) lang (ColorDepth ctx) (th_CodeStyle th))\<rparr>"

text \<open>The loop over the lines of a hunk with its two line numbers.\<close>

fun hunk_rows :: "(nat \<Rightarrow> int \<Rightarrow> int \<Rightarrow> line_entry \<Rightarrow> 'r) \<Rightarrow> nat \<Rightarrow> int \<Rightarrow> int \<Rightarrow> line_entry list \<Rightarrow> 'r list" where
  "hunk_rows f i oldNo newNo [] = []"
| "hunk_rows f i oldNo newNo (e # es) =
     f i oldNo newNo e #
     hunk_rows f (i + 1)
       (if Marker e = CHR ''-'' \<or> Marker e = CHR '' '' then wrap64 (oldNo + 1) else oldNo)
       (if Marker e = CHR ''+'' \<or> Marker e = CHR '' '' then wrap64 (newNo + 1) else newNo) es"

definition header_row :: "(rgb \<Rightarrow> rgb \<Rightarrow> rat) \<Rightarrow> block_ctx \<Rightarrow> theme \<Rightarrow> hunk \<Rightarrow> diffRow" where
  "header_row distance ctx th h =
     \<lparr>dr_prefix = runes_of (hunk_header h),
      dr_style = downgradeStyleColor distance (th_Style th StyleDiffHunkHeader) (ColorDepth ctx), dr_cells = []\<rparr>"

definition renderDiffRows :: "renv \<Rightarrow> (rgb \<Rightarrow> rgb \<Rightarrow> rat) \<Rightarrow> diff \<Rightarrow> block_ctx \<Rightarrow> theme \<Rightarrow> diffRow list" where
  "renderDiffRows E distance d ctx th =
     concat (map (\<lambda>h.
       (if Bare h then [] else [header_row distance ctx th h]) @
       hunk_rows
         (line_row E distance ctx th (BodyLang d)
            (highlightHunkBatch E h (BodyLang d) (ColorDepth ctx) (th_CodeStyle th)) (Bare h) (computeGutterDigits h))
         0 (OldStart h) (NewStart h) (HLines h)) (Hunks d))"

text \<open>\<open>writeDiffRow\<close>: the prefix, and unless that overflows, the body after it.\<close>

fun write_prefix :: "(rune \<Rightarrow> int) \<Rightarrow> grid \<Rightarrow> int \<Rightarrow> int \<Rightarrow> runes \<Rightarrow> style \<Rightarrow> int \<Rightarrow> grid \<times> int option" where
  "write_prefix rw g x y [] s cols = (g, Some x)"
| "write_prefix rw g x y (r # rs) s cols =
     (if RuneWidth rw r \<le> 0 then write_prefix rw g x y rs s cols
      else if x + RuneWidth rw r > cols then (g, None)
      else write_prefix rw (Grid_SetCell rw g x y \<lparr>Ch = r, St = s\<rparr>) (x + RuneWidth rw r) y rs s cols)"

definition writeDiffRow :: "(rune \<Rightarrow> int) \<Rightarrow> int \<Rightarrow> grid \<Rightarrow> int \<Rightarrow> diffRow \<Rightarrow> grid" where
  "writeDiffRow rw cols g y row =
     (case write_prefix rw g 0 y (dr_prefix row) (dr_style row) cols of
        (g1, None) \<Rightarrow> g1
      | (g1, Some x) \<Rightarrow> paint_cells rw g1 x y cols (dr_cells row))"

text \<open>The rendering without the cache, and \<open>Diff.Render\<close>.  Unlike a code block, a diff whose grid cannot be allocated
  is not stored.\<close>

definition diff_render :: "renv \<Rightarrow> (rgb \<Rightarrow> rgb \<Rightarrow> rat) \<Rightarrow> block_ctx \<Rightarrow> diff \<Rightarrow> rbuf \<times> bool" where
  "diff_render E distance ctx d =
     (let th = themeOrDefault (CTheme ctx); cols = Cols ctx; rows = renderDiffRows E distance d ctx th in
      if rows = [] then (measureOnlyBuf cols 0, False)
      else if MeasureOnly ctx then (measureOnlyBuf cols (int (length rows)), False)
      else case NewGrid cols (int (length rows)) of
        Inl _ \<Rightarrow> (measureOnlyBuf cols (int (length rows)), False)
      | Inr g \<Rightarrow> (GridBuf (paint_rows (writeDiffRow (rv_rw E) cols) 0 rows g), True))"

definition Diff_Render ::
    "renv \<Rightarrow> (rgb \<Rightarrow> rgb \<Rightarrow> rat) \<Rightarrow> block_ctx \<Rightarrow> diff \<Rightarrow> rbuf blockLRU \<Rightarrow> rbuf \<times> rbuf blockLRU" where
  "Diff_Render E distance ctx d cache =
     (if Cols ctx \<le> 0 then (measureOnlyBuf 0 0, cache)
      else
        let source = serializeDiff d;
            cacheable = (\<not> MeasureOnly ctx \<and> int (length source) \<le> blockCacheMaxSourceBytes);
            key = code_key E ctx (BodyLang d @ '':diff'') source;
            (hit, cache1) = (if cacheable then LRU_Get key cache else (None, cache))
        in case hit of
             Some b \<Rightarrow> (b, cache1)
           | None \<Rightarrow>
               (case diff_render E distance ctx d of
                  (b, drawn) \<Rightarrow> (b, if drawn \<and> cacheable then LRU_Put key b cache1 else cache1)))"

subsection \<open>The serialised form is injective\<close>

definition serial_lines :: "hunk list \<Rightarrow> string list" where
  "serial_lines hs = concat (map (\<lambda>h. hunk_line h # map entry_line (HLines h)) hs)"

definition entry_ok :: "line_entry \<Rightarrow> bool" where
  "entry_ok e \<longleftrightarrow> Marker e \<in> {CHR ''+'', CHR ''-'', CHR '' '', CHR ''?''} \<and> NL \<notin> set (EText e)"

definition serial_ok :: "diff \<Rightarrow> bool" where
  "serial_ok d \<longleftrightarrow> NL \<notin> set (FilePath d) \<and> NL \<notin> set (BodyLang d) \<and> list_all (\<lambda>h. list_all entry_ok (HLines h)) (Hunks d)"

lemma serializeDiff_lines: "serializeDiff d = end_lines (FilePath d # BodyLang d # serial_lines (Hunks d))"
proof -
  have "concat (map (\<lambda>e. Marker e # EText e @ [NL]) es) = end_lines (map entry_line es)" for es
    by (induction es) (simp_all add: entry_line_def)
  then have "concat (map (\<lambda>h. hunk_line h @ [NL] @ concat (map (\<lambda>e. Marker e # EText e @ [NL]) (HLines h))) hs) =
      end_lines (serial_lines hs)" for hs
    by (induction hs) (simp_all add: serial_lines_def)
  then show ?thesis by (simp add: serializeDiff_def)
qed

lemma hunk_line_inject:
  assumes "hunk_line h = hunk_line h'"
  shows "Bare h = Bare h' \<and> OldStart h = OldStart h' \<and> OldLines h = OldLines h' \<and> NewStart h = NewStart h' \<and> NewLines h = NewLines h'"
proof -
  let ?m = "CHR '',''" and ?p = "CHR ''+''" and ?a = "CHR ''@''"
  from assms have b: "Bare h = Bare h'" by (auto simp: hunk_line_def split: if_splits)
  with assms have "show_int (OldStart h) @ ?m # show_int (OldLines h) @ ?p # show_int (NewStart h) @ ?m # show_int (NewLines h) @ ?a # [?a] =
      show_int (OldStart h') @ ?m # show_int (OldLines h') @ ?p # show_int (NewStart h') @ ?m # show_int (NewLines h') @ ?a # [?a]"
    by (simp add: hunk_line_def)
  from sep_inject [OF this] have o: "OldStart h = OldStart h'" and
    "show_int (OldLines h) @ ?p # show_int (NewStart h) @ ?m # show_int (NewLines h) @ ?a # [?a] =
     show_int (OldLines h') @ ?p # show_int (NewStart h') @ ?m # show_int (NewLines h') @ ?a # [?a]" by auto
  from sep_inject [OF this(2)] have l: "OldLines h = OldLines h'" and
    "show_int (NewStart h) @ ?m # show_int (NewLines h) @ ?a # [?a] = show_int (NewStart h') @ ?m # show_int (NewLines h') @ ?a # [?a]" by auto
  from sep_inject [OF this(2)] have "NewStart h = NewStart h'" and
    "show_int (NewLines h) @ ?a # [?a] = show_int (NewLines h') @ ?a # [?a]" by auto
  with b o l sep_inject [OF this(2)] show ?thesis by auto
qed

text \<open>An entry line starts with a marker and a hunk line does not.\<close>

definition starts_entry :: "string \<Rightarrow> bool" where
  "starts_entry l \<longleftrightarrow> l \<noteq> [] \<and> hd l \<in> {CHR ''+'', CHR ''-'', CHR '' '', CHR ''?''}"

lemma starts_entry_simps [simp]: "\<not> starts_entry (hunk_line h)" "entry_ok e \<Longrightarrow> starts_entry (entry_line e)"
  by (auto simp: starts_entry_def hunk_line_def entry_line_def entry_ok_def)

lemma entry_line_inject [simp]: "entry_line e = entry_line e' \<longleftrightarrow> e = e'"
  by (auto simp: entry_line_def)

lemma serial_lines_simps [simp]:
  "serial_lines [] = []" "serial_lines (h # hs) = hunk_line h # map entry_line (HLines h) @ serial_lines hs"
  by (simp_all add: serial_lines_def)

lemma entries_split:
  assumes "list_all entry_ok es"
  shows "takeWhile starts_entry (map entry_line es @ serial_lines hs) = map entry_line es"
    and "dropWhile starts_entry (map entry_line es @ serial_lines hs) = serial_lines hs"
proof -
  have "takeWhile starts_entry (serial_lines hs) = []" "dropWhile starts_entry (serial_lines hs) = serial_lines hs"
    by (cases hs; simp)+
  moreover have "\<forall>l \<in> set (map entry_line es). starts_entry l" using assms by (auto simp: list_all_iff)
  ultimately show "takeWhile starts_entry (map entry_line es @ serial_lines hs) = map entry_line es"
    and "dropWhile starts_entry (map entry_line es @ serial_lines hs) = serial_lines hs"
    by (simp_all add: takeWhile_append2 dropWhile_append2 del: set_map)
qed

lemma serial_lines_inject:
  "serial_lines hs = serial_lines hs' \<Longrightarrow> list_all (\<lambda>h. list_all entry_ok (HLines h)) hs \<Longrightarrow>
   list_all (\<lambda>h. list_all entry_ok (HLines h)) hs' \<Longrightarrow> hs = hs'"
proof (induction hs arbitrary: hs')
  case Nil
  then show ?case by (cases hs') auto
next
  case (Cons h hs)
  then obtain h' hs2 where hs': "hs' = h' # hs2" by (cases hs') auto
  with Cons.prems have e: "hunk_line h = hunk_line h'"
    "map entry_line (HLines h) @ serial_lines hs = map entry_line (HLines h') @ serial_lines hs2"
    and ok: "list_all entry_ok (HLines h)" "list_all entry_ok (HLines h')" by auto
  from e(2) entries_split [OF ok(1), of hs] entries_split [OF ok(2), of hs2]
  have "map entry_line (HLines h) = map entry_line (HLines h')" and r: "serial_lines hs = serial_lines hs2" by metis+
  then have "HLines h = HLines h'" by (simp add: inj_map_eq_map inj_def)
  with hunk_line_inject [OF e(1)] have "h = h'" by (cases h; cases h') simp
  with Cons.IH [OF r] Cons.prems hs' show ?case by simp
qed

lemma serial_no_NL:
  assumes "serial_ok d"
  shows "list_all (\<lambda>l. NL \<notin> set l) (FilePath d # BodyLang d # serial_lines (Hunks d))"
proof -
  have "NL \<notin> set (hunk_line h)" for h by (simp add: hunk_line_def) (simp add: NL_def)
  moreover have "NL \<notin> set (entry_line e)" if "entry_ok e" for e
    using that by (auto simp: entry_ok_def entry_line_def NL_def)
  ultimately show ?thesis using assms
    by (auto simp: serial_ok_def serial_lines_def list_all_iff)
qed

text \<open>The serialised form identifies a diff: two diffs whose path, language and bodies hold no newline and whose
  markers are the code's four have the same serialised form only if they are equal.  The cache key is made of it.\<close>

theorem serializeDiff_inject:
  assumes "serial_ok d" and "serial_ok d'" and "serializeDiff d = serializeDiff d'"
  shows "d = d'"
proof -
  have "FilePath d # BodyLang d # serial_lines (Hunks d) = FilePath d' # BodyLang d' # serial_lines (Hunks d')"
    using assms(3) split_end_lines [OF serial_no_NL [OF assms(1)]] split_end_lines [OF serial_no_NL [OF assms(2)]]
    by (simp only: serializeDiff_lines) (metis butlast_snoc)
  with serial_lines_inject assms(1,2) show ?thesis by (cases d; cases d') (auto simp: serial_ok_def)
qed

theorem serializeDiff_inject_witness:
  "serializeDiff (NewDiffFromBareLines ''+a'') \<noteq> serializeDiff (NewDiffFromBareLines ''-a'')"
proof
  assume e: "serializeDiff (NewDiffFromBareLines ''+a'') = serializeDiff (NewDiffFromBareLines ''-a'')"
  have "serial_ok (NewDiffFromBareLines ''+a'')" "serial_ok (NewDiffFromBareLines ''-a'')" by code_simp+
  from serializeDiff_inject [OF this e] show False
    by (simp add: NewDiffFromBareLines_def body_entry_def classifyMarker_def NL_def Let_def empty_diff_def)
qed

subsection \<open>The gutter\<close>

definition old_before :: "line_entry list \<Rightarrow> nat \<Rightarrow> int" where
  "old_before es i = int (length (filter (\<lambda>e. Marker e = CHR ''-'' \<or> Marker e = CHR '' '') (take i es)))"

definition new_before :: "line_entry list \<Rightarrow> nat \<Rightarrow> int" where
  "new_before es i = int (length (filter (\<lambda>e. Marker e = CHR ''+'' \<or> Marker e = CHR '' '') (take i es)))"

lemma length_hunk_rows [simp]: "length (hunk_rows f k oldNo newNo es) = length es"
  by (induction f k oldNo newNo es rule: hunk_rows.induct) simp_all

lemma hunk_rows_nth:
  assumes "0 \<le> oldNo" and "0 \<le> newNo" and "oldNo + int (length es) < 2 ^ 63" and "newNo + int (length es) < 2 ^ 63" and "i < length es"
  shows "hunk_rows f k oldNo newNo es ! i = f (k + i) (oldNo + old_before es i) (newNo + new_before es i) (es ! i)"
  using assms
proof (induction f k oldNo newNo es arbitrary: i rule: hunk_rows.induct)
  case (2 f k oldNo newNo e es)
  show ?case
  proof (cases i)
    case (Suc j)
    let ?o = "if Marker e = CHR ''-'' \<or> Marker e = CHR '' '' then wrap64 (oldNo + 1) else oldNo"
    let ?n = "if Marker e = CHR ''+'' \<or> Marker e = CHR '' '' then wrap64 (newNo + 1) else newNo"
    have w: "wrap64 (oldNo + 1) = oldNo + 1" "wrap64 (newNo + 1) = newNo + 1" using "2.prems" by (simp_all add: wrap64_id)
    have "hunk_rows f (k + 1) ?o ?n es ! j = f (k + 1 + j) (?o + old_before es j) (?n + new_before es j) (es ! j)"
      using "2.prems" w Suc by (intro "2.IH") (auto split: if_splits)
    moreover have "?o + old_before es j = oldNo + old_before (e # es) i" "?n + new_before es j = newNo + new_before (e # es) i"
      using w Suc by (simp_all add: old_before_def new_before_def)
    ultimately show ?thesis using Suc by simp
  qed (simp add: old_before_def new_before_def)
qed simp

text \<open>The gutter shows the true line numbers.  A hunk is rendered as its header and one row per line, and the row of
  a line shows the line's own number: for a removed line the start of the hunk in the old file plus the removed and
  unchanged lines before it, otherwise the start in the new file plus the added and unchanged lines before it.\<close>

theorem gutter_numbers_lines:
  assumes "\<not> Bare h" and "i < length (HLines h)" and "0 \<le> OldStart h" and "0 \<le> NewStart h"
    and "OldStart h + int (length (HLines h)) < 2 ^ 63" and "NewStart h + int (length (HLines h)) < 2 ^ 63"
  shows "let rows = renderDiffRows E distance (NewDiffFromHunks [h]) ctx th; e = HLines h ! i in
    length rows = 1 + length (HLines h) \<and> dr_prefix (rows ! 0) = runes_of (hunk_header h) \<and>
    dr_prefix (rows ! (1 + i)) =
      runes_of (singleColumnGutter (Marker e) (OldStart h + old_before (HLines h) i) (NewStart h + new_before (HLines h) i)
        (computeGutterDigits h) True @ [Marker e] @ '' '')"
  using assms(1)
  by (simp add: renderDiffRows_def NewDiffFromHunks_def empty_diff_def header_row_def Let_def hunk_rows_nth [OF assms(3-6,2)])
    (simp add: line_row_def)

theorem gutter_numbers_lines_witness:
  "dr_prefix (renderDiffRows \<lparr>rv_rw = (\<lambda>_. 1), rv_sw = (\<lambda>_. 0), rv_hl = (\<lambda>_ _ _ _. None), rv_digest = (\<lambda>s. s)\<rparr> demo_distance
     (NewDiffFromHunks [demo_hunk])
     \<lparr>Cols = 40, CRows = 24, CTheme = None, MeasureOnly = False, CWrap = WrapSoft, Verbose = False, IsTranscript = False,
       ColorDepth = 16\<rparr> DefaultTheme ! 3) = runes_of ''11 + ''"
proof -
  have h: "\<not> Bare demo_hunk" "2 < length (HLines demo_hunk)" "0 \<le> OldStart demo_hunk" "0 \<le> NewStart demo_hunk"
    "OldStart demo_hunk + int (length (HLines demo_hunk)) < 2 ^ 63"
    "NewStart demo_hunk + int (length (HLines demo_hunk)) < 2 ^ 63" by (simp_all add: demo_hunk_def)
  have "runes_of (singleColumnGutter (Marker (HLines demo_hunk ! 2)) (OldStart demo_hunk + old_before (HLines demo_hunk) 2)
      (NewStart demo_hunk + new_before (HLines demo_hunk) 2) (computeGutterDigits demo_hunk) True @
      [Marker (HLines demo_hunk ! 2)] @ '' '') = runes_of ''11 + ''" by code_simp
  then show ?thesis using gutter_numbers_lines [OF h] unfolding Let_def by (metis One_nat_def add_2_eq_Suc' numeral_3_eq_3 plus_1_eq_Suc Suc_1)
qed

end
