(* ===== verification/Json.thy ===== *)
theory Json
  imports GoText LLM "HOL-Library.List_Lexorder" "HOL-Library.Char_ord"
begin

text \<open>
  JSON as the code meets it: the values package \<open>encoding/json\<close> decodes into an \<open>any\<close> (numbers kept as their
  text, \<open>UseNumber\<close>), the decoder and the two encoders of that package, and on top of them
  \<open>internal/domain/llm/toolinput.go\<close>: \<open>DecodeToolInput\<close>, the guard every tool call passes.  A Go map is the list
  of its entries in the order of their keys.  The decoder recurses with the length of its input as fuel; every
  call consumes a character, so more fuel changes nothing (\<open>parse_fuel\<close>).  Its nesting limit of 10000 lies far above
  the limit of \<open>DecodeToolInput\<close> and both give the same error.
\<close>

datatype json = JNull | JBool bool | JNum string | JStr string | JArr "json list" | JObj "(string \<times> json) list"

type_synonym json_map = "(string \<times> json) list"

text \<open>A \<open>map[string]any\<close> that may be nil.\<close>

type_synonym go_map = "json_map option"

fun obj_put :: "'k :: linorder \<Rightarrow> 'v \<Rightarrow> ('k \<times> 'v) list \<Rightarrow> ('k \<times> 'v) list" where
  "obj_put k v [] = [(k, v)]"
| "obj_put k v ((k', v') # m) =
     (if k < k' then (k, v) # (k', v') # m else if k = k' then (k, v) # m else (k', v') # obj_put k v m)"

definition obj_of :: "('k :: linorder \<times> 'v) list \<Rightarrow> ('k \<times> 'v) list" where
  "obj_of kvs = fold (\<lambda>(k, v). obj_put k v) kvs []"

subsection \<open>Strings\<close>

definition quote :: char where "quote = CHR 0x22"
definition backslash :: char where "backslash = CHR 0x5C"

definition code_of :: "char \<Rightarrow> int" where "code_of c = of_char c"

definition is_ws :: "char \<Rightarrow> bool" where
  "is_ws c \<longleftrightarrow> code_of c \<in> {9, 10, 13, 32}"

definition skip_ws :: "string \<Rightarrow> string" where
  "skip_ws s = dropWhile is_ws s"

definition hex_val :: "char \<Rightarrow> int option" where
  "hex_val c =
     (let n = code_of c in
      if 48 \<le> n \<and> n \<le> 57 then Some (n - 48)
      else if 97 \<le> n \<and> n \<le> 102 then Some (n - 87)
      else if 65 \<le> n \<and> n \<le> 70 then Some (n - 55)
      else None)"

text \<open>The four hexadecimal digits after \<open>\u\<close>.\<close>

fun hex4 :: "string \<Rightarrow> (int \<times> string) option" where
  "hex4 (a # b # c # d # s) =
     (case (hex_val a, hex_val b, hex_val c, hex_val d) of
        (Some p, Some q, Some r, Some t) \<Rightarrow> Some (((p * 16 + q) * 16 + r) * 16 + t, s)
      | _ \<Rightarrow> None)"
| "hex4 _ = None"

definition simple_escape :: "char \<Rightarrow> char option" where
  "simple_escape e =
     map_of [(quote, quote), (backslash, backslash), (CHR ''/'', CHR ''/''), (CHR ''b'', char_of (8::nat)),
       (CHR ''f'', char_of (12::nat)), (CHR ''n'', char_of (10::nat)), (CHR ''r'', char_of (13::nat)),
       (CHR ''t'', char_of (9::nat))] e"

text \<open>The rest of a surrogate pair: a second escape that is a low surrogate after a high one.\<close>

definition low_pair :: "int \<Rightarrow> string \<Rightarrow> (int \<times> string) option" where
  "low_pair r s =
     (case s of
        c # d # t \<Rightarrow>
          (if c = backslash \<and> d = CHR ''u'' then
             (case hex4 t of
                Some (r1, u) \<Rightarrow>
                  if r < 0xDC00 \<and> 0xDC00 \<le> r1 \<and> r1 < 0xE000
                  then Some ((r - 0xD800) * 1024 + (r1 - 0xDC00) + 0x10000, u) else None
              | None \<Rightarrow> None)
           else None)
      | _ \<Rightarrow> None)"

text \<open>What stands after the opening quote: the decoded text up to the closing quote, and what follows.\<close>

definition put_text :: "string \<Rightarrow> (string \<times> string) option \<Rightarrow> (string \<times> string) option" where
  "put_text t r = (case r of None \<Rightarrow> None | Some (u, s) \<Rightarrow> Some (t @ u, s))"

lemma hex4_length: "hex4 s = Some (r, t) \<Longrightarrow> length s = length t + 4"
  by (induction s rule: hex4.induct) (auto split: option.splits)

lemma low_pair_length: "low_pair r s = Some (d, t) \<Longrightarrow> length t < length s"
  by (auto simp: low_pair_def dest!: hex4_length split: list.splits if_splits option.splits)

lemma decoded_less: "(r, n) = DecodeRune (c # cs) \<Longrightarrow> length (drop n (c # cs)) < length (c # cs)"
  using DecodeRune_pos [of "c # cs"] by (cases n; cases "DecodeRune (c # cs)") auto

function unquote :: "string \<Rightarrow> (string \<times> string) option" where
  "unquote [] = None"
| "unquote (c # cs) =
     (if c = quote then Some ([], cs)
      else if c = backslash then
        (case cs of
           [] \<Rightarrow> None
         | e # es \<Rightarrow>
             (case simple_escape e of
                Some d \<Rightarrow> put_text [d] (unquote es)
              | None \<Rightarrow>
                  if e \<noteq> CHR ''u'' then None
                  else (case hex4 es of
                     None \<Rightarrow> None
                   | Some (r, es1) \<Rightarrow>
                       if 0xD800 \<le> r \<and> r < 0xE000 then
                         (case low_pair r es1 of
                            Some (d, es2) \<Rightarrow> put_text (utf8_rune d) (unquote es2)
                          | None \<Rightarrow> put_text (utf8_rune RuneError) (unquote es1))
                       else put_text (utf8_rune r) (unquote es1))))
      else if code_of c < 32 then None
      else case DecodeRune (c # cs) of (r, n) \<Rightarrow> put_text (utf8_rune r) (unquote (drop n (c # cs))))"
  by pat_completeness auto
termination
  by (relation "measure length") (auto dest!: hex4_length low_pair_length dest: decoded_less)

declare unquote.simps(2) [simp del]

subsection \<open>Numbers and values\<close>

definition scan_digits :: "string \<Rightarrow> string \<times> string" where
  "scan_digits s = (takeWhile is_digit s, dropWhile is_digit s)"

definition scan_int :: "string \<Rightarrow> (string \<times> string) option" where
  "scan_int s =
     (case s of
        [] \<Rightarrow> None
      | c # r \<Rightarrow> if c = CHR ''0'' then Some ([c], r) else if is_digit c then Some (scan_digits s) else None)"

text \<open>An optional part: it is there when its first character is, and then it needs a digit.\<close>

definition scan_frac :: "string \<Rightarrow> (string \<times> string) option" where
  "scan_frac s =
     (case s of
        c # r \<Rightarrow>
          if c = CHR ''.'' then (case scan_digits r of (ds, t) \<Rightarrow> if ds = [] then None else Some (c # ds, t)) else Some ([], s)
      | [] \<Rightarrow> Some ([], s))"

definition scan_sign :: "string \<Rightarrow> string \<times> string" where
  "scan_sign s = (case s of c # r \<Rightarrow> if c = CHR ''+'' \<or> c = CHR ''-'' then ([c], r) else ([], s) | [] \<Rightarrow> ([], s))"

definition scan_exp :: "string \<Rightarrow> (string \<times> string) option" where
  "scan_exp s =
     (case s of
        c # r \<Rightarrow>
          if c = CHR ''e'' \<or> c = CHR ''E'' then
            (case scan_sign r of (sg, u) \<Rightarrow> (case scan_digits u of (ds, t) \<Rightarrow> if ds = [] then None else Some (c # sg @ ds, t)))
          else Some ([], s)
      | [] \<Rightarrow> Some ([], s))"

definition scan_minus :: "string \<Rightarrow> string \<times> string" where
  "scan_minus s = (case s of c # r \<Rightarrow> if c = CHR ''-'' then ([c], r) else ([], s) | [] \<Rightarrow> ([], s))"

definition scan_number :: "string \<Rightarrow> (string \<times> string) option" where
  "scan_number s =
     (case scan_minus s of (m, s1) \<Rightarrow>
        (case scan_int s1 of
           None \<Rightarrow> None
         | Some (i, s2) \<Rightarrow>
             (case scan_frac s2 of
                None \<Rightarrow> None
              | Some (f, s3) \<Rightarrow> (case scan_exp s3 of None \<Rightarrow> None | Some (e, s4) \<Rightarrow> Some (m @ i @ f @ e, s4)))))"

definition strip_prefix :: "string \<Rightarrow> string \<Rightarrow> string option" where
  "strip_prefix p s = (if prefix p s then Some (drop (length p) s) else None)"

definition parse_literal :: "string \<Rightarrow> (json \<times> string) option" where
  "parse_literal s =
     (case strip_prefix ''null'' s of Some r \<Rightarrow> Some (JNull, r) | None \<Rightarrow>
     (case strip_prefix ''true'' s of Some r \<Rightarrow> Some (JBool True, r) | None \<Rightarrow>
     (case strip_prefix ''false'' s of Some r \<Rightarrow> Some (JBool False, r) | None \<Rightarrow>
     (case scan_number s of Some (t, r) \<Rightarrow> Some (JNum t, r) | None \<Rightarrow> None))))"

fun parse_value :: "nat \<Rightarrow> string \<Rightarrow> (json \<times> string) option"
  and parse_elems :: "nat \<Rightarrow> string \<Rightarrow> (json list \<times> string) option"
  and parse_members :: "nat \<Rightarrow> string \<Rightarrow> ((string \<times> json) list \<times> string) option" where
  "parse_value 0 s = None"
| "parse_value (Suc n) s =
     (case skip_ws s of
        [] \<Rightarrow> None
      | c # r \<Rightarrow>
          if c = CHR ''{'' then
            (case skip_ws r of
               d # t \<Rightarrow>
                 if d = CHR ''}'' then Some (JObj [], t)
                 else (case parse_members n r of None \<Rightarrow> None | Some (kvs, t) \<Rightarrow> Some (JObj (obj_of kvs), t))
             | [] \<Rightarrow> None)
          else if c = CHR ''['' then
            (case skip_ws r of
               d # t \<Rightarrow>
                 if d = CHR '']'' then Some (JArr [], t)
                 else (case parse_elems n r of None \<Rightarrow> None | Some (vs, t) \<Rightarrow> Some (JArr vs, t))
             | [] \<Rightarrow> None)
          else if c = quote then (case unquote r of None \<Rightarrow> None | Some (u, t) \<Rightarrow> Some (JStr u, t))
          else parse_literal (c # r))"
| "parse_elems 0 s = None"
| "parse_elems (Suc n) s =
     (case parse_value (Suc n) s of
        None \<Rightarrow> None
      | Some (v, r) \<Rightarrow>
          (case skip_ws r of
             d # t \<Rightarrow>
               if d = CHR '']'' then Some ([v], t)
               else if d = CHR '','' then (case parse_elems n t of None \<Rightarrow> None | Some (vs, u) \<Rightarrow> Some (v # vs, u))
               else None
           | [] \<Rightarrow> None))"
| "parse_members 0 s = None"
| "parse_members (Suc n) s =
     (case skip_ws s of
        [] \<Rightarrow> None
      | c # r \<Rightarrow>
          if c \<noteq> quote then None
          else (case unquote r of
             None \<Rightarrow> None
           | Some (k, r1) \<Rightarrow>
               (case skip_ws r1 of
                  [] \<Rightarrow> None
                | d # r2 \<Rightarrow>
                    if d \<noteq> CHR '':'' then None
                    else (case parse_value n r2 of
                       None \<Rightarrow> None
                     | Some (v, r3) \<Rightarrow>
                         (case skip_ws r3 of
                            [] \<Rightarrow> None
                          | e # r4 \<Rightarrow>
                              if e = CHR ''}'' then Some ([(k, v)], r4)
                              else if e = CHR '','' then
                                (case parse_members n r4 of None \<Rightarrow> None | Some (kvs, u) \<Rightarrow> Some ((k, v) # kvs, u))
                              else None)))))"

subsection \<open>Encoding\<close>

definition hex_digit :: "int \<Rightarrow> char" where
  "hex_digit n = (if n < 10 then char_of (48 + n) else char_of (87 + n))"

definition u_escape :: "int \<Rightarrow> string" where
  "u_escape r = [backslash, CHR ''u'', hex_digit (r div 4096 mod 16), hex_digit (r div 256 mod 16), hex_digit (r div 16 mod 16), hex_digit (r mod 16)]"

definition short_escapes :: "(int \<times> char) list" where
  "short_escapes = [(34, quote), (92, backslash), (8, CHR ''b''), (12, CHR ''f''), (10, CHR ''n''), (13, CHR ''r''), (9, CHR ''t'')]"

definition u_escaped :: "int \<Rightarrow> bool" where
  "u_escaped r \<longleftrightarrow> r < 32 \<or> r \<in> {60, 62, 38, 0x2028, 0x2029}"

definition escape_rune :: "int \<Rightarrow> nat \<Rightarrow> string \<Rightarrow> string" where
  "escape_rune r n raw =
     (case map_of short_escapes r of
        Some e \<Rightarrow> [backslash, e]
      | None \<Rightarrow> if u_escaped r then u_escape r else if r = RuneError \<and> n = 1 then u_escape RuneError else raw)"

function quote_body :: "string \<Rightarrow> string" where
  "quote_body [] = []"
| "quote_body (c # cs) =
     (case DecodeRune (c # cs) of (r, n) \<Rightarrow> escape_rune r n (take n (c # cs)) @ quote_body (drop n (c # cs)))"
  by pat_completeness auto
termination
  by (relation "measure length") (auto dest: decoded_less)

declare quote_body.simps(2) [simp del]

definition quote_string :: "string \<Rightarrow> string" where
  "quote_string s = quote # quote_body s @ [quote]"

fun commas :: "string list \<Rightarrow> string" where
  "commas [] = []"
| "commas [x] = x"
| "commas (x # y # zs) = x @ CHR '','' # commas (y # zs)"

text \<open>\<open>json.Marshal\<close>.\<close>

fun Marshal :: "json \<Rightarrow> string" where
  "Marshal JNull = ''null''"
| "Marshal (JBool b) = (if b then ''true'' else ''false'')"
| "Marshal (JNum t) = (if t = [] then ''0'' else t)"
| "Marshal (JStr s) = quote_string s"
| "Marshal (JArr vs) = CHR ''['' # commas (map Marshal vs) @ '']''"
| "Marshal (JObj m) = CHR ''{'' # commas (map (\<lambda>kv. quote_string (fst kv) @ CHR '':'' # Marshal (snd kv)) m) @ ''}''"

text \<open>\<open>json.MarshalIndent(v, "", "  ")\<close> at an indentation of \<open>d\<close> levels.\<close>

definition new_line :: "nat \<Rightarrow> string" where
  "new_line d = NL # replicate (2 * d) (CHR '' '')"

fun comma_lines :: "nat \<Rightarrow> string list \<Rightarrow> string" where
  "comma_lines d [] = []"
| "comma_lines d [x] = new_line d @ x"
| "comma_lines d (x # y # zs) = new_line d @ x @ CHR '','' # comma_lines d (y # zs)"

fun MarshalIndent :: "nat \<Rightarrow> json \<Rightarrow> string" where
  "MarshalIndent d (JArr vs) =
     (if vs = [] then ''[]''
      else CHR ''['' # comma_lines (d + 1) (map (MarshalIndent (d + 1)) vs) @ new_line d @ '']'')"
| "MarshalIndent d (JObj m) =
     (if m = [] then ''{}''
      else CHR ''{'' # comma_lines (d + 1) (map (\<lambda>kv. quote_string (fst kv) @ '': '' @ MarshalIndent (d + 1) (snd kv)) m)
        @ new_line d @ ''}'')"
| "MarshalIndent d v = Marshal v"

subsection \<open>The guard on tool inputs\<close>

definition MaxToolInputBytes :: int where "MaxToolInputBytes = 256 * 1024"
definition MaxToolInputDepth :: int where "MaxToolInputDepth = 32"
definition MaxToolBlocks :: int where "MaxToolBlocks = 64"

fun jsonDepth :: "json \<Rightarrow> int \<Rightarrow> int" where
  "jsonDepth (JArr vs) cur = fold max (map (\<lambda>v. jsonDepth v (cur + 1)) vs) cur"
| "jsonDepth (JObj m) cur = fold max (map (\<lambda>kv. jsonDepth (snd kv) (cur + 1)) m) cur"
| "jsonDepth _ cur = cur"

definition DecodeToolInput :: "string \<Rightarrow> go_error + json_map" where
  "DecodeToolInput raw =
     (if raw = [] then Inr []
      else if int (length raw) > MaxToolInputBytes then Inl ErrDecodeFailed
      else case parse_value (length raw) raw of
        None \<Rightarrow> Inl ErrDecodeFailed
      | Some (v, rest) \<Rightarrow>
          if skip_ws rest \<noteq> [] then Inl ErrDecodeFailed
          else (case v of
             JObj m \<Rightarrow> if jsonDepth v 1 > MaxToolInputDepth then Inl ErrDecodeFailed else Inr m
           | _ \<Rightarrow> Inl ErrDecodeFailed))"

subsection \<open>The fuel is enough\<close>

lemma put_text_Some: "put_text t r = Some (u, s) \<longleftrightarrow> (\<exists>v. r = Some (v, s) \<and> u = t @ v)"
  by (auto simp: put_text_def split: option.splits)

text \<open>A parser that succeeds has consumed something; the rules follow the shape of the parsers.\<close>

definition shorter :: "string \<Rightarrow> ('a \<times> string) option \<Rightarrow> bool" where
  "shorter s x \<longleftrightarrow> (case x of None \<Rightarrow> True | Some (_, r) \<Rightarrow> length r < length s)"

lemma shorter_simps [simp]: "shorter s None" "shorter s (Some (v, r)) \<longleftrightarrow> length r < length s" "shorter s (put_text t x) = shorter s x"
  by (auto simp: shorter_def put_text_def split: option.splits)

lemma shorter_mono: "shorter t x \<Longrightarrow> length t \<le> length s \<Longrightarrow> shorter s x"
  by (auto simp: shorter_def split: option.splits)

lemma shorter_if: "(b \<Longrightarrow> shorter s x) \<Longrightarrow> (\<not> b \<Longrightarrow> shorter s y) \<Longrightarrow> shorter s (if b then x else y)"
  by simp

lemma shorter_list: "(l = [] \<Longrightarrow> shorter s x) \<Longrightarrow> (\<And>c r. l = c # r \<Longrightarrow> shorter s (f c r)) \<Longrightarrow>
    shorter s (case l of [] \<Rightarrow> x | c # r \<Rightarrow> f c r)"
  by (cases l) simp_all

lemma shorter_option: "(l = None \<Longrightarrow> shorter s x) \<Longrightarrow> (\<And>v. l = Some v \<Longrightarrow> shorter s (f v)) \<Longrightarrow>
    shorter s (case l of None \<Rightarrow> x | Some v \<Rightarrow> f v)"
  by (cases l) simp_all

lemma shorter_prod: "(\<And>a b. p = (a, b) \<Longrightarrow> shorter s (f a b)) \<Longrightarrow> shorter s (case p of (a, b) \<Rightarrow> f a b)"
  by (cases p) simp

lemmas shorter_cases = shorter_if shorter_list shorter_option shorter_prod

lemma unquote_shorter: "shorter s (unquote s)"
proof (induction s rule: measure_induct_rule [where f = length])
  case (less s)
  then have rec: "length t < length s \<Longrightarrow> shorter s (unquote t)" for t by (meson less_imp_le shorter_mono)
  show ?case
  proof (cases s)
    case (Cons c cs)
    then have len: "length s = length (c # cs)" by simp
    have "shorter s (unquote (c # cs))"
      unfolding unquote.simps(2)
      by (intro shorter_cases) (auto simp: len dest!: hex4_length low_pair_length dest: sym [THEN decoded_less] intro!: rec)
    with Cons show ?thesis by simp
  qed simp
qed

lemma unquote_length: "unquote s = Some (t, r) \<Longrightarrow> length r < length s"
  using unquote_shorter [of s] by simp

lemma skip_ws_length: "length (skip_ws s) \<le> length s"
  by (simp add: skip_ws_def length_dropWhile_le)

lemma skip_ws_Cons: "skip_ws s = c # r \<Longrightarrow> length r < length s"
  using skip_ws_length [of s] by simp

lemma scan_minus_split: "scan_minus s = (t, r) \<Longrightarrow> s = t @ r"
  by (auto simp: scan_minus_def split: list.splits if_splits)

lemma scan_sign_split: "scan_sign s = (t, r) \<Longrightarrow> s = t @ r"
  by (auto simp: scan_sign_def split: list.splits if_splits)

lemma scan_int_split: "scan_int s = Some (t, r) \<Longrightarrow> s = t @ r \<and> t \<noteq> []"
  by (auto simp: scan_int_def scan_digits_def split: list.splits if_splits)

lemma scan_frac_split: "scan_frac s = Some (t, r) \<Longrightarrow> s = t @ r"
  by (auto simp: scan_frac_def scan_digits_def split: list.splits if_splits)

lemma scan_exp_split: "scan_exp s = Some (t, r) \<Longrightarrow> s = t @ r"
  by (auto simp: scan_exp_def scan_digits_def split: list.splits if_splits prod.splits dest!: scan_sign_split)

lemma scan_number_split: "scan_number s = Some (t, r) \<Longrightarrow> s = t @ r \<and> t \<noteq> []"
  by (auto simp: scan_number_def split: prod.splits option.splits
      dest!: scan_minus_split scan_int_split scan_frac_split scan_exp_split)

lemma parse_literal_shorter: "shorter s (parse_literal s)"
  by (auto simp: parse_literal_def strip_prefix_def prefix_def split: option.splits dest!: scan_number_split)

lemma parse_shorter:
  "\<forall>s. shorter s (parse_value n s) \<and> shorter s (parse_elems n s) \<and> shorter s (parse_members n s)"
proof (induction n)
  case (Suc n)
  have v: "parse_value n t = Some (v, r) \<Longrightarrow> length r < length t" for t v r
    using Suc.IH by (metis shorter_simps(2))
  have e: "parse_elems n t = Some (v, r) \<Longrightarrow> length r < length t" for t v r
    using Suc.IH by (metis shorter_simps(2))
  have m: "parse_members n t = Some (v, r) \<Longrightarrow> length r < length t" for t v r
    using Suc.IH by (metis shorter_simps(2))
  have v': "shorter s (parse_value (Suc n) s)" for s
    unfolding parse_value.simps
    by (intro shorter_cases; (simp; fail)?)
      (auto dest!: skip_ws_Cons v e m unquote_length intro!: shorter_mono [OF parse_literal_shorter])
  then have v'': "parse_value (Suc n) t = Some (v, r) \<Longrightarrow> length r < length t" for t v r
    by (metis shorter_simps(2))
  have "shorter s (parse_elems (Suc n) s)" for s
    unfolding parse_elems.simps
    by (intro shorter_cases; (simp; fail)?) (auto dest!: skip_ws_Cons v'' e simp del: parse_value.simps)
  moreover have "shorter s (parse_members (Suc n) s)" for s
    unfolding parse_members.simps
    by (intro shorter_cases; (simp; fail)?) (auto dest!: skip_ws_Cons v m unquote_length)
  ultimately show ?case using v' by blast
qed simp

lemma parse_length:
  "parse_value n t = Some (v, r) \<Longrightarrow> length r < length t"
  "parse_elems n t = Some (vs, r) \<Longrightarrow> length r < length t"
  "parse_members n t = Some (kvs, r) \<Longrightarrow> length r < length t"
  using parse_shorter [of n] by (metis shorter_simps(2))+

declare parse_value.simps(2) [simp del] parse_elems.simps(2) [simp del] parse_members.simps(2) [simp del]

text \<open>With the length of the input as fuel, or more, the parsers are functions of the input alone.\<close>

definition Value :: "string \<Rightarrow> (json \<times> string) option" where "Value s = parse_value (length s) s"
definition Elems :: "string \<Rightarrow> (json list \<times> string) option" where "Elems s = parse_elems (length s) s"
definition Members :: "string \<Rightarrow> ((string \<times> json) list \<times> string) option" where "Members s = parse_members (length s) s"

lemma parse_fuel:
  "\<forall>s k. length s \<le> n \<longrightarrow> length s \<le> k \<longrightarrow>
     parse_value n s = parse_value k s \<and> parse_elems n s = parse_elems k s \<and> parse_members n s = parse_members k s"
proof (induction n)
  case 0
  have "parse_value k [] = None \<and> parse_elems k [] = None \<and> parse_members k [] = None" for k
    by (cases k) (simp_all add: skip_ws_def parse_value.simps(2) parse_elems.simps(2) parse_members.simps(2))
  then show ?case by simp
next
  case (Suc n)
  show ?case
  proof (intro allI impI)
    fix s :: string and k
    assume l: "length s \<le> Suc n" "length s \<le> k"
    show "parse_value (Suc n) s = parse_value k s \<and> parse_elems (Suc n) s = parse_elems k s \<and> parse_members (Suc n) s = parse_members k s"
    proof (cases k)
      case (Suc k')
      have ih: "parse_value n t = parse_value k' t" "parse_elems n t = parse_elems k' t" "parse_members n t = parse_members k' t"
        if "length t < length s" for t using Suc.IH l Suc that by auto
      have v: "parse_value (Suc n) s = parse_value (Suc k') s"
        unfolding parse_value.simps
        by (intro list.case_cong if_cong refl) (auto dest!: skip_ws_Cons simp: ih)
      moreover have "parse_elems (Suc n) s = parse_elems (Suc k') s"
        unfolding parse_elems.simps v
        by (intro option.case_cong list.case_cong prod.case_cong if_cong refl)
          (auto dest!: skip_ws_Cons parse_length simp: ih)
      moreover have "parse_members (Suc n) s = parse_members (Suc k') s"
        unfolding parse_members.simps
        by (intro option.case_cong list.case_cong prod.case_cong if_cong refl)
          (auto dest!: skip_ws_Cons unquote_length parse_length simp: ih)
      ultimately show ?thesis using Suc by simp
    next
      case 0
      with l show ?thesis by (simp add: skip_ws_def parse_value.simps(2) parse_elems.simps(2) parse_members.simps(2))
    qed
  qed
qed

lemma fuel_eq:
  assumes "length s \<le> n"
  shows "parse_value n s = Value s" "parse_elems n s = Elems s" "parse_members n s = Members s"
  unfolding Value_def Elems_def Members_def using parse_fuel [of n, rule_format, OF assms order_refl] by simp_all

subsection \<open>Decoding what was encoded\<close>

definition valid_text :: "string \<Rightarrow> bool" where
  "valid_text s \<longleftrightarrow> list_all valid_rune (runes_of s) \<and> utf8 (runes_of s) = s"

lemma utf8_simps [simp]: "utf8 [] = []" "utf8 (r # rs) = utf8_rune r @ utf8 rs"
  by (simp_all add: utf8_def)

lemma valid_text_utf8 [simp]: "list_all valid_rune rs \<Longrightarrow> valid_text (utf8 rs)"
  by (simp add: valid_text_def runes_of_utf8)

lemma valid_text_cases:
  assumes "valid_text s" obtains rs where "list_all valid_rune rs" "s = utf8 rs"
  using assms by (metis valid_text_def)

lemma utf8_rune_head:
  assumes "valid_rune r" and "128 \<le> r"
  obtains c cs where "utf8_rune r = c # cs" "128 \<le> code_of c"
proof -
  have r: "r < 1114112" using assms by (simp add: valid_rune_def)
  consider "r < 2048" | "2048 \<le> r" "r < 65536" | "65536 \<le> r" by linarith
  then show thesis
  proof cases
    case 1
    then have "code_of (char_of (192 + r div 64)) = 192 + r div 64" using assms by (simp add: code_of_def)
    with that 1 assms show thesis by (simp add: utf8_rune_def)
  next
    case 2
    then have "code_of (char_of (224 + r div 4096)) = 224 + r div 4096" by (simp add: code_of_def)
    with that 2 assms show thesis by (simp add: utf8_rune_def)
  next
    case 3
    then have "code_of (char_of (240 + r div 262144)) = 240 + r div 262144" using r by (simp add: code_of_def)
    with that 3 assms show thesis by (simp add: utf8_rune_def)
  qed
qed

lemma utf8_rune_ascii: "0 \<le> r \<Longrightarrow> r < 128 \<Longrightarrow> utf8_rune r = [char_of r]"
  by (simp add: utf8_rune_def)

lemma hex_val_digit [simp]: "0 \<le> n \<Longrightarrow> n < 16 \<Longrightarrow> hex_val (hex_digit n) = Some n"
  by (auto simp: hex_val_def hex_digit_def code_of_def Let_def)

lemma hex_sum: "r = 16 * a + x \<Longrightarrow> a = 16 * b + y \<Longrightarrow> b = 16 * c + z \<Longrightarrow> m = c \<Longrightarrow> ((m * 16 + z) * 16 + y) * 16 + x = (r :: int)"
  by simp

lemma hex4_u_escape:
  assumes "0 \<le> r" and "r < 65536"
  shows "hex4 (drop 2 (u_escape r) @ s) = Some (r, s)"
proof -
  have "((r div 4096 mod 16 * 16 + r div 256 mod 16) * 16 + r div 16 mod 16) * 16 + r mod 16 = r"
  proof -
    define a b c where "a = r div 16" and "b = a div 16" and "c = b div 16"
    have q: "r div 256 = r div 16 div 16" using zdiv_zmult2_eq [of 16 r 16] by simp
    have "r div 4096 = r div 256 div 16" using zdiv_zmult2_eq [of 16 r 256] by simp
    then have p: "r div 4096 = c" unfolding a_def b_def c_def by (simp only: q)
    have q': "r div 256 = b" unfolding a_def b_def by (rule q)
    have "r = 16 * a + r mod 16" "a = 16 * b + a mod 16" "b = 16 * c + b mod 16" by (simp_all add: a_def b_def c_def)
    moreover have "c mod 16 = c" using assms p by auto
    ultimately show ?thesis unfolding p q' a_def [symmetric] by (intro hex_sum)
  qed
  moreover have "hex4 (drop 2 (u_escape r) @ s) =
      Some (((r div 4096 mod 16 * 16 + r div 256 mod 16) * 16 + r div 16 mod 16) * 16 + r mod 16, s)"
    by (simp add: u_escape_def)
  ultimately show ?thesis by (simp only:)
qed

lemma unquote_raw:
  assumes "valid_rune r" and "utf8_rune r = c # cs" and "c \<noteq> quote" and "c \<noteq> backslash" and "32 \<le> code_of c"
  shows "unquote (utf8_rune r @ s) = put_text (utf8_rune r) (unquote s)"
  using assms DecodeRune_utf8_rune [OF assms(1), of s] by (simp add: unquote.simps(2))

lemma unquote_u_escape:
  assumes "valid_rune r" and "r < 65536"
  shows "unquote (u_escape r @ s) = put_text (utf8_rune r) (unquote s)"
proof -
  have "simple_escape (CHR ''u'') = None" by code_simp
  moreover have "hex4 (drop 2 (u_escape r) @ s) = Some (r, s)" using assms by (intro hex4_u_escape) (simp_all add: valid_rune_def)
  moreover have "u_escape r @ s = backslash # CHR ''u'' # drop 2 (u_escape r) @ s" by (simp add: u_escape_def)
  moreover have "backslash \<noteq> quote" by (simp add: backslash_def quote_def)
  ultimately have "unquote (backslash # CHR ''u'' # drop 2 (u_escape r) @ s) = put_text (utf8_rune r) (unquote s)"
    using assms(1) by (auto simp: unquote.simps(2) valid_rune_def)
  then show ?thesis using \<open>u_escape r @ s = _\<close> by (simp only:)
qed

lemma short_escapes_sound:
  "\<forall>p \<in> set short_escapes. 0 \<le> fst p \<and> fst p < 128 \<and> simple_escape (snd p) = Some (char_of (fst p))"
  by code_simp

lemma short_escape_sound:
  "map_of short_escapes r = Some e \<Longrightarrow> 0 \<le> r \<and> r < 128 \<and> simple_escape e = Some (char_of r)"
  using short_escapes_sound by (fastforce dest: map_of_SomeD)

lemma unquote_escape:
  assumes "valid_rune r"
  shows "unquote (escape_rune r (length (utf8_rune r)) (utf8_rune r) @ s) = put_text (utf8_rune r) (unquote s)"
proof (cases "map_of short_escapes r")
  case (Some e)
  have "backslash \<noteq> quote" by (simp add: backslash_def quote_def)
  with Some short_escape_sound [OF Some] show ?thesis
    by (simp add: escape_rune_def unquote.simps(2) utf8_rune_ascii)
next
  case None
  have n: "r = RuneError \<Longrightarrow> length (utf8_rune r) \<noteq> 1" by (simp add: RuneError_def utf8_rune_def)
  show ?thesis
  proof (cases "u_escaped r")
    case True
    then have "r < 65536" by (auto simp: u_escaped_def)
    with unquote_u_escape [OF assms] None True show ?thesis by (simp add: escape_rune_def)
  next
    case False
    have "unquote (utf8_rune r @ s) = put_text (utf8_rune r) (unquote s)"
    proof (cases "r < 128")
      case True
      have "0 \<le> r" "r \<noteq> 34" "r \<noteq> 92" "32 \<le> r" using assms None \<open>\<not> u_escaped r\<close>
        by (auto simp: valid_rune_def short_escapes_def u_escaped_def split: if_splits)
      moreover from this have "code_of (char_of r) = r" using True by (simp add: code_of_def)
      moreover have "code_of quote = 34" "code_of backslash = 92" by code_simp+
      ultimately show ?thesis using True assms by (intro unquote_raw [OF assms utf8_rune_ascii]) auto
    next
      case False
      obtain c cs where c: "utf8_rune r = c # cs" "128 \<le> code_of c" using utf8_rune_head [OF assms] False by auto
      moreover have "code_of quote = 34" "code_of backslash = 92" by code_simp+
      ultimately show ?thesis by (intro unquote_raw [OF assms c(1)]) auto
    qed
    with None False n show ?thesis by (auto simp: escape_rune_def)
  qed
qed

lemma quote_body_rune:
  assumes "valid_rune r"
  shows "quote_body (utf8_rune r @ s) = escape_rune r (length (utf8_rune r)) (utf8_rune r) @ quote_body s"
proof -
  obtain c cs where "utf8_rune r = c # cs" by (cases "utf8_rune r") simp_all
  with DecodeRune_utf8_rune [OF assms, of s] show ?thesis by (simp add: quote_body.simps(2))
qed

lemma unquote_quote_body: "valid_text s \<Longrightarrow> unquote (quote_body s @ quote # rest) = Some (s, rest)"
proof (elim valid_text_cases)
  fix rs assume "list_all valid_rune rs" "s = utf8 rs"
  moreover have "list_all valid_rune rs \<Longrightarrow> unquote (quote_body (utf8 rs) @ quote # rest) = Some (utf8 rs, rest)"
    by (induction rs) (simp_all add: unquote.simps(2) quote_body_rune unquote_escape put_text_def)
  ultimately show ?thesis by simp
qed

subsection \<open>Values\<close>

definition stop :: "string \<Rightarrow> bool" where
  "stop s \<longleftrightarrow> (case s of [] \<Rightarrow> True | c # _ \<Rightarrow> c \<in> {CHR '','', CHR '']'', CHR ''}''})"

lemma stop_simps [simp]: "stop []" "stop (CHR '','' # s)" "stop (CHR '']'' # s)" "stop (CHR ''}'' # s)"
  by (simp_all add: stop_def)

lemma stop_cases:
  assumes "stop s" obtains "s = []" | t where "s = CHR '','' # t" | t where "s = CHR '']'' # t" | t where "s = CHR ''}'' # t"
  using assms by (auto simp: stop_def split: list.splits)

lemma is_digit_punct [simp]: "\<not> is_digit (CHR '','')" "\<not> is_digit (CHR '']'')" "\<not> is_digit (CHR ''}'')"
  by code_simp+

lemma scan_digits_append: "stop r \<Longrightarrow> scan_digits (s @ r) = (fst (scan_digits s), snd (scan_digits s) @ r)"
  by (elim stop_cases; induction s) (simp_all add: scan_digits_def)

lemma scan_sign_append: "stop r \<Longrightarrow> scan_sign (s @ r) = (fst (scan_sign s), snd (scan_sign s) @ r)"
  by (elim stop_cases; cases s) (simp_all add: scan_sign_def)

lemma scan_minus_append: "stop r \<Longrightarrow> scan_minus (s @ r) = (fst (scan_minus s), snd (scan_minus s) @ r)"
  by (elim stop_cases; cases s) (simp_all add: scan_minus_def)

lemma scan_int_append: "stop r \<Longrightarrow> scan_int s = Some (t, u) \<Longrightarrow> scan_int (s @ r) = Some (t, u @ r)"
  using scan_digits_append [of r s] by (cases s) (auto simp: scan_int_def split: if_splits)

lemma scan_frac_append: "stop r \<Longrightarrow> scan_frac s = Some (t, u) \<Longrightarrow> scan_frac (s @ r) = Some (t, u @ r)"
  by (cases s) (auto simp: scan_frac_def scan_digits_append split: if_splits prod.splits elim!: stop_cases)

lemma scan_exp_append: "stop r \<Longrightarrow> scan_exp s = Some (t, u) \<Longrightarrow> scan_exp (s @ r) = Some (t, u @ r)"
  by (cases s) (auto simp: scan_exp_def scan_digits_append scan_sign_append split: if_splits prod.splits elim!: stop_cases)

lemma scan_number_append: "stop r \<Longrightarrow> scan_number s = Some (t, u) \<Longrightarrow> scan_number (s @ r) = Some (t, u @ r)"
  by (auto simp: scan_number_def scan_minus_append scan_int_append scan_frac_append scan_exp_append
      split: prod.splits option.splits)

lemma scan_number_head:
  assumes "scan_number s = Some (t, r)" obtains c u where "s = c # u" "c = CHR ''-'' \<or> is_digit c"
  using assms by (cases s)
    (auto simp: scan_number_def scan_minus_def scan_int_def is_digit_def split: list.splits if_splits option.splits)

lemma parse_literal_number:
  assumes "stop r" and "scan_number t = Some (t, [])"
  shows "parse_literal (t @ r) = Some (JNum t, r)"
proof -
  obtain c u where c: "t = c # u" "c = CHR ''-'' \<or> is_digit c" using scan_number_head [OF assms(2)] .
  have "\<not> is_digit (CHR ''n'')" "\<not> is_digit (CHR ''t'')" "\<not> is_digit (CHR ''f'')" by code_simp+
  with c(2) have "c \<noteq> CHR ''n''" "c \<noteq> CHR ''t''" "c \<noteq> CHR ''f''" by auto
  then show ?thesis using c(1) scan_number_append [OF assms]
    by (simp add: parse_literal_def strip_prefix_def)
qed

lemma skip_ws_stay [simp]: "\<not> is_ws c \<Longrightarrow> skip_ws (c # s) = c # s"
  by (simp add: skip_ws_def)

lemma not_ws [simp]:
  "\<not> is_ws (CHR '','')" "\<not> is_ws (CHR '']'')" "\<not> is_ws (CHR ''}'')" "\<not> is_ws (CHR ''{'')" "\<not> is_ws (CHR ''['')"
  "\<not> is_ws (CHR '':'')" "\<not> is_ws quote" "\<not> is_ws (CHR ''n'')" "\<not> is_ws (CHR ''t'')" "\<not> is_ws (CHR ''f'')" "\<not> is_ws (CHR ''-'')"
  by code_simp+

lemma Value_brace: "Value (CHR ''{'' # r) =
    (case skip_ws r of
       d # t \<Rightarrow> if d = CHR ''}'' then Some (JObj [], t)
                else (case Members r of None \<Rightarrow> None | Some (kvs, t) \<Rightarrow> Some (JObj (obj_of kvs), t))
     | [] \<Rightarrow> None)"
  unfolding Value_def Members_def by (simp add: parse_value.simps(2))

lemma Value_bracket: "Value (CHR ''['' # r) =
    (case skip_ws r of
       d # t \<Rightarrow> if d = CHR '']'' then Some (JArr [], t)
                else (case Elems r of None \<Rightarrow> None | Some (vs, t) \<Rightarrow> Some (JArr vs, t))
     | [] \<Rightarrow> None)"
  unfolding Value_def Elems_def by (simp add: parse_value.simps(2))

lemma Value_quote: "Value (quote # r) = (case unquote r of None \<Rightarrow> None | Some (u, t) \<Rightarrow> Some (JStr u, t))"
  by (simp add: Value_def parse_value.simps(2)) (simp add: quote_def)

lemma Value_literal:
  "\<not> is_ws c \<Longrightarrow> c \<noteq> CHR ''{'' \<Longrightarrow> c \<noteq> CHR ''['' \<Longrightarrow> c \<noteq> quote \<Longrightarrow> Value (c # r) = parse_literal (c # r)"
  by (simp add: Value_def parse_value.simps(2))

lemma Elems_last: "Value s = Some (v, CHR '']'' # t) \<Longrightarrow> Elems s = Some ([v], t)"
  by (cases s) (simp_all add: Elems_def Value_def parse_elems.simps(2))

lemma Elems_more:
  assumes "Value s = Some (v, CHR '','' # t)" and "Elems t = Some (vs, u)"
  shows "Elems s = Some (v # vs, u)"
proof -
  have l: "Suc (length t) < length s" using parse_length(1) assms(1) unfolding Value_def by (metis list.size(4) add_Suc_right add_0_right)
  then obtain n where n: "length s = Suc n" "length t \<le> n" by (cases s) auto
  then have "parse_elems n t = Elems t" by (simp add: fuel_eq)
  with n assms show ?thesis by (simp add: Elems_def Value_def parse_elems.simps(2))
qed

lemma Members_key:
  assumes "valid_text k" and "Value r = Some (v, e # t)"
  shows "e = CHR ''}'' \<Longrightarrow> Members (quote_string k @ CHR '':'' # r) = Some ([(k, v)], t)"
    and "e = CHR '','' \<Longrightarrow> Members t = Some (kvs, u) \<Longrightarrow> Members (quote_string k @ CHR '':'' # r) = Some ((k, v) # kvs, u)"
proof -
  let ?s = "quote_string k @ CHR '':'' # r"
  define n where "n = length ?s - 1"
  have s: "?s = quote # quote_body k @ quote # CHR '':'' # r" by (simp add: quote_string_def)
  then have n: "length ?s = Suc n" "length r \<le> n" by (simp_all add: n_def)
  moreover have "Suc (length t) < length r" using parse_length(1) assms(2) unfolding Value_def by (metis list.size(4) add_Suc_right add_0_right)
  ultimately have f: "parse_value n r = Value r" "parse_members n t = Members t"
    by (simp_all add: fuel_eq)
  have m: "Members ?s = parse_members (Suc n) (quote # quote_body k @ quote # CHR '':'' # r)"
    using n(1) s by (simp add: Members_def)
  have "code_of quote = 34" by code_simp
  then show "e = CHR ''}'' \<Longrightarrow> Members ?s = Some ([(k, v)], t)"
    "e = CHR '','' \<Longrightarrow> Members t = Some (kvs, u) \<Longrightarrow> Members ?s = Some ((k, v) # kvs, u)"
    unfolding m by (simp_all add: parse_members.simps(2) unquote_quote_body [OF assms(1)] f assms(2))
qed

text \<open>The values the decoder makes: valid text, numbers that are numbers, maps in the order of their keys.\<close>

definition number_ok :: "string \<Rightarrow> bool" where
  "number_ok t \<longleftrightarrow> scan_number t = Some (t, [])"

text \<open>The first number literal that \<open>json.Marshal\<close> refuses.\<close>

fun bad_number :: "json \<Rightarrow> string option" where
  "bad_number (JNum t) = (if t = [] \<or> number_ok t then None else Some t)"
| "bad_number (JArr vs) = fold (\<lambda>x y. case y of Some t \<Rightarrow> Some t | None \<Rightarrow> x) (map bad_number vs) None"
| "bad_number (JObj m) = fold (\<lambda>x y. case y of Some t \<Rightarrow> Some t | None \<Rightarrow> x) (map (\<lambda>kv. bad_number (snd kv)) m) None"
| "bad_number _ = None"

fun json_ok :: "json \<Rightarrow> bool" where
  "json_ok (JNum t) = number_ok t"
| "json_ok (JStr s) = valid_text s"
| "json_ok (JArr vs) = list_all json_ok vs"
| "json_ok (JObj m) = (sorted_wrt (<) (map fst m) \<and> list_all (\<lambda>kv. valid_text (fst kv) \<and> json_ok (snd kv)) m)"
| "json_ok _ = True"

lemma obj_put_last: "list_all (\<lambda>kv. fst kv < k) m \<Longrightarrow> obj_put k v m = m @ [(k, v)]"
  by (induction m) (auto dest: order.asym)

lemma obj_of_sorted: "sorted_wrt (<) (map fst m) \<Longrightarrow> obj_of m = m"
proof (induction m rule: rev_induct)
  case (snoc kv m)
  then have "obj_of m = m" by (simp add: sorted_wrt_append)
  moreover have "list_all (\<lambda>x. fst x < fst kv) m" using snoc.prems by (auto simp: sorted_wrt_append list_all_iff)
  ultimately show ?case using obj_put_last [of "fst kv" m "snd kv"] by (simp add: obj_of_def case_prod_beta)
qed (simp add: obj_of_def)

lemma obj_put_keys: "fst ` set (obj_put k v m) = insert k (fst ` set m)"
  by (induction k v m rule: obj_put.induct) (simp_all add: insert_commute)

lemma obj_put_sorted: "sorted_wrt (<) (map fst m) \<Longrightarrow> sorted_wrt (<) (map fst (obj_put k v m))"
proof (induction m)
  case (Cons kv m)
  have "k' \<in> fst ` set (obj_put k v m) \<Longrightarrow> k' = k \<or> k' \<in> fst ` set m" for k' by (simp add: obj_put_keys)
  with Cons show ?case by (cases kv) (fastforce simp: image_iff)
qed simp

lemma set_obj_put: "set (obj_put k v m) \<subseteq> insert (k, v) (set m)"
  by (induction m) (auto split: if_splits)

lemma obj_of_snoc: "obj_of (kvs @ [(k, v)]) = obj_put k v (obj_of kvs)"
  by (simp add: obj_of_def)

lemma obj_of_ok: "sorted_wrt (<) (map fst (obj_of kvs)) \<and> set (obj_of kvs) \<subseteq> set kvs"
proof (induction kvs rule: rev_induct)
  case (snoc kv kvs)
  with obj_put_sorted [of "obj_of kvs"] set_obj_put [of "fst kv" "snd kv" "obj_of kvs"] show ?case
    by (cases kv) (auto simp: obj_of_snoc)
qed (simp add: obj_of_def)

lemma digit_not_ws: "is_digit c \<Longrightarrow> \<not> is_ws c"
proof -
  have "code_of c = int (of_char c)" by (simp add: code_of_def of_nat_of_char)
  then show "is_digit c \<Longrightarrow> \<not> is_ws c" by (auto simp: is_digit_def is_ws_def)
qed

lemma number_head:
  assumes "number_ok t" obtains c u where "t = c # u" "c = CHR ''-'' \<or> is_digit c" "\<not> is_ws c"
  using assms unfolding number_ok_def by (elim scan_number_head) (use digit_not_ws not_ws in blast)

lemma Marshal_head:
  assumes "json_ok v" obtains c r where "Marshal v = c # r" "\<not> is_ws c" "c \<noteq> CHR '']''" "c \<noteq> CHR ''}''"
proof (cases v)
  case (JNum t)
  with assms obtain c u where c: "t = c # u" "c = CHR ''-'' \<or> is_digit c" "\<not> is_ws c"
    using number_head by (metis json_ok.simps(1))
  moreover have "c \<noteq> CHR '']''" "c \<noteq> CHR ''}''" using c(2) is_digit_punct by auto
  ultimately show ?thesis using that JNum by auto
next
  case (JStr s)
  have "quote \<noteq> CHR '']''" "quote \<noteq> CHR ''}''" by (simp_all add: quote_def)
  with that JStr show ?thesis by (simp add: quote_string_def)
next
  case (JBool b)
  with that show ?thesis by (cases b) simp_all
qed (use that in simp_all)

lemma Elems_Marshal:
  assumes "vs \<noteq> []" and "\<And>v r. v \<in> set vs \<Longrightarrow> stop r \<Longrightarrow> Value (Marshal v @ r) = Some (v, r)"
  shows "Elems (commas (map Marshal vs) @ CHR '']'' # rest) = Some (vs, rest)"
  using assms
proof (induction vs rule: induct_list012)
  case (2 v)
  then show ?case by (simp add: Elems_last)
next
  case (3 v w vs)
  then have "Elems (commas (map Marshal (w # vs)) @ CHR '']'' # rest) = Some (w # vs, rest)" by simp
  moreover have "Value (Marshal v @ CHR '','' # commas (map Marshal (w # vs)) @ CHR '']'' # rest) =
      Some (v, CHR '','' # commas (map Marshal (w # vs)) @ CHR '']'' # rest)" by (rule "3.prems"(2)) simp_all
  ultimately show ?case using Elems_more by simp
qed simp

definition member :: "string \<times> json \<Rightarrow> string" where
  "member kv = quote_string (fst kv) @ CHR '':'' # Marshal (snd kv)"

lemma Members_Marshal:
  assumes "m \<noteq> []" and "\<And>kv r. kv \<in> set m \<Longrightarrow> stop r \<Longrightarrow> valid_text (fst kv) \<and> Value (Marshal (snd kv) @ r) = Some (snd kv, r)"
  shows "Members (commas (map member m) @ CHR ''}'' # rest) = Some (m, rest)"
  using assms
proof (induction m rule: induct_list012)
  case (2 kv)
  then have "valid_text (fst kv) \<and> Value (Marshal (snd kv) @ CHR ''}'' # rest) = Some (snd kv, CHR ''}'' # rest)"
    using "2.prems"(2) [of kv "CHR ''}'' # rest"] by simp
  then show ?case using Members_key(1) [of "fst kv" _ "snd kv" "CHR ''}''" rest] by (simp add: member_def)
next
  case (3 kv kw m)
  let ?t = "commas (map member (kw # m)) @ CHR ''}'' # rest"
  have "Members ?t = Some (kw # m, rest)" using 3 by simp
  moreover have "valid_text (fst kv) \<and> Value (Marshal (snd kv) @ CHR '','' # ?t) = Some (snd kv, CHR '','' # ?t)"
    by (rule "3.prems"(2)) simp_all
  ultimately have "Members (member kv @ CHR '','' # ?t) = Some (kv # kw # m, rest)"
    using Members_key(2) [of "fst kv" "Marshal (snd kv) @ CHR '','' # ?t" "snd kv" "CHR '',''" ?t]
    by (simp add: member_def [of kv])
  then show ?case by simp
qed simp

lemma Value_Marshal: "json_ok v \<Longrightarrow> stop r \<Longrightarrow> Value (Marshal v @ r) = Some (v, r)"
proof (induction v arbitrary: r)
  case JNull
  then show ?case by (simp add: Value_literal parse_literal_def strip_prefix_def quote_def)
next
  case (JBool b)
  then show ?case by (cases b) (simp_all add: Value_literal parse_literal_def strip_prefix_def quote_def)
next
  case (JNum t)
  then have n: "scan_number t = Some (t, [])" by (simp add: number_ok_def)
  obtain c u where c: "t = c # u" "c = CHR ''-'' \<or> is_digit c" "\<not> is_ws c" using number_head [of t] JNum by auto
  moreover have "\<not> is_digit (CHR ''{'')" "\<not> is_digit (CHR ''['')" "\<not> is_digit quote" by code_simp+
  ultimately have "Value (t @ r) = parse_literal (t @ r)" by (auto intro!: Value_literal simp: quote_def)
  with parse_literal_number [OF JNum.prems(2) n] c(1) show ?case by simp
next
  case (JStr s)
  then show ?case using unquote_quote_body [of s r] by (simp add: quote_string_def Value_quote)
next
  case (JArr vs)
  show ?case
  proof (cases vs)
    case (Cons v ws)
    obtain c u where c: "Marshal v = c # u" "\<not> is_ws c" "c \<noteq> CHR '']''"
      using JArr.prems(1) Cons by (auto elim: Marshal_head [of v])
    then have "skip_ws (commas (map Marshal vs) @ CHR '']'' # r) = commas (map Marshal vs) @ CHR '']'' # r"
      and "\<exists>w. commas (map Marshal vs) = c # w" using Cons by (cases ws; simp)+
    moreover have "Elems (commas (map Marshal vs) @ CHR '']'' # r) = Some (vs, r)"
      using JArr Cons by (intro Elems_Marshal) (auto simp: list_all_iff)
    ultimately show ?thesis using c(3) by (auto simp: Value_bracket)
  qed (simp add: Value_bracket)
next
  case (JObj m)
  have mem: "map (\<lambda>kv. quote_string (fst kv) @ CHR '':'' # Marshal (snd kv)) m = map member m" by (simp add: member_def)
  show ?case
  proof (cases m)
    case (Cons kv ms)
    then have "\<exists>w. commas (map member m) = quote # w" by (cases ms) (simp_all add: member_def quote_string_def)
    moreover have "Members (commas (map member m) @ CHR ''}'' # r) = Some (m, r)"
    proof (rule Members_Marshal)
      fix x s assume "x \<in> set m" "stop s"
      moreover have "snd x \<in> Basic_BNFs.snds x" by (rule Basic_BNFs.snds.intros)
      ultimately show "valid_text (fst x) \<and> Value (Marshal (snd x) @ s) = Some (snd x, s)"
        using JObj by (auto simp: list_all_iff)
    qed (use Cons in simp)
    moreover have "obj_of m = m" using JObj.prems(1) by (simp add: obj_of_sorted)
    moreover have "quote \<noteq> CHR ''}''" by (simp add: quote_def)
    ultimately show ?thesis unfolding Marshal.simps mem by (auto simp: Value_brace)
  qed (simp add: Value_brace)
qed

subsection \<open>What the decoder makes\<close>

definition starts :: "(char \<Rightarrow> bool) \<Rightarrow> string \<Rightarrow> bool" where
  "starts P s \<longleftrightarrow> (case s of [] \<Rightarrow> False | c # _ \<Rightarrow> P c)"

lemma starts_simps [simp]: "\<not> starts P []" "starts P (c # s) = P c"
  by (simp_all add: starts_def)

lemma starts_cases: "starts P s \<longleftrightarrow> (\<exists>c t. s = c # t \<and> P c)"
  by (cases s) simp_all

lemma scan_digits_again:
  assumes "scan_digits s = (ds, t)" and "\<not> starts is_digit x" shows "scan_digits (ds @ x) = (ds, x)"
proof -
  have "list_all is_digit ds" using assms(1) by (auto simp: scan_digits_def list_all_iff dest: set_takeWhileD)
  then show ?thesis using assms(2) by (induction ds) (cases x; simp add: scan_digits_def)+
qed

lemma scan_int_again:
  assumes "scan_int s = Some (i, t)" and "\<not> starts is_digit x" shows "scan_int (i @ x) = Some (i, x)"
proof (cases s)
  case (Cons c r)
  show ?thesis
  proof (cases "c = CHR ''0''")
    case False
    with assms(1) Cons have d: "is_digit c" "scan_digits s = (i, t)" by (auto simp: scan_int_def split: if_splits)
    moreover from this Cons have "\<exists>u. i = c # u" by (auto simp: scan_digits_def)
    ultimately show ?thesis using False scan_digits_again [OF d(2) assms(2)] by (auto simp: scan_int_def)
  qed (use assms Cons in \<open>auto simp: scan_int_def\<close>)
qed (use assms in \<open>simp add: scan_int_def\<close>)

lemma scan_frac_again:
  assumes "scan_frac s = Some (f, t)" and "\<not> starts is_digit x" and "\<not> starts ((=) (CHR ''.'')) x"
  shows "scan_frac (f @ x) = Some (f, x)"
proof (cases "f = []")
  case True
  with assms(3) show ?thesis by (cases x) (auto simp: scan_frac_def)
next
  case False
  then obtain r ds where s: "scan_digits r = (ds, t)" "ds \<noteq> []" "f = CHR ''.'' # ds"
    using assms(1) by (cases s) (auto simp: scan_frac_def split: if_splits prod.splits)
  with scan_digits_again [OF s(1) assms(2)] show ?thesis by (simp add: scan_frac_def)
qed

lemma scan_exp_again:
  assumes "scan_exp s = Some (e, t)" and "\<not> starts is_digit x" and "\<not> starts (\<lambda>c. c = CHR ''e'' \<or> c = CHR ''E'') x"
  shows "scan_exp (e @ x) = Some (e, x)"
proof (cases "e = []")
  case True
  with assms(3) show ?thesis by (cases x) (simp_all add: scan_exp_def)
next
  case False
  then obtain c r sg u ds where s: "s = c # r" "c = CHR ''e'' \<or> c = CHR ''E''" "scan_sign r = (sg, u)" "scan_digits u = (ds, t)"
    "ds \<noteq> []" "e = c # sg @ ds"
    using assms(1) by (cases s) (auto simp: scan_exp_def split: if_splits prod.splits)
  then have d: "scan_digits (ds @ x) = (ds, x)" using scan_digits_again assms(2) by blast
  have "\<exists>y z. ds = y # z \<and> is_digit y" using s(4,5) by (cases u) (auto simp: scan_digits_def split: if_splits)
  moreover have "\<not> is_digit (CHR ''+'')" "\<not> is_digit (CHR ''-'')" by code_simp+
  ultimately have "scan_sign (sg @ ds @ x) = (sg, ds @ x)"
    using s(3) by (cases r) (auto simp: scan_sign_def split: if_splits)
  with s d show ?thesis by (auto simp: scan_exp_def)
qed

lemma number_ok_scan:
  assumes "scan_number s = Some (t, r)" shows "number_ok t"
proof -
  obtain m s1 i s2 f s3 e where s: "scan_minus s = (m, s1)" "scan_int s1 = Some (i, s2)" "scan_frac s2 = Some (f, s3)"
    "scan_exp s3 = Some (e, r)" "t = m @ i @ f @ e"
    using assms by (auto simp: scan_number_def split: prod.splits option.splits)
  have e: "e = [] \<or> starts (\<lambda>c. c = CHR ''e'' \<or> c = CHR ''E'') e"
    using s(4) by (cases s3) (auto simp: scan_exp_def split: if_splits prod.splits)
  have f: "f = [] \<or> starts ((=) (CHR ''.'')) f"
    using s(3) by (cases s2) (auto simp: scan_frac_def split: if_splits prod.splits)
  have nd: "\<not> is_digit (CHR ''.'')" "\<not> is_digit (CHR ''e'')" "\<not> is_digit (CHR ''E'')" "\<not> is_digit (CHR ''-'')" by code_simp+
  have ed: "\<not> starts is_digit e" "\<not> starts ((=) (CHR ''.'')) e" using e nd by (auto simp: starts_cases)
  then have fd: "\<not> starts is_digit (f @ e)" using f nd by (auto simp: starts_cases)
  have i: "i \<noteq> [] \<and> (\<exists>c u. i = c # u \<and> c \<noteq> CHR ''-'')"
    using s(2) nd by (cases s1) (auto simp: scan_int_def scan_digits_def split: if_splits)
  have "scan_minus (m @ i @ f @ e) = (m, i @ f @ e)"
    using s(1) i by (cases s) (auto simp: scan_minus_def split: if_splits)
  moreover have "scan_int (i @ f @ e) = Some (i, f @ e)" using scan_int_again [OF s(2) fd] .
  moreover have "scan_frac (f @ e) = Some (f, e)" using scan_frac_again [OF s(3) ed] .
  moreover have "scan_exp e = Some (e, [])" using scan_exp_again [OF s(4), of "[]"] by simp
  ultimately show ?thesis by (simp add: number_ok_def scan_number_def s(5))
qed

lemma valid_rune_error [simp]: "valid_rune RuneError"
  by (simp add: valid_rune_def RuneError_def)

lemma rune_of_3: "224 \<le> a \<Longrightarrow> a < 240 \<Longrightarrow> cont b \<Longrightarrow> cont c \<Longrightarrow> (a = 224 \<longrightarrow> 160 \<le> b) \<Longrightarrow> (a = 237 \<longrightarrow> b < 160) \<Longrightarrow>
    valid_rune ((a - 224) * 4096 + (b - 128) * 64 + (c - 128))"
  by (cases "a \<le> 236"; cases "a = 237") (auto simp: valid_rune_def cont_def)

lemma astral_valid: "0x10000 \<le> r \<Longrightarrow> r < 0x110000 \<Longrightarrow> valid_rune r"
  by (simp add: valid_rune_def)

lemma rune_of_4: "240 \<le> a \<Longrightarrow> a < 245 \<Longrightarrow> cont b \<Longrightarrow> cont c \<Longrightarrow> cont d \<Longrightarrow> (a = 240 \<longrightarrow> 144 \<le> b) \<Longrightarrow> (a = 244 \<longrightarrow> b < 144) \<Longrightarrow>
    valid_rune ((a - 240) * 262144 + (b - 128) * 4096 + (c - 128) * 64 + (d - 128))"
proof -
  assume a: "240 \<le> a" "a < 245" and "cont b" "cont c" "cont d" and lo: "a = 240 \<longrightarrow> 144 \<le> b" and hi: "a = 244 \<longrightarrow> b < 144"
  then have b: "128 \<le> b" "b < 192" "128 \<le> c" "c < 192" "128 \<le> d" "d < 192" by (simp_all add: cont_def)
  have "0x10000 \<le> (a - 240) * 262144 + (b - 128) * 4096 + (c - 128) * 64 + (d - 128)"
    using a(1) b lo by (cases "a = 240") simp_all
  moreover have "(a - 240) * 262144 + (b - 128) * 4096 + (c - 128) * 64 + (d - 128) < 0x110000"
    using a(2) b hi by (cases "a = 244") simp_all
  ultimately show ?thesis by (rule astral_valid)
qed

lemma rune_of_2: "194 \<le> a \<Longrightarrow> a < 224 \<Longrightarrow> cont b \<Longrightarrow> valid_rune ((a - 192) * 64 + (b - 128))"
  by (simp add: valid_rune_def cont_def)

lemma fst_if: "(p \<Longrightarrow> valid_rune (fst x)) \<Longrightarrow> (\<not> p \<Longrightarrow> valid_rune (fst y)) \<Longrightarrow> valid_rune (fst (if p then x else y))"
  by simp

lemma byte_at_nonneg: "0 \<le> byte_at s i"
  using of_nat_0_le_iff [where 'a = int] by (metis byte_at_def of_nat_of_char order_refl)

lemma DecodeRune_valid: "valid_rune (fst (DecodeRune s))"
  unfolding DecodeRune_def Let_def
proof (intro fst_if, unfold fst_conv)
  show "byte_at s 0 < 128 \<Longrightarrow> valid_rune (byte_at s 0)" using byte_at_nonneg [of s 0] by (simp add: valid_rune_def)
qed (((elim conjE)?, (rule rune_of_2 rune_of_3 rune_of_4 valid_rune_error; assumption))+)

lemma decoded_valid: "DecodeRune s = (r, n) \<Longrightarrow> valid_rune r \<and> 0 < n"
  using DecodeRune_valid [of s] DecodeRune_pos [of s] by simp

lemma hex4_range: "hex4 s = Some (r, t) \<Longrightarrow> 0 \<le> r \<and> r < 65536"
proof -
  have h: "hex_val c = Some n \<Longrightarrow> 0 \<le> n \<and> n < 16" for c n by (auto simp: hex_val_def Let_def split: if_splits)
  show "hex4 s = Some (r, t) \<Longrightarrow> 0 \<le> r \<and> r < 65536"
    by (cases s rule: hex4.cases) (auto split: option.splits dest!: h)
qed

lemma low_pair_valid: "0xD800 \<le> r \<Longrightarrow> r < 0xE000 \<Longrightarrow> low_pair r s = Some (d, t) \<Longrightarrow> valid_rune d"
  by (auto simp: low_pair_def valid_rune_def split: list.splits if_splits option.splits)

lemma valid_text_rune: "valid_rune r \<Longrightarrow> valid_text s \<Longrightarrow> valid_text (utf8_rune r @ s)"
  by (metis list.pred_inject(2) utf8_simps(2) valid_text_cases valid_text_utf8)

lemma valid_text_Nil [simp]: "valid_text []"
  by (simp add: valid_text_def)

lemma simple_escape_ascii: "simple_escape e = Some d \<Longrightarrow> 0 \<le> code_of d \<and> code_of d < 128"
proof -
  have "list_all (\<lambda>d. 0 \<le> code_of d \<and> code_of d < 128)
      [quote, backslash, CHR ''/'', char_of (8::nat), char_of (12::nat), char_of (10::nat), char_of (13::nat), char_of (9::nat)]"
    by code_simp
  then show "simple_escape e = Some d \<Longrightarrow> 0 \<le> code_of d \<and> code_of d < 128"
    by (simp add: simple_escape_def split: if_splits)
qed

lemma unquote_valid: "unquote s = Some (t, r) \<Longrightarrow> valid_text t"
proof (induction s arbitrary: t rule: measure_induct_rule [where f = length])
  case (less s)
  show ?case
  proof (cases s)
    case (Cons c cs)
    have ih: "unquote u = Some (v, r) \<Longrightarrow> length u < length (c # cs) \<Longrightarrow> valid_text v" for u v
      using less.IH Cons by simp
    have esc: "valid_text (d # v)" if "simple_escape e = Some d" "valid_text v" for e d v
    proof -
      have "0 \<le> code_of d" "code_of d < 128" using simple_escape_ascii [OF that(1)] by simp_all
      then have "valid_rune (code_of d)" "utf8_rune (code_of d) = [d]"
        by (simp_all add: valid_rune_def utf8_rune_ascii) (simp add: code_of_def)
      then show ?thesis using valid_text_rune [of "code_of d" v] that(2) by simp
    qed
    show ?thesis
    proof (cases "c = quote \<or> c \<noteq> backslash")
      case True
      with less.prems show ?thesis
        unfolding Cons unquote.simps(2)
        by (auto simp: put_text_Some split: if_splits prod.splits dest: decoded_valid intro!: valid_text_rune elim!: ih)
    next
      case False
      then obtain e es where e: "cs = e # es" using less.prems Cons by (cases cs) (auto simp: unquote.simps(2))
      show ?thesis
      proof (cases "simple_escape e")
        case (Some d)
        with less.prems False show ?thesis unfolding Cons e unquote.simps(2)
          by (auto simp: put_text_Some e intro!: esc [OF Some] elim!: ih)
      next
        case None
        then obtain r0 u where h: "hex4 es = Some (r0, u)" using less.prems False unfolding Cons e unquote.simps(2)
          by (auto split: if_splits option.splits)
        have len: "length u < length es" using hex4_length [OF h] by simp
        moreover have "low_pair r0 u = Some (d, w) \<Longrightarrow> length w < length u" for d w by (rule low_pair_length)
        ultimately show ?thesis using less.prems False None h hex4_range [OF h] low_pair_valid [of r0 u]
          unfolding Cons e unquote.simps(2)
          by (cases "low_pair r0 u") (auto simp: put_text_Some e valid_rune_def [of r0] split: if_splits intro!: valid_text_rune elim!: ih)
      qed
    qed
  qed (use less.prems in simp)
qed

lemma parse_literal_ok: "parse_literal s = Some (v, r) \<Longrightarrow> json_ok v"
  by (auto simp: parse_literal_def split: option.splits dest: number_ok_scan)

definition member_ok :: "string \<times> json \<Rightarrow> bool" where
  "member_ok kv \<longleftrightarrow> valid_text (fst kv) \<and> json_ok (snd kv)"

lemma json_ok_obj_of: "list_all member_ok kvs \<Longrightarrow> json_ok (JObj (obj_of kvs))"
  using obj_of_ok [of kvs] by (auto simp: list_all_iff member_ok_def)

lemma parse_ok:
  "\<forall>s. (\<forall>v r. parse_value n s = Some (v, r) \<longrightarrow> json_ok v) \<and> (\<forall>vs r. parse_elems n s = Some (vs, r) \<longrightarrow> list_all json_ok vs) \<and>
     (\<forall>kvs r. parse_members n s = Some (kvs, r) \<longrightarrow> list_all member_ok kvs)"
proof (induction n)
  case (Suc n)
  have ve: "parse_value n s = Some (v, r) \<Longrightarrow> json_ok v" and ee: "parse_elems n s = Some (vs, r) \<Longrightarrow> list_all json_ok vs"
    and me: "parse_members n s = Some (kvs, r) \<Longrightarrow> list_all member_ok kvs" for s v vs kvs r
    using Suc.IH by blast+
  have sv: "parse_value (Suc n) s = Some (v, r) \<Longrightarrow> json_ok v" for s v r
    unfolding parse_value.simps
    by (auto split: list.splits if_splits option.splits simp del: json_ok.simps(4)
        dest: unquote_valid parse_literal_ok ee me json_ok_obj_of) simp
  have se: "parse_elems (Suc n) s = Some (vs, r) \<Longrightarrow> list_all json_ok vs" for s vs r
    unfolding parse_elems.simps
    by (auto split: list.splits if_splits option.splits dest!: sv ee)
  have sm: "parse_members (Suc n) s = Some (kvs, r) \<Longrightarrow> list_all member_ok kvs" for s kvs r
    unfolding parse_members.simps
    by (auto split: list.splits if_splits option.splits simp: member_ok_def dest!: unquote_valid ve me)
  show ?case using sv se sm by blast
qed simp

lemma DecodeToolInput_ok:
  assumes "DecodeToolInput raw = Inr m"
  shows "json_ok (JObj m) \<and> jsonDepth (JObj m) 1 \<le> MaxToolInputDepth"
proof (cases "raw = []")
  case True
  with assms show ?thesis by (simp add: DecodeToolInput_def MaxToolInputDepth_def)
next
  case False
  with assms obtain r where "parse_value (length raw) raw = Some (JObj m, r)" "\<not> jsonDepth (JObj m) 1 > MaxToolInputDepth"
    by (auto simp: DecodeToolInput_def split: if_splits option.splits json.splits)
  with parse_ok show ?thesis by (metis not_le)
qed

lemma DecodeToolInput_Marshal:
  assumes "json_ok (JObj m)" and "jsonDepth (JObj m) 1 \<le> MaxToolInputDepth" and "int (length (Marshal (JObj m))) \<le> MaxToolInputBytes"
  shows "DecodeToolInput (Marshal (JObj m)) = Inr m"
proof -
  have "Marshal (JObj m) \<noteq> []" by simp
  with assms Value_Marshal [of "JObj m" "[]"] show ?thesis
    by (simp add: DecodeToolInput_def fuel_eq skip_ws_def del: Marshal.simps jsonDepth.simps json_ok.simps)
qed

text \<open>C40: Tool inputs survive the way back to the provider.  What the guard accepts is a JSON object nested at most 32
  deep; marshalled into the next request and decoded again, it is the same object, as long as its text (escapes
  can make it longer than the one the model sent) is within the limit of 256 KB.\<close>

theorem tool_input_roundtrip:
  assumes "DecodeToolInput raw = Inr m"
  shows "jsonDepth (JObj m) 1 \<le> 32 \<and>
    DecodeToolInput (Marshal (JObj m)) = (if int (length (Marshal (JObj m))) \<le> 262144 then Inr m else Inl ErrDecodeFailed)"
proof (cases "int (length (Marshal (JObj m))) \<le> 262144")
  case True
  with DecodeToolInput_ok [OF assms] DecodeToolInput_Marshal [of m] show ?thesis
    by (simp add: MaxToolInputDepth_def MaxToolInputBytes_def del: Marshal.simps jsonDepth.simps json_ok.simps)
next
  case False
  have "Marshal (JObj m) \<noteq> []" by simp
  with False DecodeToolInput_ok [OF assms] show ?thesis
    by (simp add: DecodeToolInput_def [of "Marshal (JObj m)"] MaxToolInputDepth_def MaxToolInputBytes_def del: Marshal.simps jsonDepth.simps json_ok.simps)
qed

definition demo_input :: string where
  "demo_input = map (\<lambda>c. if c = CHR ''~'' then quote else c) '' {~table~ : ~a<b~, ~limit~:[10, -2.5e3], ~table~:null}''"

theorem tool_input_roundtrip_witness:
  "\<exists>m. DecodeToolInput demo_input = Inr m \<and> DecodeToolInput (Marshal (JObj m)) = Inr m"
proof -
  let ?m = "[(''limit'', JArr [JNum ''10'', JNum ''-2.5e3'']), (''table'', JNull)]"
  have "DecodeToolInput demo_input = Inr ?m" by code_simp
  moreover have "int (length (Marshal (JObj ?m))) \<le> 262144" by code_simp
  ultimately show ?thesis using tool_input_roundtrip [of demo_input ?m] by metis
qed

end
