(* ===== verification/ProviderStream.thy ===== *)
theory ProviderStream
  imports Json
begin

text \<open>
  The streams of the two provider adapters, \<open>internal/domain/llm/openai/stream.go\<close> and
  \<open>internal/domain/llm/anthropic/stream.go\<close>: how the events of a vendor SDK become the chunks the diagnose loop
  reads.  An SDK stream is the list of the events it still yields and the error it ends with; of an event the
  fields the adapters read are kept.  Tool calls arrive in fragments, keyed by an index, and are put together
  in a map (ordered by index, which is the order \<open>slices.Sort\<close> gives the keys).
\<close>

subsection \<open>Errors\<close>

definition ErrUnavailable :: go_error where
  "ErrUnavailable = Structured ''LLM.UNAVAILABLE''
     (''LLM provider '' @ utf8 [19981, 21487, 29992] @ '' ('' @ utf8 [26410, 30693] @ '' provider / ''
       @ utf8 [36830, 25509, 22833, 36133] @ '' / '' @ utf8 [37197, 32622, 32570, 22833] @ '')'')
     (utf8 [26816, 26597] @ '' config model.provider ''
       @ utf8 [26159, 21542, 21463, 25903, 25345, 19988, 32593, 32476, 21487, 36798] @ ''; opendbx ''
       @ utf8 [19981, 20250, 38477, 32423, 21040, 35268, 21017] @ '', LLM ''
       @ utf8 [26159, 21807, 19968, 25512, 29702, 28304]) None"

definition ErrAuthFailed :: go_error where
  "ErrAuthFailed = Structured ''LLM.AUTH_FAILED''
     (''LLM API key '' @ utf8 [32570, 22833, 25110, 26080, 25928])
     (utf8 [35774, 32622] @ '' OPENDBX_LLM_API_KEY '' @ utf8 [29615, 22659, 21464, 37327, 25110]
       @ '' config llm.api_key / models[].api_key; '' @ utf8 [30830, 35748] @ '' key ''
       @ utf8 [26410, 36807, 26399]) None"

definition ErrContentFiltered :: go_error where
  "ErrContentFiltered = Structured ''LLM.CONTENT_FILTERED''
     (''LLM '' @ utf8 [24179, 21488, 20869, 23481, 36807, 28388, 25318, 25130, 36755, 20986]
       @ '' (content_filter)'')
     (utf8 [27169, 22411, 36755, 20986, 34987, 24179, 21488, 23433, 20840, 36807, 28388, 25318, 25130]
       @ ''; '' @ utf8 [35843, 25972] @ '' prompt '' @ utf8 [25514, 36766, 25110, 25442, 27169, 22411]
       @ ''; '' @ utf8 [19982] @ '' provider refusal '' @ utf8 [19981, 21516]) None"

text \<open>The error of a stream: one in whose chain \<open>errors.As\<close> finds an API error of the SDK, with its HTTP status, or any
  other.  Both adapters classify it in the same way.\<close>

datatype stream_error = ApiError int | OtherError go_error

definition classifyStreamErr :: "stream_error option \<Rightarrow> go_error option" where
  "classifyStreamErr e =
     (case e of
        None \<Rightarrow> None
      | Some (ApiError status) \<Rightarrow>
          Some (if status \<in> {400, 422} then ErrRequestInvalid
                else if status \<in> {401, 403} then ErrAuthFailed
                else if status = 408 then ErrTimeout
                else ErrUnavailable)
      | Some (OtherError err) \<Rightarrow> Some err)"

subsection \<open>Putting tool calls together\<close>

record tool_block =
  tb_id :: string
  tb_name :: string
  tb_buf :: string

type_synonym tool_acc = "(int \<times> tool_block) list"
type_synonym chunk = "go_map llm_chunk"
type_synonym tool_use = "go_map llm_tool_use"

definition empty_chunk :: chunk where
  "empty_chunk = \<lparr>lc_Token = [], lc_Thinking = False, lc_FinishReason = FinishUnset, lc_ToolUses = [], lc_Err = None\<rparr>"

fun decode_blocks :: "tool_acc \<Rightarrow> go_error + tool_use list" where
  "decode_blocks [] = Inr []"
| "decode_blocks ((k, tb) # acc) =
     (case DecodeToolInput (tb_buf tb) of
        Inl e \<Rightarrow> Inl e
      | Inr input \<Rightarrow>
          (case decode_blocks acc of
             Inl e \<Rightarrow> Inl e
           | Inr out \<Rightarrow> Inr (\<lparr>lu_ID = tb_id tb, lu_Name = tb_name tb, lu_Input = Some input\<rparr> # out)))"

definition decodeTools :: "tool_acc \<Rightarrow> go_error + tool_use list" where
  "decodeTools acc = (if acc = [] then Inr [] else decode_blocks acc)"

definition append_block :: "int \<Rightarrow> tool_block \<Rightarrow> string \<Rightarrow> tool_acc \<Rightarrow> tool_acc \<times> stream_error option" where
  "append_block k tb part acc =
     (if int (length (tb_buf tb)) + int (length part) > MaxToolInputBytes
      then (obj_put k tb acc, Some (OtherError ErrDecodeFailed))
      else (obj_put k (tb\<lparr>tb_buf := tb_buf tb @ part\<rparr>) acc, None))"

subsection \<open>The OpenAI adapter\<close>

record oa_tool_call =
  ot_Index :: int
  ot_ID :: string
  ot_Name :: string
  ot_Arguments :: string

text \<open>\<open>od_Reasoning\<close> is the raw JSON of the extra field \<open>reasoning_content\<close>, \<open>None\<close> when it is absent.\<close>

record oa_delta =
  od_Reasoning :: "string option"
  od_Refusal :: string
  od_Content :: string
  od_ToolCalls :: "oa_tool_call list"

record oa_choice =
  oc_Delta :: oa_delta
  oc_FinishReason :: string

definition maxReasoningChunkBytes :: int where "maxReasoningChunkBytes = 64 * 1024"

definition reasoningContent :: "oa_delta \<Rightarrow> string" where
  "reasoningContent d =
     (case od_Reasoning d of
        None \<Rightarrow> []
      | Some raw \<Rightarrow>
          if raw = [] \<or> raw = ''null'' \<or> int (length raw) > maxReasoningChunkBytes then []
          else (case parse_value (length raw) raw of
             Some (JStr rc, rest) \<Rightarrow> if skip_ws rest = [] then rc else []
           | _ \<Rightarrow> []))"

definition accumulateToolCall :: "oa_tool_call \<Rightarrow> tool_acc \<Rightarrow> tool_acc \<times> stream_error option" where
  "accumulateToolCall tc acc =
     (case (map_of acc (ot_Index tc), int (length acc) \<ge> MaxToolBlocks) of
        (None, True) \<Rightarrow> (acc, Some (OtherError ErrDecodeFailed))
      | (found, _) \<Rightarrow>
          let tb0 = (case found of Some tb \<Rightarrow> tb | None \<Rightarrow> \<lparr>tb_id = [], tb_name = [], tb_buf = []\<rparr>);
              tb1 = (if ot_ID tc \<noteq> [] then tb0\<lparr>tb_id := ot_ID tc\<rparr> else tb0);
              tb2 = (if ot_Name tc \<noteq> [] then tb1\<lparr>tb_name := ot_Name tc\<rparr> else tb1)
          in append_block (ot_Index tc) tb2 (ot_Arguments tc) acc)"

text \<open>The loop over the tool calls of one event, left at the first error.\<close>

fun accumulate_all :: "oa_tool_call list \<Rightarrow> tool_acc \<Rightarrow> tool_acc \<times> stream_error option" where
  "accumulate_all [] acc = (acc, None)"
| "accumulate_all (tc # tcs) acc =
     (case accumulateToolCall tc acc of
        (acc1, Some e) \<Rightarrow> (acc1, Some e)
      | (acc1, None) \<Rightarrow> accumulate_all tcs acc1)"

definition failed :: "go_error \<Rightarrow> chunk" where
  "failed e = empty_chunk\<lparr>lc_FinishReason := FinishError, lc_Err := Some e\<rparr>"

definition mapFinish :: "string \<Rightarrow> tool_acc \<Rightarrow> chunk" where
  "mapFinish fr acc =
     (if fr = ''stop'' then empty_chunk\<lparr>lc_FinishReason := FinishStop\<rparr>
      else if fr = ''length'' then empty_chunk\<lparr>lc_FinishReason := FinishLength\<rparr>
      else if fr = ''tool_calls'' then
        (case decodeTools acc of
           Inl e \<Rightarrow> failed e
         | Inr tools \<Rightarrow>
             if tools = [] then failed ErrDecodeFailed
             else empty_chunk\<lparr>lc_FinishReason := FinishToolUse, lc_ToolUses := tools\<rparr>)
      else if fr = ''function_call'' then failed ErrDecodeFailed
      else if fr = ''content_filter'' then failed ErrContentFiltered
      else failed ErrDecodeFailed)"

text \<open>One event: the chunk it emits, if any, the tool calls so far, and the error of the guards.\<close>

definition mapChunk :: "oa_choice list \<Rightarrow> tool_acc \<Rightarrow> chunk option \<times> tool_acc \<times> stream_error option" where
  "mapChunk choices acc =
     (case choices of
        [] \<Rightarrow> (None, acc, None)
      | choice # _ \<Rightarrow>
          let delta = oc_Delta choice; rc = reasoningContent delta in
          if rc \<noteq> [] then (Some (empty_chunk\<lparr>lc_Token := rc, lc_Thinking := True\<rparr>), acc, None)
          else if od_Refusal delta \<noteq> []
          then (Some (empty_chunk\<lparr>lc_FinishReason := FinishRefusal, lc_Err := Some ErrProviderRefusal\<rparr>), acc, None)
          else if od_Content delta \<noteq> [] then (Some (empty_chunk\<lparr>lc_Token := od_Content delta\<rparr>), acc, None)
          else (case accumulate_all (od_ToolCalls delta) acc of
             (acc1, Some e) \<Rightarrow> (None, acc1, Some e)
           | (acc1, None) \<Rightarrow>
               if oc_FinishReason choice \<noteq> [] then (Some (mapFinish (oc_FinishReason choice) acc1), acc1, None)
               else (None, acc1, None)))"

subsection \<open>The Anthropic adapter\<close>

record an_event =
  ae_Type :: string
  ae_Index :: int
  ae_BlockType :: string
  ae_BlockID :: string
  ae_BlockName :: string
  ae_DeltaType :: string
  ae_Text :: string
  ae_Thinking :: string
  ae_PartialJSON :: string
  ae_StopReason :: string

definition mapStopReason :: "string \<Rightarrow> finish_reason" where
  "mapStopReason sr =
     (if sr = ''end_turn'' then FinishStop
      else if sr = ''max_tokens'' then FinishLength
      else if sr = ''tool_use'' then FinishToolUse
      else if sr = ''stop_sequence'' then FinishStopSequence
      else if sr = ''pause_turn'' then FinishPause
      else if sr = ''refusal'' then FinishRefusal
      else if sr = [] then FinishUnset
      else FinishStop)"

definition block_delta :: "an_event \<Rightarrow> tool_acc \<Rightarrow> chunk option \<times> tool_acc \<times> stream_error option" where
  "block_delta ev acc =
     (if ae_DeltaType ev = ''text_delta'' then (Some (empty_chunk\<lparr>lc_Token := ae_Text ev\<rparr>), acc, None)
      else if ae_DeltaType ev = ''thinking_delta''
      then (Some (empty_chunk\<lparr>lc_Token := ae_Thinking ev, lc_Thinking := True\<rparr>), acc, None)
      else if ae_DeltaType ev = ''input_json_delta'' then
        (case map_of acc (ae_Index ev) of
           None \<Rightarrow> (None, acc, None)
         | Some tb \<Rightarrow> (None, append_block (ae_Index ev) tb (ae_PartialJSON ev) acc))
      else (None, acc, None))"

definition mapEvent :: "an_event \<Rightarrow> tool_acc \<Rightarrow> chunk option \<times> tool_acc \<times> stream_error option" where
  "mapEvent ev acc =
     (if ae_Type ev = ''content_block_start'' then
        (if ae_BlockType ev = ''tool_use'' then
           (if int (length acc) \<ge> MaxToolBlocks then (None, acc, Some (OtherError ErrDecodeFailed))
            else (None, obj_put (ae_Index ev) \<lparr>tb_id = ae_BlockID ev, tb_name = ae_BlockName ev, tb_buf = []\<rparr> acc, None))
         else (None, acc, None))
      else if ae_Type ev = ''content_block_delta'' then block_delta ev acc
      else if ae_Type ev = ''message_delta'' then
        (let fr = mapStopReason (ae_StopReason ev) in
         if fr = FinishToolUse then
           (case decodeTools acc of
              Inl e \<Rightarrow> (Some (failed e), acc, None)
            | Inr tools \<Rightarrow> (Some (empty_chunk\<lparr>lc_FinishReason := fr, lc_ToolUses := tools\<rparr>), acc, None))
         else (Some (empty_chunk\<lparr>lc_FinishReason := fr\<rparr>), acc, None))
      else (None, acc, None))"

subsection \<open>The iterator\<close>

text \<open>\<open>stream\<close> of both adapters, over the function that maps one event.\<close>

record 'e pstream =
  ps_sdk :: "'e list"
  ps_end :: "stream_error option"
  ps_cur :: chunk
  ps_err :: "stream_error option"
  ps_done :: bool
  ps_acc :: tool_acc

type_synonym 'e mapper = "'e \<Rightarrow> tool_acc \<Rightarrow> chunk option \<times> tool_acc \<times> stream_error option"

definition newStream :: "'e list \<Rightarrow> stream_error option \<Rightarrow> 'e pstream" where
  "newStream es end_err = \<lparr>ps_sdk = es, ps_end = end_err, ps_cur = empty_chunk, ps_err = None, ps_done = False, ps_acc = []\<rparr>"

fun sdk_loop :: "'e mapper \<Rightarrow> 'e list \<Rightarrow> 'e pstream \<Rightarrow> 'e pstream \<times> bool" where
  "sdk_loop f [] s =
     (s\<lparr>ps_sdk := [], ps_err := (case ps_end s of Some e \<Rightarrow> Some e | None \<Rightarrow> ps_err s), ps_done := True\<rparr>, False)"
| "sdk_loop f (e # es) s =
     (case f e (ps_acc s) of
        (_, acc, Some err) \<Rightarrow> (s\<lparr>ps_sdk := es, ps_acc := acc, ps_err := Some err, ps_done := True\<rparr>, False)
      | (Some c, acc, None) \<Rightarrow> (s\<lparr>ps_sdk := es, ps_acc := acc, ps_cur := c\<rparr>, True)
      | (None, acc, None) \<Rightarrow> sdk_loop f es (s\<lparr>ps_sdk := es, ps_acc := acc\<rparr>))"

definition Stream_Next :: "'e mapper \<Rightarrow> 'e pstream \<Rightarrow> 'e pstream \<times> bool" where
  "Stream_Next f s = (if ps_done s \<or> ps_err s \<noteq> None then (s, False) else sdk_loop f (ps_sdk s) s)"

definition Stream_Err :: "'e pstream \<Rightarrow> go_error option" where
  "Stream_Err s = classifyStreamErr (ps_err s)"

text \<open>A consumer that reads the stream to its end: the chunks it saw, and the state it left.\<close>

lemma sdk_loop_shorter: "sdk_loop f es s = (s', True) \<Longrightarrow> length (ps_sdk s') < length es"
  by (induction f es s rule: sdk_loop.induct) (force split: prod.splits option.splits)+

function drain :: "'e mapper \<Rightarrow> 'e pstream \<Rightarrow> chunk list \<times> 'e pstream" where
  "drain f s =
     (case Stream_Next f s of
        (s', False) \<Rightarrow> ([], s')
      | (s', True) \<Rightarrow> (case drain f s' of (cs, t) \<Rightarrow> (ps_cur s' # cs, t)))"
  by pat_completeness auto
termination
  by (relation "measure (\<lambda>(f, s). length (ps_sdk s))")
    (auto simp: Stream_Next_def split: if_splits dest!: sym [where s = "(_, True)"] sdk_loop_shorter)

declare drain.simps [simp del]

subsection \<open>Reading a stream to its end\<close>

text \<open>What a reader of the whole stream gets, event by event.\<close>

fun events :: "'e mapper \<Rightarrow> 'e list \<Rightarrow> tool_acc \<Rightarrow> chunk list \<times> tool_acc \<times> stream_error option" where
  "events f [] acc = ([], acc, None)"
| "events f (e # es) acc =
     (case f e acc of
        (_, acc1, Some err) \<Rightarrow> ([], acc1, Some err)
      | (Some c, acc1, None) \<Rightarrow> (case events f es acc1 of (cs, r) \<Rightarrow> (c # cs, r))
      | (None, acc1, None) \<Rightarrow> events f es acc1)"

definition stop_error :: "stream_error option \<Rightarrow> stream_error option \<Rightarrow> stream_error option" where
  "stop_error end_err err = (case err of Some e \<Rightarrow> Some e | None \<Rightarrow> end_err)"

lemma drain_ended: "ps_done s \<Longrightarrow> drain f s = ([], s)"
  by (subst drain.simps) (simp add: Stream_Next_def)

lemma drain_events:
  assumes "\<not> ps_done s" and "ps_err s = None" and "events f (ps_sdk s) (ps_acc s) = (cs, acc, err)"
  shows "\<exists>t. drain f s = (cs, t) \<and> ps_acc t = acc \<and> ps_err t = stop_error (ps_end s) err \<and> ps_done t"
  using assms
proof (induction "ps_sdk s" arbitrary: s cs)
  case Nil
  then show ?case
    by (subst drain.simps) (auto simp: Stream_Next_def stop_error_def split: option.splits)
next
  case (Cons e es)
  then have sdk: "ps_sdk s = e # es" by simp
  obtain c acc1 err1 where f: "f e (ps_acc s) = (c, acc1, err1)" by (cases "f e (ps_acc s)") auto
  show ?case
  proof (cases err1)
    case (Some x)
    with Cons.prems f sdk show ?thesis
      by (subst drain.simps) (cases c; auto simp: Stream_Next_def stop_error_def)
  next
    case None
    show ?thesis
    proof (cases c)
      case None
      let ?s1 = "s\<lparr>ps_sdk := es, ps_acc := acc1\<rparr>"
      have "events f (ps_sdk ?s1) (ps_acc ?s1) = (cs, acc, err)" using Cons.prems(3) sdk f None \<open>err1 = None\<close> by simp
      moreover have "Stream_Next f s = Stream_Next f ?s1"
        using Cons.prems(1,2) sdk f None \<open>err1 = None\<close> by (simp add: Stream_Next_def)
      then have "drain f s = drain f ?s1" by (subst (1 2) drain.simps) simp
      ultimately show ?thesis using Cons.hyps(1) [of ?s1 cs] Cons.prems(1,2) by simp
    next
      case (Some x)
      let ?s1 = "s\<lparr>ps_sdk := es, ps_acc := acc1, ps_cur := x\<rparr>"
      obtain ds where d: "events f es acc1 = (ds, acc, err)" "cs = x # ds"
        using Cons.prems(3) sdk f Some \<open>err1 = None\<close> by (auto split: prod.splits)
      have "Stream_Next f s = (?s1, True)"
        using Cons.prems(1,2) sdk f Some \<open>err1 = None\<close> by (simp add: Stream_Next_def)
      then have "drain f s = (case drain f ?s1 of (zs, t) \<Rightarrow> (x # zs, t))" by (subst drain.simps) simp
      moreover have "\<exists>t. drain f ?s1 = (ds, t) \<and> ps_acc t = acc \<and> ps_err t = stop_error (ps_end ?s1) err \<and> ps_done t"
        using Cons.hyps(1) [of ?s1 ds] Cons.prems(1,2) d(1) by simp
      ultimately show ?thesis using d(2) by auto
    qed
  qed
qed

lemma drain_new:
  assumes "drain f (newStream es en) = (cs, t)"
  shows "\<exists>err. events f es [] = (cs, ps_acc t, err) \<and> ps_err t = stop_error en err \<and> ps_done t"
proof -
  obtain cs' acc err where e: "events f es [] = (cs', acc, err)" by (cases "events f es []") auto
  with drain_events [of "newStream es en" f cs' acc err] assms show ?thesis by (auto simp: newStream_def)
qed

subsection \<open>The buffers stay bounded\<close>

definition acc_ok :: "tool_acc \<Rightarrow> bool" where
  "acc_ok acc \<longleftrightarrow> sorted_wrt (<) (map fst acc) \<and> int (length acc) \<le> MaxToolBlocks \<and>
     list_all (\<lambda>kb. int (length (tb_buf (snd kb))) \<le> MaxToolInputBytes) acc"

lemma map_of_obj_put: "sorted_wrt (<) (map fst m) \<Longrightarrow> map_of (obj_put k v m) = (map_of m)(k \<mapsto> v)"
proof (induction m)
  case (Cons kv m)
  have "k < fst kv \<Longrightarrow> k \<notin> fst ` set m" using Cons.prems by fastforce
  with Cons show ?case by (cases kv) (auto simp: fun_upd_twist map_of_eq_None_iff)
qed simp

lemma length_obj_put: "length (obj_put k v m) \<le> length m + 1"
  by (induction m) auto

lemma length_obj_put_found:
  "sorted_wrt (<) (map fst m) \<Longrightarrow> k \<in> fst ` set m \<Longrightarrow> length (obj_put k v m) = length m"
proof (induction m)
  case (Cons kv m)
  have "k < fst kv \<Longrightarrow> k \<notin> fst ` set m" using Cons.prems by fastforce
  with Cons show ?case by (cases kv) (auto split: if_splits)
qed simp

lemma acc_ok_put:
  assumes "acc_ok acc" and "map_of acc k \<noteq> None \<or> int (length acc) < MaxToolBlocks" and "int (length (tb_buf tb)) \<le> MaxToolInputBytes"
  shows "acc_ok (obj_put k tb acc)"
proof -
  have "sorted_wrt (<) (map fst (obj_put k tb acc))" using assms(1) by (simp add: acc_ok_def obj_put_sorted)
  moreover have "int (length (obj_put k tb acc)) \<le> MaxToolBlocks"
    using assms(1,2) length_obj_put_found [of acc k tb] length_obj_put [of k tb acc] unfolding acc_ok_def map_of_eq_None_iff
    by (cases "k \<in> fst ` set acc") auto
  ultimately show ?thesis using assms(1,3) set_obj_put [of k tb acc] by (auto simp: acc_ok_def list_all_iff)
qed

lemma acc_ok_append:
  assumes "acc_ok acc" and "map_of acc k \<noteq> None \<or> int (length acc) < MaxToolBlocks" and "int (length (tb_buf tb)) \<le> MaxToolInputBytes"
  shows "acc_ok (fst (append_block k tb part acc))"
  using assms acc_ok_put [OF assms(1,2)] by (auto simp: append_block_def)

lemma acc_ok_buf: "acc_ok acc \<Longrightarrow> map_of acc k = Some tb \<Longrightarrow> int (length (tb_buf tb)) \<le> MaxToolInputBytes"
  by (fastforce simp: acc_ok_def list_all_iff dest: map_of_SomeD)

lemma accumulate_ok: "acc_ok acc \<Longrightarrow> acc_ok (fst (accumulateToolCall tc acc))"
  using acc_ok_buf [of acc "ot_Index tc"]
  by (auto simp: accumulateToolCall_def Let_def MaxToolInputBytes_def split: option.splits bool.splits intro!: acc_ok_append)

lemma accumulate_all_ok: "acc_ok acc \<Longrightarrow> acc_ok (fst (accumulate_all tcs acc))"
proof (induction tcs arbitrary: acc)
  case (Cons tc tcs)
  with accumulate_ok [of acc tc] show ?case by (auto split: prod.splits option.splits)
qed simp

text \<open>A mapper keeps the buffers within the limits.\<close>

definition bounded :: "'e mapper \<Rightarrow> bool" where
  "bounded f \<longleftrightarrow> (\<forall>e acc. acc_ok acc \<longrightarrow> acc_ok (fst (snd (f e acc))))"

lemma bounded_openai: "bounded mapChunk"
  unfolding bounded_def
proof (intro allI impI)
  fix cs :: "oa_choice list" and acc assume "acc_ok acc"
  then show "acc_ok (fst (snd (mapChunk cs acc)))"
    using accumulate_all_ok [of acc "od_ToolCalls (oc_Delta (hd cs))"]
    by (cases cs) (auto simp: mapChunk_def Let_def split: prod.splits option.splits)
qed

lemma bounded_anthropic: "bounded mapEvent"
  unfolding bounded_def
proof (intro allI impI)
  fix ev acc assume "acc_ok acc"
  then show "acc_ok (fst (snd (mapEvent ev acc)))"
    using acc_ok_append [of acc "ae_Index ev"] acc_ok_buf [of acc "ae_Index ev"] acc_ok_put [of acc "ae_Index ev"]
    by (auto simp: mapEvent_def block_delta_def Let_def MaxToolInputBytes_def split: option.splits sum.splits)
qed

lemma events_bounded: "bounded f \<Longrightarrow> acc_ok acc \<Longrightarrow> acc_ok (fst (snd (events f es acc)))"
proof (induction es arbitrary: acc)
  case (Cons e es)
  then have "acc_ok (fst (snd (f e acc)))" by (simp add: bounded_def)
  with Cons.IH [OF Cons.prems(1)] show ?case by (auto split: prod.splits option.splits) (metis fst_conv snd_conv)+
qed simp

subsection \<open>What the fragments of a tool call amount to\<close>

definition frags :: "int \<Rightarrow> oa_tool_call list \<Rightarrow> oa_tool_call list" where
  "frags k ds = filter (\<lambda>t. ot_Index t = k) ds"

definition last_set :: "string list \<Rightarrow> string" where
  "last_set xs = fold (\<lambda>x y. if x \<noteq> [] then x else y) xs []"

definition assembled_block :: "int \<Rightarrow> oa_tool_call list \<Rightarrow> tool_block" where
  "assembled_block k ds =
     \<lparr>tb_id = last_set (map ot_ID (frags k ds)), tb_name = last_set (map ot_Name (frags k ds)),
      tb_buf = concat (map ot_Arguments (frags k ds))\<rparr>"

definition assembled :: "oa_tool_call list \<Rightarrow> tool_acc" where
  "assembled ds = map (\<lambda>k. (k, assembled_block k ds)) (sorted_list_of_set (set (map ot_Index ds)))"

lemma assembled_Nil [simp]: "assembled [] = []"
  by (simp add: assembled_def)

lemma frags_snoc [simp]: "frags k (ds @ [t]) = frags k ds @ (if ot_Index t = k then [t] else [])"
  by (simp add: frags_def)

lemma last_set_snoc [simp]: "last_set (xs @ [x]) = (if x \<noteq> [] then x else last_set xs)"
  by (simp add: last_set_def)

lemma map_of_assembled:
  "map_of (assembled ds) k = (if k \<in> ot_Index ` set ds then Some (assembled_block k ds) else None)"
  by (auto simp: assembled_def map_of_map_restrict restrict_map_def)

lemma assembled_sorted: "sorted_wrt (<) (map fst (assembled ds))"
  by (simp add: assembled_def comp_def)

lemma sorted_alist_eqI:
  assumes "sorted_wrt (<) (map fst xs)" and "sorted_wrt (<) (map fst ys)" and "map_of xs = map_of ys"
  shows "xs = (ys :: ('k :: linorder \<times> 'v) list)"
proof -
  have d: "distinct (map fst xs)" "distinct (map fst ys)" using assms(1,2) strict_sorted_iff by blast+
  have "set xs = set ys" using map_of_inject_set [OF d] assms(3) by simp
  moreover have "inj_on fst (set ys)" using d(2) by (simp add: distinct_map)
  ultimately show ?thesis
    using assms(1,2) d by (intro map_sorted_distinct_set_unique [of fst]) (simp_all add: strict_sorted_imp_sorted)
qed

lemma add_fragment:
  assumes "accumulateToolCall tc (assembled ds) = (acc, None)"
  shows "acc = assembled (ds @ [tc])"
proof -
  let ?k = "ot_Index tc"
  define tb0 where "tb0 = (case map_of (assembled ds) ?k of Some tb \<Rightarrow> tb | None \<Rightarrow> \<lparr>tb_id = [], tb_name = [], tb_buf = []\<rparr>)"
  define tb1 where "tb1 = (if ot_ID tc \<noteq> [] then tb0\<lparr>tb_id := ot_ID tc\<rparr> else tb0)"
  define tb2 where "tb2 = (if ot_Name tc \<noteq> [] then tb1\<lparr>tb_name := ot_Name tc\<rparr> else tb1)"
  have "frags ?k ds = []" if "?k \<notin> ot_Index ` set ds" using that unfolding frags_def filter_empty_conv by (metis image_eqI)
  then have tb0: "tb0 = assembled_block ?k ds"
    by (auto simp: tb0_def map_of_assembled assembled_block_def last_set_def)
  have "append_block ?k tb2 (ot_Arguments tc) (assembled ds) = (acc, None)"
    using assms by (auto simp: accumulateToolCall_def tb2_def tb1_def tb0_def Let_def split: option.splits bool.splits if_splits)
  then have "acc = obj_put ?k (tb2\<lparr>tb_buf := tb_buf tb2 @ ot_Arguments tc\<rparr>) (assembled ds)"
    by (auto simp: append_block_def split: if_splits)
  moreover have "tb2\<lparr>tb_buf := tb_buf tb2 @ ot_Arguments tc\<rparr> = assembled_block ?k (ds @ [tc])"
    by (simp add: tb2_def tb1_def tb0 assembled_block_def)
  ultimately have acc: "acc = obj_put ?k (assembled_block ?k (ds @ [tc])) (assembled ds)" by simp
  have m: "map_of acc k = map_of (assembled (ds @ [tc])) k" for k
    unfolding acc map_of_obj_put [OF assembled_sorted]
    by (auto simp: map_of_assembled assembled_block_def)
  have "sorted_wrt (<) (map fst acc)" unfolding acc by (rule obj_put_sorted [OF assembled_sorted])
  then show ?thesis by (intro sorted_alist_eqI ext m assembled_sorted)
qed

lemma add_fragments: "accumulate_all tcs (assembled ds) = (acc, None) \<Longrightarrow> acc = assembled (ds @ tcs)"
proof (induction tcs arbitrary: ds)
  case (Cons tc tcs)
  then obtain a where a: "accumulateToolCall tc (assembled ds) = (a, None)" "accumulate_all tcs a = (acc, None)"
    by (auto split: prod.splits option.splits)
  with add_fragment [OF a(1)] Cons.IH [of "ds @ [tc]"] show ?case by simp
qed simp

text \<open>The fragments an event contributes: none when the event carries text.\<close>

definition plain_delta :: "oa_delta \<Rightarrow> bool" where
  "plain_delta d \<longleftrightarrow> reasoningContent d = [] \<and> od_Refusal d = [] \<and> od_Content d = []"

definition tool_deltas :: "oa_choice list \<Rightarrow> oa_tool_call list" where
  "tool_deltas choices =
     (case choices of [] \<Rightarrow> [] | c # _ \<Rightarrow> if plain_delta (oc_Delta c) then od_ToolCalls (oc_Delta c) else [])"

lemma mapChunk_acc:
  assumes "mapChunk cs (assembled ds) = (c, acc, None)"
  shows "acc = assembled (ds @ tool_deltas cs)"
  using assms add_fragments [of _ ds acc]
  by (cases cs) (auto simp: mapChunk_def tool_deltas_def plain_delta_def Let_def split: if_splits prod.splits option.splits)

lemma mapFinish_ToolUse:
  "lc_FinishReason (mapFinish fr acc) = FinishToolUse \<Longrightarrow>
    decode_blocks acc = Inr (lc_ToolUses (mapFinish fr acc)) \<and> lc_ToolUses (mapFinish fr acc) \<noteq> []"
  by (auto simp: mapFinish_def failed_def empty_chunk_def decodeTools_def split: if_splits sum.splits)

lemma mapChunk_ToolUse:
  assumes "mapChunk cs acc0 = (Some c, acc, None)" and "lc_FinishReason c = FinishToolUse"
  shows "decode_blocks acc = Inr (lc_ToolUses c) \<and> lc_ToolUses c \<noteq> []"
  using assms mapFinish_ToolUse
  by (cases cs) (auto simp: mapChunk_def Let_def empty_chunk_def split: if_splits prod.splits option.splits)

lemma events_ToolUse:
  assumes "events mapChunk es (assembled ds) = (cs, r)" and "c \<in> set cs" and "lc_FinishReason c = FinishToolUse"
  shows "\<exists>es1 e es2. es = es1 @ e # es2 \<and> lc_ToolUses c \<noteq> [] \<and>
    decode_blocks (assembled (ds @ concat (map tool_deltas (es1 @ [e])))) = Inr (lc_ToolUses c)"
  using assms(1,2)
proof (induction es arbitrary: ds cs)
  case (Cons e es)
  obtain x acc where f: "mapChunk e (assembled ds) = (x, acc, None)"
    using Cons.prems by (auto split: prod.splits option.splits)
  note acc = mapChunk_acc [OF f]
  have later: ?case if zs: "events mapChunk es acc = (zs, r)" "c \<in> set zs" for zs
  proof -
    obtain es1 d es2 where "es = es1 @ d # es2" "lc_ToolUses c \<noteq> []"
      "decode_blocks (assembled ((ds @ tool_deltas e) @ concat (map tool_deltas (es1 @ [d])))) = Inr (lc_ToolUses c)"
      using Cons.IH [of "ds @ tool_deltas e" zs] zs unfolding acc by blast
    then show ?thesis by (intro exI [of _ "e # es1"] exI [of _ d] exI [of _ es2]) simp
  qed
  show ?case
  proof (cases "x = Some c")
    case True
    have "decode_blocks acc = Inr (lc_ToolUses c) \<and> lc_ToolUses c \<noteq> []"
      using f True assms(3) by (intro mapChunk_ToolUse) simp_all
    then show ?thesis using acc by (intro exI [of _ "[]"] exI [of _ e] exI [of _ es]) simp
  next
    case False
    with Cons.prems f obtain zs where "events mapChunk es acc = (zs, r)" "c \<in> set zs"
      by (cases x) (auto split: prod.splits)
    with later show ?thesis by blast
  qed
qed simp

text \<open>C17: The buffers a stream collects are bounded, whatever the vendor sends: after reading either provider's stream to
  its end, or to the error of a guard, at most 64 tool calls are held, each with at most 256 KB of input.\<close>

theorem tool_buffers_bounded:
  "acc_ok (ps_acc (snd (drain mapChunk (newStream es en)))) \<and> acc_ok (ps_acc (snd (drain mapEvent (newStream es' en'))))"
proof -
  have e: "acc_ok []" by (simp add: acc_ok_def MaxToolBlocks_def)
  have "acc_ok (ps_acc (snd (drain f (newStream xs x))))" if f: "bounded f" for f :: "'x mapper" and xs x
  proof -
    obtain cs t where d: "drain f (newStream xs x) = (cs, t)" by (cases "drain f (newStream xs x)")
    with drain_new [OF d] events_bounded [OF f e, of xs] show ?thesis by auto
  qed
  from this [OF bounded_openai] this [OF bounded_anthropic] show ?thesis by blast
qed


definition demo_fragment :: "int \<Rightarrow> string \<Rightarrow> string \<Rightarrow> string \<Rightarrow> string \<Rightarrow> oa_choice list" where
  "demo_fragment k i n args fr =
     [\<lparr>oc_Delta = \<lparr>od_Reasoning = None, od_Refusal = [], od_Content = [],
         od_ToolCalls = [\<lparr>ot_Index = k, ot_ID = i, ot_Name = n, ot_Arguments = args\<rparr>]\<rparr>, oc_FinishReason = fr\<rparr>]"

text \<open>Two calls whose fragments are interleaved.\<close>

definition demo_stream :: "oa_choice list list" where
  "demo_stream =
     [demo_fragment 1 ''b'' ''clock'' [] [], demo_fragment 0 ''a'' ''echo'' [CHR ''{'', quote] [],
      demo_fragment 1 [] [] ''{}'' [], demo_fragment 0 [] [] (CHR ''x'' # quote # '':1}'') ''tool_calls'']"

definition demo_uses :: "tool_use list" where
  "demo_uses = [\<lparr>lu_ID = ''a'', lu_Name = ''echo'', lu_Input = Some [(''x'', JNum ''1'')]\<rparr>,
     \<lparr>lu_ID = ''b'', lu_Name = ''clock'', lu_Input = Some []\<rparr>]"

lemma demo_events: "fst (events mapChunk demo_stream []) = [empty_chunk\<lparr>lc_FinishReason := FinishToolUse, lc_ToolUses := demo_uses\<rparr>]"
  by code_simp


subsection \<open>Within the limits nothing is lost\<close>

lemma length_assembled: "length (assembled ds) = card (ot_Index ` set ds)"
  by (simp add: assembled_def)

lemma acc_ok_assembled:
  "acc_ok (assembled ds) \<longleftrightarrow> int (card (ot_Index ` set ds)) \<le> MaxToolBlocks \<and>
     (\<forall>k \<in> ot_Index ` set ds. int (length (tb_buf (assembled_block k ds))) \<le> MaxToolInputBytes)"
  by (auto simp: acc_ok_def assembled_sorted length_assembled list_all_iff) (auto simp: assembled_def)

lemma acc_ok_take: "acc_ok (assembled (ds @ ts)) \<Longrightarrow> acc_ok (assembled ds)"
proof -
  have "card (ot_Index ` set ds) \<le> card (ot_Index ` set (ds @ ts))" by (intro card_mono) auto
  moreover have "length (tb_buf (assembled_block k ds)) \<le> length (tb_buf (assembled_block k (ds @ ts)))" for k
    by (simp add: assembled_block_def frags_def)
  ultimately have m: "int (card (ot_Index ` set ds)) \<le> int (card (ot_Index ` set (ds @ ts)))"
    "int (length (tb_buf (assembled_block k ds))) \<le> int (length (tb_buf (assembled_block k (ds @ ts))))" for k by simp_all
  assume a: "acc_ok (assembled (ds @ ts))"
  show "acc_ok (assembled ds)"
    unfolding acc_ok_assembled
  proof (intro conjI ballI)
    show "int (card (ot_Index ` set ds)) \<le> MaxToolBlocks" using a m(1) by (simp add: acc_ok_assembled)
    fix k assume "k \<in> ot_Index ` set ds"
    then have "int (length (tb_buf (assembled_block k (ds @ ts)))) \<le> MaxToolInputBytes" using a by (auto simp: acc_ok_assembled)
    with m(2) show "int (length (tb_buf (assembled_block k ds))) \<le> MaxToolInputBytes" by (rule order_trans)
  qed
qed

lemma accumulate_within:
  assumes "acc_ok (assembled (ds @ [tc]))"
  shows "accumulateToolCall tc (assembled ds) = (assembled (ds @ [tc]), None)"
proof -
  let ?k = "ot_Index tc"
  have "int (length (tb_buf (assembled_block ?k (ds @ [tc])))) \<le> MaxToolInputBytes"
    and c: "int (card (ot_Index ` set (ds @ [tc]))) \<le> MaxToolBlocks"
    using assms by (auto simp: acc_ok_assembled)
  then have b: "int (length (tb_buf (assembled_block ?k ds))) + int (length (ot_Arguments tc)) \<le> MaxToolInputBytes"
    by (simp add: assembled_block_def)
  have "map_of (assembled ds) ?k = None \<Longrightarrow> \<not> int (length (assembled ds)) \<ge> MaxToolBlocks \<and> tb_buf (assembled_block ?k ds) = []"
  proof -
    assume "map_of (assembled ds) ?k = None"
    then have n: "?k \<notin> ot_Index ` set ds" by (simp add: map_of_assembled split: if_splits)
    then have "frags ?k ds = []" unfolding frags_def filter_empty_conv by (metis image_eqI)
    with n c show ?thesis by (simp add: length_assembled assembled_block_def)
  qed
  moreover have "map_of (assembled ds) ?k = Some tb \<Longrightarrow> tb = assembled_block ?k ds" for tb
    by (simp add: map_of_assembled split: if_splits)
  ultimately have "\<exists>acc. accumulateToolCall tc (assembled ds) = (acc, None)"
    using b by (auto simp: accumulateToolCall_def append_block_def Let_def split: option.splits bool.splits if_splits)
  then show ?thesis using add_fragment by auto
qed

lemma accumulate_all_within:
  "acc_ok (assembled (ds @ tcs)) \<Longrightarrow> accumulate_all tcs (assembled ds) = (assembled (ds @ tcs), None)"
proof (induction tcs arbitrary: ds)
  case (Cons tc tcs)
  have "acc_ok (assembled (ds @ [tc]))" using Cons.prems acc_ok_take [of "ds @ [tc]" tcs] by simp
  with Cons show ?case by (simp add: accumulate_within)
qed simp

definition fragment_event :: "string \<Rightarrow> oa_choice list \<Rightarrow> bool" where
  "fragment_event fr cs \<longleftrightarrow> (case cs of [] \<Rightarrow> False | c # _ \<Rightarrow> plain_delta (oc_Delta c) \<and> oc_FinishReason c = fr)"

lemma mapChunk_fragment:
  assumes "fragment_event fr cs" and "acc_ok (assembled (ds @ tool_deltas cs))"
  shows "mapChunk cs (assembled ds) =
    (if fr = [] then None else Some (mapFinish fr (assembled (ds @ tool_deltas cs))), assembled (ds @ tool_deltas cs), None)"
  using assms accumulate_all_within [of ds "tool_deltas cs"]
  by (cases cs) (auto simp: fragment_event_def mapChunk_def plain_delta_def tool_deltas_def Let_def)

lemma events_fragments:
  assumes "list_all (fragment_event []) es" and "fragment_event ''tool_calls'' e"
    and "acc_ok (assembled (ds @ concat (map tool_deltas (es @ [e]))))"
  shows "events mapChunk (es @ [e]) (assembled ds) =
    ([mapFinish ''tool_calls'' (assembled (ds @ concat (map tool_deltas (es @ [e]))))],
     assembled (ds @ concat (map tool_deltas (es @ [e]))), None)"
  using assms(1,3)
proof (induction es arbitrary: ds)
  case Nil
  then show ?case using mapChunk_fragment [OF assms(2), of ds] by simp
next
  case (Cons x es)
  have "acc_ok (assembled (ds @ tool_deltas x))"
    using Cons.prems(2) acc_ok_take [of "ds @ tool_deltas x"] by simp
  with mapChunk_fragment [of "[]" x ds] Cons.IH [of "ds @ tool_deltas x"] Cons.prems show ?case by simp
qed

text \<open>C13: A turn of tool calls is always delivered.  If a stream consists of tool call fragments and ends with the finish
  reason \<open>tool_calls\<close>, and what the fragments amount to keeps the limits and decodes to at least one call, then
  reading the stream yields exactly one chunk, it carries those calls, and the error is that of the connection.\<close>

theorem tool_turn_delivered:
  assumes "list_all (fragment_event []) es" and "fragment_event ''tool_calls'' e"
    and "acc_ok (assembled (concat (map tool_deltas (es @ [e]))))"
    and "decode_blocks (assembled (concat (map tool_deltas (es @ [e])))) = Inr tus" and "tus \<noteq> []"
  shows "\<exists>t. drain mapChunk (newStream (es @ [e]) en) =
      ([empty_chunk\<lparr>lc_FinishReason := FinishToolUse, lc_ToolUses := tus\<rparr>], t) \<and> Stream_Err t = classifyStreamErr en"
proof -
  let ?a = "assembled (concat (map tool_deltas (es @ [e])))"
  have "?a \<noteq> []" using assms(4,5) by auto
  then have "mapFinish ''tool_calls'' ?a = empty_chunk\<lparr>lc_FinishReason := FinishToolUse, lc_ToolUses := tus\<rparr>"
    using assms(4,5) by (simp add: mapFinish_def decodeTools_def)
  moreover obtain cs t where d: "drain mapChunk (newStream (es @ [e]) en) = (cs, t)"
    by (cases "drain mapChunk (newStream (es @ [e]) en)")
  ultimately show ?thesis
    using drain_new [OF d] events_fragments [OF assms(1,2), of "[]"] assms(3)
    by (auto simp: Stream_Err_def stop_error_def)
qed

theorem tool_turn_delivered_witness:
  "fst (drain mapChunk (newStream demo_stream None)) = [empty_chunk\<lparr>lc_FinishReason := FinishToolUse, lc_ToolUses := demo_uses\<rparr>]"
proof -
  let ?es = "butlast demo_stream" and ?e = "last demo_stream"
  have e: "?es @ [?e] = demo_stream" by (simp add: demo_stream_def)
  have "list_all (fragment_event []) ?es" "fragment_event ''tool_calls'' ?e"
    by (simp_all add: demo_stream_def demo_fragment_def fragment_event_def plain_delta_def reasoningContent_def)
  moreover have "acc_ok (assembled (concat (map tool_deltas demo_stream)))" by code_simp
  moreover have "decode_blocks (assembled (concat (map tool_deltas demo_stream))) = Inr demo_uses" by code_simp
  moreover have "demo_uses \<noteq> []" by (simp add: demo_uses_def)
  ultimately show ?thesis
    using tool_turn_delivered [of ?es ?e demo_uses None] unfolding e by auto
qed

text \<open>Text hides what comes with it.  An event that carries text is mapped to that text alone: tool call fragments and
  the finish reason in the same event are dropped, whatever they are.\<close>

theorem finish_beside_text_is_lost:
  assumes "\<not> plain_delta (oc_Delta c)" and "od_Refusal (oc_Delta c) = []"
  shows "\<exists>ch. mapChunk (c # rest) acc = (Some ch, acc, None) \<and> lc_FinishReason ch = FinishUnset \<and> lc_ToolUses ch = []"
  using assms by (auto simp: plain_delta_def mapChunk_def Let_def empty_chunk_def)

end
