(* ===== verification/ProviderWire.thy ===== *)
theory ProviderWire
  imports ProviderStream DiagRun
begin

text \<open>
  How the provider adapters put a request on the wire: \<open>toParams\<close> and its helpers of
  \<open>internal/domain/llm/openai/openai.go\<close>, and \<open>toMessages\<close> of \<open>internal/domain/llm/anthropic/anthropic.go\<close>.  The
  parameter types of the vendor SDKs are the datatypes below, with the fields the adapters set.
\<close>

subsection \<open>OpenAI\<close>

record oa_call =
  ow_ID :: string
  ow_Name :: string
  ow_Arguments :: string

datatype oa_message = OaSystem string | OaUser string | OaAssistant "string option" "oa_call list" | OaTool string string

record oa_function =
  of_Name :: string
  of_Description :: "string option"
  of_Parameters :: go_map

record oa_params =
  pa_Model :: string
  pa_Messages :: "oa_message list"
  pa_MaxTokens :: int
  pa_Temperature :: "f64 option"
  pa_Tools :: "oa_function list"

definition marshalToolInput :: "go_map \<Rightarrow> string + string" where
  "marshalToolInput input =
     (case input of
        None \<Rightarrow> Inr ''{}''
      | Some m \<Rightarrow>
          (case bad_number (JObj m) of
             Some t \<Rightarrow> Inl (''json: invalid number literal '' @ quote_string t)
           | None \<Rightarrow> Inr (Marshal (JObj m))))"

fun assistant_loop :: "go_map content_block list \<Rightarrow> string \<Rightarrow> oa_call list \<Rightarrow> go_error + string \<times> oa_call list" where
  "assistant_loop [] body calls = Inr (body, calls)"
| "assistant_loop (BlockText t # bs) body calls = assistant_loop bs (body @ t) calls"
| "assistant_loop (BlockToolUse tu # bs) body calls =
     (case marshalToolInput (lu_Input tu) of
        Inl e \<Rightarrow> Inl (RequestInvalidf (''ToolUse.Input not JSON-encodable: '' @ e))
      | Inr args \<Rightarrow> assistant_loop bs body (calls @ [\<lparr>ow_ID = lu_ID tu, ow_Name = lu_Name tu, ow_Arguments = args\<rparr>]))"
| "assistant_loop (BlockToolResult tr # bs) body calls =
     Inl (RequestInvalidf ''BlockToolResult forbidden on assistant turn (tool_result is a user/tool-role payload)'')"

definition assistantToSDK :: "go_map content_block list \<Rightarrow> go_error + oa_message list" where
  "assistantToSDK blocks =
     (case assistant_loop blocks [] [] of
        Inl e \<Rightarrow> Inl e
      | Inr (body, calls) \<Rightarrow> Inr [OaAssistant (if body \<noteq> [] then Some body else None) calls])"

fun user_loop :: "go_map content_block list \<Rightarrow> string \<Rightarrow> oa_message list \<Rightarrow> go_error + string \<times> oa_message list" where
  "user_loop [] body out = Inr (body, out)"
| "user_loop (BlockText t # bs) body out = user_loop bs (body @ t) out"
| "user_loop (BlockToolResult tr # bs) body out =
     user_loop bs body
       (out @ [OaTool ((if lr_IsError tr then ''[tool error] '' else []) @ lr_Content tr) (lr_ToolUseID tr)])"
| "user_loop (BlockToolUse tu # bs) body out =
     Inl (RequestInvalidf ''BlockToolUse forbidden on user turn (tool_use is an assistant-role payload)'')"

definition userToSDK :: "go_map content_block list \<Rightarrow> go_error + oa_message list" where
  "userToSDK blocks =
     (case user_loop blocks [] [] of
        Inl e \<Rightarrow> Inl e
      | Inr (body, out) \<Rightarrow>
          let out1 = (if body \<noteq> [] then out @ [OaUser body] else out)
          in Inr (if out1 = [] then [OaUser []] else out1))"

definition messageToSDK :: "go_map llm_message \<Rightarrow> go_error + oa_message list" where
  "messageToSDK m = (if Role m = RoleAssistant then assistantToSDK (Content m) else userToSDK (Content m))"

text \<open>The loop over the messages of a request.\<close>

fun messages_to_sdk :: "go_map llm_message list \<Rightarrow> go_error + oa_message list" where
  "messages_to_sdk [] = Inr []"
| "messages_to_sdk (m # ms) =
     (case messageToSDK m of
        Inl e \<Rightarrow> Inl e
      | Inr w \<Rightarrow> (case messages_to_sdk ms of Inl e \<Rightarrow> Inl e | Inr ws \<Rightarrow> Inr (w @ ws)))"

fun join_paragraphs :: "string list \<Rightarrow> string" where
  "join_paragraphs [] = []"
| "join_paragraphs [x] = x"
| "join_paragraphs (x # y # xs) = x @ [NL, NL] @ join_paragraphs (y # xs)"

definition joinSystem :: "(string \<times> bool) list \<Rightarrow> string" where
  "joinSystem blocks = join_paragraphs (filter (\<lambda>t. t \<noteq> []) (map fst blocks))"

definition toParams :: "string \<Rightarrow> go_map request \<Rightarrow> go_error + oa_params" where
  "toParams model req =
     (let sys = joinSystem (rq_System req) in
      case messages_to_sdk (rq_Messages req) of
        Inl e \<Rightarrow> Inl e
      | Inr ws \<Rightarrow>
          Inr \<lparr>pa_Model = model, pa_Messages = (if sys \<noteq> [] then [OaSystem sys] else []) @ ws,
            pa_MaxTokens = rq_MaxTokens req, pa_Temperature = rq_Temperature req,
            pa_Tools = map (\<lambda>t. \<lparr>of_Name = ts_Name t,
                of_Description = (if ts_Description t \<noteq> [] then Some (ts_Description t) else None),
                of_Parameters = ts_InputSchema t\<rparr>) (rq_Tools req)\<rparr>)"

text \<open>\<open>Stream\<close> of the adapter up to the call of the SDK: what is sent, or the error.\<close>

definition openai_request :: "string \<Rightarrow> go_map request \<Rightarrow> go_error + oa_params" where
  "openai_request model req = (case ValidateRequest req of Some e \<Rightarrow> Inl e | None \<Rightarrow> toParams model req)"

subsection \<open>Anthropic\<close>

datatype an_block = AnText string | AnToolUse string go_map string | AnToolResult string string bool

definition an_block_of :: "go_map content_block \<Rightarrow> an_block" where
  "an_block_of b =
     (case b of
        BlockText t \<Rightarrow> AnText t
      | BlockToolUse tu \<Rightarrow> AnToolUse (lu_ID tu) (lu_Input tu) (lu_Name tu)
      | BlockToolResult tr \<Rightarrow> AnToolResult (lr_ToolUseID tr) (lr_Content tr) (lr_IsError tr))"

text \<open>A message is its role (assistant or not) and its blocks.\<close>

definition toMessages :: "go_map llm_message list \<Rightarrow> (bool \<times> an_block list) list" where
  "toMessages ms = map (\<lambda>m. (Role m = RoleAssistant, map an_block_of (Content m))) ms"

subsection \<open>Exchanges\<close>

text \<open>An assistant turn with its calls, each with the content of its result, as OpenAI expects them: the calls, then one
  tool message per call.  Anthropic keeps the two turns.\<close>

definition exchange :: "string option \<Rightarrow> (oa_call \<times> string) list \<Rightarrow> oa_message list" where
  "exchange body cs = OaAssistant body (map fst cs) # map (\<lambda>c. OaTool (snd c) (ow_ID (fst c))) cs"

definition exchanges :: "(string option \<times> (oa_call \<times> string) list) list \<Rightarrow> oa_message list" where
  "exchanges ps = concat (map (\<lambda>p. exchange (fst p) (snd p)) ps)"

lemma assistant_loop_ids:
  "assistant_loop bs body calls = Inr (body', calls') \<Longrightarrow> map ow_ID calls' = map ow_ID calls @ use_ids bs"
  by (induction bs body calls rule: assistant_loop.induct) (auto split: sum.splits)

lemma user_loop_results:
  "user_loop bs body out = Inr (body', out') \<Longrightarrow> length bs = length (result_ids bs) \<Longrightarrow>
    body' = body \<and> (\<exists>xs. out' = out @ map (\<lambda>x. OaTool (fst x) (snd x)) xs \<and> map snd xs = result_ids bs)"
proof (induction bs body out rule: user_loop.induct)
  case (2 t bs body out)
  have "length (result_ids bs) \<le> length bs" by (induction bs rule: result_ids.induct) simp_all
  with 2 show ?case by simp
next
  case (3 tr bs body out)
  then obtain xs where "body' = body" "out' = out @ OaTool ((if lr_IsError tr then ''[tool error] '' else []) @ lr_Content tr) (lr_ToolUseID tr) #
      map (\<lambda>x. OaTool (fst x) (snd x)) xs" "map snd xs = result_ids bs" by auto
  then show ?case
    by (intro conjI exI [of _ "((if lr_IsError tr then ''[tool error] '' else []) @ lr_Content tr, lr_ToolUseID tr) # xs"]) simp_all
qed auto

lemma zip_tools:
  "map ow_ID calls = map snd xs \<Longrightarrow>
    map (\<lambda>c. OaTool (snd c) (ow_ID (fst c))) (zip calls (map fst xs)) = map (\<lambda>x. OaTool (fst x) (snd x)) xs"
proof (induction xs arbitrary: calls)
  case (Cons x xs)
  then show ?case by (cases calls) simp_all
qed simp

lemma paired_exchange:
  assumes "paired a u" and "messageToSDK a = Inr wa" and "messageToSDK u = Inr wu"
  shows "\<exists>body cs. cs \<noteq> [] \<and> wa @ wu = exchange body cs"
proof -
  have r: "RoleUser \<noteq> RoleAssistant" by (simp add: RoleUser_def RoleAssistant_def)
  obtain body calls where a: "assistant_loop (Content a) [] [] = Inr (body, calls)"
      "wa = [OaAssistant (if body \<noteq> [] then Some body else None) calls]"
    using assms(1,2) by (auto simp: paired_def messageToSDK_def assistantToSDK_def split: sum.splits)
  obtain t out where u: "user_loop (Content u) [] [] = Inr (t, out)"
      "wu = (let out1 = (if t \<noteq> [] then out @ [OaUser t] else out) in if out1 = [] then [OaUser []] else out1)"
    using assms(1,3) r by (auto simp: paired_def messageToSDK_def userToSDK_def Let_def split: sum.splits)
  obtain xs where x: "t = []" "out = map (\<lambda>x. OaTool (fst x) (snd x)) xs" "map snd xs = result_ids (Content u)"
    using user_loop_results [OF u(1)] assms(1) by (auto simp: paired_def)
  have ids: "map ow_ID calls = map snd xs" using assistant_loop_ids [OF a(1)] assms(1) x(3) by (simp add: paired_def)
  then have len: "length calls = length xs" by (metis length_map)
  have "calls \<noteq> []" using assistant_loop_ids [OF a(1)] assms(1) by (auto simp: paired_def)
  with len have "xs \<noteq> []" by auto
  let ?cs = "zip calls (map fst xs)"
  have "map (\<lambda>c. OaTool (snd c) (ow_ID (fst c))) ?cs = out"
    unfolding x(2) by (rule zip_tools [OF ids])
  then have "wa @ wu = exchange (if body \<noteq> [] then Some body else None) ?cs"
    using a(2) u(2) x(1,2) len \<open>xs \<noteq> []\<close> by (simp add: exchange_def)
  then show ?thesis using \<open>calls \<noteq> []\<close> \<open>xs \<noteq> []\<close> by (intro exI [of _ ?cs] exI) (auto simp: zip_eq_Nil_iff)
qed

lemma all_paired_exchanges:
  assumes "all_paired ms" and "messages_to_sdk ms = Inr w"
  shows "\<exists>ps. w = exchanges ps \<and> list_all (\<lambda>p. snd p \<noteq> []) ps"
  using assms
proof (induction ms arbitrary: w rule: all_paired.induct)
  case 1
  then show ?case by (intro exI [of _ "[]"]) (simp add: exchanges_def)
next
  case (3 a u ms)
  then obtain wa wu ws where w: "messageToSDK a = Inr wa" "messageToSDK u = Inr wu" "messages_to_sdk ms = Inr ws" "w = wa @ wu @ ws"
    by (auto split: sum.splits)
  obtain body cs where c: "cs \<noteq> []" "wa @ wu = exchange body cs" using paired_exchange [OF _ w(1,2)] "3.prems"(1) by auto
  obtain ps where p: "ws = exchanges ps" "list_all (\<lambda>p. snd p \<noteq> []) ps" using "3.IH" "3.prems"(1) w(3) by auto
  have "w = exchanges ((body, cs) # ps)" using w(4) c(2) p(1) by (simp add: exchanges_def flip: append_assoc)
  with c(1) p(2) show ?case by (intro exI [of _ "(body, cs) # ps"]) simp
qed simp

lemma messages_to_sdk_append:
  "messages_to_sdk (xs @ ys) =
     (case messages_to_sdk xs of
        Inl e \<Rightarrow> Inl e
      | Inr u \<Rightarrow> (case messages_to_sdk ys of Inl e \<Rightarrow> Inl e | Inr v \<Rightarrow> Inr (u @ v)))"
  by (induction xs) (auto split: sum.splits)

definition system_message :: "go_map request \<Rightarrow> oa_message list" where
  "system_message rq = (if joinSystem (rq_System rq) \<noteq> [] then [OaSystem (joinSystem (rq_System rq))] else [])"

lemma openai_request_messages:
  "openai_request model rq = Inr params \<Longrightarrow>
    \<exists>w. messages_to_sdk (rq_Messages rq) = Inr w \<and> pa_Messages params = system_message rq @ w"
  by (simp add: openai_request_def toParams_def system_message_def Let_def split: option.splits sum.splits) (drule sym, simp)

text \<open>C12: What reaches OpenAI stays well formed.  In every request that a run of the diagnose loop makes over the OpenAI
  adapter, the messages are those of the initial transcript followed by complete exchanges: an assistant message
  with its tool calls, at least one, and at once one tool message per call, with the same identifier and in the same
  order.\<close>

theorem openai_wire_stays_paired:
  assumes "Run E l req = (res, err, s)" and "Streamed rq r \<in> set (alog s)" and "openai_request model rq = Inr params"
  shows "\<exists>sys w0 ps. pa_Messages params = sys @ w0 @ exchanges ps \<and> messages_to_sdk (rq_Messages req) = Inr w0 \<and>
    list_all (\<lambda>m. \<exists>t. m = OaSystem t) sys \<and> list_all (\<lambda>p. snd p \<noteq> []) ps"
proof -
  have e: "extends_by_pairs (rq_Messages req) (rq_Messages rq)"
    using run_sent_ok [OF assms(1)] assms(2) by (auto simp: sent_ok_def split: act.splits)
  define ms where "ms = drop (length (rq_Messages req)) (rq_Messages rq)"
  have ms: "rq_Messages rq = rq_Messages req @ ms" "all_paired ms"
    using e append_take_drop_id [of "length (rq_Messages req)" "rq_Messages rq"] by (simp_all add: extends_by_pairs_def ms_def)
  obtain w where w: "messages_to_sdk (rq_Messages rq) = Inr w" "pa_Messages params = system_message rq @ w"
    using openai_request_messages [OF assms(3)] by blast
  obtain u v where u: "messages_to_sdk (rq_Messages req) = Inr u" "messages_to_sdk ms = Inr v" "w = u @ v"
    using w(1) unfolding ms(1) messages_to_sdk_append by (auto split: sum.splits)
  obtain ps where "v = exchanges ps" "list_all (\<lambda>p. snd p \<noteq> []) ps" using all_paired_exchanges [OF ms(2) u(2)] by blast
  then show ?thesis using w(2) u
    by (intro exI [of _ "system_message rq"] exI [of _ u] exI [of _ ps]) (simp add: system_message_def)
qed

text \<open>A run of one tool turn with two calls.\<close>

definition wire_env :: "go_map env" where
  "wire_env =
     \<lparr>e_emit = (\<lambda>_ _. None),
      e_stream = (\<lambda>lg _. Inr ([if provider_calls lg < 1
         then empty_chunk\<lparr>lc_FinishReason := FinishToolUse, lc_ToolUses := [demo_uses ! 0, (demo_uses ! 0)\<lparr>lu_ID := ''c''\<rparr>]\<rparr>
         else empty_chunk\<lparr>lc_Token := ''done'', lc_FinishReason := FinishStop\<rparr>], None)),
      e_execute = (\<lambda>_ _ _. (\<lparr>to_Content = ''ok'', to_IsError = False, to_Filter = None\<rparr>, None)),
      e_totalErr = (\<lambda>_. None), e_digest = (\<lambda>_. None)\<rparr>"

definition wire_opts :: "go_map loop_options" where
  "wire_opts =
     \<lparr>op_Registry = Some \<lparr>tools = [''echo'' \<mapsto> \<lparr>ex_Name = ''echo'',
                              ex_Schema = \<lparr>ts_Name = ''echo'', ts_Description = [], ts_InputSchema = None\<rparr>, ex_Cacheable = None\<rparr>],
                            names = [''echo'']\<rparr>,
      op_MaxTurns = 16, op_ToolTimeout = 1, op_TotalTimeout = 1, op_ReqTimeout = 1, op_DedupEnabled = False, op_DedupWindow = 1\<rparr>"

definition wire_req :: "go_map request" where
  "wire_req = \<lparr>rq_System = [], rq_Messages = [\<lparr>Role = RoleUser, Content = [BlockText ''hi'']\<rparr>], rq_Tools = [],
     rq_MaxTokens = 1, rq_Temperature = None, rq_ThinkingMode = ThinkingDisabled, rq_ThinkingBudget = 0\<rparr>"

definition sent_messages :: "go_map act \<Rightarrow> oa_message list" where
  "sent_messages a = (case a of Streamed rq _ \<Rightarrow> (case openai_request ''m'' rq of Inr p \<Rightarrow> pa_Messages p | Inl _ \<Rightarrow> []) | _ \<Rightarrow> [])"

theorem openai_wire_stays_paired_witness:
  "\<exists>(params :: oa_params) sys w0 ps. length (pa_Messages params) = 4 \<and> pa_Messages params = sys @ w0 @ exchanges ps \<and>
     messages_to_sdk (rq_Messages wire_req) = Inr w0"
proof -
  obtain res err s where r: "Run wire_env wire_opts wire_req = (res, err, s)" by (metis prod.exhaust)
  have "list_ex (\<lambda>a. length (sent_messages a) = 4) (alog (snd (snd (Run wire_env wire_opts wire_req))))" by code_simp
  then obtain a where a: "a \<in> set (alog s)" "length (sent_messages a) = 4" using r by (auto simp: list_ex_iff)
  then obtain rq x p where p: "a = Streamed rq x" "openai_request ''m'' rq = Inr p" "length (pa_Messages p) = 4"
    by (auto simp: sent_messages_def split: act.splits sum.splits)
  have "Streamed rq x \<in> set (alog s)" using a(1) p(1) by simp
  from openai_wire_stays_paired [OF r this p(2)] obtain sys w0 ps where
    "pa_Messages p = sys @ w0 @ exchanges ps" "messages_to_sdk (rq_Messages wire_req) = Inr w0" by blast
  with p(3) show ?thesis by metis
qed

text \<open>A tool call of the model reaches OpenAI again with the input it was decoded from: the arguments of the call sent
  back are a text the guard decodes to the same input, within its limit of 256 KB.\<close>

lemma marshalled_input:
  assumes "DecodeToolInput raw = Inr m" and "marshalToolInput (Some m) = Inr args" and "int (length args) \<le> MaxToolInputBytes"
  shows "DecodeToolInput args = Inr m"
  using assms DecodeToolInput_ok [OF assms(1)] DecodeToolInput_Marshal [of m]
  by (simp add: marshalToolInput_def split: option.splits del: Marshal.simps jsonDepth.simps json_ok.simps bad_number.simps)

end
