(* ===== verification/Redact.thy ===== *)
theory Redact
  imports Json
begin

text \<open>
  The masking of secrets, \<open>internal/platform/logger/redact.go\<close>: \<open>RedactString\<close> with its five patterns, and
  \<open>RedactValue\<close> on the values a decoded tool input is made of.  (A number of a decoded JSON value is a string type
  of Go, so it is masked, or turned into a string, like text.)  The classes of the patterns hold every byte that is
  not ASCII, or none, so matching by byte is matching by rune; with \<open>(?i)\<close> the letters \<open>s\<close> and \<open>k\<close> also match the long
  s and the Kelvin sign.
\<close>

definition redactionToken :: string where "redactionToken = ''<REDACTED>''"

subsection \<open>Patterns\<close>

definition re_space :: "char \<Rightarrow> bool" where
  "re_space c \<longleftrightarrow> code_of c \<in> {9, 10, 12, 13, 32}"

definition letter :: "char \<Rightarrow> bool" where
  "letter c \<longleftrightarrow> (65 \<le> code_of c \<and> code_of c \<le> 90) \<or> (97 \<le> code_of c \<and> code_of c \<le> 122)"

definition to_lower :: "char \<Rightarrow> char" where
  "to_lower c = (if 65 \<le> code_of c \<and> code_of c \<le> 90 then char_of (code_of c + 32) else c)"

definition fold_char :: "char \<Rightarrow> regex" where
  "fold_char c =
     (let r = Cls (\<lambda>d. to_lower d = to_lower c) in
      if c = CHR ''s'' then Alt r (lit (utf8 [0x17F])) else if c = CHR ''k'' then Alt r (lit (utf8 [0x212A])) else r)"

fun fold_lit :: "string \<Rightarrow> regex" where
  "fold_lit [] = Eps"
| "fold_lit (c # cs) = Cat (fold_char c) (fold_lit cs)"

fun seq :: "regex list \<Rightarrow> regex" where
  "seq [] = Eps"
| "seq [r] = r"
| "seq (r # q # rs) = Cat r (seq (q # rs))"

fun alts :: "regex list \<Rightarrow> regex" where
  "alts [] = Eps"
| "alts [r] = r"
| "alts (r # q # rs) = Alt r (alts (q # rs))"

definition opt_dash :: regex where
  "opt_dash = Opt (Cls (\<lambda>c. c = CHR ''_'' \<or> c = CHR ''-''))"

definition value_char :: "char \<Rightarrow> bool" where
  "value_char c \<longleftrightarrow> \<not> re_space c \<and> c \<notin> {CHR '';'', CHR '','', CHR ''&'', quote, CHR 0x27}"

definition bearer_char :: "char \<Rightarrow> bool" where
  "bearer_char c \<longleftrightarrow> \<not> re_space c \<and> c \<notin> {CHR '';'', CHR '','', quote, CHR 0x27}"

definition key_char :: "char \<Rightarrow> bool" where
  "key_char c \<longleftrightarrow> letter c \<or> is_digit c \<or> c = CHR ''_'' \<or> c = CHR ''-''"

definition scheme_char :: "char \<Rightarrow> bool" where
  "scheme_char c \<longleftrightarrow> letter c \<or> is_digit c \<or> c = CHR ''+'' \<or> c = CHR ''.'' \<or> c = CHR ''-''"

definition user_char :: "char \<Rightarrow> bool" where
  "user_char c \<longleftrightarrow> \<not> re_space c \<and> c \<notin> {CHR '':'', CHR ''/'', CHR ''?'', CHR ''#''}"

definition secret_keys :: regex where
  "secret_keys =
     alts [fold_lit ''password'', fold_lit ''passwd'', fold_lit ''pwd'', fold_lit ''token'',
       seq [fold_lit ''api'', opt_dash, fold_lit ''key''], fold_lit ''apikey'', fold_lit ''secret'',
       seq [fold_lit ''access'', opt_dash, fold_lit ''key'']]"

type_synonym pattern = "regex \<times> (string list \<Rightarrow> string)"

text \<open>A pattern with its mask; the mask gets the groups of the match (the whole match, group 0, is not used).\<close>

definition key_value :: pattern where
  "key_value = (seq [Cap secret_keys, lit ''='', Many 1 value_char], \<lambda>m. m ! 0 @ ''='' @ redactionToken)"

definition auth_header :: pattern where
  "auth_header =
     (seq [Cap (seq [fold_lit ''authorization:'', Many 0 re_space, Many 1 (\<lambda>c. \<not> re_space c), Many 1 re_space]),
        Many 1 (\<lambda>c. \<not> re_space c)], \<lambda>m. m ! 0 @ redactionToken)"

definition bearer :: pattern where
  "bearer = (seq [fold_lit ''bearer'', Many 1 re_space, Many 1 bearer_char], \<lambda>_. ''Bearer '' @ redactionToken)"

definition sk_key :: pattern where
  "sk_key = (seq [lit ''sk-'', Many 16 key_char], \<lambda>_. ''sk-'' @ redactionToken)"

definition url_userinfo :: pattern where
  "url_userinfo =
     (seq [Cap (seq [Cls letter, Many 0 scheme_char, lit ''://'', Many 1 user_char]), lit '':'',
        Many 1 (\<lambda>c. \<not> re_space c \<and> c \<noteq> CHR ''@''), lit ''@''], \<lambda>m. m ! 0 @ '':'' @ redactionToken @ ''@'')"

definition redactPatterns :: "pattern list" where
  "redactPatterns = [key_value, auth_header, bearer, sk_key, url_userinfo]"

subsection \<open>Masking text\<close>

text \<open>\<open>FindStringSubmatch\<close>: the groups of the leftmost match.\<close>

fun find_groups :: "regex \<Rightarrow> string \<Rightarrow> string list" where
  "find_groups r [] = (case MatchAt r [] of Some (_, _, g) \<Rightarrow> g | None \<Rightarrow> [])"
| "find_groups r (c # s) = (case MatchAt r (c # s) of Some (_, _, g) \<Rightarrow> g | None \<Rightarrow> find_groups r s)"

text \<open>\<open>ReplaceAllStringFunc\<close> for a pattern with no empty match.\<close>

function replace_all :: "pattern \<Rightarrow> string \<Rightarrow> string" where
  "replace_all p [] = []"
| "replace_all p (c # s) =
     (case MatchAt (fst p) (c # s) of
        Some (u, t, _) \<Rightarrow>
          if u = [] then c # replace_all p s else snd p (find_groups (fst p) u) @ replace_all p t
      | None \<Rightarrow> c # replace_all p s)"
  by pat_completeness auto
termination
  by (relation "measure (\<lambda>(p, s). length s)") (auto dest!: MatchAt_split simp: Cons_eq_append_conv)

declare replace_all.simps(2) [simp del]

definition RedactString :: "string \<Rightarrow> string" where
  "RedactString s = fold replace_all redactPatterns s"

subsection \<open>Masking values\<close>

definition secret_markers :: "string list" where
  "secret_markers = [''password'', ''passwd'', ''pwd'', ''token'', ''secret'', ''apikey'', ''api_key'', ''api-key'',
     ''access_key'', ''accesskey'', ''authorization'']"

text \<open>\<open>strings.ToLower\<close> maps the two runes outside ASCII with an ASCII lower case letter too: the Kelvin sign to \<open>k\<close>,
  and the dotted capital I to \<open>i\<close>; the other runes it changes are of no interest to the markers.\<close>

definition lower_rune :: "int \<Rightarrow> int" where
  "lower_rune r = (if 65 \<le> r \<and> r \<le> 90 then r + 32 else if r = 0x212A then 107 else if r = 0x130 then 105 else r)"

definition occurs_in :: "'a list \<Rightarrow> 'a list \<Rightarrow> bool" where
  "occurs_in m s \<longleftrightarrow> list_ex (\<lambda>i. prefix m (drop i s)) [0..<Suc (length s)]"

definition secretKeyHint :: "string \<Rightarrow> bool" where
  "secretKeyHint key =
     (let k = map lower_rune (runes_of key) in list_ex (\<lambda>m. occurs_in (map code_of m) k) secret_markers)"

fun redactValue :: "bool \<Rightarrow> json \<Rightarrow> json" where
  "redactValue sec (JStr s) = JStr (if sec then redactionToken else RedactString s)"
| "redactValue sec (JNum t) = JStr (if sec then redactionToken else RedactString t)"
| "redactValue sec (JArr vs) = JArr (map (redactValue sec) vs)"
| "redactValue sec (JObj m) = JObj (map (\<lambda>kv. (fst kv, redactValue (sec \<or> secretKeyHint (fst kv)) (snd kv))) m)"
| "redactValue sec v = v"

definition RedactValue :: "json \<Rightarrow> json" where
  "RedactValue v = redactValue False v"

subsection \<open>Secrets named by their key\<close>

fun texts_of :: "json \<Rightarrow> string list" where
  "texts_of (JStr s) = [s]"
| "texts_of (JNum t) = [t]"
| "texts_of (JArr vs) = concat (map texts_of vs)"
| "texts_of (JObj m) = concat (map (\<lambda>kv. texts_of (snd kv)) m)"
| "texts_of _ = []"

definition all_masked :: "json \<Rightarrow> bool" where
  "all_masked v \<longleftrightarrow> list_all (\<lambda>s. s = redactionToken) (texts_of v)"

text \<open>No text or number is left anywhere below a key that looks like a secret.\<close>

fun secrets_masked :: "json \<Rightarrow> bool" where
  "secrets_masked (JArr vs) \<longleftrightarrow> list_all secrets_masked vs"
| "secrets_masked (JObj m) \<longleftrightarrow>
     list_all (\<lambda>kv. secrets_masked (snd kv) \<and> (\<not> secretKeyHint (fst kv) \<or> all_masked (snd kv))) m"
| "secrets_masked _ \<longleftrightarrow> True"

lemma redactValue_secret: "all_masked (redactValue True v)"
  by (induction v) (auto simp: all_masked_def list_all_iff)

lemma redactValue_masks: "secrets_masked (redactValue sec v)"
proof (induction v arbitrary: sec)
  case (JObj m)
  then show ?case using redactValue_secret by (fastforce simp: list_all_iff)
qed (auto simp: list_all_iff)

text \<open>The keys stay, in their order, and so does the shape of the value.\<close>

lemma redactValue_keys: "redactValue sec (JObj m) = JObj m' \<Longrightarrow> map fst m' = map fst m"
  by auto

text \<open>what \<open>RedactValue\<close> returns holds no text and no number but the mask below a key whose name looks like a
  secret, at any depth and below any mixture of objects and arrays.\<close>

theorem secret_keys_are_masked: "secrets_masked (RedactValue v)"
  by (simp add: RedactValue_def redactValue_masks)

subsection \<open>Secrets assigned in text\<close>

definition assignable_keys :: "string list" where
  "assignable_keys = [''password'', ''passwd'', ''pwd'', ''token'', ''api_key'', ''api-key'', ''apikey'', ''secret'',
     ''access_key'', ''access-key'', ''accesskey'']"

lemma fold_lit_Nil: "Matches (fold_lit []) s = [([], s, [])]"
  by simp

lemma prefix_high: "code_of d < 128 \<Longrightarrow> \<not> prefix (utf8 [0x17F]) (d # s) \<and> \<not> prefix (utf8 [0x212A]) (d # s)"
  by (auto simp: utf8_def utf8_rune_def Let_def code_of_def)

lemma groups_of_fold_lit [simp]: "groups_of (fold_lit l) = 0"
  by (induction l) (simp_all add: fold_char_def Let_def)

lemma fold_lit_Cons:
  "code_of d < 128 \<Longrightarrow>
   Matches (fold_lit (c # cs)) (d # s) =
     (if to_lower d = to_lower c then map (\<lambda>(u, t, g). (d # u, t, g)) (Matches (fold_lit cs) s) else [])"
  using prefix_high [of d s] by (auto simp: fold_char_def Let_def)

lemma secret_keys_match:
  "k \<in> set assignable_keys \<Longrightarrow> MatchAt secret_keys (k @ CHR ''='' # t) = Some (k, CHR ''='' # t, [])"
  unfolding assignable_keys_def secret_keys_def
  by (simp only: list.set insert_iff empty_iff simp_thms, elim disjE)
    (simp_all add: MatchAt_def fold_lit_Nil fold_lit_Cons to_lower_def opt_dash_def code_of_def del: fold_lit.simps)

lemma replace_all_hit:
  "MatchAt (fst p) (c # s) = Some (u, t, g) \<Longrightarrow> u \<noteq> [] \<Longrightarrow>
   replace_all p (c # s) = snd p (find_groups (fst p) u) @ replace_all p t"
  by (simp add: replace_all.simps(2))

lemma key_value_match:
  assumes "k \<in> set assignable_keys" and "w \<noteq> []" and "list_all value_char w" and "t = [] \<or> \<not> value_char (hd t)"
  shows "MatchAt (fst key_value) (k @ CHR ''='' # w @ t) = Some (k @ CHR ''='' # w, t, [k])"
proof -
  have w: "MatchAt (Many 1 value_char) (w @ t) = Some (w, t, [])"
    using assms by (intro MatchAt_Many) (auto simp: Suc_le_eq)
  have "MatchAt (Cat (lit ''='') (Many 1 value_char)) (CHR ''='' # w @ t) = Some (''='' @ w, t, [] @ [])"
    by (rule MatchAt_Cat [OF _ w]) simp
  from MatchAt_Cat [OF MatchAt_Cap [OF secret_keys_match [OF assms(1)]] this]
  show ?thesis by (simp add: key_value_def)
qed

lemma find_groups_MatchAt: "MatchAt r s = Some (u, t, g) \<Longrightarrow> find_groups r s = g"
  by (cases s) simp_all

lemma replace_all_key_value:
  assumes "k \<in> set assignable_keys" and "w \<noteq> []" and "list_all value_char w" and "t = [] \<or> \<not> value_char (hd t)"
  shows "replace_all key_value (k @ CHR ''='' # w @ t) = k @ CHR ''='' # redactionToken @ replace_all key_value t"
proof -
  note m = key_value_match [OF assms(1-3)]
  obtain c s where k: "k @ CHR ''='' # w @ t = c # s" by (cases k) auto
  have "find_groups (fst key_value) (k @ CHR ''='' # w) = [k]"
    using m [of "[]"] by (intro find_groups_MatchAt) simp
  with replace_all_hit [of key_value c s] m [OF assms(4)] k show ?thesis by (simp add: key_value_def)
qed

lemma masked_assignment_is_kept:
  "k \<in> set assignable_keys \<Longrightarrow>
   fold replace_all [auth_header, bearer, sk_key, url_userinfo] (k @ CHR ''='' # redactionToken) =
     k @ CHR ''='' # redactionToken"
  unfolding assignable_keys_def by (simp only: list.set insert_iff empty_iff simp_thms, elim disjE) (simp_all, code_simp+)

text \<open>a secret assigned to a known key at the end of a text, \<open>password=...\<close> and the like, never survives: whatever
  the value is, only the key and the mask are left.\<close>

theorem assigned_secret_is_masked:
  assumes "k \<in> set assignable_keys" and "w \<noteq> []" and "list_all value_char w"
  shows "RedactString (k @ ''='' @ w) = k @ ''='' @ redactionToken"
  using replace_all_key_value [OF assms, of "[]"] masked_assignment_is_kept [OF assms(1)]
  by (simp add: RedactString_def redactPatterns_def)

theorem assigned_secret_is_masked_witness: "RedactString ''api_key=hunter2'' = ''api_key=<REDACTED>''"
  using assigned_secret_is_masked [of "''api_key''" "''hunter2''"]
  by (simp add: assignable_keys_def value_char_def re_space_def code_of_def redactionToken_def quote_def)

text \<open>The value of an assignment is one word: of a secret in two words, or in quotes, the rest or all of it stays.
  A bearer token loses its own pattern to the assignment.\<close>

lemma secret_after_assignment_leaks: "RedactString ''token=Bearer abc'' = ''token=<REDACTED> abc''"
  by code_simp

lemma quoted_secret_leaks:
  "RedactString (''password='' @ [quote] @ ''hunter2'' @ [quote]) = ''password='' @ [quote] @ ''hunter2'' @ [quote]"
  by code_simp

end
