(* ===== verification/Report.thy ===== *)
theory Report
  imports Redact Fence ChatModel
begin

text \<open>
  The fault report, \<open>internal/app/report\<close>: \<open>Generate\<close> on the snapshot of a run (\<open>report.go\<close>), the labels of
  the terminal states (\<open>finish.go\<close>), the bound on a tool result (\<open>summarize.go\<close>), the masking (\<open>redact.go\<close>) and the
  atomic write (\<open>write.go\<close>).  A tool input is a \<open>go_map\<close>.  The times of a run are its start and its end in
  nanoseconds, none for the zero time; the time of the report is its UTC calendar fields.
\<close>

subsection \<open>Labels\<close>

definition termMaxTurns :: string where "termMaxTurns = ''DIAGNOSE.MAX_TURNS''"
definition termTotalTimeout :: string where "termTotalTimeout = ''DIAGNOSE.TOTAL_TIMEOUT''"
definition termToolUnknown :: string where "termToolUnknown = ''DIAGNOSE.TOOL_UNKNOWN''"
definition termToolTimeout :: string where "termToolTimeout = ''DIAGNOSE.TOOL_TIMEOUT''"
definition termUnexpectedPause :: string where "termUnexpectedPause = ''DIAGNOSE.UNEXPECTED_PAUSE''"

definition termCodeLabel :: "string \<Rightarrow> string" where
  "termCodeLabel code =
     (if code = termMaxTurns then utf8 [36798, 21040, 26368, 22823, 36718, 25968, 26410, 25910, 25947]
      else if code = termTotalTimeout then utf8 [24635, 35786, 26029, 36229, 26102]
      else if code = termToolUnknown then utf8 [35843, 29992, 20102, 26410, 30693, 24037, 20855]
      else if code = termToolTimeout then utf8 [24037, 20855, 25191, 34892, 36229, 26102]
      else if code = termUnexpectedPause then utf8 [24847, 22806, 26242, 20572]
      else [])"

definition finishLabel :: "finish_reason \<Rightarrow> string \<Rightarrow> string" where
  "finishLabel fr termCode =
     (if termCode \<noteq> [] then
        (let lbl = termCodeLabel termCode in
         if lbl \<noteq> [] then lbl else utf8 [24322, 24120, 32456, 27490] @ '' ('' @ termCode @ '')'')
      else
        (case fr of
           finish_reason.FinishStop \<Rightarrow> utf8 [27491, 24120, 23436, 25104]
         | finish_reason.FinishStopSequence \<Rightarrow> utf8 [27491, 24120, 23436, 25104]
         | finish_reason.FinishLength \<Rightarrow> utf8 [36798, 21040, 38271, 24230, 19978, 38480, 65288, 25130, 26029, 65289]
         | finish_reason.FinishRefusal \<Rightarrow> utf8 [27169, 22411, 25298, 32477]
         | finish_reason.FinishCancelled \<Rightarrow> utf8 [29992, 25143, 21462, 28040]
         | finish_reason.FinishError \<Rightarrow> utf8 [38169, 35823, 32456, 27490]
         | finish_reason.FinishPause \<Rightarrow> utf8 [24847, 22806, 26242, 20572]
         | finish_reason.FinishToolUse \<Rightarrow> utf8 [24037, 20855, 35843, 29992, 26410, 25910, 25947]
         | finish_reason.FinishUnset \<Rightarrow> utf8 [26410, 23436, 25104]))"

definition noAnswerNote :: "finish_reason \<Rightarrow> string \<Rightarrow> string" where
  "noAnswerNote fr termCode =
     utf8 [65288, 26412, 27425, 35786, 26029, 26410, 20135, 29983, 26368, 32456, 32467, 35770, 65307, 32456, 27490, 29366, 24577, 65306] @
     finishLabel fr termCode @ utf8 [12290, 21487, 37325, 35797, 25110, 31616, 21270, 38382, 39064, 12290, 65289]"

subsection \<open>Bounding a tool result\<close>

definition maxResultLines :: nat where "maxResultLines = 40"
definition maxResultBytes :: nat where "maxResultBytes = 4096"

text \<open>The loop of \<open>lineFitInBytes\<close> with its counter \<open>i\<close>.\<close>

fun fit_loop :: "nat \<Rightarrow> nat \<Rightarrow> nat \<Rightarrow> string list \<Rightarrow> nat" where
  "fit_loop mx i used [] = i"
| "fit_loop mx i used (l # ls) =
     (let add = length l + (if i > 0 then 1 else 0) in
      if used + add > mx then i else fit_loop mx (i + 1) (used + add) ls)"

definition lineFitInBytes :: "string list \<Rightarrow> nat \<Rightarrow> nat" where
  "lineFitInBytes ls mx = fit_loop mx 0 0 ls"

fun back_up :: "string \<Rightarrow> nat \<Rightarrow> nat" where
  "back_up s 0 = 0"
| "back_up s (Suc n) = (if cont (byte_at s (Suc n)) then back_up s n else Suc n)"

definition cutRunes :: "string \<Rightarrow> nat \<Rightarrow> string" where
  "cutRunes s mx = (if length s \<le> mx then s else take (back_up s mx) s)"

definition ellipsis :: string where "ellipsis = utf8 [8230]"

definition appendMarker :: "string \<Rightarrow> nat \<Rightarrow> string" where
  "appendMarker s dropped = s @ NL # ellipsis @ '' (truncated '' @ show_nat dropped @ '' more lines)''"

definition summarize :: "string \<Rightarrow> string" where
  "summarize content =
     (if content = [] then []
      else
        let ls = split_nl content; kept = (if length ls > maxResultLines then take maxResultLines ls else ls);
          keptCount = lineFitInBytes kept maxResultBytes
        in if keptCount = 0 then cutRunes (kept ! 0) maxResultBytes @ NL # ellipsis @ '' (truncated)''
          else
            let out = join_nl (take keptCount kept); dropped = length ls - keptCount
            in if dropped = 0 then out else appendMarker out dropped)"

subsection \<open>Fences\<close>

fun longest_run :: "nat \<Rightarrow> nat \<Rightarrow> int list \<Rightarrow> nat" where
  "longest_run longest cur [] = longest"
| "longest_run longest cur (r # rs) =
     (if r = 96 then longest_run (if cur + 1 > longest then cur + 1 else longest) (cur + 1) rs
      else longest_run longest 0 rs)"

definition tick :: char where "tick = CHR 0x60"

definition fence :: "string \<Rightarrow> string" where
  "fence s =
     (let longest = longest_run 0 0 (runes_of s); n = longest + 1 in replicate (if n < 3 then 3 else n) tick)"

definition canonicalJSON :: "json_map \<Rightarrow> string" where
  "canonicalJSON input =
     (case bad_number (JObj input) of Some _ \<Rightarrow> ''{}'' | None \<Rightarrow> MarshalIndent 0 (JObj input))"

subsection \<open>Sections\<close>

definition TrimSpace_empty :: "string \<Rightarrow> bool" where
  "TrimSpace_empty s \<longleftrightarrow> blank s"

definition orPlaceholder :: "string \<Rightarrow> string" where
  "orPlaceholder s = (if TrimSpace_empty s then utf8 [65288, 26080, 65289] else s)"

definition cachedTag :: "bool \<Rightarrow> string" where
  "cachedTag cached = (if cached then '' (cached)'' else [])"

definition errorTag :: "bool \<Rightarrow> string" where
  "errorTag isErr = (if isErr then '' (error)'' else [])"

record utc_time =
  utc_year :: nat
  utc_month :: nat
  utc_day :: nat
  utc_hour :: nat
  utc_minute :: nat
  utc_second :: nat

definition pad :: "nat \<Rightarrow> nat \<Rightarrow> string" where
  "pad w n = (let s = show_nat n in replicate (w - length s) (CHR ''0'') @ s)"

text \<open>\<open>Format\<close> with the separator of hours, minutes and seconds as an argument.\<close>

definition Format_utc :: "string \<Rightarrow> utc_time \<Rightarrow> string" where
  "Format_utc sep t =
     pad 4 (utc_year t) @ ''-'' @ pad 2 (utc_month t) @ ''-'' @ pad 2 (utc_day t) @ ''T'' @ pad 2 (utc_hour t) @ sep @
     pad 2 (utc_minute t) @ sep @ pad 2 (utc_second t) @ ''Z''"

text \<open>\<open>Round(time.Millisecond)\<close> of a duration that is not negative, in milliseconds, and \<open>String\<close> of the result.\<close>

definition round_ms :: "nat \<Rightarrow> nat" where
  "round_ms ns = (ns + 500000) div 1000000"

definition frac_ms :: "nat \<Rightarrow> string" where
  "frac_ms ms =
     (let f = rev (dropWhile (\<lambda>c. c = CHR ''0'') (rev (pad 3 ms))) in if f = [] then [] else CHR ''.'' # f)"

definition Duration_String :: "nat \<Rightarrow> string" where
  "Duration_String ms =
     (if ms = 0 then ''0s''
      else if ms < 1000 then show_nat ms @ ''ms''
      else
        let s = ms div 1000; sec = show_nat (s mod 60) @ frac_ms (ms mod 1000) @ ''s''; m = s div 60; h = m div 60
        in (if h > 0 then show_nat h @ ''h'' else []) @ (if m > 0 then show_nat (m mod 60) @ ''m'' else []) @ sec)"

record run_times =
  StartedAt :: "nat option"
  FinishedAt :: "nat option"

definition elapsed_line :: "run_times \<Rightarrow> string" where
  "elapsed_line tm =
     (case (StartedAt tm, FinishedAt tm) of
        (Some a, Some b) \<Rightarrow>
          if \<not> b < a then ''- '' @ utf8 [32791, 26102] @ '': '' @ Duration_String (round_ms (b - a)) @ [NL] else []
      | _ \<Rightarrow> [])"

definition writeHeader :: "go_map snapshot \<Rightarrow> run_times \<Rightarrow> utc_time \<Rightarrow> string" where
  "writeHeader snap tm now =
     ''# '' @ utf8 [35786, 26029, 25253, 21578] @ [NL, NL] @
     ''- '' @ utf8 [29983, 25104, 26102, 38388] @ '': '' @ Format_utc '':'' now @ [NL] @
     ''- '' @ utf8 [36718, 25968] @ '': '' @ show_int (sn_Turns snap) @ [NL] @
     ''- '' @ utf8 [29366, 24577] @ '': '' @ finishLabel (sn_FinishStatus snap) (sn_TermCode snap) @ [NL] @
     elapsed_line tm"

definition writeQuestion :: "go_map snapshot \<Rightarrow> string" where
  "writeQuestion snap = NL # ''## '' @ utf8 [38382, 39064] @ [NL, NL] @ orPlaceholder (sn_Prompt snap) @ [NL]"

definition write_input :: "go_map \<Rightarrow> string" where
  "write_input input =
     (case input of
        Some (e # es) \<Rightarrow>
          let j = canonicalJSON (e # es); f = fence j
          in utf8 [21442, 25968] @ '':'' @ [NL, NL] @ f @ ''json'' @ NL # j @ NL # f @ [NL, NL]
      | _ \<Rightarrow> [])"

definition write_event :: "nat \<Rightarrow> go_map tool_event \<Rightarrow> string" where
  "write_event i te =
     (let res = summarize (te_Result te); f = fence res in
      ''### '' @ show_nat (i + 1) @ ''. '' @ te_Name te @ cachedTag (te_Cached te) @ errorTag (te_IsError te) @ [NL, NL] @
      write_input (te_Input te) @
      utf8 [32467, 26524] @ '':'' @ [NL, NL] @ f @ NL # res @ NL # f @ [NL, NL])"

fun write_events :: "nat \<Rightarrow> go_map tool_event list \<Rightarrow> string" where
  "write_events i [] = []"
| "write_events i (te # tes) = write_event i te @ write_events (i + 1) tes"

definition writeProcess :: "go_map snapshot \<Rightarrow> string" where
  "writeProcess snap =
     NL # ''## '' @ utf8 [35786, 26029, 36807, 31243] @ [NL, NL] @
     (if sn_ToolTimeline snap = [] then utf8 [65288, 26080, 24037, 20855, 35843, 29992, 65289] @ [NL]
      else write_events 0 (sn_ToolTimeline snap))"

definition writeConclusion :: "go_map snapshot \<Rightarrow> string" where
  "writeConclusion snap =
     ''## '' @ utf8 [32467, 35770, 19982, 24314, 35758] @ [NL, NL] @
     (if TrimSpace_empty (sn_FinalAnswer snap) then noAnswerNote (sn_FinishStatus snap) (sn_TermCode snap) @ [NL]
      else sn_FinalAnswer snap @ [NL])"

definition redact_input :: "go_map \<Rightarrow> go_map" where
  "redact_input input =
     (case input of None \<Rightarrow> None | Some m \<Rightarrow> (case RedactValue (JObj m) of JObj m' \<Rightarrow> Some m' | _ \<Rightarrow> Some m))"

definition redactSnapshot :: "go_map snapshot \<Rightarrow> go_map snapshot" where
  "redactSnapshot snap =
     snap\<lparr>sn_Prompt := RedactString (sn_Prompt snap), sn_FinalAnswer := RedactString (sn_FinalAnswer snap),
       sn_ToolTimeline :=
         map (\<lambda>te. te\<lparr>te_Result := RedactString (te_Result te), te_Input := redact_input (te_Input te)\<rparr>)
           (sn_ToolTimeline snap)\<rparr>"

definition Generate :: "run_times \<Rightarrow> utc_time \<Rightarrow> go_map snapshot \<Rightarrow> string" where
  "Generate tm now snap =
     (let s = redactSnapshot snap in writeHeader s tm now @ writeQuestion s @ writeProcess s @ writeConclusion s)"

subsection \<open>A fence longer than what it holds\<close>

lemma longest_run_mono: "longest \<le> longest_run longest cur rs"
  by (induction longest cur rs rule: longest_run.induct) (auto split: if_splits)

lemma longest_run_ticks: "longest \<le> longest' \<Longrightarrow> cur + n \<le> longest_run longest' cur (replicate n 96 @ rs) \<or> n = 0"
proof (induction n arbitrary: longest' cur)
  case (Suc n)
  let ?l = "if cur + 1 > longest' then cur + 1 else longest'"
  show ?case
  proof (cases "n = 0")
    case True
    then show ?thesis using longest_run_mono [of ?l "cur + 1" rs] by (auto split: if_splits)
  next
    case False
    have "longest \<le> ?l" using Suc.prems by simp
    with Suc.IH [of ?l "cur + 1"] False show ?thesis by auto
  qed
qed simp

lemma longest_run_append: "\<exists>l c. longest_run longest cur (xs @ ys) = longest_run l c ys"
  by (induction longest cur xs rule: longest_run.induct) (auto split: if_splits)

lemma runes_of_ticks: "runes_of (replicate n tick @ b) = replicate n 96 @ runes_of b"
proof (induction n)
  case (Suc n)
  then show ?case using runes_of_ascii [of tick "[]" "replicate n tick @ b"] by (simp add: tick_def)
qed simp

lemma ticks_below_fence: "n < length (fence (a @ replicate n tick @ b))"
proof (cases n)
  case 0
  then show ?thesis by (simp add: fence_def Let_def)
next
  case (Suc m)
  have "runes_of (a @ replicate n tick @ b) = runes_of a @ replicate n 96 @ runes_of b"
    using runes_of_ascii [of tick a "replicate m tick @ b"] runes_of_ticks [of m b] Suc by (simp add: tick_def)
  moreover obtain l c where
    "longest_run 0 0 (runes_of a @ replicate n 96 @ runes_of b) = longest_run l c (replicate n 96 @ runes_of b)"
    using longest_run_append by blast
  ultimately show ?thesis
    using longest_run_ticks [of l l c n "runes_of b"] Suc by (simp add: fence_def Let_def)
qed

lemma is_tick_run: "takeWhile is_tick s = replicate (length (takeWhile is_tick s)) tick"
  by (induction s) (auto simp: is_tick_def tick_def)

lemma line_of_text: "l \<in> set (split_nl s) \<Longrightarrow> \<exists>a b. s = a @ l @ b"
proof (induction s arbitrary: l)
  case (Cons c s)
  obtain h t where s: "split_nl s = h # t" using split_nl_not_Nil by (meson neq_Nil_conv)
  consider "l = []" | "l = c # h" | "l \<in> set (split_nl s)" using Cons.prems s by (auto split: if_splits)
  then show ?case
  proof cases
    case 1
    then have "c # s = [] @ l @ c # s" by simp
    then show ?thesis by fast
  next
    case 2
    have "s = join_nl (split_nl s)" by simp
    then have "\<exists>b. s = h @ b" using s by (cases t) (auto simp: join_nl_Cons)
    then obtain b where "c # s = [] @ l @ b" using 2 by auto
    then show ?thesis by blast
  next
    case 3
    then obtain a b where "s = a @ l @ b" using Cons.IH by blast
    then have "c # s = (c # a) @ l @ b" by simp
    then show ?thesis by blast
  qed
qed simp

text \<open>No line of a text closes the fence chosen for it.\<close>

lemma fence_not_closed: "list_all (\<lambda>l. \<not> isFenceClose l (length (fence s))) (split_nl s)"
proof (unfold list_all_iff, intro ballI notI)
  fix l assume l: "l \<in> set (split_nl s)" and c: "isFenceClose l (length (fence s))"
  let ?i = "length (takeWhile is_sp l)"
  let ?r = "length (takeWhile is_tick (drop ?i l))"
  have t: "drop ?i l = replicate ?r tick @ drop ?r (drop ?i l)"
    using is_tick_run [of "drop ?i l"] by (metis append_take_drop_id takeWhile_eq_take)
  obtain a b where s: "s = a @ l @ b" using line_of_text [OF l] by blast
  have "l = take ?i l @ replicate ?r tick @ drop ?r (drop ?i l)" by (subst t [symmetric]) simp
  then have "s = (a @ take ?i l) @ replicate ?r tick @ drop ?r (drop ?i l) @ b" using s by (metis append_assoc)
  then have "?r < length (fence s)" using ticks_below_fence by metis
  with c show False by (auto simp: isFenceClose_def tick_run_def Let_def split: if_splits)
qed

lemma fence_replicate: "\<exists>n \<ge> 3. fence s = replicate n tick"
  by (auto simp: fence_def Let_def)

lemma tick_run_fence:
  "rest = [] \<or> \<not> is_tick (hd rest) \<Longrightarrow> n \<noteq> 0 \<Longrightarrow> tick_run (replicate n tick @ rest) = Some (n, rest)"
proof -
  assume r: "rest = [] \<or> \<not> is_tick (hd rest)" and n: "n \<noteq> 0"
  have t: "takeWhile is_sp (replicate n tick @ rest) = []" using n by (cases n) (simp_all add: is_sp_def tick_def)
  have "takeWhile is_tick (replicate n tick @ rest) = replicate n tick"
    using r by (cases rest) (auto simp: takeWhile_append is_tick_def tick_def)
  with t show ?thesis by (simp add: tick_run_def)
qed

lemma fence_closes: "isFenceClose (fence s) (length (fence s))"
  using fence_replicate [of s] tick_run_fence [of "[]"] by (auto simp: isFenceClose_def)

lemma fence_opens:
  "parseFenceOpen (fence s) = Some (length (fence s), [])"
  "parseFenceOpen (fence s @ ''json'') = Some (length (fence s), ''json'')"
proof -
  obtain n where n: "n \<ge> 3" "fence s = replicate n tick" using fence_replicate by blast
  have j: "TrimLeftSpace ''json'' = ''json''" by (rule TrimLeftSpace_graphic) (simp add: graphic_def)
  have "takeWhile isLangChar ''json'' = ''json''" by code_simp
  then show "parseFenceOpen (fence s) = Some (length (fence s), [])"
    "parseFenceOpen (fence s @ ''json'') = Some (length (fence s), ''json'')"
    using n tick_run_fence [of "[]" n] tick_run_fence [of "''json''" n]
    by (simp_all add: parseFenceOpen_def j is_tick_def)
qed

lemma fenced_in_fence:
  "fenced (fence s # split_nl s @ fence s # rest) = ([], split_nl s) # fenced rest"
  "fenced ((fence s @ ''json'') # split_nl s @ fence s # rest) = (''json'', split_nl s) # fenced rest"
  by (rule fenced_block fence_opens fence_not_closed fence_closes)+

subsection \<open>The report in lines\<close>

definition elapsed_lines :: "run_times \<Rightarrow> string list" where
  "elapsed_lines tm =
     (case (StartedAt tm, FinishedAt tm) of
        (Some a, Some b) \<Rightarrow>
          if \<not> b < a then [''- '' @ utf8 [32791, 26102] @ '': '' @ Duration_String (round_ms (b - a))] else []
      | _ \<Rightarrow> [])"

definition header_lines :: "go_map snapshot \<Rightarrow> run_times \<Rightarrow> utc_time \<Rightarrow> string list" where
  "header_lines snap tm now =
     [''# '' @ utf8 [35786, 26029, 25253, 21578], [], ''- '' @ utf8 [29983, 25104, 26102, 38388] @ '': '' @ Format_utc '':'' now,
      ''- '' @ utf8 [36718, 25968] @ '': '' @ show_int (sn_Turns snap),
      ''- '' @ utf8 [29366, 24577] @ '': '' @ finishLabel (sn_FinishStatus snap) (sn_TermCode snap)] @ elapsed_lines tm"

definition question_lines :: "go_map snapshot \<Rightarrow> string list" where
  "question_lines snap = [[], ''## '' @ utf8 [38382, 39064], []] @ split_nl (orPlaceholder (sn_Prompt snap))"

definition fence_lines :: "string \<Rightarrow> string \<Rightarrow> string list" where
  "fence_lines lang s = (fence s @ lang) # split_nl s @ [fence s, []]"

definition input_lines :: "go_map \<Rightarrow> string list" where
  "input_lines input =
     (case input of
        Some (e # es) \<Rightarrow> [utf8 [21442, 25968] @ '':'', []] @ fence_lines ''json'' (canonicalJSON (e # es))
      | _ \<Rightarrow> [])"

definition event_lines :: "nat \<Rightarrow> go_map tool_event \<Rightarrow> string list" where
  "event_lines i te =
     [''### '' @ show_nat (i + 1) @ ''. '' @ te_Name te @ cachedTag (te_Cached te) @ errorTag (te_IsError te), []] @
     input_lines (te_Input te) @ [utf8 [32467, 26524] @ '':'', []] @ fence_lines [] (summarize (te_Result te))"

fun events_lines :: "nat \<Rightarrow> go_map tool_event list \<Rightarrow> string list" where
  "events_lines i [] = []"
| "events_lines i (te # tes) = event_lines i te @ events_lines (i + 1) tes"

definition process_lines :: "go_map snapshot \<Rightarrow> string list" where
  "process_lines snap =
     [[], ''## '' @ utf8 [35786, 26029, 36807, 31243], []] @
     (if sn_ToolTimeline snap = [] then [utf8 [65288, 26080, 24037, 20855, 35843, 29992, 65289]] else events_lines 0 (sn_ToolTimeline snap))"

definition conclusion_lines :: "go_map snapshot \<Rightarrow> string list" where
  "conclusion_lines snap =
     [''## '' @ utf8 [32467, 35770, 19982, 24314, 35758], []] @
     (if TrimSpace_empty (sn_FinalAnswer snap) then [noAnswerNote (sn_FinishStatus snap) (sn_TermCode snap)]
      else split_nl (sn_FinalAnswer snap))"

definition report_lines :: "run_times \<Rightarrow> utc_time \<Rightarrow> go_map snapshot \<Rightarrow> string list" where
  "report_lines tm now s = header_lines s tm now @ question_lines s @ process_lines s @ conclusion_lines s"

lemma end_lines_fence: "end_lines (fence_lines lang s) = fence s @ lang @ NL # s @ NL # fence s @ [NL, NL]"
  by (simp add: fence_lines_def end_lines_split)

lemma write_events_lines: "write_events i tes = end_lines (events_lines i tes)"
  by (induction i tes rule: write_events.induct)
    (auto simp: write_event_def event_lines_def write_input_def input_lines_def end_lines_fence Let_def
      split: option.splits list.splits)

lemma Generate_lines: "Generate tm now snap = end_lines (report_lines tm now (redactSnapshot snap))"
  by (auto simp: Generate_def report_lines_def writeHeader_def header_lines_def elapsed_line_def elapsed_lines_def
      writeQuestion_def question_lines_def writeProcess_def process_lines_def writeConclusion_def conclusion_lines_def
      end_lines_split write_events_lines Let_def split: option.splits)

subsection \<open>Lines that open no fence\<close>

lemma high_char: "128 \<le> (x :: int) \<Longrightarrow> x < 256 \<Longrightarrow> 128 \<le> (of_char (char_of x :: char) :: int)"
  by simp

lemma utf8_rune_high:
  "128 \<le> c \<Longrightarrow> c < 0x110000 \<Longrightarrow> b \<in> set (utf8_rune c) \<Longrightarrow> 128 \<le> (of_char b :: int)"
  by (auto simp: utf8_rune_def simp del: of_char_of_int split: if_splits intro!: high_char)

lemma utf8_high: "list_all (\<lambda>c. 128 \<le> c \<and> c < 0x110000) cs \<Longrightarrow> b \<in> set (utf8 cs) \<Longrightarrow> 128 \<le> (of_char b :: int)"
  using utf8_rune_high by (auto simp: utf8_def list_all_iff)

lemma utf8_one_line [simp]: "list_all (\<lambda>c. 128 \<le> c \<and> c < 0x110000) cs \<Longrightarrow> NL \<notin> set (utf8 cs)"
  using utf8_high [of cs NL] by (auto simp: NL_def)

lemma utf8_rune_one_line [simp]: "128 \<le> c \<Longrightarrow> c < 0x110000 \<Longrightarrow> NL \<notin> set (utf8_rune c)"
  using utf8_rune_high [of c NL] by (auto simp: NL_def)

lemma plain_line: "l = [] \<or> \<not> is_sp (hd l) \<and> \<not> is_tick (hd l) \<Longrightarrow> parseFenceOpen l = None"
  by (cases l) (auto simp: parseFenceOpen_def tick_run_def)

lemma plain_line_ascii [simp]:
  "parseFenceOpen (CHR ''#'' # l) = None" "parseFenceOpen (CHR ''-'' # l) = None"
  by (rule plain_line; simp add: is_sp_def is_tick_def)+

lemma plain_line_utf8 [simp]:
  assumes "128 \<le> c" and "c < 0x110000"
  shows "parseFenceOpen (utf8_rune c @ l) = None" and "parseFenceOpen (utf8_rune c) = None"
proof -
  obtain b u where u: "utf8_rune c = b # u" by (cases "utf8_rune c") auto
  then have "128 \<le> (of_char b :: int)" using utf8_rune_high [OF assms, of b] by simp
  then have "\<not> is_sp b" "\<not> is_tick b" by (auto simp: is_sp_def is_tick_def)
  with u plain_line [of "b # u @ l"] plain_line [of "b # u"]
  show "parseFenceOpen (utf8_rune c @ l) = None" "parseFenceOpen (utf8_rune c) = None" by simp_all
qed

lemma show_nat_one_line [simp]: "NL \<notin> set (show_nat n)"
  using show_nat_is_digit [of NL n] by (auto simp: is_digit_def NL_def)

lemma pad_one_line [simp]: "NL \<notin> set (pad w n)"
  by (simp add: pad_def Let_def) (simp add: NL_def)

lemma NL_eq: "NL = c \<longleftrightarrow> (of_char c :: nat) = 10"
proof
  assume "(of_char c :: nat) = 10"
  moreover have "(of_char NL :: nat) = 10" by (simp add: NL_def)
  ultimately show "NL = c" by (metis char_of_char)
qed (auto simp: NL_def)

lemma termCodeLabel_one_line [simp]: "NL \<notin> set (termCodeLabel code)"
  by (simp add: termCodeLabel_def)

lemma finishLabel_one_line: "NL \<notin> set code \<Longrightarrow> NL \<notin> set (finishLabel fr code)"
  by (cases "code = []"; cases fr; simp add: finishLabel_def Let_def NL_eq)

lemma frac_one_line [simp]: "NL \<notin> set (frac_ms n)"
proof -
  have "set (dropWhile p (rev (pad 3 n))) \<subseteq> set (pad 3 n)" for p using set_dropWhileD by fastforce
  then have "NL \<notin> set (dropWhile p (rev (pad 3 n)))" for p using pad_one_line by blast
  moreover have "NL \<noteq> CHR ''.''" by (simp add: NL_def)
  ultimately show ?thesis by (simp add: frac_ms_def Let_def)
qed

lemma Duration_one_line [simp]: "NL \<notin> set (Duration_String ms)"
proof -
  have "NL \<noteq> CHR ''0''" "NL \<noteq> CHR ''s''" "NL \<noteq> CHR ''m''" "NL \<noteq> CHR ''h''" by (simp_all add: NL_def)
  then show ?thesis by (simp only: Duration_String_def Let_def) (simp split: if_split)
qed

lemma Format_one_line [simp]: "NL \<notin> set sep \<Longrightarrow> NL \<notin> set (Format_utc sep t)"
  by (simp add: Format_utc_def NL_eq)

lemma show_int_one_line [simp]: "NL \<notin> set (show_int n)"
  by (simp add: show_int_def NL_eq)

definition one_line :: "string \<Rightarrow> bool" where
  "one_line l \<longleftrightarrow> NL \<notin> set l"

lemma one_line_split [simp]: "list_all one_line (split_nl s)"
  using split_nl_no_NL by (auto simp: list_all_iff one_line_def)

lemma fence_one_line [simp]: "NL \<notin> set (fence s)"
  using fence_replicate [of s] by (auto simp: tick_def NL_def)

lemma header_one_line: "NL \<notin> set (sn_TermCode s) \<Longrightarrow> list_all one_line (header_lines s tm now)"
  by (auto simp: header_lines_def elapsed_lines_def one_line_def finishLabel_one_line NL_eq split: option.splits)

lemma event_one_line: "NL \<notin> set (te_Name te) \<Longrightarrow> list_all one_line (event_lines i te)"
  by (auto simp: event_lines_def input_lines_def fence_lines_def cachedTag_def errorTag_def NL_eq list_all_append
      one_line_def [of "_ # _"] one_line_def [of "[]"] one_line_def [of "_ @ _"] one_line_def [of "fence _"]
      split: option.splits list.splits)

lemma events_one_line:
  "list_all (\<lambda>te. NL \<notin> set (te_Name te)) tes \<Longrightarrow> list_all one_line (events_lines i tes)"
  by (induction i tes rule: events_lines.induct) (simp_all add: event_one_line)

lemma report_one_line:
  assumes "list_all (\<lambda>te. NL \<notin> set (te_Name te)) (sn_ToolTimeline s)" and "NL \<notin> set (sn_TermCode s)"
  shows "list_all one_line (report_lines tm now s)"
proof -
  have "list_all one_line (question_lines s)"
    by (simp add: question_lines_def) (simp add: one_line_def NL_eq)
  moreover have "list_all one_line (process_lines s)"
    using events_one_line [OF assms(1)] by (auto simp: process_lines_def one_line_def NL_eq)
  moreover have "list_all one_line (conclusion_lines s)"
    by (simp add: conclusion_lines_def) (simp add: one_line_def NL_eq noAnswerNote_def finishLabel_one_line assms(2))
  ultimately show ?thesis using header_one_line [OF assms(2)] by (simp add: report_lines_def)
qed

subsection \<open>The fences of the report\<close>

definition event_code :: "go_map tool_event \<Rightarrow> (string \<times> string) list" where
  "event_code te =
     (case te_Input te of Some (e # es) \<Rightarrow> [(''json'', canonicalJSON (e # es))] | _ \<Rightarrow> []) @
     [([], summarize (te_Result te))]"

abbreviation no_opening :: "string list \<Rightarrow> bool" where
  "no_opening ls \<equiv> list_all (\<lambda>l. parseFenceOpen l = None) ls"

abbreviation block_lines :: "string \<times> string \<Rightarrow> string \<times> string list" where
  "block_lines b \<equiv> (fst b, split_nl (snd b))"

lemma fenced_plain: "parseFenceOpen l = None \<Longrightarrow> fenced (l # ls) = fenced ls"
  by simp

lemma fenced_fence_lines:
  "lang = [] \<or> lang = ''json'' \<Longrightarrow> fenced (fence_lines lang s @ rest) = (lang, split_nl s) # fenced rest"
  using fenced_in_fence [of s "[] # rest"] by (auto simp: fence_lines_def simp del: fenced.simps(2)) (simp_all add: fenced_plain)

lemma fenced_event: "fenced (event_lines i te @ rest) = map block_lines (event_code te) @ fenced rest"
proof -
  have r: "fenced ([utf8 [32467, 26524] @ '':'', []] @ fence_lines [] s @ r) = ([], split_nl s) # fenced r" for s r
    using fenced_prose [of "[utf8 [32467, 26524] @ '':'', []]"] fenced_fence_lines [of "[]"] by (simp del: fenced.simps(2))
  have p: "fenced ([utf8 [21442, 25968] @ '':'', []] @ fence_lines ''json'' s @ r) = (''json'', split_nl s) # fenced r" for s r
    using fenced_prose [of "[utf8 [21442, 25968] @ '':'', []]"] fenced_fence_lines [of "''json''"] by (simp del: fenced.simps(2))
  have t: "fenced ([''### '' @ n, []] @ r) = fenced r" for n r
    using fenced_prose [of "[''### '' @ n, []]"] by simp
  note steps = event_lines_def input_lines_def event_code_def option.case list.case append_assoc append_Nil t r p
  note shape = list.map append.simps fst_conv snd_conv
  consider "te_Input te = None \<or> te_Input te = Some []" | e es where "te_Input te = Some (e # es)"
    by (metis neq_Nil_conv option.exhaust)
  then show ?thesis
  proof cases
    case 1
    then show ?thesis by (elim disjE; simp only: steps; simp only: shape)
  next
    case 2
    show ?thesis by (simp only: 2 steps) (simp only: shape)
  qed
qed

lemma fenced_events:
  "fenced (events_lines i tes @ rest) = map block_lines (concat (map event_code tes)) @ fenced rest"
  by (induction i tes rule: events_lines.induct) (simp_all add: fenced_event)

lemma header_plain: "no_opening (header_lines s tm now)"
  by (auto simp: header_lines_def elapsed_lines_def split: option.splits)

lemma fenced_report:
  assumes "no_opening (split_nl (sn_Prompt s))" and "no_opening (split_nl (sn_FinalAnswer s))"
  shows "fenced (report_lines tm now s @ [[]]) = map block_lines (concat (map event_code (sn_ToolTimeline s)))"
proof -
  have q: "no_opening (question_lines s)"
    using assms(1) by (simp add: question_lines_def orPlaceholder_def split_nl_line)
  have c: "no_opening (conclusion_lines s @ [[]])"
    using assms(2) by (simp add: conclusion_lines_def noAnswerNote_def)
  have p: "fenced (process_lines s @ r) = map block_lines (concat (map event_code (sn_ToolTimeline s))) @ fenced r" for r
    using fenced_prose [of "[[], ''## '' @ utf8 [35786, 26029, 36807, 31243], []]"] fenced_prose [of "[utf8 [65288, 26080, 24037, 20855, 35843, 29992, 65289]]"]
    by (simp add: process_lines_def fenced_events del: fenced.simps(2))
  have "fenced (report_lines tm now s @ [[]]) = fenced (process_lines s @ conclusion_lines s @ [[]])"
    using fenced_prose [OF header_plain] fenced_prose [OF q] by (simp add: report_lines_def)
  then show ?thesis using p [of "conclusion_lines s @ [[]]"] fenced_prose [OF c, of "[]"] by simp
qed


text \<open>A run whose tool answers with a closing fence and a section of its own.\<close>

definition spoofing_run :: "go_map snapshot" where
  "spoofing_run =
     \<lparr>sn_Prompt = ''slow'', sn_FinalAnswer = ''ok'',
      sn_ToolTimeline =
        [\<lparr>te_Name = ''query'', te_Input = Some [(''password'', JStr ''x'')],
          te_Result = replicate 3 tick @ [NL] @ ''## fixed'', te_IsError = False, te_Cached = False\<rparr>],
      sn_Turns = 1, sn_FinishStatus = finish_reason.FinishStop, sn_TermCode = []\<rparr>"

definition no_times :: run_times where
  "no_times = \<lparr>StartedAt = None, FinishedAt = None\<rparr>"

definition midnight :: utc_time where
  "midnight = \<lparr>utc_year = 2026, utc_month = 1, utc_day = 1, utc_hour = 0, utc_minute = 0, utc_second = 0\<rparr>"


subsection \<open>Bounds of a summary\<close>

fun joined :: "nat \<Rightarrow> string list \<Rightarrow> nat" where
  "joined i [] = 0"
| "joined i (l # ls) = length l + (if i > 0 then 1 else 0) + joined (i + 1) ls"

lemma fit_loop_spec:
  "used \<le> mx \<Longrightarrow> \<exists>k \<le> length ls. fit_loop mx i used ls = i + k \<and> used + joined i (take k ls) \<le> mx"
proof (induction mx i used ls rule: fit_loop.induct)
  case (2 mx i used l ls)
  let ?a = "length l + (if i > 0 then 1 else 0)"
  show ?case
  proof (cases "used + ?a > mx")
    case True
    then show ?thesis using 2(2) by (intro exI [of _ 0]) (auto simp: Let_def)
  next
    case False
    with 2(1) [OF refl] obtain k where "k \<le> length ls" "fit_loop mx (i + 1) (used + ?a) ls = i + 1 + k"
      "used + ?a + joined (i + 1) (take k ls) \<le> mx" by fastforce
    with False show ?thesis by (intro exI [of _ "Suc k"]) (auto simp: Let_def)
  qed
qed simp

lemma length_join: "length (join_nl ls) = joined 0 ls"
proof -
  have j: "joined (Suc i) ls = joined 1 ls" for i ls
  proof (induction ls arbitrary: i)
    case (Cons l ls)
    from Cons [of "Suc i"] Cons [of 1] show ?case by simp
  qed simp
  have k: "joined (Suc (Suc i)) ls = joined (Suc 0) ls" for i ls
    using j [of "Suc i" ls] by simp
  have "l \<noteq> [] \<Longrightarrow> Suc (length (join_nl l)) = joined 1 l" for l
    by (induction l rule: join_nl.induct) (simp_all add: k)
  then show ?thesis by (cases ls rule: join_nl.cases) (simp_all add: k)
qed

lemma prefix_join: "prefix (join_nl (take k ls)) (join_nl ls)"
proof (cases "take k ls = [] \<or> drop k ls = []")
  case True
  then show ?thesis by auto
next
  case False
  have "a \<noteq> [] \<Longrightarrow> b \<noteq> [] \<Longrightarrow> join_nl (a @ b) = join_nl a @ NL # join_nl b" for a b
    by (induction a rule: join_nl.induct) (simp_all add: join_nl_Cons)
  from this [of "take k ls" "drop k ls"] False show ?thesis by (simp add: prefix_def)
qed

lemma back_up_spec: "back_up s n \<le> n \<and> (back_up s n = 0 \<or> \<not> cont (byte_at s (back_up s n)))"
  by (induction n) auto

lemma utf8_rune_conts: "valid_rune r \<Longrightarrow> 0 < i \<Longrightarrow> i < length (utf8_rune r) \<Longrightarrow> cont (of_char (utf8_rune r ! i))"
  by (auto simp: utf8_rune_def valid_rune_def cont_def nth_Cons split: if_splits nat.splits)

text \<open>A piece of text that ends before the start of a rune holds whole runes.\<close>

lemma whole_runes:
  "list_all valid_rune rs \<Longrightarrow> prefix p (utf8 rs) \<Longrightarrow> p = [] \<or> \<not> cont (byte_at (utf8 rs) (length p)) \<Longrightarrow>
   \<exists>k. p = utf8 (take k rs)"
proof (induction rs arbitrary: p)
  case Nil
  then show ?case by (simp add: utf8_def)
next
  case (Cons r rs)
  let ?u = "utf8_rune r"
  consider "p = []" | "0 < length p" "length p < length ?u" | p' where "p = ?u @ p'"
  proof (cases "length p < length ?u")
    case False
    with Cons.prems(2) have "prefix ?u p" by (auto simp: prefix_append dest: prefix_length_le intro: prefix_length_prefix)
    then show ?thesis using that(3) by (auto simp: prefix_def)
  qed (use that in auto)
  then show ?case
  proof cases
    case 1
    then show ?thesis by (intro exI [of _ 0]) (simp add: utf8_def)
  next
    case 2
    with utf8_rune_conts [of r "length p"] Cons.prems show ?thesis by (simp add: byte_at_def nth_append)
  next
    case 3
    have "prefix p' (utf8 rs)" using Cons.prems(2) 3 by simp
    moreover have "byte_at (utf8 rs) (length p') = byte_at (utf8 (r # rs)) (length p)"
      using 3 by (simp add: byte_at_def nth_append)
    ultimately obtain k where "p' = utf8 (take k rs)" using Cons.IH [of p'] Cons.prems(1,3) 3 by auto
    then show ?thesis using 3 by (intro exI [of _ "Suc k"]) simp
  qed
qed

lemma join_split_take:
  "0 < k \<Longrightarrow> split_nl (join_nl (take k (split_nl s))) = take k (split_nl s)"
  using split_nl_no_NL [of _ s] by (intro split_join_nl) (auto simp: list_all_iff dest: in_set_takeD)

lemma byte_after_lines:
  assumes "0 < k" and "k < length (split_nl s)"
  shows "\<not> cont (byte_at s (length (join_nl (take k (split_nl s)))))"
proof -
  let ?ls = "split_nl s"
  have j: "a \<noteq> [] \<Longrightarrow> b \<noteq> [] \<Longrightarrow> join_nl (a @ b) = join_nl a @ NL # join_nl b" for a b
    by (induction a rule: join_nl.induct) (simp_all add: join_nl_Cons)
  have "s = join_nl (take k ?ls) @ NL # join_nl (drop k ?ls)"
    using j [of "take k ?ls" "drop k ?ls"] join_split_nl [of s] assms by (simp del: join_split_nl)
  then have "byte_at s (length (join_nl (take k ?ls))) = of_char NL" by (metis byte_at_def add_less_cancel_left length_append less_add_same_cancel1 length_Cons nth_append_length zero_less_Suc)
  then show ?thesis by (simp add: cont_def NL_def)
qed

text \<open>What \<open>summarize\<close> keeps of a text.\<close>

lemma summarize_keeps:
  "\<exists>body marker. summarize s = body @ marker \<and> prefix body s \<and> length body \<le> maxResultBytes \<and>
     length (split_nl body) \<le> maxResultLines \<and> (marker = [] \<longleftrightarrow> body = s) \<and>
     (body = [] \<or> \<not> cont (byte_at s (length body)))"
proof (cases "s = []")
  case True
  then show ?thesis by (simp add: summarize_def maxResultLines_def)
next
  case s: False
  define ls where "ls = split_nl s"
  define kept where "kept = take maxResultLines ls"
  have kept: "(if length ls > maxResultLines then take maxResultLines ls else ls) = kept" by (simp add: kept_def)
  obtain k where k: "k \<le> length kept" "lineFitInBytes kept maxResultBytes = k" "joined 0 (take k kept) \<le> maxResultBytes"
    using fit_loop_spec [of 0 maxResultBytes kept 0] by (auto simp: lineFitInBytes_def)
  have tk: "take k kept = take k ls" "k \<le> maxResultLines" "k \<le> length ls" using k(1) by (auto simp: kept_def min_def split: if_splits)
  show ?thesis
  proof (cases "k = 0")
    case False
    let ?body = "join_nl (take k ls)"
    have lines: "split_nl ?body = take k ls" using False join_split_take [of k s] by (simp add: ls_def)
    have same: "?body = s \<longleftrightarrow> length ls - k = 0"
    proof
      assume "?body = s"
      then have "take k ls = ls" using lines by (simp add: ls_def)
      then show "length ls - k = 0" by (metis diff_is_0_eq length_take min.cobounded2 min_def)
    qed (simp add: ls_def)
    let ?m = "if length ls - k = 0 then [] else NL # ellipsis @ '' (truncated '' @ show_nat (length ls - k) @ '' more lines)''"
    have "summarize s = ?body @ ?m"
      using s False kept k(2) tk(1) by (simp add: summarize_def Let_def ls_def [symmetric] appendMarker_def)
    moreover have "prefix ?body s" using prefix_join [of k ls] by (simp add: ls_def)
    moreover have "length ?body \<le> maxResultBytes" using k(3) tk(1) by (simp add: length_join)
    moreover have "length (split_nl ?body) \<le> maxResultLines" using lines tk by simp
    moreover have "\<not> cont (byte_at s (length ?body))"
      using byte_after_lines [of k s] same False by (cases "k < length ls") (auto simp: ls_def byte_at_def cont_def)
    ultimately show ?thesis using same by (intro exI [of _ ?body] exI [of _ ?m]) simp
  next
    case True
    obtain l r where l: "ls = l # r" unfolding ls_def using split_nl_not_Nil by (meson neq_Nil_conv)
    have step: "i \<le> fit_loop mx i used xs" for mx i used xs
      by (induction mx i used xs rule: fit_loop.induct) (auto simp: Let_def)
    have kl: "kept = l # take 39 r" using l by (simp add: kept_def maxResultLines_def)
    have long: "maxResultBytes < length l"
      using k(2) True kl step [of 1 maxResultBytes "length l" "take 39 r"]
      by (auto simp: lineFitInBytes_def Let_def split: if_splits)
    define n where "n = back_up l maxResultBytes"
    have n: "n \<le> maxResultBytes" "n = 0 \<or> \<not> cont (byte_at l n)" using back_up_spec by (auto simp: n_def)
    have "s = join_nl (l # r)" using l by (metis join_split_nl ls_def)
    then obtain t where t: "s = l @ t" by (cases r) auto
    have "summarize s = take n l @ NL # ellipsis @ '' (truncated)''"
      using s kept k(2) True kl long by (simp add: summarize_def Let_def ls_def [symmetric] cutRunes_def n_def)
    moreover have "prefix (take n l) s" using t by (metis append_assoc append_take_drop_id prefixI)
    moreover have "NL \<notin> set (take n l)" using split_nl_no_NL [of l s] l by (auto simp: ls_def dest: in_set_takeD)
    then have "length (split_nl (take n l)) \<le> maxResultLines" by (simp add: split_nl_line maxResultLines_def)
    moreover have "take n l \<noteq> s" using t n(1) long by (auto dest: arg_cong [of _ _ length])
    moreover have "take n l = [] \<or> \<not> cont (byte_at s (length (take n l)))"
      using n long t by (auto simp: byte_at_def nth_append)
    ultimately show ?thesis using n(1) long
      by (intro exI [of _ "take n l"] exI [of _ "NL # ellipsis @ '' (truncated)''"]) auto
  qed
qed

text \<open>the report shows of a tool result in UTF-8 a prefix of whole runes, at most 40 lines and at most 4096 bytes
  of it, and marks it exactly when something was cut off.\<close>

theorem summary_keeps_whole_runes:
  assumes "list_all valid_rune rs"
  shows "\<exists>k marker. summarize (utf8 rs) = utf8 (take k rs) @ marker \<and> length (utf8 (take k rs)) \<le> maxResultBytes \<and>
    length (split_nl (utf8 (take k rs))) \<le> maxResultLines \<and> (marker = [] \<longleftrightarrow> utf8 (take k rs) = utf8 rs)"
proof -
  obtain body marker where b: "summarize (utf8 rs) = body @ marker" "prefix body (utf8 rs)"
    "length body \<le> maxResultBytes" "length (split_nl body) \<le> maxResultLines" "marker = [] \<longleftrightarrow> body = utf8 rs"
    "body = [] \<or> \<not> cont (byte_at (utf8 rs) (length body))"
    using summarize_keeps [of "utf8 rs"] by blast
  from whole_runes [OF assms b(2,6)] obtain k where "body = utf8 (take k rs)" by blast
  with b show ?thesis by (intro exI [of _ k] exI [of _ marker]) simp
qed

theorem summary_keeps_whole_runes_witness:
  "\<exists>k marker. summarize (utf8 (replicate 1500 8230)) = utf8 (take k (replicate 1500 8230)) @ marker \<and>
    length (utf8 (take k (replicate 1500 8230))) \<le> maxResultBytes"
  using summary_keeps_whole_runes [of "replicate 1500 8230"] by (auto simp: list_all_iff valid_rune_def)

subsection \<open>Writing the report\<close>

text \<open>
  A file system maps paths to contents.  The results of the calls into package \<open>os\<close> are given: the directory, the
  name \<open>CreateTemp\<close> picks, how many bytes a failing write leaves in the file, and the error of each call, if any.  A
  call that fails changes nothing else, and \<open>CreateTemp\<close> picks a name that is not in use.
\<close>

type_synonym file_system = "string \<Rightarrow> string option"

record os_results =
  os_dir :: "go_error + string"
  os_mkdir :: "go_error option"
  os_temp :: "go_error + string"
  os_write :: "(nat \<times> go_error) option"
  os_close :: "go_error option"
  os_rename :: "go_error option"
  os_remove :: "go_error option"

definition ErrWriteFailed :: go_error where
  "ErrWriteFailed = Structured ''REPORT.WRITE_FAILED'' (utf8 [25925, 38556, 25253, 21578, 20889, 20837, 22833, 36133])
     (utf8 [26816, 26597] @ '' opendbx reports '' @ utf8 [30446, 24405, 30340, 20889, 26435, 38480, 19982, 30913, 30424, 31354, 38388]) None"

fun wrap_failed :: "go_error \<Rightarrow> string \<Rightarrow> go_error" where
  "wrap_failed err msg =
     (case ErrWriteFailed of Structured code _ hint _ \<Rightarrow> Structured code msg hint (Some err) | e \<Rightarrow> e)"

definition Join :: "string \<Rightarrow> string \<Rightarrow> string" where
  "Join dir name = dir @ ''/'' @ name"

definition report_path :: "string \<Rightarrow> utc_time \<Rightarrow> string" where
  "report_path dir now = Join dir (Format_utc ''-'' now @ ''.md'')"

definition Remove :: "os_results \<Rightarrow> string \<Rightarrow> file_system \<Rightarrow> file_system" where
  "Remove os p fs = (if os_remove os = None then fs(p := None) else fs)"

definition WriteReport :: "os_results \<Rightarrow> string \<Rightarrow> utc_time \<Rightarrow> file_system \<Rightarrow> (go_error + string) \<times> file_system" where
  "WriteReport os md now fs =
     (case os_dir os of
        Inl e \<Rightarrow> (Inl (wrap_failed e ''resolve reports directory''), fs)
      | Inr dir \<Rightarrow>
     (case os_mkdir os of
        Some e \<Rightarrow> (Inl (wrap_failed e ''create reports directory''), fs)
      | None \<Rightarrow>
     (let path = report_path dir now in
      case os_temp os of
        Inl e \<Rightarrow> (Inl (wrap_failed e ''create temp report file''), fs)
      | Inr tmpName \<Rightarrow>
     (let fs = fs(tmpName \<mapsto> []) in
      case os_write os of
        Some (n, e) \<Rightarrow>
          (Inl (wrap_failed e ''write report contents''), Remove os tmpName (fs(tmpName \<mapsto> take n md)))
      | None \<Rightarrow>
     (let fs = fs(tmpName \<mapsto> md) in
      case os_close os of
        Some e \<Rightarrow> (Inl (wrap_failed e ''close report file''), Remove os tmpName fs)
      | None \<Rightarrow>
     (case os_rename os of
        Some e \<Rightarrow> (Inl (wrap_failed e ''finalize report file''), Remove os tmpName fs)
      | None \<Rightarrow> (Inr path, fs(tmpName := None, path := fs tmpName))))))))"

definition temp_path :: "os_results \<Rightarrow> string" where
  "temp_path os = (case os_temp os of Inr t \<Rightarrow> t | Inl _ \<Rightarrow> [])"

lemma wrap_failed_is: "errors_Is (wrap_failed e msg) ErrWriteFailed"
  by (simp add: ErrWriteFailed_def same_error_def structured_Is_def)

text \<open>C29: the report is written at once or not at all.  When \<open>WriteReport\<close> returns a path, the file there holds the
  whole report and nothing else has changed; when it fails, by whatever call, the error is \<open>REPORT.WRITE_FAILED\<close>, no
  file but the temporary one has changed, and that one is gone too unless its removal fails.\<close>

theorem report_written_at_once:
  assumes "fs (temp_path os) = None" and "\<And>dir. os_dir os = Inr dir \<Longrightarrow> temp_path os \<noteq> report_path dir now"
  shows "case WriteReport os md now fs of
      (Inr p, fs') \<Rightarrow> fs' = fs(p \<mapsto> md)
    | (Inl e, fs') \<Rightarrow> errors_Is e ErrWriteFailed \<and> fs'(temp_path os := None) = fs \<and> (os_remove os = None \<longrightarrow> fs' = fs)"
  using assms
  by (auto simp: WriteReport_def Remove_def temp_path_def Let_def wrap_failed_is fun_eq_iff simp del: wrap_failed.simps
      split: sum.splits option.splits)

definition disk_full :: os_results where
  "disk_full = \<lparr>os_dir = Inr ''/r'', os_mkdir = None, os_temp = Inr ''/r/.report-1.tmp'',
     os_write = Some (3, Foreign ''no space left on device'' []), os_close = None, os_rename = None, os_remove = None\<rparr>"

theorem report_written_at_once_witness:
  "case WriteReport disk_full ''# report'' midnight (\<lambda>_. None) of
      (Inr p, fs') \<Rightarrow> False
    | (Inl e, fs') \<Rightarrow> errors_Is e ErrWriteFailed \<and> fs' = (\<lambda>_. None)"
proof -
  have "temp_path disk_full \<noteq> report_path dir midnight" if "os_dir disk_full = Inr dir" for dir
    using that by (auto simp: temp_path_def disk_full_def report_path_def Join_def)
  moreover have "\<exists>e fs'. WriteReport disk_full ''# report'' midnight (\<lambda>_. None) = (Inl e, fs')"
    by (simp add: WriteReport_def disk_full_def Let_def)
  moreover have "os_remove disk_full = None" by (simp add: disk_full_def)
  ultimately show ?thesis
    using report_written_at_once [of "\<lambda>_. None" disk_full midnight "''# report''"] by auto
qed

subsection \<open>What the fences do not cover\<close>

text \<open>The question stands outside fences: one that opens a fence and does not close it makes code of the whole
  report below it.\<close>

definition open_fence_run :: "go_map snapshot" where
  "open_fence_run = spoofing_run\<lparr>sn_Prompt := replicate 3 tick @ ''sql'', sn_ToolTimeline := []\<rparr>"

lemma open_question_swallows_report:
  "map is_code (splitSegments (Generate no_times midnight open_fence_run)
     (scanFenceRanges (Generate no_times midnight open_fence_run))) = [False, True]"
  by code_simp

end
