(* ===== verification/Skills.thy ===== *)
theory Skills
  imports Json DiagTools "HOL-Library.Product_Lexorder" "HOL-Library.Multiset"
begin

text \<open>
  Skills as values, \<open>internal/app/skills\<close>: the frontmatter schema (\<open>schema.go\<close>), a skill with its provenance
  (\<open>skill.go\<close>), validation (\<open>validate.go\<close>), the ranking of the directories skills come from (\<open>roots.go\<close>) and the
  resolution of names (\<open>namespace.go\<close>).  Skills are values here, so the deep copies of the code leave no trace.
\<close>

subsection \<open>Skills\<close>

record skill_schema =
  sk_Name :: string
  sk_Description :: string
  sk_AllowedTools :: string
  sk_Model :: string
  sk_Extra :: go_map

datatype source_kind = SourceUnknown | SourceBuiltin | SourcePluginCache | SourceUserGlobal | SourceProject

fun Kind_String :: "source_kind \<Rightarrow> string" where
  "Kind_String SourceBuiltin = ''builtin''"
| "Kind_String SourcePluginCache = ''plugin-cache''"
| "Kind_String SourceUserGlobal = ''user-global''"
| "Kind_String SourceProject = ''project''"
| "Kind_String SourceUnknown = ''unknown''"

record skill_source =
  ss_Kind :: source_kind
  ss_Precedence :: int
  ss_Path :: string
  ss_PluginID :: string

record skill =
  sk_Schema :: skill_schema
  sk_Body :: string
  sk_Source :: skill_source

definition Key :: "skill \<Rightarrow> string" where
  "Key s = sk_Name (sk_Schema s)"

text \<open>\<open>strings.TrimSpace\<close>: white space at the end of a string is the encoding of a space rune.\<close>

definition trailing_space :: "string \<Rightarrow> string option" where
  "trailing_space s = find (\<lambda>p. suffix p s) (map utf8_rune space_runes)"

lemma trailing_space_suffix: "trailing_space s = Some p \<Longrightarrow> suffix p s \<and> p \<noteq> []"
  by (auto simp: trailing_space_def find_Some_iff)

function TrimRightSpace :: "string \<Rightarrow> string" where
  "TrimRightSpace s =
     (case trailing_space s of None \<Rightarrow> s | Some p \<Rightarrow> TrimRightSpace (take (length s - length p) s))"
  by pat_completeness auto
termination
  by (relation "measure length") (auto dest!: trailing_space_suffix simp: suffix_def)

declare TrimRightSpace.simps [simp del]

definition TrimSpace :: "string \<Rightarrow> string" where
  "TrimSpace s = TrimRightSpace (TrimLeftSpace s)"

text \<open>\<open>strings.Split(s, ",")\<close>.\<close>

fun split_commas :: "string \<Rightarrow> string list" where
  "split_commas [] = [[]]"
| "split_commas (c # cs) =
     (if c = CHR '','' then [] # split_commas cs
      else (case split_commas cs of [] \<Rightarrow> [[c]] | l # ls \<Rightarrow> (c # l) # ls))"

definition AllowedToolsList :: "skill_schema \<Rightarrow> string list option" where
  "AllowedToolsList s =
     (if blank (sk_AllowedTools s) then None
      else
        let out = filter (\<lambda>t. t \<noteq> []) (map TrimSpace (split_commas (sk_AllowedTools s)))
        in if out = [] then None else Some out)"

subsection \<open>Errors\<close>

definition ErrNoFrontmatter :: go_error where
  "ErrNoFrontmatter = Structured ''SKILL.NO_FRONTMATTER'' ''SKILL.md does not start with a --- frontmatter fence''
     ''begin the file with a YAML frontmatter block delimited by --- lines'' None"

definition ErrUnterminatedFrontmatter :: go_error where
  "ErrUnterminatedFrontmatter = Structured ''SKILL.UNTERMINATED_FRONTMATTER''
     ''SKILL.md frontmatter is missing its closing --- fence''
     ''add a --- line (at column 0) to close the frontmatter before the body'' None"

definition ErrParseError :: go_error where
  "ErrParseError = Structured ''SKILL.PARSE_ERROR'' ''SKILL.md frontmatter is not valid YAML''
     ''fix the YAML syntax in the frontmatter block'' None"

definition ErrTooLarge :: go_error where
  "ErrTooLarge = Structured ''SKILL.TOO_LARGE'' ''SKILL.md exceeds the 1 MiB size limit''
     ''split or trim the skill; the 1 MiB cap is an opendbx safety bound'' None"

definition ErrTooDeep :: go_error where
  "ErrTooDeep = Structured ''SKILL.TOO_DEEP'' ''SKILL.md frontmatter YAML nesting is too deep (>= 32)''
     ''flatten the frontmatter; deep nesting is rejected as an anti-bomb guard'' None"

definition ErrMissingName :: go_error where
  "ErrMissingName = Structured ''SKILL.MISSING_NAME'' ''SKILL.md frontmatter is missing the required name field''
     ''add a non-empty name: field; the name is the global skill identifier'' None"

definition ErrInvalidName :: go_error where
  "ErrInvalidName = Structured ''SKILL.INVALID_NAME'' ''SKILL.md name contains illegal characters or is too long''
     ''use a name without path separators, whitespace, or control chars (<= 128 chars)'' None"

definition ErrMissingDescription :: go_error where
  "ErrMissingDescription = Structured ''SKILL.MISSING_DESCRIPTION''
     ''SKILL.md frontmatter is missing the required description field''
     ''add a description: field; it drives when the model selects this skill'' None"

definition ErrNamespaceConflict :: go_error where
  "ErrNamespaceConflict = Structured ''SKILL.NAMESPACE_CONFLICT''
     ''two skills share the same name at the same precedence''
     ''rename one skill or move it to a different source so precedence can resolve it'' None"

definition ErrValidationFailed :: go_error where
  "ErrValidationFailed = Structured ''SKILL.VALIDATION_FAILED'' ''SKILL.md failed one or more validation rules''
     ''fix the reported field violations; see the wrapped details for each'' None"

definition ErrRootUnreadable :: go_error where
  "ErrRootUnreadable = Structured ''SKILL.ROOT_UNREADABLE'' ''skill root directory is not readable''
     ''check the directory exists and is a non-symlink dir with read permission; or remove it from skill_search_paths''
     None"

definition ErrFileUnreadable :: go_error where
  "ErrFileUnreadable = Structured ''SKILL.FILE_UNREADABLE'' ''SKILL.md file could not be read''
     ''check the file permissions; or remove the file'' None"

definition ErrRootTooManyFiles :: go_error where
  "ErrRootTooManyFiles = Structured ''SKILL.ROOT_TOO_MANY_FILES'' ''skill root has more files than the scan limit''
     ''reduce the number of skill files in the directory; the cap is a DoS guard'' None"

text \<open>\<open>errcode.Newf\<close> and \<open>errcode.Wrap\<close> of a registered sentinel; an empty message is the registered one.\<close>

fun Newf_of :: "go_error \<Rightarrow> string \<Rightarrow> go_error" where
  "Newf_of (Structured code _ hint _) text = Structured code text hint None"
| "Newf_of e _ = e"

fun Wrap_of :: "go_error \<Rightarrow> go_error \<Rightarrow> string \<Rightarrow> go_error" where
  "Wrap_of (Structured code message hint _) err text =
     Structured code (if text = [] then message else text) hint (Some err)"
| "Wrap_of e _ _ = e"

subsection \<open>Validation\<close>

definition maxNameLen :: nat where "maxNameLen = 128"

definition lower :: "char \<Rightarrow> bool" where
  "lower c \<longleftrightarrow> 97 \<le> code_of c \<and> code_of c \<le> 122"

definition lower_digit :: "char \<Rightarrow> bool" where
  "lower_digit c \<longleftrightarrow> lower c \<or> is_digit c"

text \<open>The expression \<open>^[a-z][a-z0-9]*(-[a-z0-9]+)*$\<close>: after a letter, words with single hyphens between them.\<close>

fun kebab_rest :: "string \<Rightarrow> bool" where
  "kebab_rest [] \<longleftrightarrow> True"
| "kebab_rest (c # cs) \<longleftrightarrow>
     (if c = CHR ''-'' then (case cs of [] \<Rightarrow> False | d # ds \<Rightarrow> lower_digit d \<and> kebab_rest ds)
      else lower_digit c \<and> kebab_rest cs)"

definition kebabNameRE :: "string \<Rightarrow> bool" where
  "kebabNameRE s \<longleftrightarrow> (case s of [] \<Rightarrow> False | c # cs \<Rightarrow> lower c \<and> kebab_rest cs)"

datatype warn_kind = WarnNonKebabName | WarnUnknownField

record warning =
  w_Kind :: warn_kind
  w_Field :: string
  w_Detail :: string

definition control_rune :: "int \<Rightarrow> bool" where
  "control_rune r \<longleftrightarrow> (0 \<le> r \<and> r < 32) \<or> (127 \<le> r \<and> r < 160)"

definition validName :: "string \<Rightarrow> bool" where
  "validName name \<longleftrightarrow> length name \<le> maxNameLen \<and>
     list_all (\<lambda>r. r \<noteq> 47 \<and> r \<noteq> 92 \<and> r \<notin> set space_runes \<and> \<not> control_rune r) (runes_of name)"

text \<open>\<open>errors.Join\<close>.\<close>

definition errors_Join :: "go_error list \<Rightarrow> go_error" where
  "errors_Join es = Foreign (join_nl (map Error_text es)) es"

definition Validate :: "skill \<Rightarrow> warning list \<times> go_error option" where
  "Validate s =
     (let name = sk_Name (sk_Schema s);
        bad_name =
          (if blank name then [ErrMissingName]
           else if \<not> validName name then
             [Newf_of ErrInvalidName (''name '' @ go_quote name @
               '' has illegal characters or exceeds '' @ show_nat maxNameLen @ '' chars'')]
           else []);
        odd_name =
          (if blank name \<or> \<not> validName name \<or> kebabNameRE name then []
           else [\<lparr>w_Kind = WarnNonKebabName, w_Field = ''name'',
                   w_Detail = ''name is not kebab-case (lowercase-with-hyphens); CC convention''\<rparr>]);
        no_description = (if blank (sk_Description (sk_Schema s)) then [ErrMissingDescription] else []);
        unknown =
          map (\<lambda>k. \<lparr>w_Kind = WarnUnknownField, w_Field = k,
                  w_Detail = ''unknown frontmatter field preserved in Extra (forward-compat)''\<rparr>)
            (case sk_Extra (sk_Schema s) of None \<Rightarrow> [] | Some m \<Rightarrow> sort (map fst m));
        failures = bad_name @ no_description
      in (odd_name @ unknown,
          if failures = [] then None else Some (Wrap_of ErrValidationFailed (errors_Join failures) [])))"

subsection \<open>Roots\<close>

definition BandBuiltin :: int where "BandBuiltin = 0"
definition BandPlugin :: int where "BandPlugin = 1"
definition BandUser :: int where "BandUser = 2"
definition BandProject :: int where "BandProject = 3"
definition BandSearchPath :: int where "BandSearchPath = 4"
definition VariantClaude :: int where "VariantClaude = 0"
definition VariantOpendbx :: int where "VariantOpendbx = 1"

record root_spec =
  rs_Kind :: source_kind
  rs_Band :: int
  rs_SubOrder :: int
  rs_Dir :: string
  rs_PluginID :: string
  rs_Required :: bool

record skill_root =
  sr_Kind :: source_kind
  sr_Precedence :: int
  sr_Dir :: string
  sr_PluginID :: string
  sr_Required :: bool

definition rank :: "root_spec \<Rightarrow> int \<times> int \<times> string" where
  "rank r = (rs_Band r, rs_SubOrder r, rs_Dir r)"

text \<open>The walk from the highest rank down, which keeps the first root of each directory.\<close>

fun keep_first :: "string set \<Rightarrow> root_spec list \<Rightarrow> root_spec list" where
  "keep_first seen [] = []"
| "keep_first seen (r # rs) =
     (if rs_Dir r \<in> seen then keep_first seen rs else r # keep_first (insert (rs_Dir r) seen) rs)"

definition ranked_root :: "nat \<Rightarrow> root_spec \<Rightarrow> skill_root" where
  "ranked_root i r =
     \<lparr>sr_Kind = rs_Kind r, sr_Precedence = int i, sr_Dir = rs_Dir r, sr_PluginID = rs_PluginID r,
      sr_Required = rs_Required r\<rparr>"

definition AssignPrecedence :: "root_spec list \<Rightarrow> skill_root list" where
  "AssignPrecedence specs =
     (let ordered = sort_key rank specs; deduped = rev (keep_first {} (rev ordered))
      in map (\<lambda>(i, r). ranked_root i r) (enumerate 0 deduped))"

lemma keep_first_props:
  "distinct (map rs_Dir (keep_first seen rs)) \<and> rs_Dir ` set (keep_first seen rs) = rs_Dir ` set rs - seen \<and>
   set (keep_first seen rs) \<subseteq> set rs"
  by (induction seen rs rule: keep_first.induct) auto

lemma keep_first_order: "sorted_wrt P rs \<Longrightarrow> sorted_wrt P (keep_first seen rs)"
proof (induction seen rs rule: keep_first.induct)
  case (2 seen r rs)
  have "set (keep_first (insert (rs_Dir r) seen) rs) \<subseteq> set rs" using keep_first_props by blast
  with 2 show ?case by auto
qed simp

lemma keep_first_top:
  "sorted_wrt (\<lambda>a b. rank b \<le> rank a) rs \<Longrightarrow> k \<in> set (keep_first seen rs) \<Longrightarrow> r \<in> set rs \<Longrightarrow> rs_Dir r = rs_Dir k \<Longrightarrow>
   rank r \<le> rank k"
proof (induction seen rs rule: keep_first.induct)
  case (2 seen h rs)
  have out: "rs_Dir k \<notin> seen'" if "k \<in> set (keep_first seen' rs)" for seen'
    using keep_first_props [of seen' rs] that by blast
  show ?case
  proof (cases "rs_Dir h \<in> seen")
    case True
    with 2 out [of seen] show ?thesis by auto
  next
    case False
    with 2 out [of "insert (rs_Dir h) seen"] show ?thesis by auto
  qed
qed simp

text \<open>The specifications that are kept, in the order of their ranks.\<close>

definition spec_of :: "root_spec list \<Rightarrow> root_spec list" where
  "spec_of specs = rev (keep_first {} (rev (sort_key rank specs)))"

lemma AssignPrecedence_nth:
  "AssignPrecedence specs = map (\<lambda>(i, r). ranked_root i r) (enumerate 0 (spec_of specs))"
  by (simp add: AssignPrecedence_def spec_of_def Let_def)

lemma map_enumerate: "map (\<lambda>(i, r). f r) (enumerate n xs) = map f xs"
  by (induction xs arbitrary: n) (simp_all add: enumerate_simps(2))

lemma AssignPrecedence_dirs: "map sr_Dir (AssignPrecedence specs) = map rs_Dir (spec_of specs)"
  by (simp add: AssignPrecedence_nth ranked_root_def case_prod_unfold comp_def flip: map_map)
    (simp flip: map_enumerate [of rs_Dir 0] add: case_prod_unfold)

lemma AssignPrecedence_dense: "map sr_Precedence (AssignPrecedence specs) = map int [0..<length (spec_of specs)]"
  by (rule nth_equalityI) (simp_all add: AssignPrecedence_nth ranked_root_def case_prod_unfold nth_enumerate_eq)

lemma spec_of_props:
  "distinct (map rs_Dir (spec_of specs)) \<and> rs_Dir ` set (spec_of specs) = rs_Dir ` set specs \<and>
   set (spec_of specs) \<subseteq> set specs"
  using keep_first_props [of "{}" "rev (sort_key rank specs)"] by (simp add: spec_of_def rev_map [symmetric])

definition top_rank :: "root_spec list \<Rightarrow> string \<Rightarrow> int \<times> int \<times> string" where
  "top_rank specs d = Max (rank ` set (filter (\<lambda>r. rs_Dir r = d) specs))"

lemma descending: "sorted_wrt (\<lambda>a b. rank b \<le> rank a) (rev (sort_key rank specs))"
  using sorted_sort_key [of rank specs] by (simp add: sorted_wrt_rev sorted_map)

lemma spec_of_top: "k \<in> set (spec_of specs) \<Longrightarrow> top_rank specs (rs_Dir k) = rank k"
  unfolding top_rank_def
proof (rule Max_eqI)
  fix y assume k: "k \<in> set (spec_of specs)" and "y \<in> rank ` set (filter (\<lambda>r. rs_Dir r = rs_Dir k) specs)"
  then obtain r where "r \<in> set specs" "rs_Dir r = rs_Dir k" "y = rank r" by auto
  then show "y \<le> rank k" using keep_first_top [OF descending, of k "{}" specs r] k by (simp add: spec_of_def)
qed (use spec_of_props in auto)

lemma spec_of_ascending: "sorted_wrt (\<lambda>a b. rank a < rank b) (spec_of specs)"
  unfolding sorted_wrt_iff_nth_less
proof (intro allI impI)
  fix i j assume ij: "i < j" "j < length (spec_of specs)"
  have "sorted_wrt (\<lambda>a b. rank a \<le> rank b) (spec_of specs)"
    using keep_first_order [OF descending] by (simp add: spec_of_def sorted_wrt_rev)
  then have "rank (spec_of specs ! i) \<le> rank (spec_of specs ! j)" using ij by (simp add: sorted_wrt_iff_nth_less)
  moreover have "rs_Dir (spec_of specs ! i) \<noteq> rs_Dir (spec_of specs ! j)"
    using spec_of_props [of specs] ij nth_eq_iff_index_eq [of "map rs_Dir (spec_of specs)" i j] by simp
  ultimately show "rank (spec_of specs ! i) < rank (spec_of specs ! j)" by (auto simp: rank_def)
qed

text \<open>directories are ranked without ties.  \<open>AssignPrecedence\<close> lists every directory of the specifications once,
  numbers them from 0 without gaps, and the order of the numbers is the order of the highest rank each directory
  has in any of its specifications.\<close>

theorem precedence_is_injective:
  "distinct (map sr_Dir (AssignPrecedence specs)) \<and>
   set (map sr_Dir (AssignPrecedence specs)) = set (map rs_Dir specs) \<and>
   map sr_Precedence (AssignPrecedence specs) = map int [0..<length (AssignPrecedence specs)] \<and>
   sorted_wrt (<) (map (top_rank specs) (map sr_Dir (AssignPrecedence specs)))"
proof -
  have "sorted_wrt (<) (map (top_rank specs) (map rs_Dir (spec_of specs)))"
    unfolding map_map comp_def sorted_wrt_map
    by (rule sorted_wrt_mono_rel [OF _ spec_of_ascending]) (simp add: spec_of_top)
  then show ?thesis
    using spec_of_props [of specs] AssignPrecedence_dirs [of specs] AssignPrecedence_dense [of specs]
    by (metis length_map list.set_map)
qed

subsection \<open>Names\<close>

datatype conflict_kind = ConflictShadowed | ConflictUnresolvable

record conflict =
  cf_Name :: string
  cf_Kind :: conflict_kind
  cf_Winner :: "skill option"
  cf_Shadowed :: "skill list"

definition Conflict_Err :: "conflict \<Rightarrow> go_error option" where
  "Conflict_Err c =
     (if cf_Kind c \<noteq> ConflictUnresolvable then None
      else Some (Newf_of ErrNamespaceConflict
        (''skill '' @ go_quote (cf_Name c) @ '' is defined '' @ show_nat (length (cf_Shadowed c)) @
         '' times at the same precedence'')))"

record resolution =
  re_Active :: "skill list"
  re_Shadowed :: "skill list"
  re_Conflicts :: "conflict list"

abbreviation prec :: "skill \<Rightarrow> int" where
  "prec s \<equiv> ss_Precedence (sk_Source s)"

definition named :: "skill list \<Rightarrow> skill list" where
  "named skills = filter (\<lambda>s. Key s \<noteq> []) skills"

definition group_of :: "skill list \<Rightarrow> string \<Rightarrow> skill list" where
  "group_of skills name = filter (\<lambda>s. Key s = name) (named skills)"

definition name_order :: "skill list \<Rightarrow> string list" where
  "name_order skills = sort (remdups (map Key (named skills)))"

text \<open>The loop of \<open>topByPrecedence\<close>: \<open>bp\<close> is the precedence of the best skill so far.\<close>

fun top_loop :: "nat \<Rightarrow> nat \<Rightarrow> int \<Rightarrow> nat \<Rightarrow> skill list \<Rightarrow> nat \<times> nat" where
  "top_loop i best bp cnt [] = (best, cnt)"
| "top_loop i best bp cnt (s # ss) =
     (if prec s > bp then top_loop (i + 1) i (prec s) 1 ss
      else if prec s = bp then top_loop (i + 1) best bp (cnt + 1) ss
      else top_loop (i + 1) best bp cnt ss)"

definition topByPrecedence :: "skill list \<Rightarrow> nat \<times> bool" where
  "topByPrecedence grp =
     (let (best, cnt) = top_loop 1 0 (prec (grp ! 0)) 1 (drop 1 grp) in (best, cnt > 1))"

definition losers :: "nat \<Rightarrow> skill list \<Rightarrow> skill list" where
  "losers k grp = take k grp @ drop (k + 1) grp"

definition resolve_group :: "string \<Rightarrow> skill list \<Rightarrow> resolution \<Rightarrow> resolution" where
  "resolve_group name grp res =
     (if length grp = 1 then res\<lparr>re_Active := re_Active res @ [grp ! 0]\<rparr>
      else
        let (k, tie) = topByPrecedence grp in
        if tie then
          res\<lparr>re_Conflicts := re_Conflicts res @
            [\<lparr>cf_Name = name, cf_Kind = ConflictUnresolvable, cf_Winner = None, cf_Shadowed = grp\<rparr>]\<rparr>
        else
          res\<lparr>re_Active := re_Active res @ [grp ! k], re_Shadowed := re_Shadowed res @ losers k grp,
            re_Conflicts := re_Conflicts res @
              [\<lparr>cf_Name = name, cf_Kind = ConflictShadowed, cf_Winner = Some (grp ! k),
                cf_Shadowed = losers k grp\<rparr>]\<rparr>)"

definition Resolve :: "skill list \<Rightarrow> resolution" where
  "Resolve skills =
     fold (\<lambda>name. resolve_group name (group_of skills name)) (name_order skills)
       \<lparr>re_Active = [], re_Shadowed = [], re_Conflicts = []\<rparr>"

definition DetectConflicts :: "skill list \<Rightarrow> conflict list" where
  "DetectConflicts skills = re_Conflicts (Resolve skills)"

subsection \<open>Facts of resolution\<close>

definition at_prec :: "int \<Rightarrow> skill list \<Rightarrow> skill list" where
  "at_prec p ss = filter (\<lambda>s. prec s = p) ss"

definition top_of :: "skill list \<Rightarrow> nat \<Rightarrow> int \<Rightarrow> nat \<Rightarrow> bool" where
  "top_of ss best bp cnt \<longleftrightarrow> best < length ss \<and> prec (ss ! best) = bp \<and> (\<forall>s \<in> set ss. prec s \<le> bp) \<and>
     cnt = length (at_prec bp ss)"

lemma top_loop_spec:
  "top_of ps best bp cnt \<Longrightarrow> top_loop (length ps) best bp cnt ss = (b, c) \<Longrightarrow>
   \<exists>p. top_of (ps @ ss) b p c"
proof (induction ss arbitrary: ps best bp cnt)
  case (Cons s ss)
  have "\<exists>best' bp' cnt'. top_of (ps @ [s]) best' bp' cnt' \<and>
      top_loop (length ps) best bp cnt (s # ss) = top_loop (length (ps @ [s])) best' bp' cnt' ss"
  proof (cases "prec s > bp")
    case True
    then have "at_prec (prec s) ps = []" using Cons.prems(1) by (fastforce simp: top_of_def at_prec_def filter_empty_conv)
    then have "top_of (ps @ [s]) (length ps) (prec s) 1"
      using True Cons.prems(1) by (fastforce simp: top_of_def at_prec_def)
    with True show ?thesis by (intro exI conjI) auto
  next
    case False
    with Cons.prems(1) have "top_of (ps @ [s]) best bp (if prec s = bp then cnt + 1 else cnt)"
      by (auto simp: top_of_def at_prec_def nth_append)
    with False show ?thesis by (intro exI conjI) auto
  qed
  with Cons show ?case by (metis append_Cons append_Nil append_assoc)
qed auto

lemma topByPrecedence_spec:
  assumes "grp \<noteq> []" and "topByPrecedence grp = (b, tie)"
  shows "\<exists>p c. top_of grp b p c \<and> (tie \<longleftrightarrow> c > 1)"
proof -
  obtain g gs where g: "grp = g # gs" using assms(1) by (cases grp) auto
  obtain b' c' where l: "top_loop 1 0 (prec g) 1 gs = (b', c')" by fastforce
  have "top_of [g] 0 (prec g) 1" by (simp add: top_of_def at_prec_def)
  from top_loop_spec [OF this, of gs b' c'] l g assms(2) show ?thesis
    by (auto simp: topByPrecedence_def Let_def)
qed

text \<open>The single skill at the top outranks every other one.\<close>

lemma single_top:
  assumes "top_of grp b p c" and "\<not> c > 1" and "t \<in> set grp"
  shows "t = grp ! b \<or> prec t < prec (grp ! b)"
proof (rule ccontr)
  assume n: "\<not> (t = grp ! b \<or> prec t < prec (grp ! b))"
  then have "t \<in> set (at_prec p grp)" "grp ! b \<in> set (at_prec p grp)" "t \<noteq> grp ! b"
    using assms by (fastforce simp: top_of_def at_prec_def)+
  moreover have "length (at_prec p grp) \<le> 1" using assms(1,2) by (simp add: top_of_def)
  ultimately show False by (cases "at_prec p grp") (auto simp: le_Suc_eq)
qed

definition tied :: "skill list \<Rightarrow> bool" where
  "tied grp \<longleftrightarrow> length grp \<noteq> 1 \<and> snd (topByPrecedence grp)"

definition unresolvable :: "conflict list \<Rightarrow> conflict list" where
  "unresolvable cs = filter (\<lambda>c. cf_Kind c = ConflictUnresolvable) cs"

definition kept :: "resolution \<Rightarrow> skill multiset" where
  "kept res = mset (re_Active res) + mset (re_Shadowed res) +
     (\<Sum>c\<leftarrow>unresolvable (re_Conflicts res). mset (cf_Shadowed c))"

definition winner :: "skill list \<Rightarrow> skill" where
  "winner grp = grp ! fst (topByPrecedence grp)"

lemma topByPrecedence_single: "length grp = 1 \<Longrightarrow> topByPrecedence grp = (0, False)"
  by (simp add: topByPrecedence_def)

lemma resolve_group_step:
  assumes "grp \<noteq> []"
  shows "re_Active (resolve_group n grp res) = re_Active res @ (if tied grp then [] else [winner grp])"
    and "map cf_Name (unresolvable (re_Conflicts (resolve_group n grp res))) =
      map cf_Name (unresolvable (re_Conflicts res)) @ (if tied grp then [n] else [])"
    and "kept (resolve_group n grp res) = kept res + mset grp"
proof -
  obtain b tie where t: "topByPrecedence grp = (b, tie)" by fastforce
  obtain p c where top: "top_of grp b p c" using topByPrecedence_spec [OF assms t] by blast
  then have b: "b < length grp" by (simp add: top_of_def)
  then have split: "mset grp = add_mset (grp ! b) (mset (losers b grp))"
    by (metis Suc_eq_plus1 id_take_nth_drop losers_def mset.simps(2) mset_append union_mset_add_mset_right)
  have "length grp = 1 \<Longrightarrow> mset grp = {#grp ! 0#}" by (cases grp) auto
  with t split topByPrecedence_single [of grp]
  show "re_Active (resolve_group n grp res) = re_Active res @ (if tied grp then [] else [winner grp])"
    and "map cf_Name (unresolvable (re_Conflicts (resolve_group n grp res))) =
      map cf_Name (unresolvable (re_Conflicts res)) @ (if tied grp then [n] else [])"
    and "kept (resolve_group n grp res) = kept res + mset grp"
    by (auto simp: resolve_group_def tied_def winner_def unresolvable_def kept_def Let_def)
qed

lemma resolve_fold:
  assumes "\<forall>n \<in> set ns. grps n \<noteq> []"
  shows "re_Active (fold (\<lambda>n. resolve_group n (grps n)) ns res) =
      re_Active res @ map (\<lambda>n. winner (grps n)) (filter (\<lambda>n. \<not> tied (grps n)) ns)"
    and "map cf_Name (unresolvable (re_Conflicts (fold (\<lambda>n. resolve_group n (grps n)) ns res))) =
      map cf_Name (unresolvable (re_Conflicts res)) @ filter (\<lambda>n. tied (grps n)) ns"
    and "kept (fold (\<lambda>n. resolve_group n (grps n)) ns res) = kept res + (\<Sum>n\<leftarrow>ns. mset (grps n))"
  using assms by (induction ns arbitrary: res) (simp_all add: resolve_group_step)

lemma winner_in: "grp \<noteq> [] \<Longrightarrow> winner grp \<in> set grp"
  using topByPrecedence_spec [of grp "fst (topByPrecedence grp)" "snd (topByPrecedence grp)"]
  by (auto simp: winner_def top_of_def)

lemma set_name_order: "set (name_order skills) = Key ` set skills - {[]}"
  by (auto simp: name_order_def named_def)

lemma group_nonempty: "n \<in> set (name_order skills) \<Longrightarrow> group_of skills n \<noteq> []"
  by (auto simp: set_name_order group_of_def named_def filter_empty_conv)

lemma sum_groups: "(\<Sum>n\<leftarrow>remdups (map Key ss). mset (filter (\<lambda>s. Key s = n) ss)) = mset ss"
proof -
  have sub: "distinct ns \<Longrightarrow> (\<Sum>n\<leftarrow>ns. mset (filter (\<lambda>s. Key s = n) ss)) = mset (filter (\<lambda>s. Key s \<in> set ns) ss)" for ns
  proof (induction ns)
    case (Cons n ns)
    have "mset (filter (\<lambda>s. Key s = n) ss) + mset (filter (\<lambda>s. Key s \<in> set ns) ss) =
        mset (filter (\<lambda>s. Key s \<in> set (n # ns)) ss)"
      using Cons.prems by (induction ss) auto
    with Cons show ?case by simp
  qed simp
  have "filter (\<lambda>s. Key s \<in> Key ` set ss) ss = ss" by (simp add: filter_id_conv)
  then show ?thesis using sub [of "remdups (map Key ss)"] by simp
qed

lemma kept_Resolve: "kept (Resolve skills) = mset (named skills)"
proof -
  have "kept (Resolve skills) = (\<Sum>n\<leftarrow>name_order skills. mset (group_of skills n))"
    unfolding Resolve_def using group_nonempty by (subst resolve_fold(3)) (auto simp: kept_def unresolvable_def)
  also have "\<dots> = (\<Sum>n\<leftarrow>remdups (map Key (named skills)). mset (group_of skills n))"
  proof -
    have "mset (map f (sort ns)) = mset (map f ns)" for f :: "string \<Rightarrow> skill multiset" and ns by simp
    then have "sum_list (map f (sort ns)) = sum_list (map f ns)" for f :: "string \<Rightarrow> skill multiset" and ns
      by (metis sum_mset_sum_list)
    then show ?thesis by (simp add: name_order_def)
  qed
  finally show ?thesis unfolding group_of_def sum_groups .
qed

lemma active_keys:
  "map Key (re_Active (Resolve skills)) = filter (\<lambda>n. \<not> tied (group_of skills n)) (name_order skills)"
proof -
  have "Key (winner (group_of skills n)) = n" if "n \<in> set (name_order skills)" for n
    using winner_in [OF group_nonempty [OF that]] by (simp add: group_of_def)
  then show ?thesis
    unfolding Resolve_def using group_nonempty by (subst resolve_fold(1)) (auto intro: map_idI)
qed

lemma unresolvable_names:
  "map cf_Name (unresolvable (re_Conflicts (Resolve skills))) = filter (\<lambda>n. tied (group_of skills n)) (name_order skills)"
  unfolding Resolve_def using group_nonempty by (subst resolve_fold(2)) (auto simp: unresolvable_def)

lemma name_order_sorted: "sorted (name_order skills) \<and> distinct (name_order skills)"
  by (simp add: name_order_def)

lemma active_distinct: "distinct (map Key (re_Active (Resolve skills)))"
  by (simp add: active_keys name_order_sorted)

lemma active_outranks:
  assumes "s \<in> set (re_Active (Resolve skills))" and "t \<in> set skills" and "Key t = Key s"
  shows "t = s \<or> prec t < prec s"
proof -
  obtain n where n: "n \<in> set (name_order skills)" "\<not> tied (group_of skills n)" "s = winner (group_of skills n)"
    using assms(1) group_nonempty unfolding Resolve_def by (subst (asm) resolve_fold(1)) auto
  let ?g = "group_of skills n"
  note ne = group_nonempty [OF n(1)]
  have k: "Key s = n" "n \<noteq> []" using winner_in [OF ne] n(1,3) by (simp_all add: group_of_def set_name_order)
  have t: "t \<in> set ?g" using assms(2,3) k by (simp add: group_of_def named_def)
  obtain b tie where bt: "topByPrecedence ?g = (b, tie)" by fastforce
  obtain p c where pc: "top_of ?g b p c" "tie \<longleftrightarrow> c > 1" using topByPrecedence_spec [OF ne bt] by blast
  show ?thesis
  proof (cases "length ?g = 1")
    case True
    then show ?thesis using t winner_in [OF ne] n(3) by (cases ?g) auto
  next
    case False
    then have "\<not> c > 1" using n(2) bt pc(2) by (simp add: tied_def)
    from single_top [OF pc(1) this t] n(3) bt show ?thesis by (simp add: winner_def)
  qed
qed

text \<open>C30: resolution loses no skill.  Every skill with a name is, with its multiplicity, among the active ones, the
  shadowed ones, or the members of a conflict that cannot be resolved; each name is either active or in such a conflict,
  never both, and the active names are sorted and distinct.\<close>

theorem resolution_loses_no_skill:
  "mset (filter (\<lambda>s. Key s \<noteq> []) skills) =
     mset (re_Active (Resolve skills)) + mset (re_Shadowed (Resolve skills)) +
     (\<Sum>c\<leftarrow>unresolvable (re_Conflicts (Resolve skills)). mset (cf_Shadowed c)) \<and>
   sorted_wrt (<) (map Key (re_Active (Resolve skills))) \<and>
   Key ` set (re_Active (Resolve skills)) \<inter> cf_Name ` set (unresolvable (re_Conflicts (Resolve skills))) = {} \<and>
   Key ` set (re_Active (Resolve skills)) \<union> cf_Name ` set (unresolvable (re_Conflicts (Resolve skills))) =
     Key ` set skills - {[]}"
proof -
  have "set (map Key (re_Active (Resolve skills))) = {n \<in> set (name_order skills). \<not> tied (group_of skills n)}"
    "set (map cf_Name (unresolvable (re_Conflicts (Resolve skills)))) = {n \<in> set (name_order skills). tied (group_of skills n)}"
    unfolding active_keys unresolvable_names by simp_all
  moreover have "sorted_wrt (<) (map Key (re_Active (Resolve skills)))"
    using name_order_sorted by (simp add: active_keys strict_sorted_iff sorted_filter [of "\<lambda>n. n", simplified])
  ultimately show ?thesis using kept_Resolve [of skills] by (auto simp: kept_def named_def set_name_order)
qed

text \<open>C31: the active skill of a name has the highest precedence of all skills of that name, strictly.\<close>

theorem active_skill_outranks:
  assumes "s \<in> set (re_Active (Resolve skills))" and "t \<in> set skills" and "Key t = Key s"
  shows "t = s \<or> prec t < prec s"
  using assms by (rule active_outranks)

definition demo_skill :: "string \<Rightarrow> int \<Rightarrow> skill" where
  "demo_skill n p =
     \<lparr>sk_Schema = \<lparr>sk_Name = n, sk_Description = ''d'', sk_AllowedTools = [], sk_Model = [], sk_Extra = None\<rparr>,
      sk_Body = [], sk_Source = \<lparr>ss_Kind = SourceProject, ss_Precedence = p, ss_Path = [], ss_PluginID = []\<rparr>\<rparr>"

theorem active_skill_outranks_witness:
  "demo_skill ''a'' 1 \<in> set (re_Active (Resolve [demo_skill ''a'' 0, demo_skill ''b'' 0, demo_skill ''a'' 1])) \<and>
   prec (demo_skill ''a'' 0) < prec (demo_skill ''a'' 1)"
proof -
  let ?r = "[demo_skill ''a'' 0, demo_skill ''b'' 0, demo_skill ''a'' 1]"
  have a: "demo_skill ''a'' 1 \<in> set (re_Active (Resolve ?r))" by code_simp
  have "demo_skill ''a'' 0 = demo_skill ''a'' 1 \<or> prec (demo_skill ''a'' 0) < prec (demo_skill ''a'' 1)"
    by (rule active_skill_outranks [OF a]) (simp_all add: demo_skill_def Key_def)
  with a show ?thesis by (simp add: demo_skill_def)
qed

end
