(* ===== verification/SkillParse.thy ===== *)
theory SkillParse
  imports Skills
begin

text \<open>
  The file format of a skill, \<open>internal/app/skills/parse.go\<close>: the frontmatter between two fences, the body after
  them, and the frontmatter's keys.  The YAML package is an argument: what it makes of the bytes of the
  frontmatter, and how it decodes a node into the known fields and into a value.
\<close>

definition maxSkillSize :: nat where "maxSkillSize = 2 ^ 20"
definition maxYAMLDepth :: nat where "maxYAMLDepth = 32"

definition utf8BOM :: string where "utf8BOM = [CHR 0xEF, CHR 0xBB, CHR 0xBF]"
definition fenceLine :: string where "fenceLine = ''---''"

subsection \<open>Frontmatter and body\<close>

text \<open>The line at the start of a rest of the file, and what is after its newline.\<close>

fun readLine :: "string \<Rightarrow> string \<times> string" where
  "readLine [] = ([], [])"
| "readLine (c # cs) = (if c = NL then ([], cs) else case readLine cs of (l, next) \<Rightarrow> (c # l, next))"

definition fence_space :: "char \<Rightarrow> bool" where
  "fence_space c \<longleftrightarrow> c \<in> {CHR '' '', CHR 0x09, CHR 0x0D}"

definition isFence :: "string \<Rightarrow> bool" where
  "isFence line \<longleftrightarrow> rev (dropWhile fence_space (rev line)) = fenceLine"

lemma readLine_length: "readLine s = (l, next) \<Longrightarrow> s \<noteq> [] \<Longrightarrow> length next < length s"
  by (induction s arbitrary: l "next") (auto split: if_splits prod.splits, metis length_greater_0_conv less_Suc_eq list.size(3) not_less_eq prod.inject readLine.simps(1))

text \<open>The loop over the lines after the first; \<open>fm\<close> is what has been read of the frontmatter.\<close>

function find_end :: "string \<Rightarrow> string \<Rightarrow> go_error + string \<times> string" where
  "find_end fm rest =
     (if rest = [] then Inl ErrUnterminatedFrontmatter
      else
        case readLine rest of (line, next) \<Rightarrow>
          if isFence line then Inr (fm, next)
          else find_end (fm @ take (length rest - length next) rest) next)"
  by pat_completeness auto
termination
  by (relation "measure (\<lambda>(fm, rest). length rest)") (auto dest: readLine_length sym)

declare find_end.simps [simp del]

definition TrimBOM :: "string \<Rightarrow> string" where
  "TrimBOM content = (if prefix utf8BOM content then drop (length utf8BOM) content else content)"

definition splitFrontmatter :: "string \<Rightarrow> go_error + string \<times> string" where
  "splitFrontmatter content =
     (case readLine (TrimBOM content) of (firstLine, afterFirst) \<Rightarrow>
        if \<not> isFence firstLine then Inl ErrNoFrontmatter else find_end [] afterFirst)"

subsection \<open>Nodes\<close>

datatype ynode = YZero | YDocument "ynode list" | YMapping "ynode list" | YSequence "ynode list" | YScalar string | YAlias

record yaml_lib =
  y_Unmarshal :: "string \<Rightarrow> go_error + ynode"
  y_Schema :: "ynode \<Rightarrow> go_error + skill_schema"
  y_Any :: "ynode \<Rightarrow> go_error + json"

fun yamlNodeDepth :: "ynode \<Rightarrow> nat" where
  "yamlNodeDepth (YDocument ns) = fold max (map yamlNodeDepth ns) 0"
| "yamlNodeDepth (YMapping ns) = fold max (map yamlNodeDepth ns) 0 + 1"
| "yamlNodeDepth (YSequence ns) = fold max (map yamlNodeDepth ns) 0 + 1"
| "yamlNodeDepth _ = 0"

definition knownKeys :: "string list" where
  "knownKeys = [''name'', ''description'', ''allowed-tools'', ''model'']"

fun node_value :: "ynode \<Rightarrow> string" where
  "node_value (YScalar s) = s"
| "node_value _ = []"

fun extra_loop :: "yaml_lib \<Rightarrow> ynode list \<Rightarrow> go_map \<Rightarrow> go_error + go_map" where
  "extra_loop Y (k # v # ns) extra =
     (let key = node_value k in
      if key \<in> set knownKeys then extra_loop Y ns extra
      else
        case y_Any Y v of
          Inl err \<Rightarrow> Inl (Wrap_of ErrParseError err (''frontmatter field '' @ key @ '' has an undecodable value''))
        | Inr x \<Rightarrow> extra_loop Y ns (Some (obj_put key x (case extra of None \<Rightarrow> [] | Some m \<Rightarrow> m))))"
| "extra_loop Y _ extra = Inr extra"

definition collectExtra :: "yaml_lib \<Rightarrow> ynode \<Rightarrow> go_error + go_map" where
  "collectExtra Y n = (case n of YMapping ns \<Rightarrow> extra_loop Y ns None | _ \<Rightarrow> Inr None)"

definition root_node :: "ynode \<Rightarrow> ynode" where
  "root_node n = (case n of YDocument (c # _) \<Rightarrow> c | _ \<Rightarrow> n)"

definition zero_schema :: skill_schema where
  "zero_schema = \<lparr>sk_Name = [], sk_Description = [], sk_AllowedTools = [], sk_Model = [], sk_Extra = None\<rparr>"

definition too_large :: "nat \<Rightarrow> go_error" where
  "too_large n = Newf_of ErrTooLarge
     (''SKILL.md is '' @ show_nat n @ '' bytes, exceeds the '' @ show_nat maxSkillSize @ '' byte limit'')"

definition Parse :: "yaml_lib \<Rightarrow> string \<Rightarrow> skill_source \<Rightarrow> go_error + skill" where
  "Parse Y content src =
     (if length content > maxSkillSize then Inl (too_large (length content))
      else
        case splitFrontmatter content of
          Inl e \<Rightarrow> Inl e
        | Inr (fm, body) \<Rightarrow>
     (case y_Unmarshal Y fm of
        Inl e \<Rightarrow> Inl (Wrap_of ErrParseError e [])
      | Inr node \<Rightarrow>
     (if yamlNodeDepth node \<ge> maxYAMLDepth then
        Inl (Newf_of ErrTooDeep (''frontmatter YAML nesting depth '' @ show_nat (yamlNodeDepth node) @ '' >= '' @
          show_nat maxYAMLDepth))
      else
        let rt = root_node node in
        case (if rt \<noteq> YZero then y_Schema Y rt else Inr zero_schema) of
          Inl e \<Rightarrow> Inl (Wrap_of ErrParseError e [])
        | Inr schema \<Rightarrow>
            (case collectExtra Y rt of
               Inl e \<Rightarrow> Inl e
             | Inr extra \<Rightarrow>
                 Inr \<lparr>sk_Schema = schema\<lparr>sk_Extra := extra\<rparr>, sk_Body = body, sk_Source = src\<rparr>))))"

subsection \<open>Fences\<close>

lemma readLine_append: "NL \<notin> set l \<Longrightarrow> readLine (l @ NL # s) = (l, s)"
  by (induction l) auto

lemma readLine_last: "NL \<notin> set l \<Longrightarrow> readLine l = (l, [])"
  by (induction l) auto

lemma find_end_line: "NL \<notin> set l \<Longrightarrow> \<not> isFence l \<Longrightarrow> find_end fm (l @ NL # s) = find_end (fm @ l @ [NL]) s"
  by (subst find_end.simps) (simp add: readLine_append)

lemma find_end_lines:
  "list_all (\<lambda>l. NL \<notin> set l \<and> \<not> isFence l) ls \<Longrightarrow> find_end fm (end_lines ls @ s) = find_end (fm @ end_lines ls) s"
  by (induction ls arbitrary: fm) (simp_all add: find_end_line)

lemma isFence_not_Nil: "isFence l \<Longrightarrow> l \<noteq> []"
  by (auto simp: isFence_def fenceLine_def)

lemma find_end_fence:
  assumes "NL \<notin> set l" and "isFence l"
  shows "find_end fm (l @ NL # body) = Inr (fm, body)" and "find_end fm l = Inr (fm, [])"
  using assms isFence_not_Nil [OF assms(2)]
  by (subst find_end.simps; simp add: readLine_append readLine_last)+

lemma isFence_start: "isFence l \<Longrightarrow> \<exists>t. l = ''---'' @ t"
proof -
  assume "isFence l"
  then have "prefix ''---'' l"
    by (metis isFence_def fenceLine_def rev_rev_ident suffix_dropWhile suffix_to_prefix)
  then show ?thesis by (auto simp: prefix_def)
qed

text \<open>C32: a skill file is taken apart exactly where it was put together: with or without a byte order mark, a fence line,
  lines none of which is a fence, a fence line and a body give the lines as frontmatter and the body byte for byte,
  whatever the body holds.\<close>

theorem frontmatter_roundtrip:
  assumes "bom \<in> {[], utf8BOM}" and "NL \<notin> set l1" and "isFence l1" and "NL \<notin> set l2" and "isFence l2"
    and "list_all (\<lambda>l. NL \<notin> set l \<and> \<not> isFence l) ls"
  shows "splitFrontmatter (bom @ l1 @ NL # end_lines ls @ l2 @ NL # body) = Inr (end_lines ls, body)"
proof -
  obtain t where t: "l1 = ''---'' @ t" using isFence_start [OF assms(3)] by blast
  have "TrimBOM (bom @ l1 @ NL # end_lines ls @ l2 @ NL # body) = l1 @ NL # end_lines ls @ l2 @ NL # body"
    using assms(1) t by (auto simp: TrimBOM_def utf8BOM_def)
  then show ?thesis
    using assms(2-6) by (simp add: splitFrontmatter_def readLine_append find_end_lines find_end_fence)
qed

theorem frontmatter_roundtrip_witness:
  "splitFrontmatter (utf8BOM @ ''--- '' @ NL # end_lines [''name: a'', '' ---''] @ ''---'' @ NL # ''body'') =
     Inr (end_lines [''name: a'', '' ---''], ''body'')"
  by (rule frontmatter_roundtrip) (simp_all add: isFence_def fence_space_def fenceLine_def NL_def)

subsection \<open>Keys\<close>

fun keys_of :: "ynode list \<Rightarrow> string list" where
  "keys_of (k # v # ns) = node_value k # keys_of ns"
| "keys_of _ = []"

definition extra_keys :: "go_map \<Rightarrow> string set" where
  "extra_keys m = (case m of None \<Rightarrow> {} | Some kvs \<Rightarrow> fst ` set kvs)"

lemma extra_loop_keys:
  "extra_loop Y ns extra = Inr m \<Longrightarrow> extra_keys m = extra_keys extra \<union> (set (keys_of ns) - set knownKeys)"
proof (induction Y ns extra rule: extra_loop.induct)
  case (1 Y k v ns extra)
  let ?m = "\<lambda>x. Some (obj_put (node_value k) x (case extra of None \<Rightarrow> [] | Some m \<Rightarrow> m))"
  have "extra_keys (?m x) = insert (node_value k) (extra_keys extra)" for x
    by (auto simp: extra_keys_def obj_put_keys split: option.splits)
  then show ?case using 1 by (auto simp: Let_def split: if_splits sum.splits)
qed auto

lemma Parse_accepts:
  assumes p: "Parse Y content src = Inr s" and f: "splitFrontmatter content = Inr (fm, body)"
    and u: "y_Unmarshal Y fm = Inr (YDocument [YMapping ns])"
  shows "\<exists>schema extra. collectExtra Y (YMapping ns) = Inr extra \<and>
    s = \<lparr>sk_Schema = schema\<lparr>sk_Extra := extra\<rparr>, sk_Body = body, sk_Source = src\<rparr>"
proof -
  have r: "root_node (YDocument [YMapping ns]) = YMapping ns" by (simp add: root_node_def)
  have "length content \<le> maxSkillSize" "\<not> yamlNodeDepth (YDocument [YMapping ns]) \<ge> maxYAMLDepth"
    using p unfolding Parse_def f sum.case prod.case u by (simp_all split: if_split_asm add: not_less)
  then have "(case y_Schema Y (YMapping ns) of
      Inl e \<Rightarrow> Inl (Wrap_of ErrParseError e [])
    | Inr schema \<Rightarrow>
        (case collectExtra Y (YMapping ns) of
           Inl e \<Rightarrow> Inl e
         | Inr extra \<Rightarrow> Inr \<lparr>sk_Schema = schema\<lparr>sk_Extra := extra\<rparr>, sk_Body = body, sk_Source = src\<rparr>)) = Inr s"
    using p unfolding Parse_def f sum.case prod.case u Let_def r by simp
  then show ?thesis by (cases "y_Schema Y (YMapping ns)"; cases "collectExtra Y (YMapping ns)") auto
qed

text \<open>no key of the frontmatter is dropped: when \<open>Parse\<close> accepts a file, the keys of \<open>Extra\<close> are all the top-level keys
  that have no field of their own.\<close>

theorem unknown_keys_are_kept:
  assumes "Parse Y content src = Inr s" and "splitFrontmatter content = Inr (fm, body)"
    and "y_Unmarshal Y fm = Inr (YDocument [YMapping ns])"
  shows "extra_keys (sk_Extra (sk_Schema s)) = set (keys_of ns) - set knownKeys \<and> sk_Body s = body \<and> sk_Source s = src"
proof -
  obtain schema extra where "collectExtra Y (YMapping ns) = Inr extra"
    "s = \<lparr>sk_Schema = schema\<lparr>sk_Extra := extra\<rparr>, sk_Body = body, sk_Source = src\<rparr>"
    using Parse_accepts [OF assms] by blast
  then show ?thesis using extra_loop_keys [of Y ns None extra] by (simp add: collectExtra_def extra_keys_def)
qed

definition demo_yaml :: yaml_lib where
  "demo_yaml =
     \<lparr>y_Unmarshal = (\<lambda>_. Inr (YDocument [YMapping [YScalar ''name'', YScalar ''a'', YScalar ''x'', YScalar ''1'']])),
      y_Schema = (\<lambda>_. Inr (zero_schema\<lparr>sk_Name := ''a''\<rparr>)), y_Any = (\<lambda>n. Inr (JStr (node_value n)))\<rparr>"

definition demo_source :: skill_source where
  "demo_source = \<lparr>ss_Kind = SourceProject, ss_Precedence = 0, ss_Path = ''/p/a.md'', ss_PluginID = []\<rparr>"

theorem unknown_keys_are_kept_witness:
  "case Parse demo_yaml (''---'' @ [NL] @ ''---'' @ [NL]) demo_source of
     Inr s \<Rightarrow> extra_keys (sk_Extra (sk_Schema s)) = {''x''} | Inl _ \<Rightarrow> False"
proof -
  let ?c = "''---'' @ [NL] @ ''---'' @ [NL]"
  have "find_end [] (''---'' @ NL # []) = Inr ([], [])"
    by (rule find_end_fence) (simp_all add: isFence_def fence_space_def fenceLine_def NL_def)
  then have f: "splitFrontmatter ?c = Inr ([], [])"
    by (simp add: splitFrontmatter_def TrimBOM_def utf8BOM_def isFence_def fence_space_def fenceLine_def NL_def)
  have "length ?c \<le> maxSkillSize" by (simp add: maxSkillSize_def)
  then obtain s where s: "Parse demo_yaml ?c demo_source = Inr s"
    unfolding Parse_def f by (simp add: demo_yaml_def Let_def root_node_def collectExtra_def knownKeys_def maxYAMLDepth_def)
  from unknown_keys_are_kept [OF s f, of "[YScalar ''name'', YScalar ''a'', YScalar ''x'', YScalar ''1'']"]
  show ?thesis unfolding s by (simp add: demo_yaml_def knownKeys_def)
qed

end
