(* ===== verification/SkillTool.thy ===== *)
theory SkillTool
  imports SkillParse
begin

text \<open>
  Skills as the model meets them: the section of the system prompt that lists them, \<open>internal/app/skills/prompt.go\<close>, and
  the tool that hands out the body of one, \<open>internal/app/skills/invoke\<close>.  The input of the tool is a decoded JSON object;
  the schema of the tool, a constant, is left out.
\<close>

subsection \<open>The prompt section\<close>

definition promptHeader :: string where
  "promptHeader = ''## Available skills'' @ [NL, NL] @
     ''Invoke a skill with the Skill tool when its description matches the task.'' @ [NL]"

text \<open>\<open>strings.ReplaceAll(s, "\r\n", "\n")\<close>.\<close>

fun lf_only :: "string \<Rightarrow> string" where
  "lf_only (a # b # s) = (if a = CHR 0x0D \<and> b = NL then NL # lf_only s else a # lf_only (b # s))"
| "lf_only s = s"

definition firstNonEmptyLine :: "string \<Rightarrow> string" where
  "firstNonEmptyLine s =
     (case find (\<lambda>t. t \<noteq> []) (map TrimSpace (split_nl (lf_only s))) of Some t \<Rightarrow> t | None \<Rightarrow> [])"

fun first_of_name :: "string set \<Rightarrow> skill list \<Rightarrow> skill list" where
  "first_of_name seen [] = []"
| "first_of_name seen (s # ss) =
     (if Key s \<in> seen then first_of_name seen ss else s # first_of_name (insert (Key s) seen) ss)"

definition PromptSection :: "skill list \<Rightarrow> string" where
  "PromptSection active =
     (if active = [] then []
      else promptHeader @
        concat (map (\<lambda>s. ''- '' @ Key s @ '': '' @ firstNonEmptyLine (sk_Description (sk_Schema s)) @ [NL])
          (sort_key Key (first_of_name {} active))))"

subsection \<open>The tool\<close>

definition ErrNotFound :: go_error where
  "ErrNotFound = Structured ''SKILL.NOT_FOUND'' ''no active skill with the requested name''
     ''check /debug skills for the active list'' None"

definition ErrInvokeInvalid :: go_error where
  "ErrInvokeInvalid = Structured ''SKILL.INVOKE_INVALID'' ''Skill tool input is invalid''
     (''call Skill with {'' @ [quote] @ ''skill'' @ [quote] @ '': '' @ [quote] @ ''<name>'' @ [quote] @
      ''} and optional object '' @ [quote] @ ''args'' @ [quote]) None"

definition notFoundContent :: "string \<Rightarrow> string list \<Rightarrow> string" where
  "notFoundContent name ns =
     (case code_and_hint ErrNotFound of (code, hint) \<Rightarrow>
        code @ '': no active skill named '' @ go_quote name @ ''. Available skills: ['' @ join_strings '', '' ns @
        '']. Hint: '' @ hint @ ''.'')"

definition invokeInvalidContent :: "string \<Rightarrow> string" where
  "invokeInvalidContent detail =
     (case code_and_hint ErrInvokeInvalid of (code, hint) \<Rightarrow> code @ '': '' @ detail @ ''. Hint: '' @ hint @ ''.'')"

record skill_tool =
  st_byKey :: "string \<Rightarrow> skill option"
  st_names :: "string list"

fun add_skills :: "skill list \<Rightarrow> (string \<Rightarrow> skill option) \<Rightarrow> string list \<Rightarrow> go_error + (string \<Rightarrow> skill option) \<times> string list" where
  "add_skills [] m ns = Inr (m, ns)"
| "add_skills (s # ss) m ns =
     (if m (Key s) \<noteq> None then
        Inl (Newf_of ErrNamespaceConflict (''duplicate active skill key '' @ go_quote (Key s) @
          '' passed to NewSkillTool (spec-2.2 Active membership contract violated)''))
      else add_skills ss (m(Key s \<mapsto> s)) (ns @ [Key s]))"

definition NewSkillTool :: "skill list \<Rightarrow> go_error + skill_tool" where
  "NewSkillTool active =
     (if active = [] then
        Inl (Newf_of ErrInvokeInvalid
          ''NewSkillTool requires a non-empty active skill set; skip construction when discovery yields none'')
      else
        case add_skills active (\<lambda>_. None) [] of
          Inl e \<Rightarrow> Inl e
        | Inr (m, ns) \<Rightarrow> Inr \<lparr>st_byKey = m, st_names = sort ns\<rparr>)"

fun jsonTypeName :: "json \<Rightarrow> string" where
  "jsonTypeName JNull = ''null''"
| "jsonTypeName (JStr _) = ''string''"
| "jsonTypeName (JArr _) = ''array''"
| "jsonTypeName (JBool _) = ''boolean''"
| "jsonTypeName (JNum _) = ''number''"
| "jsonTypeName (JObj _) = ''object''"

text \<open>A field of an input; a nil map has none.\<close>

definition field :: "go_map \<Rightarrow> string \<Rightarrow> json option" where
  "field input k = (case input of None \<Rightarrow> None | Some m \<Rightarrow> map_of m k)"

text \<open>The text of the arguments and the complaint about them; an object without complaint has text.\<close>

definition canonicalArgs :: "go_map \<Rightarrow> string \<times> string" where
  "canonicalArgs input =
     (case field input ''args'' of
        None \<Rightarrow> ([], [])
      | Some (JObj m) \<Rightarrow>
          (case bad_number (JObj m) of
             Some t \<Rightarrow> ([], [quote] @ ''args'' @ [quote] @ '' could not be re-encoded as JSON: json: invalid number literal '' @
               quote_string t)
           | None \<Rightarrow> (Marshal (JObj m), []))
      | Some v \<Rightarrow> ([], [quote] @ ''args'' @ [quote] @ '' must be a JSON object, got '' @ jsonTypeName v))"

definition complaint :: "string \<Rightarrow> tool_output" where
  "complaint text = \<lparr>to_Content = text, to_IsError = True, to_Filter = None\<rparr>"

definition args_section :: "string \<Rightarrow> string" where
  "args_section argsJSON =
     (if argsJSON = [] then []
      else [NL, NL] @ ''## Arguments'' @ NL # replicate 3 (CHR 0x60) @ ''json'' @ NL # argsJSON @ NL # replicate 3 (CHR 0x60))"

definition model_notice :: "string \<Rightarrow> string" where
  "model_notice m =
     (if m = [] then []
      else [NL, NL] @ ''Note: this skill requests model '' @ go_quote m @
        ''; per-skill model switching lands in spec-3.11.'')"

definition Execute :: "go_error option \<Rightarrow> skill_tool \<Rightarrow> go_map \<Rightarrow> tool_output \<times> go_error option" where
  "Execute ctx_err t input =
     (case ctx_err of
        Some e \<Rightarrow> (\<lparr>to_Content = [], to_IsError = False, to_Filter = None\<rparr>, Some e)
      | None \<Rightarrow>
     (case field input ''skill'' of
        Some (JStr name) \<Rightarrow>
          if blank name then
            (complaint (invokeInvalidContent (''missing or non-string '' @ [quote] @ ''skill'' @ [quote] @ '' field'')), None)
          else
            (case canonicalArgs input of (argsJSON, argsErr) \<Rightarrow>
               if argsErr \<noteq> [] then (complaint (invokeInvalidContent argsErr), None)
               else
                 (case st_byKey t name of
                    None \<Rightarrow> (complaint (notFoundContent name (st_names t)), None)
                  | Some sk \<Rightarrow>
                      (\<lparr>to_Content = sk_Body sk @ args_section argsJSON @ model_notice (sk_Model (sk_Schema sk)),
                        to_IsError = False, to_Filter = AllowedToolsList (sk_Schema sk)\<rparr>, None)))
      | _ \<Rightarrow>
          (complaint (invokeInvalidContent (''missing or non-string '' @ [quote] @ ''skill'' @ [quote] @ '' field'')), None)))"

subsection \<open>What the tool offers\<close>

lemma add_skills_ok:
  "distinct (map Key ss) \<Longrightarrow> \<forall>s \<in> set ss. m (Key s) = None \<Longrightarrow>
   \<exists>m' ns'. add_skills ss m ns = Inr (m', ns @ map Key ss) \<and> (\<forall>s \<in> set ss. m' (Key s) = Some s) \<and>
     (\<forall>k. k \<notin> Key ` set ss \<longrightarrow> m' k = m k)"
proof (induction ss arbitrary: m ns)
  case (Cons s ss)
  have "\<forall>x \<in> set ss. (m(Key s \<mapsto> s)) (Key x) = None"
  proof
    fix x assume x: "x \<in> set ss"
    then have "Key x \<noteq> Key s" using Cons.prems(1) by (metis distinct.simps(2) image_eqI list.set_map list.simps(9))
    then show "(m(Key s \<mapsto> s)) (Key x) = None" using x Cons.prems(2) by simp
  qed
  moreover have "distinct (map Key ss)" using Cons.prems(1) by simp
  ultimately obtain m' where
    "add_skills ss (m(Key s \<mapsto> s)) (ns @ [Key s]) = Inr (m', (ns @ [Key s]) @ map Key ss)"
    "\<forall>x \<in> set ss. m' (Key x) = Some x" "\<forall>k. k \<notin> Key ` set ss \<longrightarrow> m' k = (m(Key s \<mapsto> s)) k"
    using Cons.IH [of "m(Key s \<mapsto> s)" "ns @ [Key s]"] by blast
  with Cons.prems show ?case by auto
qed simp

lemma NewSkillTool_ok:
  assumes "distinct (map Key active)" and "active \<noteq> []"
  shows "\<exists>t. NewSkillTool active = Inr t \<and> st_names t = sort (map Key active) \<and>
    (\<forall>s \<in> set active. st_byKey t (Key s) = Some s) \<and> (\<forall>k. k \<notin> Key ` set active \<longrightarrow> st_byKey t k = None)"
  using add_skills_ok [OF assms(1), of "\<lambda>_. None" "[]"] assms(2) by (auto simp: NewSkillTool_def)

definition resolved_tool :: "skill list \<Rightarrow> skill_tool option" where
  "resolved_tool skills = (case NewSkillTool (re_Active (Resolve skills)) of Inr t \<Rightarrow> Some t | Inl _ \<Rightarrow> None)"

text \<open>the two ends of a skill agree.  The tool can be built from every non-empty set of active skills, and called with
  the name of one of them, and with arguments or without, it answers with the body of that skill, byte for
  byte at the start of the answer, and with the tools the skill allows.\<close>

theorem invoked_skill_is_delivered:
  assumes "s \<in> set (re_Active (Resolve skills))" and "\<not> blank (Key s)"
    and "field input ''skill'' = Some (JStr (Key s))" and "snd (canonicalArgs input) = []"
  shows "\<exists>t out. NewSkillTool (re_Active (Resolve skills)) = Inr t \<and> Execute None t input = (out, None) \<and>
    prefix (sk_Body s) (to_Content out) \<and> \<not> to_IsError out \<and> to_Filter out = AllowedToolsList (sk_Schema s)"
proof -
  have "re_Active (Resolve skills) \<noteq> []" using assms(1) by auto
  from NewSkillTool_ok [OF active_distinct this] assms(1) obtain t where
    t: "NewSkillTool (re_Active (Resolve skills)) = Inr t" "st_byKey t (Key s) = Some s" by blast
  obtain args where "canonicalArgs input = (args, [])" using assms(4) by (metis prod.collapse)
  with t(2) assms(2,3) have "Execute None t input =
      (\<lparr>to_Content = sk_Body s @ args_section args @ model_notice (sk_Model (sk_Schema s)), to_IsError = False,
        to_Filter = AllowedToolsList (sk_Schema s)\<rparr>, None)"
    by (simp add: Execute_def)
  with t(1) show ?thesis by (intro exI conjI) auto
qed

theorem invoked_skill_is_delivered_witness:
  "\<exists>t out. NewSkillTool (re_Active (Resolve [demo_skill ''a'' 0, demo_skill ''a'' 1])) = Inr t \<and>
    Execute None t (Some [(''skill'', JStr ''a'')]) = (out, None) \<and> \<not> to_IsError out"
proof -
  let ?r = "[demo_skill ''a'' 0, demo_skill ''a'' 1]"
  have a: "demo_skill ''a'' 1 \<in> set (re_Active (Resolve ?r))" by code_simp
  have k: "Key (demo_skill ''a'' 1) = ''a''" by (simp add: demo_skill_def Key_def)
  have b: "\<not> blank ''a''" by (rule blank_graphic) (simp add: graphic_def)
  show ?thesis
    using invoked_skill_is_delivered [OF a, of "Some [(''skill'', JStr ''a'')]"] k b
    by (simp add: field_def canonicalArgs_def) blast
qed

text \<open>Every failure of the tool but that of its context is an answer the model can act on, and none changes the scope.\<close>

lemma failed_invocation_is_recoverable:
  "Execute None t input = (out, e) \<Longrightarrow> e = None \<and> (to_IsError out \<longrightarrow> to_Filter out = None)"
  by (auto simp: Execute_def complaint_def Let_def split: option.splits json.splits if_splits prod.splits)

end
