(* ===== verification/SkillDiscovery.thy ===== *)
theory SkillDiscovery
  imports SkillTool
begin

text \<open>
  The discovery of skills, \<open>internal/app/skills\<close>: the scan of a root (\<open>scan.go\<close>), the reading of a file and the pipeline
  from roots to active skills (\<open>discovery.go\<close>), its errors (\<open>result.go\<close>) and its summary (\<open>summary.go\<close>).  The file system is
  what its calls answer: the mode of a path, the batches in which a directory is read, the mode, size and
  content of an open file.  It does not change during a discovery.
\<close>

subsection \<open>The file system\<close>

datatype file_mode = Regular | Directory | Symlink | OtherMode

datatype stat_error = NotExist go_error | StatFailed go_error

fun stat_cause :: "stat_error \<Rightarrow> go_error" where
  "stat_cause (NotExist e) = e"
| "stat_cause (StatFailed e) = e"

datatype read_status = More | AtEOF | ReadFailed go_error

type_synonym dir_entry = "string \<times> file_mode"

record file_view =
  fv_Lstat :: "string \<Rightarrow> stat_error + file_mode"
  fv_Open :: "string \<Rightarrow> go_error option"
  fv_ReadDir :: "string \<Rightarrow> (dir_entry list \<times> read_status) list"
  fv_Stat :: "string \<Rightarrow> go_error + file_mode \<times> nat"
  fv_ReadAll :: "string \<Rightarrow> go_error + string"

definition errSymlinkRoot :: string where "errSymlinkRoot = ''skill root is a symlink (not followed)''"
definition errNotDir :: string where "errNotDir = ''skill root is not a directory''"
definition errNotRegular :: string where "errNotRegular = ''not a regular file (symlink/device/fifo not followed)''"

text \<open>An \<open>os.PathError\<close>.\<close>

definition path_error :: "string \<Rightarrow> string \<Rightarrow> string \<Rightarrow> go_error" where
  "path_error op path cause = Foreign (op @ '' '' @ path @ '': '' @ cause) [Foreign cause []]"

definition fileUnreadable :: "go_error \<Rightarrow> go_error" where
  "fileUnreadable err = Wrap_of ErrFileUnreadable err []"

definition rootUnreadable :: "go_error \<Rightarrow> go_error" where
  "rootUnreadable err = Wrap_of ErrRootUnreadable err []"

definition notRegularErr :: "string \<Rightarrow> go_error" where
  "notRegularErr path = Wrap_of ErrFileUnreadable (path_error ''load'' path errNotRegular) []"

definition errcodeTooManyFiles :: "string \<Rightarrow> nat \<Rightarrow> nat \<Rightarrow> go_error" where
  "errcodeTooManyFiles dir found cap =
     Newf_of ErrRootTooManyFiles (''root '' @ go_quote dir @ '' has '' @ show_nat found @ '' files, exceeds the '' @
       show_nat cap @ '' limit; extra files skipped'')"

text \<open>\<open>errors.As\<close> to a structured error finds the first one of the tree.\<close>

fun code_in :: "go_error \<Rightarrow> string option" where
  "code_in (Structured code _ _ _) = Some code"
| "code_in (Foreign _ ws) = fold (\<lambda>x y. case y of Some c \<Rightarrow> Some c | None \<Rightarrow> x) (map code_in ws) None"
| "code_in _ = None"

definition asErrcode :: "go_error \<Rightarrow> go_error" where
  "asErrcode err = (if code_in err \<noteq> None then err else Wrap_of ErrFileUnreadable err [])"

subsection \<open>Scanning a root\<close>

definition skillFileName :: string where "skillFileName = ''SKILL.md''"

definition Join_path :: "string \<Rightarrow> string \<Rightarrow> string" where
  "Join_path dir name = dir @ ''/'' @ name"

definition isRegularFile :: "file_view \<Rightarrow> string \<Rightarrow> bool" where
  "isRegularFile F p = (fv_Lstat F p = Inr Regular)"

definition classifyEntry :: "file_view \<Rightarrow> string \<Rightarrow> dir_entry \<Rightarrow> string option" where
  "classifyEntry F dir e =
     (case e of (name, mode) \<Rightarrow>
        if mode = Symlink then None
        else if mode = Directory then
          (let p = Join_path (Join_path dir name) skillFileName in if isRegularFile F p then Some p else None)
        else if suffix ''.md'' name then
          (let p = Join_path dir name in if isRegularFile F p then Some p else None)
        else None)"

text \<open>The entries of a batch: the files so far and whether the limit was hit; then the loop over the batches.\<close>

fun take_entries :: "file_view \<Rightarrow> string \<Rightarrow> nat \<Rightarrow> dir_entry list \<Rightarrow> string list \<Rightarrow> string list \<times> bool" where
  "take_entries F dir maxFiles [] files = (files, False)"
| "take_entries F dir maxFiles (e # es) files =
     (case classifyEntry F dir e of
        None \<Rightarrow> take_entries F dir maxFiles es files
      | Some p \<Rightarrow>
          if maxFiles > 0 \<and> length files \<ge> maxFiles then (files, True)
          else take_entries F dir maxFiles es (files @ [p]))"

fun read_batches ::
    "file_view \<Rightarrow> string \<Rightarrow> nat \<Rightarrow> (dir_entry list \<times> read_status) list \<Rightarrow> string list \<Rightarrow> string list \<times> go_error option" where
  "read_batches F dir maxFiles [] files = (sort files, None)"
| "read_batches F dir maxFiles ((es, status) # bs) files =
     (case take_entries F dir maxFiles es files of (files, overLimit) \<Rightarrow>
        (case status of
           ReadFailed e \<Rightarrow> (files, Some (rootUnreadable e))
         | AtEOF \<Rightarrow> (sort files, if overLimit then Some (errcodeTooManyFiles dir maxFiles maxFiles) else None)
         | More \<Rightarrow>
             if overLimit then (sort files, Some (errcodeTooManyFiles dir maxFiles maxFiles))
             else read_batches F dir maxFiles bs files))"

definition scanRoot :: "file_view \<Rightarrow> skill_root \<Rightarrow> nat \<Rightarrow> string list \<times> go_error option" where
  "scanRoot F rt maxFiles =
     (case fv_Lstat F (sr_Dir rt) of
        Inl (NotExist e) \<Rightarrow> if sr_Required rt then ([], Some (rootUnreadable e)) else ([], None)
      | Inl (StatFailed e) \<Rightarrow> ([], Some (rootUnreadable e))
      | Inr mode \<Rightarrow>
          if mode = Symlink then ([], Some (rootUnreadable (path_error ''scan'' (sr_Dir rt) errSymlinkRoot)))
          else if mode \<noteq> Directory then ([], Some (rootUnreadable (path_error ''scan'' (sr_Dir rt) errNotDir)))
          else
            (case fv_Open F (sr_Dir rt) of
               Some e \<Rightarrow> ([], Some (rootUnreadable e))
             | None \<Rightarrow> read_batches F (sr_Dir rt) maxFiles (fv_ReadDir F (sr_Dir rt)) []))"

subsection \<open>Loading a file\<close>

definition loadSkill :: "file_view \<Rightarrow> yaml_lib \<Rightarrow> string \<Rightarrow> skill_root \<Rightarrow> go_error + skill" where
  "loadSkill F Y path rt =
     (case fv_Lstat F path of
        Inl e \<Rightarrow> Inl (fileUnreadable (stat_cause e))
      | Inr mode \<Rightarrow>
     (if mode \<noteq> Regular then Inl (notRegularErr path)
      else
     (case fv_Open F path of
        Some e \<Rightarrow> Inl (fileUnreadable e)
      | None \<Rightarrow>
     (case fv_Stat F path of
        Inl e \<Rightarrow> Inl (fileUnreadable e)
      | Inr (fmode, fsize) \<Rightarrow>
     (if fmode \<noteq> Regular then Inl (notRegularErr path)
      else if fsize > maxSkillSize then Inl (too_large fsize)
      else
        (case fv_ReadAll F path of
           Inl e \<Rightarrow> Inl (fileUnreadable e)
         | Inr whole \<Rightarrow>
             (let content = take (maxSkillSize + 1) whole in
              if length content > maxSkillSize then Inl (too_large (length content))
              else Parse Y content
                \<lparr>ss_Kind = sr_Kind rt, ss_Precedence = sr_Precedence rt, ss_Path = path, ss_PluginID = sr_PluginID rt\<rparr>)))))))"

subsection \<open>The pipeline\<close>

record discovery_error =
  dx_Path :: string
  dx_Err :: go_error

record discovery_warning =
  dw_Path :: string
  dw_Name :: string
  dw_Warning :: warning

record ignored_skill =
  ig_Skill :: skill
  ig_Reason :: string

record discovery_result =
  dr_Active :: "skill list"
  dr_Shadowed :: "skill list"
  dr_Conflicts :: "conflict list"
  dr_Warnings :: "discovery_warning list"
  dr_Ignored :: "ignored_skill list"
  dr_Errors :: "discovery_error list"

record discover_options =
  do_Roots :: "skill_root list"
  do_Disabled :: "string list"
  do_MaxFilesPerRoot :: nat

definition defaultMaxFilesPerRoot :: nat where "defaultMaxFilesPerRoot = 1000"

definition ClassifyError :: "discovery_error \<Rightarrow> string" where
  "ClassifyError de = (case code_in (dx_Err de) of Some c \<Rightarrow> c | None \<Rightarrow> [])"

definition add_error :: "string \<Rightarrow> go_error \<Rightarrow> discovery_result \<Rightarrow> discovery_result" where
  "add_error path err res = res\<lparr>dr_Errors := dr_Errors res @ [\<lparr>dx_Path = path, dx_Err = asErrcode err\<rparr>]\<rparr>"

text \<open>The body of the loop over the files of a root; the state is the valid skills and the result so far.\<close>

definition discover_file ::
    "file_view \<Rightarrow> yaml_lib \<Rightarrow> string list \<Rightarrow> skill_root \<Rightarrow> string \<Rightarrow> skill list \<times> discovery_result \<Rightarrow> skill list \<times> discovery_result" where
  "discover_file F Y disabled rt path st =
     (case st of (valid, res) \<Rightarrow>
        case loadSkill F Y path rt of
          Inl e \<Rightarrow> (valid, add_error path e res)
        | Inr sk \<Rightarrow>
            (case Validate sk of (warnings, verr) \<Rightarrow>
               let res = res\<lparr>dr_Warnings := dr_Warnings res @
                     map (\<lambda>w. \<lparr>dw_Path = path, dw_Name = sk_Name (sk_Schema sk), dw_Warning = w\<rparr>) warnings\<rparr>
               in (case verr of
                     Some e \<Rightarrow> (valid, add_error path e res)
                   | None \<Rightarrow>
                       if Key sk \<in> set disabled then
                         (valid, res\<lparr>dr_Ignored := dr_Ignored res @ [\<lparr>ig_Skill = sk, ig_Reason = ''disabled''\<rparr>]\<rparr>)
                       else (valid @ [sk], res))))"

definition discover_root ::
    "file_view \<Rightarrow> yaml_lib \<Rightarrow> string list \<Rightarrow> nat \<Rightarrow> skill_root \<Rightarrow> skill list \<times> discovery_result \<Rightarrow> skill list \<times> discovery_result" where
  "discover_root F Y disabled maxFiles rt st =
     (case scanRoot F rt maxFiles of (files, rerr) \<Rightarrow>
        let st1 = (case rerr of None \<Rightarrow> st | Some e \<Rightarrow> (fst st, add_error (sr_Dir rt) e (snd st)))
        in fold (discover_file F Y disabled rt) files st1)"

definition no_result :: discovery_result where
  "no_result = \<lparr>dr_Active = [], dr_Shadowed = [], dr_Conflicts = [], dr_Warnings = [], dr_Ignored = [], dr_Errors = []\<rparr>"

definition Discover :: "file_view \<Rightarrow> yaml_lib \<Rightarrow> discover_options \<Rightarrow> discovery_result" where
  "Discover F Y opts =
     (let maxFiles = (if do_MaxFilesPerRoot opts = 0 then defaultMaxFilesPerRoot else do_MaxFilesPerRoot opts)
      in case fold (discover_root F Y (do_Disabled opts) maxFiles) (do_Roots opts) ([], no_result) of
           (valid, res) \<Rightarrow>
             let r = Resolve valid
             in res\<lparr>dr_Active := re_Active r, dr_Shadowed := re_Shadowed r, dr_Conflicts := re_Conflicts r\<rparr>)"

subsection \<open>No file is lost\<close>

text \<open>The paths a discovery accounts for: those in the result and those of the valid skills.\<close>

definition accounted :: "skill list \<times> discovery_result \<Rightarrow> string multiset" where
  "accounted st = mset (map dx_Path (dr_Errors (snd st))) +
     mset (map (\<lambda>g. ss_Path (sk_Source (ig_Skill g))) (dr_Ignored (snd st))) + mset (map (\<lambda>s. ss_Path (sk_Source s)) (fst st))"

text \<open>The valid skills have a name that is not blank and not disabled.\<close>

definition valid_ok :: "string list \<Rightarrow> skill list \<Rightarrow> bool" where
  "valid_ok disabled ss \<longleftrightarrow> list_all (\<lambda>s. \<not> blank (Key s) \<and> Key s \<notin> set disabled) ss"

lemma loadSkill_path: "loadSkill F Y path rt = Inr sk \<Longrightarrow> ss_Path (sk_Source sk) = path"
  by (auto simp: loadSkill_def Parse_def Let_def split: sum.splits option.splits if_splits prod.splits)

lemma Validate_name: "snd (Validate s) = None \<Longrightarrow> \<not> blank (Key s)"
  by (auto simp: Validate_def Let_def Key_def split: if_splits)

lemma discover_file_accounts:
  assumes "discover_file F Y disabled rt path st = st'" and "valid_ok disabled (fst st)"
  shows "accounted st' = add_mset path (accounted st) \<and> valid_ok disabled (fst st')"
proof -
  obtain valid res where st: "st = (valid, res)" by fastforce
  show ?thesis
  proof (cases "loadSkill F Y path rt")
    case (Inl e)
    with assms st show ?thesis by (auto simp: discover_file_def add_error_def accounted_def)
  next
    case (Inr sk)
    obtain ws verr where v: "Validate sk = (ws, verr)" by fastforce
    with Validate_name [of sk] loadSkill_path [OF Inr] Inr assms st show ?thesis
      by (cases verr) (auto simp: discover_file_def add_error_def accounted_def valid_ok_def Let_def)
  qed
qed

lemma discover_files_account:
  "valid_ok disabled (fst st) \<Longrightarrow>
   accounted (fold (discover_file F Y disabled rt) files st) = mset files + accounted st \<and>
   valid_ok disabled (fst (fold (discover_file F Y disabled rt) files st))"
  by (induction files arbitrary: st) (simp_all add: discover_file_accounts [OF refl])

text \<open>What a root adds: its files, and its directory when the scan failed.\<close>

definition root_paths :: "file_view \<Rightarrow> nat \<Rightarrow> skill_root \<Rightarrow> string list" where
  "root_paths F maxFiles rt =
     (case scanRoot F rt maxFiles of (files, rerr) \<Rightarrow> (if rerr = None then [] else [sr_Dir rt]) @ files)"

lemma discover_root_accounts:
  assumes "valid_ok disabled (fst st)"
  shows "accounted (discover_root F Y disabled maxFiles rt st) = mset (root_paths F maxFiles rt) + accounted st \<and>
    valid_ok disabled (fst (discover_root F Y disabled maxFiles rt st))"
proof -
  obtain files rerr where s: "scanRoot F rt maxFiles = (files, rerr)" by fastforce
  define st1 where "st1 = (case rerr of None \<Rightarrow> st | Some e \<Rightarrow> (fst st, add_error (sr_Dir rt) e (snd st)))"
  have "valid_ok disabled (fst st1)" using assms by (simp add: st1_def split: option.split)
  moreover have "accounted st1 = mset (if rerr = None then [] else [sr_Dir rt]) + accounted st"
    by (simp add: st1_def accounted_def add_error_def split: option.split)
  ultimately show ?thesis
    using discover_files_account [of disabled st1 F Y rt files] s
    by (simp add: discover_root_def root_paths_def st1_def [symmetric])
qed

lemma discover_roots_account:
  "valid_ok disabled (fst st) \<Longrightarrow>
   accounted (fold (discover_root F Y disabled maxFiles) rts st) = mset (concat (map (root_paths F maxFiles) rts)) + accounted st \<and>
   valid_ok disabled (fst (fold (discover_root F Y disabled maxFiles) rts st))"
  by (induction rts arbitrary: st) (simp_all add: discover_root_accounts)

definition files_per_root :: "discover_options \<Rightarrow> nat" where
  "files_per_root opts = (if do_MaxFilesPerRoot opts = 0 then defaultMaxFilesPerRoot else do_MaxFilesPerRoot opts)"

lemma Discover_valid:
  "\<exists>valid. valid_ok (do_Disabled opts) valid \<and>
     dr_Active (Discover F Y opts) = re_Active (Resolve valid) \<and> dr_Shadowed (Discover F Y opts) = re_Shadowed (Resolve valid) \<and>
     dr_Conflicts (Discover F Y opts) = re_Conflicts (Resolve valid) \<and>
     mset (map dx_Path (dr_Errors (Discover F Y opts))) +
       mset (map (\<lambda>g. ss_Path (sk_Source (ig_Skill g))) (dr_Ignored (Discover F Y opts))) +
       mset (map (\<lambda>s. ss_Path (sk_Source s)) valid) =
     mset (concat (map (root_paths F (files_per_root opts)) (do_Roots opts)))"
proof -
  obtain valid res where
    f: "fold (discover_root F Y (do_Disabled opts) (files_per_root opts)) (do_Roots opts) ([], no_result) = (valid, res)"
    by fastforce
  have "accounted (valid, res) = mset (concat (map (root_paths F (files_per_root opts)) (do_Roots opts)))"
    "valid_ok (do_Disabled opts) valid"
    using discover_roots_account [of "do_Disabled opts" "([], no_result)" F Y "files_per_root opts" "do_Roots opts"] f
    by (simp_all add: valid_ok_def accounted_def no_result_def)
  with f show ?thesis
    by (intro exI [of _ valid]) (simp add: Discover_def files_per_root_def [symmetric] Let_def accounted_def)
qed

lemma valid_named: "valid_ok disabled valid \<Longrightarrow> named valid = valid"
  by (auto simp: named_def valid_ok_def list_all_iff filter_id_conv)

text \<open>The skills that resolution keeps, by their paths.\<close>

definition resolved_paths :: "discovery_result \<Rightarrow> string multiset" where
  "resolved_paths r = image_mset (\<lambda>s. ss_Path (sk_Source s))
     (mset (dr_Active r) + mset (dr_Shadowed r) + (\<Sum>c\<leftarrow>unresolvable (dr_Conflicts r). mset (cf_Shadowed c)))"

text \<open>C33: discovery drops nothing.  Every file the scans find ends in exactly one place of the result: among the errors,
  the ignored, the active or the shadowed skills, or in a conflict that cannot be resolved; and every
  root whose scan fails is among the errors.\<close>

theorem discovery_loses_no_file:
  "mset (map dx_Path (dr_Errors (Discover F Y opts))) +
   mset (map (\<lambda>g. ss_Path (sk_Source (ig_Skill g))) (dr_Ignored (Discover F Y opts))) +
   resolved_paths (Discover F Y opts) =
     mset (concat (map (root_paths F (files_per_root opts)) (do_Roots opts)))"
proof -
  obtain valid where v: "valid_ok (do_Disabled opts) valid"
    "dr_Active (Discover F Y opts) = re_Active (Resolve valid)" "dr_Shadowed (Discover F Y opts) = re_Shadowed (Resolve valid)"
    "dr_Conflicts (Discover F Y opts) = re_Conflicts (Resolve valid)"
    "mset (map dx_Path (dr_Errors (Discover F Y opts))) +
       mset (map (\<lambda>g. ss_Path (sk_Source (ig_Skill g))) (dr_Ignored (Discover F Y opts))) +
       mset (map (\<lambda>s. ss_Path (sk_Source s)) valid) =
     mset (concat (map (root_paths F (files_per_root opts)) (do_Roots opts)))"
    using Discover_valid by blast
  have "resolved_paths (Discover F Y opts) = mset (map (\<lambda>s. ss_Path (sk_Source s)) valid)"
    using kept_Resolve [of valid] valid_named [OF v(1)] by (simp add: resolved_paths_def v(2-4) kept_def flip: mset_map)
  then show ?thesis using v(5) by simp
qed

text \<open>C34: the tool is built from what discovery finds: whenever a skill is active the tool can be constructed, it offers exactly
  the active names in order, and none of them is blank or disabled by the configuration.\<close>

theorem discovered_skills_are_offered:
  assumes "dr_Active (Discover F Y opts) \<noteq> []"
  shows "\<exists>t. NewSkillTool (dr_Active (Discover F Y opts)) = Inr t \<and>
    st_names t = map Key (dr_Active (Discover F Y opts)) \<and>
    list_all (\<lambda>n. \<not> blank n \<and> n \<notin> set (do_Disabled opts)) (st_names t)"
proof -
  obtain valid where v: "valid_ok (do_Disabled opts) valid" "dr_Active (Discover F Y opts) = re_Active (Resolve valid)"
    using Discover_valid by blast
  have o: "set (map Key (re_Active (Resolve valid))) \<subseteq> Key ` set valid"
    "sorted (map Key (re_Active (Resolve valid)))"
    using name_order_sorted set_name_order by (auto simp: active_keys sorted_wrt_filter)
  obtain t where "NewSkillTool (re_Active (Resolve valid)) = Inr t" "st_names t = sort (map Key (re_Active (Resolve valid)))"
    using NewSkillTool_ok [OF active_distinct] assms v(2) by metis
  with o v show ?thesis by (auto simp: sorted_sort_id valid_ok_def list_all_iff)
qed

definition demo_files :: file_view where
  "demo_files =
     \<lparr>fv_Lstat = (\<lambda>p. if p = ''/r'' then Inr Directory else Inr Regular), fv_Open = (\<lambda>_. None),
      fv_ReadDir = (\<lambda>_. [([(''a.md'', Regular), (''b.txt'', Regular)], More), ([], AtEOF)]),
      fv_Stat = (\<lambda>_. Inr (Regular, 12)), fv_ReadAll = (\<lambda>_. Inr (''---'' @ [NL] @ ''---'' @ [NL] @ ''body''))\<rparr>"

definition described_yaml :: yaml_lib where
  "described_yaml =
     \<lparr>y_Unmarshal = (\<lambda>_. Inr (YDocument [YMapping []])),
      y_Schema = (\<lambda>_. Inr (zero_schema\<lparr>sk_Name := ''a'', sk_Description := ''d''\<rparr>)), y_Any = (\<lambda>_. Inr JNull)\<rparr>"

definition demo_options :: discover_options where
  "demo_options =
     \<lparr>do_Roots = AssignPrecedence
        [\<lparr>rs_Kind = SourceProject, rs_Band = BandProject, rs_SubOrder = 0, rs_Dir = ''/r'', rs_PluginID = [], rs_Required = False\<rparr>],
      do_Disabled = [''z''], do_MaxFilesPerRoot = 0\<rparr>"

definition demo_root :: skill_root where
  "demo_root = ranked_root 0 \<lparr>rs_Kind = SourceProject, rs_Band = BandProject, rs_SubOrder = 0, rs_Dir = ''/r'',
     rs_PluginID = [], rs_Required = False\<rparr>"

definition found_skill :: skill where
  "found_skill =
     \<lparr>sk_Schema = zero_schema\<lparr>sk_Name := ''a'', sk_Description := ''d''\<rparr>, sk_Body = ''body'',
      sk_Source = \<lparr>ss_Kind = SourceProject, ss_Precedence = 0, ss_Path = ''/r/a.md'', ss_PluginID = []\<rparr>\<rparr>"

lemma demo_load: "loadSkill demo_files described_yaml ''/r/a.md'' demo_root = Inr found_skill"
proof -
  let ?c = "''---'' @ [NL] @ ''---'' @ [NL] @ ''body''"
  have "find_end [] (''---'' @ NL # ''body'') = Inr ([], ''body'')"
    by (rule find_end_fence) (simp_all add: isFence_def fence_space_def fenceLine_def NL_def)
  then have f: "splitFrontmatter ?c = Inr ([], ''body'')"
    by (simp add: splitFrontmatter_def TrimBOM_def utf8BOM_def isFence_def fence_space_def fenceLine_def NL_def)
  have c: "length ?c = 12" "12 \<le> maxSkillSize" "take (maxSkillSize + 1) ?c = ?c" by (simp_all add: maxSkillSize_def)
  have "Parse described_yaml ?c (sk_Source found_skill) = Inr found_skill"
    unfolding Parse_def f using c(1,2)
    by (simp add: described_yaml_def Let_def root_node_def collectExtra_def maxYAMLDepth_def zero_schema_def found_skill_def)
  then show ?thesis
    unfolding loadSkill_def demo_files_def using c
    by (simp add: demo_root_def found_skill_def ranked_root_def Let_def)
qed

lemma demo_discovery: "map Key (dr_Active (Discover demo_files described_yaml demo_options)) = [''a'']"
proof -
  have r: "scanRoot demo_files demo_root 1000 = ([''/r/a.md''], None)" by code_simp
  have v: "Validate found_skill = ([], None)" "Key found_skill = ''a''" by code_simp+
  have o: "do_Roots demo_options = [demo_root]" by code_simp
  have "fold (discover_root demo_files described_yaml [''z''] 1000) [demo_root] ([], no_result) = ([found_skill], no_result)"
    by (simp add: discover_root_def r discover_file_def demo_load v Let_def no_result_def)
  then have "dr_Active (Discover demo_files described_yaml demo_options) = re_Active (Resolve [found_skill])"
    by (simp add: Discover_def o defaultMaxFilesPerRoot_def no_result_def) (simp add: demo_options_def Let_def)
  moreover have "map Key (re_Active (Resolve [found_skill])) = [''a'']" by code_simp
  ultimately show ?thesis by simp
qed

theorem discovered_skills_are_offered_witness:
  "\<exists>t. NewSkillTool (dr_Active (Discover demo_files described_yaml demo_options)) = Inr t \<and> st_names t = [''a'']"
proof -
  have "dr_Active (Discover demo_files described_yaml demo_options) \<noteq> []" using demo_discovery by auto
  from discovered_skills_are_offered [OF this] demo_discovery show ?thesis by auto
qed

subsection \<open>The summary\<close>

definition line_of :: "string list \<Rightarrow> string" where
  "line_of parts = concat parts @ [NL]"

definition heading :: "string \<Rightarrow> nat \<Rightarrow> string" where
  "heading title n = line_of [title, '' ('', show_nat n, ''):'']"

definition skill_line :: "skill \<Rightarrow> string" where
  "skill_line s =
     line_of [''  '', sk_Name (sk_Schema s), ''  ['', Kind_String (ss_Kind (sk_Source s)), '' prec='', show_int (prec s), '']  '',
       ss_Path (sk_Source s)]"

definition conflictPaths :: "conflict \<Rightarrow> string list" where
  "conflictPaths c =
     sort ((case cf_Winner c of Some w \<Rightarrow> [ss_Path (sk_Source w)] | None \<Rightarrow> []) @
       map (\<lambda>s. ss_Path (sk_Source s)) (cf_Shadowed c))"

definition conflict_line :: "conflict \<Rightarrow> string" where
  "conflict_line c =
     line_of [''  '', cf_Name c, ''  ['', if cf_Kind c = ConflictUnresolvable then ''unresolvable'' else ''shadowed'',
       '']  paths='', join_strings '', '' (conflictPaths c)]"

definition block :: "string \<Rightarrow> ('a \<Rightarrow> string) \<Rightarrow> 'a list \<Rightarrow> string" where
  "block title f xs = (if xs = [] then [] else heading title (length xs) @ concat (map f xs))"

definition SummarizeDiscovery :: "discovery_result \<Rightarrow> string" where
  "SummarizeDiscovery res =
     heading ''active'' (length (dr_Active res)) @ concat (map skill_line (dr_Active res)) @
     block ''shadowed'' skill_line (dr_Shadowed res) @
     block ''conflicts'' conflict_line (dr_Conflicts res) @
     block ''warnings'' (\<lambda>w. line_of [''  '', dw_Path w, ''  '', dw_Name w, '': '', w_Detail (dw_Warning w)]) (dr_Warnings res) @
     block ''ignored'' (\<lambda>g. line_of [''  '', sk_Name (sk_Schema (ig_Skill g)), ''  ('', ig_Reason g, '')  '',
         ss_Path (sk_Source (ig_Skill g))]) (dr_Ignored res) @
     block ''errors'' (\<lambda>de. line_of [''  '', dx_Path de, ''  ['', ClassifyError de, '']'']) (dr_Errors res)"

text \<open>Every error of a discovery carries a code, so the summary never shows an empty one for it.\<close>

lemma asErrcode_has_code: "code_in (asErrcode e) \<noteq> None"
  by (simp add: asErrcode_def ErrFileUnreadable_def)

end
