(* ===== verification/SkillRoots.thy ===== *)
theory SkillRoots
  imports SkillDiscovery
begin

text \<open>
  Where skills are looked for: \<open>BuildSkillRoots\<close> of \<open>internal/bootstrap/skills.go\<close>, and the check of the configured search
  paths, \<open>internal/platform/config/plugins.go\<close>.  Paths are those of a Unix system.
\<close>

subsection \<open>Paths\<close>

fun split_slash :: "string \<Rightarrow> string list" where
  "split_slash [] = [[]]"
| "split_slash (c # cs) =
     (if c = CHR ''/'' then [] # split_slash cs
      else (case split_slash cs of [] \<Rightarrow> [[c]] | l # ls \<Rightarrow> (c # l) # ls))"

definition dot :: string where "dot = ''.''"
definition dotdot :: string where "dotdot = ''..''"

text \<open>One component in \<open>filepath.Clean\<close>; the components so far are on a stack.\<close>

definition clean_step :: "bool \<Rightarrow> string \<Rightarrow> string list \<Rightarrow> string list" where
  "clean_step rooted c st =
     (if c = [] \<or> c = dot then st
      else if c = dotdot then
        (case st of
           [] \<Rightarrow> if rooted then [] else [dotdot]
         | t # ts \<Rightarrow> if t = dotdot then dotdot # st else ts)
      else c # st)"

definition IsAbs :: "string \<Rightarrow> bool" where
  "IsAbs p \<longleftrightarrow> prefix ''/'' p"

definition clean_parts :: "string \<Rightarrow> string list" where
  "clean_parts p = rev (fold (clean_step (IsAbs p)) (split_slash p) [])"

definition Clean :: "string \<Rightarrow> string" where
  "Clean p =
     (let body = join_strings ''/'' (clean_parts p)
      in if IsAbs p then CHR ''/'' # body else if body = [] then dot else body)"

definition Join_all :: "string list \<Rightarrow> string" where
  "Join_all ps = (let qs = filter (\<lambda>p. p \<noteq> []) ps in if qs = [] then [] else Clean (join_strings ''/'' qs))"

definition hasDotDot :: "string \<Rightarrow> bool" where
  "hasDotDot p \<longleftrightarrow> list_ex (\<lambda>s. s = dotdot) (split_slash (Clean p))"

subsection \<open>Roots\<close>

record plugin_dir =
  pd_ID :: string
  pd_Dir :: string

record skill_paths =
  sp_HomeDir :: string
  sp_CWD :: string
  sp_BuiltinDir :: string
  sp_PluginDirs :: "plugin_dir list"

record plugins_config =
  pc_SkillSearchPaths :: "string list"
  pc_DisabledSkills :: "string list"

definition skillsSubdir :: string where "skillsSubdir = ''skills''"

definition maxSkillSearchPaths :: nat where "maxSkillSearchPaths = 10"

text \<open>The complaints of \<open>validatePlugins\<close>: the limit on the number of paths, and the indices of the paths that climb.\<close>

definition validatePlugins :: "plugins_config \<Rightarrow> bool \<times> nat list" where
  "validatePlugins cfg =
     (length (pc_SkillSearchPaths cfg) > maxSkillSearchPaths,
      map fst (filter (\<lambda>(i, p). hasDotDot p) (enumerate 0 (pc_SkillSearchPaths cfg))))"

definition spec :: "source_kind \<Rightarrow> int \<Rightarrow> int \<Rightarrow> string \<Rightarrow> string \<Rightarrow> bool \<Rightarrow> root_spec" where
  "spec kind band sub dir plugin required =
     \<lparr>rs_Kind = kind, rs_Band = band, rs_SubOrder = sub, rs_Dir = dir, rs_PluginID = plugin, rs_Required = required\<rparr>"

definition dual_roots :: "source_kind \<Rightarrow> int \<Rightarrow> string \<Rightarrow> root_spec list" where
  "dual_roots kind band base =
     (if base = [] then []
      else [spec kind band VariantClaude (Join_all [base, ''.claude'', skillsSubdir]) [] False,
            spec kind band VariantOpendbx (Join_all [base, ''.opendbx'', skillsSubdir]) [] False])"

definition search_dir :: "string \<Rightarrow> string \<Rightarrow> string" where
  "search_dir cwd p = Clean (if IsAbs p then p else Join_all [cwd, p])"

definition root_specs :: "skill_paths \<Rightarrow> plugins_config \<Rightarrow> root_spec list" where
  "root_specs ps cfg =
     (if sp_BuiltinDir ps = [] then [] else [spec SourceBuiltin BandBuiltin 0 (sp_BuiltinDir ps) [] False]) @
     map (\<lambda>(i, pd). spec SourcePluginCache BandPlugin (int i) (pd_Dir pd) (pd_ID pd) False)
       (enumerate 0 (sort_key (\<lambda>pd. (pd_ID pd, pd_Dir pd)) (sp_PluginDirs ps))) @
     dual_roots SourceUserGlobal BandUser (sp_HomeDir ps) @
     dual_roots SourceProject BandProject (sp_CWD ps) @
     map (\<lambda>(i, p). spec SourceProject BandSearchPath (int i) (search_dir (sp_CWD ps) p) [] True)
       (enumerate 0 (pc_SkillSearchPaths cfg))"

definition BuildSkillRoots :: "skill_paths \<Rightarrow> plugins_config \<Rightarrow> discover_options" where
  "BuildSkillRoots ps cfg =
     \<lparr>do_Roots = AssignPrecedence (root_specs ps cfg), do_Disabled = pc_DisabledSkills cfg, do_MaxFilesPerRoot = 0\<rparr>"

subsection \<open>Paths that do not climb\<close>

lemma split_slash_not_Nil [simp]: "split_slash s \<noteq> []"
  by (cases s) (auto split: list.splits)

lemma split_slash_append: "split_slash (a @ CHR ''/'' # b) = split_slash a @ split_slash b"
proof (induction a)
  case (Cons c a)
  obtain l ls where "split_slash a = l # ls" using split_slash_not_Nil by (meson neq_Nil_conv)
  with Cons show ?case by simp
qed simp

lemma dotdot_stays: "dotdot \<in> set st \<Longrightarrow> dotdot \<in> set (fold (clean_step rooted) cs st)"
proof (induction cs arbitrary: st)
  case (Cons c cs)
  have "dotdot \<in> set (clean_step rooted c st)" using Cons.prems by (cases st) (auto simp: clean_step_def)
  with Cons.IH show ?case by simp
qed simp

text \<open>Below a base, components that do not climb do what they do alone.\<close>

lemma clean_below:
  "dotdot \<notin> set (fold (clean_step False) cs st) \<Longrightarrow>
   fold (clean_step True) cs (st @ base) = fold (clean_step False) cs st @ base"
proof (induction cs arbitrary: st)
  case (Cons c cs)
  let ?st = "clean_step False c st"
  have "dotdot \<notin> set ?st" using Cons.prems dotdot_stays [of ?st False cs] by auto
  then have "clean_step True c (st @ base) = ?st @ base"
    by (cases st) (auto simp: clean_step_def split: if_splits)
  with Cons show ?case by simp
qed simp

lemma clean_parts_step: "c \<in> set (fold (clean_step r) cs st) \<Longrightarrow> c \<in> set cs \<union> set st \<union> {dotdot}"
proof (induction cs arbitrary: st)
  case (Cons x cs)
  have "set (clean_step r x st) \<subseteq> insert x (set st) \<union> {dotdot}" by (cases st) (auto simp: clean_step_def)
  with Cons show ?case by fastforce
qed auto

lemma split_slash_no_slash: "c \<in> set (split_slash p) \<Longrightarrow> CHR ''/'' \<notin> set c"
  by (induction p arbitrary: c) (auto split: if_splits list.splits)

lemma split_join_slash:
  "ls \<noteq> [] \<Longrightarrow> list_all (\<lambda>l. CHR ''/'' \<notin> set l) ls \<Longrightarrow> split_slash (join_strings ''/'' ls) = ls"
proof (induction ls rule: induct_list012)
  case (2 l)
  have "CHR ''/'' \<notin> set l \<Longrightarrow> split_slash l = [l]" by (induction l) auto
  with 2 show ?case by simp
next
  case (3 l m ls)
  have "CHR ''/'' \<notin> set l \<Longrightarrow> split_slash l = [l]" by (induction l) auto
  with 3 split_slash_append [of l "join_strings ''/'' (m # ls)"] show ?case by simp
qed simp

lemma clean_parts_no_slash: "list_all (\<lambda>l. CHR ''/'' \<notin> set l) (clean_parts p)"
  using clean_parts_step split_slash_no_slash by (fastforce simp: clean_parts_def list_all_iff dotdot_def)

lemma hasDotDot_parts:
  assumes "\<not> IsAbs p" and d: "dotdot \<in> set (clean_parts p)"
  shows "hasDotDot p"
proof -
  have "split_slash (join_strings ''/'' (clean_parts p)) = clean_parts p"
    using split_join_slash clean_parts_no_slash d by (metis empty_iff empty_set)
  then have j: "dotdot \<in> set (split_slash (join_strings ''/'' (clean_parts p)))" using d by simp
  moreover have "dotdot \<notin> set (split_slash [])" by (simp add: dotdot_def)
  ultimately have "join_strings ''/'' (clean_parts p) \<noteq> []" by metis
  with j assms(1) show ?thesis by (simp add: hasDotDot_def Clean_def Let_def list_ex_iff)
qed

text \<open>a relative search path that passes the check of the configuration cannot leave the working directory: its
  components come after those of the working directory, all of which stay.\<close>

theorem search_path_stays_inside:
  assumes "IsAbs cwd" and "p \<noteq> []" and "\<not> IsAbs p" and "\<not> hasDotDot p"
  shows "clean_parts (join_strings ''/'' [cwd, p]) = clean_parts cwd @ clean_parts p \<and>
    Join_all [cwd, p] = Clean (join_strings ''/'' [cwd, p])"
proof -
  have no: "dotdot \<notin> set (fold (clean_step False) (split_slash p) [])"
    using hasDotDot_parts [of p] assms(3,4) by (auto simp: clean_parts_def)
  have a: "IsAbs (cwd @ CHR ''/'' # p)" using assms(1) by (auto simp: IsAbs_def prefix_def)
  have "fold (clean_step True) (split_slash p) (fold (clean_step True) (split_slash cwd) []) =
      fold (clean_step False) (split_slash p) [] @ fold (clean_step True) (split_slash cwd) []"
    using clean_below [OF no] by simp
  then have "clean_parts (cwd @ CHR ''/'' # p) = clean_parts cwd @ clean_parts p"
    using a assms(1,3) by (simp add: clean_parts_def split_slash_append)
  moreover have "cwd \<noteq> []" using assms(1) by (auto simp: IsAbs_def)
  ultimately show ?thesis using assms(2) by (simp add: Join_all_def)
qed

theorem search_path_stays_inside_witness:
  "clean_parts (join_strings ''/'' [''/home/u'', ''a/../b'']) = [''home'', ''u''] @ [''b''] \<and> \<not> hasDotDot ''a/../b''"
proof -
  have h: "\<not> hasDotDot ''a/../b''" by code_simp
  have "clean_parts ''/home/u'' = [''home'', ''u'']" "clean_parts ''a/../b'' = [''b'']" by code_simp+
  with h search_path_stays_inside [of "''/home/u''" "''a/../b''"] show ?thesis by (simp add: IsAbs_def)
qed

end
