(* ===== verification/BufferedWriter.thy ===== *)
theory BufferedWriter
  imports GoPrelude "HOL-Library.Multiset"
begin

text \<open>
  The buffered writer of the logger, \<open>internal/platform/logger/buffered_writer.go\<close>.  Its callers, its timer and the
  goroutines that drain overflow act concurrently: an event is one section under the lock, or one call of
  \<open>writeFn\<close> outside it, and every interleaving is a list of events.  A payload joined from several contents is kept as the
  list of them.  A write that fails counts as written, since the code never repeats one; the error that \<open>Flush\<close> and
  \<open>Dispose\<close> then return, the length of the flush interval and the overflow of the byte count are not modelled.  A timer
  that was stopped may still fire, as \<open>time.AfterFunc\<close> allows.
\<close>

subsection \<open>State\<close>

record bw_config =
  maxBufferSize :: int
  maxBufferBytes :: int
  immediateMode :: bool

text \<open>A goroutine of \<open>drainPendingOverflow\<close> is before its lock or holds a batch to write.\<close>

datatype drain = AtLock | Holding "string list"

text \<open>\<open>w_pending\<close> is none when the slice is nil; \<open>w_direct\<close> are contents of the immediate mode on their way to \<open>writeFn\<close>.\<close>

record bw =
  w_cfg :: bw_config
  w_buffer :: "string list"
  w_bytes :: int
  w_timer :: bool
  w_pending :: "string list option"
  w_closed :: bool
  w_drains :: "drain list"
  w_direct :: "string list"
  w_out :: "string list list"

definition newBufferedWriter :: "bw_config \<Rightarrow> bw" where
  "newBufferedWriter cfg =
     \<lparr>w_cfg = cfg\<lparr>maxBufferSize := if maxBufferSize cfg \<le> 0 then 100 else maxBufferSize cfg,
        maxBufferBytes := if maxBufferBytes cfg \<le> 0 then 2 ^ 63 - 1 else maxBufferBytes cfg\<rparr>,
      w_buffer = [], w_bytes = 0, w_timer = False, w_pending = None, w_closed = False, w_drains = [], w_direct = [],
      w_out = []\<rparr>"

definition overflow :: "bw \<Rightarrow> string list" where
  "overflow b = (case w_pending b of None \<Rightarrow> [] | Some p \<Rightarrow> p)"

subsection \<open>Operations\<close>

definition stopTimerLocked :: "bw \<Rightarrow> bw" where
  "stopTimerLocked b = b\<lparr>w_timer := False\<rparr>"

definition scheduleFlushLocked :: "bw \<Rightarrow> bw" where
  "scheduleFlushLocked b = (if w_timer b then b else b\<lparr>w_timer := True\<rparr>)"

definition flushLocked :: "bw \<Rightarrow> bw" where
  "flushLocked b =
     (let b1 = (if overflow b \<noteq> [] then b\<lparr>w_out := w_out b @ [overflow b], w_pending := None\<rparr> else b);
        b2 = (if w_buffer b1 \<noteq> [] then b1\<lparr>w_out := w_out b1 @ [w_buffer b1], w_buffer := [], w_bytes := 0\<rparr> else b1)
      in stopTimerLocked b2)"

definition flushDeferredLocked :: "bw \<Rightarrow> bw" where
  "flushDeferredLocked b =
     (case w_pending b of
        Some p \<Rightarrow> stopTimerLocked (b\<lparr>w_pending := Some (p @ w_buffer b), w_buffer := [], w_bytes := 0\<rparr>)
      | None \<Rightarrow>
          (let b1 = stopTimerLocked (b\<lparr>w_buffer := [], w_bytes := 0\<rparr>)
           in b1\<lparr>w_pending := Some (w_buffer b), w_drains := w_drains b1 @ [AtLock]\<rparr>))"

text \<open>What \<open>Write\<close> does on a writer that is not closed.\<close>

definition write_open :: "string \<Rightarrow> bw \<Rightarrow> bw" where
  "write_open c b =
     (if immediateMode (w_cfg b) then b\<lparr>w_direct := w_direct b @ [c]\<rparr>
      else
        let b1 = scheduleFlushLocked (b\<lparr>w_buffer := w_buffer b @ [c], w_bytes := w_bytes b + int (length c)\<rparr>)
        in if int (length (w_buffer b1)) \<ge> maxBufferSize (w_cfg b1) \<or> w_bytes b1 \<ge> maxBufferBytes (w_cfg b1)
           then flushDeferredLocked b1 else b1)"

datatype write_error = ErrWriterClosed

definition Write :: "string \<Rightarrow> bw \<Rightarrow> write_error + bw" where
  "Write c b = (if w_closed b then Inl ErrWriterClosed else Inr (write_open c b))"

definition Flush :: "bw \<Rightarrow> bw" where
  "Flush b = flushLocked b"

definition timer_fires :: "bw \<Rightarrow> bw" where
  "timer_fires b = (if w_closed b then b else flushLocked b)"

text \<open>One section under the lock of the goroutine \<open>i\<close>: it takes the batch, or ends.\<close>

definition drain_takes :: "nat \<Rightarrow> bw \<Rightarrow> bw" where
  "drain_takes i b =
     (if overflow b = [] then b\<lparr>w_pending := None, w_drains := take i (w_drains b) @ drop (i + 1) (w_drains b)\<rparr>
      else b\<lparr>w_pending := Some [], w_drains := (w_drains b)[i := Holding (overflow b)]\<rparr>)"

definition drain_writes :: "nat \<Rightarrow> string list \<Rightarrow> bw \<Rightarrow> bw" where
  "drain_writes i batch b = b\<lparr>w_out := w_out b @ [batch], w_drains := (w_drains b)[i := AtLock]\<rparr>"

definition dispose_locked :: "bw \<Rightarrow> bw" where
  "dispose_locked b = (if w_closed b then b else flushLocked (b\<lparr>w_closed := True\<rparr>))"

subsection \<open>Interleavings\<close>

datatype event =
    Accept string
  | Reject string
  | DirectWrite nat
  | FlushCall
  | TimerFires
  | DrainTakes nat
  | DrainWrites nat
  | DisposeCall
  | DisposeReturns

text \<open>An event that cannot happen in a state has no successor.  The \<open>Dispose\<close> that closed the writer
  returns when no goroutine is left.\<close>

fun act :: "event \<Rightarrow> bw \<Rightarrow> bw option" where
  "act (Accept c) b = (case Write c b of Inl e \<Rightarrow> None | Inr b' \<Rightarrow> Some b')"
| "act (Reject c) b = (case Write c b of Inl e \<Rightarrow> Some b | Inr b' \<Rightarrow> None)"
| "act (DirectWrite i) b =
     (if i < length (w_direct b)
      then Some (b\<lparr>w_out := w_out b @ [[w_direct b ! i]], w_direct := take i (w_direct b) @ drop (i + 1) (w_direct b)\<rparr>)
      else None)"
| "act FlushCall b = Some (Flush b)"
| "act TimerFires b = Some (timer_fires b)"
| "act (DrainTakes i) b =
     (if i < length (w_drains b) \<and> w_drains b ! i = AtLock then Some (drain_takes i b) else None)"
| "act (DrainWrites i) b =
     (if i < length (w_drains b)
      then (case w_drains b ! i of Holding batch \<Rightarrow> Some (drain_writes i batch b) | AtLock \<Rightarrow> None) else None)"
| "act DisposeCall b = Some (dispose_locked b)"
| "act DisposeReturns b = (if w_closed b \<and> w_drains b = [] then Some b else None)"

fun run_events :: "event list \<Rightarrow> bw \<Rightarrow> bw option" where
  "run_events [] b = Some b"
| "run_events (e # es) b = (case act e b of None \<Rightarrow> None | Some b' \<Rightarrow> run_events es b')"

fun accepted :: "event list \<Rightarrow> string list" where
  "accepted [] = []"
| "accepted (Accept c # es) = c # accepted es"
| "accepted (e # es) = accepted es"

text \<open>What a concrete interleaving unfolds.\<close>

lemmas bw_defs = newBufferedWriter_def Write_def write_open_def Flush_def scheduleFlushLocked_def flushDeferredLocked_def
  flushLocked_def stopTimerLocked_def dispose_locked_def timer_fires_def drain_takes_def drain_writes_def overflow_def Let_def

subsection \<open>Nothing is lost\<close>

fun held :: "drain \<Rightarrow> string list" where
  "held AtLock = []"
| "held (Holding batch) = batch"

text \<open>Everything the writer has in its hands or has written.\<close>

definition contents :: "bw \<Rightarrow> string multiset" where
  "contents b = mset (concat (w_out b)) + mset (overflow b) + mset (w_buffer b) + mset (concat (map held (w_drains b))) +
     mset (w_direct b)"

lemma mset_concat_update:
  "i < length xs \<Longrightarrow> mset (concat (map f (xs[i := x]))) + mset (f (xs ! i)) = mset (concat (map f xs)) + mset (f x)"
  by (induction xs arbitrary: i) (auto split: nat.splits)

lemma mset_concat_remove:
  "i < length xs \<Longrightarrow> mset (concat (map f (take i xs @ drop (i + 1) xs))) + mset (f (xs ! i)) = mset (concat (map f xs))"
proof (induction xs arbitrary: i)
  case (Cons x xs)
  then show ?case by (cases i) (auto simp: ac_simps)
qed simp

lemma mset_remove: "i < length xs \<Longrightarrow> mset (take i xs @ drop (i + 1) xs) + {# xs ! i #} = mset xs"
  using mset_concat_remove [of i xs "\<lambda>x. [x]"] by simp

lemma contents_flush: "contents (flushLocked b) = contents b"
  by (auto simp: contents_def flushLocked_def stopTimerLocked_def overflow_def Let_def split: option.splits)

lemma contents_deferred: "contents (flushDeferredLocked b) = contents b"
  by (auto simp: contents_def flushDeferredLocked_def stopTimerLocked_def overflow_def Let_def split: option.splits)

lemma contents_write: "contents (write_open c b) = add_mset c (contents b)"
proof -
  define b1 where "b1 = scheduleFlushLocked (b\<lparr>w_buffer := w_buffer b @ [c], w_bytes := w_bytes b + int (length c)\<rparr>)"
  have "contents b1 = add_mset c (contents b)"
    by (simp add: b1_def contents_def scheduleFlushLocked_def overflow_def)
  then show ?thesis
    by (simp add: write_open_def b1_def [symmetric] contents_deferred) (simp add: contents_def overflow_def)
qed

lemma contents_takes:
  assumes "i < length (w_drains b)" and "w_drains b ! i = AtLock"
  shows "contents (drain_takes i b) = contents b"
  using mset_concat_update [OF assms(1), of held "Holding (overflow b)"] mset_concat_remove [OF assms(1), of held] assms(2)
  by (auto simp: contents_def drain_takes_def overflow_def ac_simps)

lemma contents_writes:
  assumes "i < length (w_drains b)" and "w_drains b ! i = Holding batch"
  shows "contents (drain_writes i batch b) = contents b"
  using mset_concat_update [OF assms(1), of held AtLock] assms(2)
  by (auto simp: contents_def drain_writes_def overflow_def ac_simps)

lemma contents_direct:
  assumes "i < length (w_direct b)"
  shows "contents (b\<lparr>w_out := w_out b @ [[w_direct b ! i]],
      w_direct := take i (w_direct b) @ drop (i + 1) (w_direct b)\<rparr>) = contents b"
  using mset_remove [OF assms] by (simp add: contents_def overflow_def ac_simps)

lemma contents_closed: "contents (b\<lparr>w_closed := c\<rparr>) = contents b"
  by (simp add: contents_def overflow_def)

lemma contents_act: "act e b = Some b' \<Longrightarrow> contents b' = contents b + mset (accepted [e])"
  by (cases e) (auto simp: Write_def Flush_def contents_write contents_flush contents_takes contents_writes contents_direct [simplified]
      contents_closed timer_fires_def dispose_locked_def split: if_splits drain.splits)

lemma accepted_Cons: "accepted (e # es) = accepted [e] @ accepted es"
  by (cases e) simp_all

lemma contents_run: "run_events es b = Some b' \<Longrightarrow> contents b' = contents b + mset (accepted es)"
proof (induction es arbitrary: b)
  case (Cons e es)
  then obtain b1 where "act e b = Some b1" "run_events es b1 = Some b'" by (auto split: option.splits)
  then show ?case using Cons.IH contents_act by (subst accepted_Cons) (auto simp: ac_simps)
qed simp

lemma contents_new: "contents (newBufferedWriter cfg) = {#}"
  by (simp add: contents_def newBufferedWriter_def overflow_def)

subsection \<open>The invariant\<close>

text \<open>
  Below the thresholds; what waits in the buffer has an armed timer and what waits in the overflow a goroutine; nothing
  waits in a closed writer.
\<close>

definition bw_ok :: "bw \<Rightarrow> bool" where
  "bw_ok b \<longleftrightarrow>
     maxBufferSize (w_cfg b) > 0 \<and> maxBufferBytes (w_cfg b) > 0 \<and>
     int (length (w_buffer b)) < maxBufferSize (w_cfg b) \<and>
     w_bytes b = int (length (concat (w_buffer b))) \<and> w_bytes b < maxBufferBytes (w_cfg b) \<and>
     (w_buffer b \<noteq> [] \<longrightarrow> w_timer b) \<and> (w_pending b \<noteq> None \<longrightarrow> w_drains b \<noteq> []) \<and>
     (w_closed b \<longrightarrow> w_buffer b = [] \<and> overflow b = []) \<and>
     (immediateMode (w_cfg b) \<or> w_direct b = [])"

lemma ok_new: "bw_ok (newBufferedWriter cfg)"
  by (simp add: bw_ok_def newBufferedWriter_def overflow_def)

lemma ok_flush: "bw_ok b \<Longrightarrow> bw_ok (flushLocked b)"
  by (auto simp: bw_ok_def flushLocked_def stopTimerLocked_def overflow_def Let_def split: option.splits)

lemma ok_deferred:
  assumes "maxBufferSize (w_cfg b) > 0" and "maxBufferBytes (w_cfg b) > 0" and "\<not> w_closed b"
    and "w_pending b \<noteq> None \<longrightarrow> w_drains b \<noteq> []" and "immediateMode (w_cfg b) \<or> w_direct b = []"
  shows "bw_ok (flushDeferredLocked b)"
  using assms by (auto simp: bw_ok_def flushDeferredLocked_def stopTimerLocked_def Let_def split: option.splits)

lemma ok_write: "bw_ok b \<Longrightarrow> \<not> w_closed b \<Longrightarrow> bw_ok (write_open c b)"
  unfolding write_open_def Let_def
  by (auto intro!: ok_deferred simp: scheduleFlushLocked_def) (auto simp: bw_ok_def overflow_def scheduleFlushLocked_def)

lemma ok_dispose: "bw_ok b \<Longrightarrow> bw_ok (dispose_locked b)"
  by (auto simp: bw_ok_def dispose_locked_def flushLocked_def stopTimerLocked_def overflow_def Let_def split: option.splits)

lemma ok_takes: "bw_ok b \<Longrightarrow> i < length (w_drains b) \<Longrightarrow> bw_ok (drain_takes i b)"
  by (cases "w_drains b"; cases "overflow b = []") (simp_all add: bw_ok_def drain_takes_def,
      simp_all add: overflow_def split: nat.split)

lemma ok_writes: "bw_ok b \<Longrightarrow> bw_ok (drain_writes i batch b)"
  by (simp add: bw_ok_def drain_writes_def) (simp add: overflow_def)

lemma ok_direct: "bw_ok b \<Longrightarrow> i < length (w_direct b) \<Longrightarrow>
    bw_ok (b\<lparr>w_out := w_out b @ [[w_direct b ! i]], w_direct := take i (w_direct b) @ drop (i + 1) (w_direct b)\<rparr>)"
  by (simp add: bw_ok_def) (auto simp: overflow_def)

lemma ok_act: "act e b = Some b' \<Longrightarrow> bw_ok b \<Longrightarrow> bw_ok b'"
  by (cases e) (auto simp: Write_def Flush_def ok_write ok_flush ok_dispose ok_takes ok_writes ok_direct [simplified] timer_fires_def
      split: if_splits drain.splits)

lemma ok_run: "run_events es b = Some b' \<Longrightarrow> bw_ok b \<Longrightarrow> bw_ok b'"
  by (induction es arbitrary: b) (auto split: option.splits dest: ok_act)

subsection \<open>\<open>Dispose\<close> returns\<close>

text \<open>The steps the goroutines still have to take, first to last.\<close>

fun steps_left :: "drain list \<Rightarrow> event list" where
  "steps_left [] = []"
| "steps_left (AtLock # ds) = DrainTakes 0 # steps_left ds"
| "steps_left (Holding batch # ds) = DrainWrites 0 # DrainTakes 0 # steps_left ds"

lemma accepted_finish: "accepted (steps_left ds) = []"
  by (induction ds rule: steps_left.induct) simp_all

lemma run_append: "run_events (es @ fs) b = (case run_events es b of None \<Rightarrow> None | Some b' \<Rightarrow> run_events fs b')"
  by (induction es arbitrary: b) (auto split: option.splits)

lemma finish_runs:
  "overflow b = [] \<Longrightarrow> \<exists>b'. run_events (steps_left (w_drains b)) b = Some b' \<and> w_drains b' = [] \<and> w_closed b' = w_closed b \<and>
     w_buffer b' = w_buffer b \<and> overflow b' = [] \<and> w_direct b' = w_direct b"
proof (induction "w_drains b" arbitrary: b rule: steps_left.induct)
  case (2 ds)
  let ?b = "drain_takes 0 b"
  have d: "w_drains b = AtLock # ds" using 2(2) by simp
  have "overflow ?b = []" and e: "ds = w_drains ?b" "w_closed ?b = w_closed b" "w_buffer ?b = w_buffer b" "w_direct ?b = w_direct b"
    using 2(3) by (simp_all add: drain_takes_def d) (simp add: overflow_def)
  with 2(1) [of ?b] show ?case by (simp add: d)
next
  case (3 batch ds)
  let ?c = "drain_writes 0 batch b"
  let ?b = "drain_takes 0 ?c"
  have d: "w_drains b = Holding batch # ds" using 3(2) by simp
  have o: "overflow ?c = []" "w_drains ?c = AtLock # ds" using 3(3) by (simp_all add: drain_writes_def d) (simp add: overflow_def)
  then have "overflow ?b = []" and e: "ds = w_drains ?b" by (simp_all add: drain_takes_def) (simp add: overflow_def)
  moreover have "w_closed ?b = w_closed b" "w_buffer ?b = w_buffer b" "w_direct ?b = w_direct b"
    using o by (simp_all add: drain_takes_def) (simp_all add: drain_writes_def)
  ultimately show ?case using 3(1) [of ?b] by (simp add: d o)
qed (simp add: overflow_def)

lemma finish_returns:
  assumes "bw_ok b" and "w_closed b"
  shows "\<exists>b'. run_events (steps_left (w_drains b) @ [DisposeReturns]) b = Some b' \<and> w_drains b' = [] \<and> w_direct b' = w_direct b \<and>
    mset (concat (w_out b')) + mset (w_direct b') = contents b"
proof -
  have e: "overflow b = []" "w_buffer b = []" using assms by (auto simp: bw_ok_def)
  then obtain b' where b: "run_events (steps_left (w_drains b)) b = Some b'" "w_drains b' = []" "w_closed b' = w_closed b"
    "w_buffer b' = w_buffer b" "overflow b' = []" "w_direct b' = w_direct b"
    using finish_runs by blast
  then have "contents b' = contents b" using contents_run [OF b(1)] by (simp add: accepted_finish)
  with b e assms show ?thesis by (simp add: run_append) (simp add: contents_def)
qed

subsection \<open>Order\<close>

text \<open>Between two flushes one goroutine drains, and what was accepted is written in its order.\<close>

definition in_order :: "string list \<Rightarrow> bw \<Rightarrow> bool" where
  "in_order xs b \<longleftrightarrow>
     concat (w_out b) @ concat (map held (w_drains b)) @ overflow b @ w_buffer b = xs \<and>
     \<not> immediateMode (w_cfg b) \<and> w_direct b = [] \<and>
     (case w_pending b of None \<Rightarrow> w_drains b = [] | Some p \<Rightarrow> length (w_drains b) = 1)"

fun flushes :: "event \<Rightarrow> bool" where
  "flushes FlushCall = True"
| "flushes TimerFires = True"
| "flushes DisposeCall = True"
| "flushes e = False"

lemma in_order_write: "in_order xs b \<Longrightarrow> in_order (xs @ [c]) (write_open c b)"
  by (auto simp: in_order_def write_open_def scheduleFlushLocked_def flushDeferredLocked_def stopTimerLocked_def overflow_def Let_def
      split: option.splits)

lemma in_order_takes: "in_order xs b \<Longrightarrow> i < length (w_drains b) \<Longrightarrow> w_drains b ! i = AtLock \<Longrightarrow> in_order xs (drain_takes i b)"
  by (auto simp: in_order_def drain_takes_def overflow_def length_Suc_conv split: option.splits)

lemma in_order_writes:
  "in_order xs b \<Longrightarrow> i < length (w_drains b) \<Longrightarrow> w_drains b ! i = Holding batch \<Longrightarrow> in_order xs (drain_writes i batch b)"
  by (auto simp: in_order_def drain_writes_def overflow_def length_Suc_conv split: option.splits)

lemma in_order_act: "act e b = Some b' \<Longrightarrow> in_order xs b \<Longrightarrow> \<not> flushes e \<Longrightarrow> in_order (xs @ accepted [e]) b'"
  by (cases e) (auto simp: Write_def Flush_def in_order_write in_order_takes in_order_writes in_order_def [of _ b, THEN iffD1] split: if_splits drain.splits)

lemma in_order_run:
  "run_events es b = Some b' \<Longrightarrow> in_order xs b \<Longrightarrow> \<forall>e \<in> set es. \<not> flushes e \<Longrightarrow> in_order (xs @ accepted es) b'"
proof (induction es arbitrary: b xs)
  case (Cons e es)
  then obtain b1 where "act e b = Some b1" "run_events es b1 = Some b'" by (auto split: option.splits)
  with Cons show ?case using in_order_act [of e b b1 xs] Cons.IH [of b1 "xs @ accepted [e]"]
    by (subst accepted_Cons) auto
qed simp

lemma in_order_new: "\<not> immediateMode cfg \<Longrightarrow> in_order [] (newBufferedWriter cfg)"
  by (simp add: in_order_def newBufferedWriter_def overflow_def)

lemma cfg_act: "act e b = Some b' \<Longrightarrow> w_cfg b' = w_cfg b"
  by (cases e) (auto simp: bw_defs split: if_splits drain.splits option.splits)

lemma cfg_run: "run_events es b = Some b' \<Longrightarrow> w_cfg b' = w_cfg b"
  by (induction es arbitrary: b) (auto split: option.splits dest: cfg_act)

subsection \<open>Properties\<close>

text \<open>C26: whatever callers, timer and goroutines did in whatever order, once \<open>Dispose\<close> has closed a buffering writer its
  wait always ends, by the steps the goroutines have left, and when no goroutine is left everything that was accepted has
  been written exactly once.
\<close>

theorem dispose_writes_everything_once:
  assumes "run_events es (newBufferedWriter cfg) = Some b" and "\<not> immediateMode cfg" and "w_closed b"
  shows "(\<exists>b'. run_events (steps_left (w_drains b) @ [DisposeReturns]) b = Some b' \<and>
            mset (concat (w_out b')) = mset (accepted es)) \<and>
         (w_drains b = [] \<longrightarrow> mset (concat (w_out b)) = mset (accepted es))"
proof -
  have ok: "bw_ok b" using ok_run [OF assms(1) ok_new] .
  have c: "contents b = mset (accepted es)" using contents_run [OF assms(1)] by (simp add: contents_new)
  have "w_cfg b = w_cfg (newBufferedWriter cfg)" using cfg_run [OF assms(1)] .
  then have "w_direct b = []" using ok assms(2) by (simp add: bw_ok_def newBufferedWriter_def)
  then show ?thesis using finish_returns [OF ok assms(3)] c ok assms(3) by (auto simp: bw_ok_def contents_def)
qed

theorem dispose_writes_everything_once_witness:
  "\<exists>b. run_events [Accept ''a'', Accept ''b'', DrainTakes 0, Accept ''c'', DisposeCall]
       (newBufferedWriter \<lparr>maxBufferSize = 2, maxBufferBytes = 0, immediateMode = False\<rparr>) = Some b \<and>
     w_drains b = [Holding [''a'', ''b'']] \<and>
     (\<exists>b'. run_events [DrainWrites 0, DrainTakes 0, DisposeReturns] b = Some b' \<and>
        mset (concat (w_out b')) = {#''a'', ''b'', ''c''#})"
proof -
  let ?s = "newBufferedWriter \<lparr>maxBufferSize = 2, maxBufferBytes = 0, immediateMode = False\<rparr>"
  let ?es = "[Accept ''a'', Accept ''b'', DrainTakes 0, Accept ''c'', DisposeCall]"
  obtain b where b: "run_events ?es ?s = Some b" "w_closed b" "w_drains b = [Holding [''a'', ''b'']]"
    by (simp add: bw_defs)
  show ?thesis using dispose_writes_everything_once [OF b(1) _ b(2)] b by (auto simp: add_mset_commute)
qed

text \<open>C27: at every moment of every interleaving, in either mode, each accepted payload is in exactly one place: written, in
  the hands of one goroutine or caller, in the overflow or in the buffer; the buffer is below both thresholds; what waits
  in it has an armed timer, and what waits in the overflow has a goroutine that will take it.
\<close>

theorem accepted_payloads_are_attended:
  assumes "run_events es (newBufferedWriter cfg) = Some b"
  shows "contents b = mset (accepted es) \<and>
         int (length (w_buffer b)) < maxBufferSize (w_cfg b) \<and>
         int (length (concat (w_buffer b))) < maxBufferBytes (w_cfg b) \<and>
         (w_buffer b \<noteq> [] \<longrightarrow> w_timer b) \<and>
         (overflow b \<noteq> [] \<longrightarrow> w_drains b \<noteq> [])"
  using ok_run [OF assms ok_new] contents_run [OF assms] by (auto simp: bw_ok_def contents_new overflow_def split: option.splits)

theorem accepted_payloads_are_attended_witness:
  "\<exists>b. run_events [Accept ''a'', Accept ''b'', Accept ''c'']
       (newBufferedWriter \<lparr>maxBufferSize = 2, maxBufferBytes = 0, immediateMode = False\<rparr>) = Some b \<and>
     w_buffer b = [''c''] \<and> overflow b = [''a'', ''b''] \<and> w_timer b \<and> w_drains b \<noteq> []"
proof -
  let ?s = "newBufferedWriter \<lparr>maxBufferSize = 2, maxBufferBytes = 0, immediateMode = False\<rparr>"
  obtain b where b: "run_events [Accept ''a'', Accept ''b'', Accept ''c''] ?s = Some b" "w_buffer b = [''c'']"
    "overflow b = [''a'', ''b'']"
    by (simp add: bw_defs)
  then show ?thesis using accepted_payloads_are_attended [OF b(1)] by auto
qed

text \<open>C28: as long as no flush intervenes (no call of \<open>Flush\<close>, no timer, no \<open>Dispose\<close>) at most one goroutine drains, and
  what is written, what it holds, the overflow and the buffer are, in that order, what was accepted, in its order.
\<close>

theorem order_kept_between_flushes:
  assumes "run_events es (newBufferedWriter cfg) = Some b" and "\<not> immediateMode cfg"
    and "\<forall>e \<in> set es. \<not> flushes e"
  shows "concat (w_out b) @ concat (map held (w_drains b)) @ overflow b @ w_buffer b = accepted es \<and>
         length (w_drains b) \<le> 1"
  using in_order_run [OF assms(1) in_order_new [OF assms(2)] assms(3)] by (auto simp: in_order_def split: option.splits)

theorem order_kept_between_flushes_witness:
  "\<exists>b. run_events [Accept ''a'', Accept ''b'', DrainTakes 0, Accept ''c'', Accept ''d'', Accept ''e'', DrainWrites 0]
       (newBufferedWriter \<lparr>maxBufferSize = 2, maxBufferBytes = 0, immediateMode = False\<rparr>) = Some b \<and>
     concat (w_out b) @ concat (map held (w_drains b)) @ overflow b @ w_buffer b = [''a'', ''b'', ''c'', ''d'', ''e''] \<and>
     length (w_drains b) \<le> 1"
proof -
  let ?s = "newBufferedWriter \<lparr>maxBufferSize = 2, maxBufferBytes = 0, immediateMode = False\<rparr>"
  obtain b where b: "run_events [Accept ''a'', Accept ''b'', DrainTakes 0, Accept ''c'', Accept ''d'', Accept ''e'',
      DrainWrites 0] ?s = Some b"
    by (simp add: bw_defs)
  show ?thesis using order_kept_between_flushes [OF b] b by simp
qed

text \<open>A flush while a goroutine holds a batch overtakes it.\<close>

lemma flush_overtakes_the_drain:
  "map_option w_out (run_events [Accept ''a'', Accept ''b'', DrainTakes 0, Accept ''c'', FlushCall, DrainWrites 0]
     (newBufferedWriter \<lparr>maxBufferSize = 2, maxBufferBytes = 0, immediateMode = False\<rparr>)) =
   Some [[''c''], [''a'', ''b'']]"
  by (simp add: bw_defs)

text \<open>And since it leaves no overflow slice, the next overflow starts a second goroutine beside the first.\<close>

lemma two_drains_after_a_flush:
  "map_option (\<lambda>b. length (w_drains b)) (run_events [Accept ''a'', Accept ''b'', DrainTakes 0, Accept ''c'', Accept ''d'',
       FlushCall, Accept ''e'', Accept ''f'']
     (newBufferedWriter \<lparr>maxBufferSize = 2, maxBufferBytes = 0, immediateMode = False\<rparr>)) = Some 2"
  by (simp add: bw_defs)

end
